(* ===== verification/Prelude.thy ===== *)
theory Prelude
  imports Main "HOL-Library.Multiset" "HOL-Library.AList"
begin

text \<open>
  The shared base of the development: Go's building blocks that every component uses
  (stable slice sorting, map literals as association lists, sets of seen keys, range loops
  that stop at the first error), the generic notion of a reachable state, and the lemma
  collections the component proofs draw on.
\<close>

named_theorems go_defs \<open>definitions of the modelled program that proofs unfold together\<close>

named_theorems go_split \<open>characterisations of operations by their outcome\<close>

section \<open>Sorting slices\<close>

text \<open>
  \<open>sort.SliceStable(xs, less)\<close>: the stable rearrangement of \<open>xs\<close> under the comparison
  \<open>less\<close>. For a comparison that is a strict weak order the stable sorted permutation is unique,
  so insertion describes Go's block-insertion and merge as well.
\<close>

fun insert_stable :: "('a \<Rightarrow> 'a \<Rightarrow> bool) \<Rightarrow> 'a \<Rightarrow> 'a list \<Rightarrow> 'a list" where
  "insert_stable lt x [] = [x]"
| "insert_stable lt x (y # ys) =
     (if lt y x then y # insert_stable lt x ys else x # y # ys)"

fun slice_stable :: "('a \<Rightarrow> 'a \<Rightarrow> bool) \<Rightarrow> 'a list \<Rightarrow> 'a list" where
  "slice_stable lt [] = []"
| "slice_stable lt (x # xs) = insert_stable lt x (slice_stable lt xs)"

lemma mset_insert_stable [simp]: "mset (insert_stable lt x xs) = add_mset x (mset xs)"
  by (induction xs) auto

lemma mset_slice_stable [simp]: "mset (slice_stable lt xs) = mset xs"
  by (induction xs) auto

lemma set_slice_stable [simp]: "set (slice_stable lt xs) = set xs"
  using mset_slice_stable [of lt xs] by (metis set_mset_mset)

lemma length_slice_stable [simp]: "length (slice_stable lt xs) = length xs"
  using mset_slice_stable [of lt xs] by (metis size_mset)

text \<open>Sorting only looks at how the comparison behaves on the elements present.\<close>

lemma insert_stable_cong:
  "(\<And>y. y \<in> set xs \<Longrightarrow> lt x y = lt' x y \<and> lt y x = lt' y x) \<Longrightarrow>
   insert_stable lt x xs = insert_stable lt' x xs"
  by (induction xs) auto

lemma slice_stable_cong:
  "(\<And>x y. x \<in> set xs \<Longrightarrow> y \<in> set xs \<Longrightarrow> lt x y = lt' x y) \<Longrightarrow>
   slice_stable lt xs = slice_stable lt' xs"
  by (induction xs) (auto intro!: insert_stable_cong)

lemma distinct_map_slice_stable [simp]:
  "distinct (map f (slice_stable lt xs)) = distinct (map f xs)"
proof -
  have "mset (map f (slice_stable lt xs)) = mset (map f xs)"
    by simp
  then show ?thesis
    by (rule mset_eq_imp_distinct_iff)
qed

lemma filter_inj_single:
  assumes "inj_on f (set zs)" and "distinct zs" and "k \<in> set zs"
  shows "filter (\<lambda>x. f k = f x) zs = [k]"
  using assms
proof (induction zs)
  case (Cons z zs)
  show ?case
  proof (cases "k = z")
    case True
    with Cons.prems have "filter (\<lambda>x. f k = f x) zs = []"
      by (auto simp: filter_empty_conv inj_on_def)
    with True show ?thesis by simp
  next
    case False
    with Cons show ?thesis
      by (auto simp: inj_on_def)
  qed
qed simp

text \<open>
  The interface of a comparison function: it orders the elements by a key in a linear order.
  Everything the program sorts is an instance, with the tuple of the compared fields as key.
\<close>

locale slice_order =
  fixes lt :: "'a \<Rightarrow> 'a \<Rightarrow> bool" and key :: "'a \<Rightarrow> 'k :: linorder"
  assumes lt_key: "lt x y \<longleftrightarrow> key x < key y"
begin

lemma insert_is_insort: "insert_stable lt x xs = insort_key key x xs"
  by (induction xs) (auto simp: lt_key)

lemma sort_is_sort_key: "slice_stable lt xs = sort_key key xs"
  by (induction xs) (simp_all add: insert_is_insort)

lemma sorted_slice: "sorted (map key (slice_stable lt xs))"
  by (simp add: sort_is_sort_key)

lemma slice_idem: "slice_stable lt (slice_stable lt xs) = slice_stable lt xs"
  by (simp add: sort_is_sort_key sort_key_id_if_sorted)

lemma slice_unique:
  assumes "mset xs = mset ys" and "distinct (map key xs)"
  shows "slice_stable lt xs = slice_stable lt ys"
proof -
  have inj: "inj_on key (set xs)" and "distinct xs"
    using assms(2) by (simp_all add: distinct_map)
  moreover have "set ys = set xs" and "distinct ys"
    using assms(1) \<open>distinct xs\<close> by (metis set_mset_mset, metis mset_eq_imp_distinct_iff)
  ultimately have tie: "filter (\<lambda>x. key k = key x) (sort_key key xs) = filter (\<lambda>x. key k = key x) ys"
    if "k \<in> set (sort_key key xs)" for k
    using that by (simp add: filter_inj_single)
  have "sort_key key ys = sort_key key xs"
    by (rule properties_for_sort_key) (use assms(1) tie in auto)
  then show ?thesis
    by (simp add: sort_is_sort_key)
qed

end

section \<open>Maps, seen sets and range loops\<close>

text \<open>
  A Go map is an association list with distinct keys: lookup is \<^const>\<open>map_of\<close>, assignment is
  \<^const>\<open>AList.update\<close>, and the list order stands for one iteration order of the runtime.
\<close>

type_synonym ('k, 'v) gomap = "('k \<times> 'v) list"

abbreviation gomap_wf :: "('k, 'v) gomap \<Rightarrow> bool" where
  "gomap_wf m \<equiv> distinct (map fst m)"

lemma map_of_update [simp]: "map_of (AList.update k v m) = (map_of m)(k \<mapsto> v)"
  by (simp add: update_conv')

lemma gomap_wf_update [simp]: "gomap_wf m \<Longrightarrow> gomap_wf (AList.update k v m)"
  by (rule distinct_update)

lemma map_snd_update_mem:
  "v' \<in> snd ` set (AList.update k v m) \<Longrightarrow> v' = v \<or> v' \<in> snd ` set m"
  by (induction m) (auto split: if_splits)

lemma set_update_iff:
  "gomap_wf m \<Longrightarrow> x \<in> set (AList.update k v m) \<longleftrightarrow> x = (k, v) \<or> x \<in> set m \<and> fst x \<noteq> k"
  by (induction m) (force)+

lemma gomap_wf_in_iff: "gomap_wf m \<Longrightarrow> (k, v) \<in> set m \<longleftrightarrow> map_of m k = Some v"
  by (metis map_of_SomeD map_of_is_SomeI)

text \<open>
  A range loop over a slice whose body may return an error: the state is threaded and the first
  error ends the loop.
\<close>

fun range_err :: "('s \<Rightarrow> 'x \<Rightarrow> 'e + 's) \<Rightarrow> 's \<Rightarrow> 'x list \<Rightarrow> 'e + 's" where
  "range_err body s [] = Inr s"
| "range_err body s (x # xs) =
     (case body s x of Inl e \<Rightarrow> Inl e | Inr s' \<Rightarrow> range_err body s' xs)"

lemma range_err_invariant:
  assumes "range_err body s xs = Inr t" and "P s"
    and "\<And>s x s'. x \<in> set xs \<Longrightarrow> P s \<Longrightarrow> body s x = Inr s' \<Longrightarrow> P s'"
  shows "P t"
  using assms
proof (induction xs arbitrary: s)
  case Nil
  then show ?case by simp
next
  case (Cons x xs)
  then obtain s' where "body s x = Inr s'" and rest: "range_err body s' xs = Inr t"
    by (auto split: sum.splits)
  with Cons.prems have "P s'"
    by (meson list.set_intros(1))
  with rest Cons.prems(3) show ?case
    by (intro Cons.IH [of s']) auto
qed

lemma range_err_append:
  "range_err body s (xs @ ys) =
     (case range_err body s xs of Inl e \<Rightarrow> Inl e | Inr s' \<Rightarrow> range_err body s' ys)"
  by (induction xs arbitrary: s) (auto split: sum.splits)

text \<open>
  The idiom \<open>valid = valid && add(key)\<close> over a map of seen keys: a key is added as long as
  the flag holds, and the flag drops at the first key seen before.
\<close>

fun add_seen :: "bool \<times> 'k list \<Rightarrow> 'k \<Rightarrow> bool \<times> 'k list" where
  "add_seen (valid, seen) key =
     (if valid then (if key \<in> set seen then (False, seen) else (True, key # seen))
      else (False, seen))"

lemma foldl_add_seen_False [simp]: "fst (foldl add_seen (False, seen) keys) = False"
  by (induction keys) auto

lemma foldl_add_seen:
  "fst (foldl add_seen (True, seen) keys) \<longleftrightarrow> distinct keys \<and> set keys \<inter> set seen = {}"
  by (induction keys arbitrary: seen) auto

lemma add_seen_distinct: "fst (foldl add_seen (True, []) keys) \<longleftrightarrow> distinct keys"
  by (simp add: foldl_add_seen)

section \<open>Reachable states and invariants\<close>

inductive reach :: "('s \<Rightarrow> bool) \<Rightarrow> ('s \<Rightarrow> 's \<Rightarrow> bool) \<Rightarrow> 's \<Rightarrow> bool"
  for init :: "'s \<Rightarrow> bool" and step :: "'s \<Rightarrow> 's \<Rightarrow> bool" where
  reach_init: "init s \<Longrightarrow> reach init step s"
| reach_step: "reach init step s \<Longrightarrow> step s t \<Longrightarrow> reach init step t"

text \<open>
  The interface of an inductive invariant: it holds initially and every step keeps it. Each
  state machine of the program interprets it with its own invariant.
\<close>

locale invariant_system =
  fixes init :: "'s \<Rightarrow> bool" and step :: "'s \<Rightarrow> 's \<Rightarrow> bool" and inv :: "'s \<Rightarrow> bool"
  assumes inv_init: "init s \<Longrightarrow> inv s"
    and inv_step: "inv s \<Longrightarrow> step s t \<Longrightarrow> inv t"
begin

lemma reachable_inv: "reach init step s \<Longrightarrow> inv s"
  by (induction rule: reach.induct) (auto intro: inv_init inv_step)

lemma step_chain_inv: "step\<^sup>*\<^sup>* s t \<Longrightarrow> inv s \<Longrightarrow> inv t"
  by (induction rule: rtranclp_induct) (auto intro: inv_step)

end

lemma reach_chain: "reach init step s \<Longrightarrow> step\<^sup>*\<^sup>* s t \<Longrightarrow> reach init step t"
  by (rotate_tac, induction rule: rtranclp_induct) (auto intro: reach_step)

end
