(* ===== verification/Go_Strings.thy ===== *)
theory Go_Strings
  imports Prelude "HOL-Library.List_Lexorder" "HOL-Library.Char_ord" "HOL-Library.Product_Lexorder"
begin

text \<open>
  Go strings are byte sequences, here \<^typ>\<open>string\<close> with one \<^typ>\<open>char\<close> per byte of the UTF-8
  text; \<open><\<close> is the bytewise lexicographic order of \<open>HOL-Library.List_Lexorder\<close>, as Go's.
  The theory holds the functions of package \<open>strings\<close> the program calls and the facts its
  normalisation rules rest on.
\<close>

section \<open>Comparison cascades\<close>

text \<open>A chain of \<open>if a != b { return a < b }\<close> is the lexicographic order of tuples.\<close>

lemma lex_cascade:
  "(x, k) < (y, l) \<longleftrightarrow> (if x \<noteq> y then x < y else k < l)"
  for x y :: "'a :: linorder" and k l :: "'b :: order"
  by (auto simp: less_prod_simp)

section \<open>Prefixes and substrings\<close>

definition HasPrefix :: "string \<Rightarrow> string \<Rightarrow> bool" where
  "HasPrefix s p \<longleftrightarrow> take (length p) s = p"

definition TrimPrefix :: "string \<Rightarrow> string \<Rightarrow> string" where
  "TrimPrefix s p = (if HasPrefix s p then drop (length p) s else s)"

fun Contains :: "string \<Rightarrow> string \<Rightarrow> bool" where
  "Contains [] p \<longleftrightarrow> p = []"
| "Contains (c # s) p \<longleftrightarrow> HasPrefix (c # s) p \<or> Contains s p"

fun Join :: "string list \<Rightarrow> string \<Rightarrow> string" where
  "Join [] sep = []"
| "Join [x] sep = x"
| "Join (x # y # ys) sep = x @ sep @ Join (y # ys) sep"

lemma HasPrefix_iff: "HasPrefix s p \<longleftrightarrow> (\<exists>t. s = p @ t)"
  unfolding HasPrefix_def by (metis append_eq_conv_conj append_take_drop_id)

lemma HasPrefix_Nil [simp]: "HasPrefix s []"
  by (simp add: HasPrefix_def)

lemma HasPrefix_append: "HasPrefix s p \<Longrightarrow> HasPrefix (s @ t) p"
  by (auto simp: HasPrefix_iff)

lemma Contains_iff: "Contains s p \<longleftrightarrow> (\<exists>a b. s = a @ p @ b)"
proof (induction s)
  case Nil
  then show ?case by auto
next
  case (Cons c s)
  have "(\<exists>a b. c # s = a @ p @ b) \<longleftrightarrow> HasPrefix (c # s) p \<or> (\<exists>a b. s = a @ p @ b)"
    unfolding HasPrefix_iff by (auto simp: Cons_eq_append_conv)
  with Cons.IH show ?case by simp
qed

section \<open>Case folding\<close>

text \<open>
  \<open>strings.ToLower\<close> on the bytes of a string. The two code points above ASCII whose lower case
  is an ASCII letter (U+0130 and U+212A) are folded; the other multi-byte letters keep their
  bytes, which no caller can observe because every use compares the result with ASCII text.
\<close>

definition lower_char :: "char \<Rightarrow> char" where
  "lower_char c = (if of_char c \<in> {65..90 :: nat} then char_of (of_char c + 32 :: nat) else c)"

fun ToLower :: "string \<Rightarrow> string" where
  "ToLower [] = []"
| "ToLower (a # b # c # s) =
     (if [a, b, c] = [CHR 0xE2, CHR 0x84, CHR 0xAA] then CHR ''k'' # ToLower s
      else if [a, b] = [CHR 0xC4, CHR 0xB0] then CHR ''i'' # ToLower (c # s)
      else lower_char a # ToLower (b # c # s))"
| "ToLower [a, b] =
     (if [a, b] = [CHR 0xC4, CHR 0xB0] then [CHR ''i''] else [lower_char a, lower_char b])"
| "ToLower [a] = [lower_char a]"

section \<open>White space\<close>

text \<open>The UTF-8 encodings of the code points \<open>unicode.IsSpace\<close> accepts.\<close>

definition space_runes :: "string list" where
  "space_runes =
     [[CHR 0x09], [CHR 0x0A], [CHR 0x0B], [CHR 0x0C], [CHR 0x0D], [CHR 0x20],
      [CHR 0xC2, CHR 0x85], [CHR 0xC2, CHR 0xA0], [CHR 0xE1, CHR 0x9A, CHR 0x80],
      [CHR 0xE2, CHR 0x80, CHR 0x80], [CHR 0xE2, CHR 0x80, CHR 0x81],
      [CHR 0xE2, CHR 0x80, CHR 0x82], [CHR 0xE2, CHR 0x80, CHR 0x83],
      [CHR 0xE2, CHR 0x80, CHR 0x84], [CHR 0xE2, CHR 0x80, CHR 0x85],
      [CHR 0xE2, CHR 0x80, CHR 0x86], [CHR 0xE2, CHR 0x80, CHR 0x87],
      [CHR 0xE2, CHR 0x80, CHR 0x88], [CHR 0xE2, CHR 0x80, CHR 0x89],
      [CHR 0xE2, CHR 0x80, CHR 0x8A], [CHR 0xE2, CHR 0x80, CHR 0xA8],
      [CHR 0xE2, CHR 0x80, CHR 0xA9], [CHR 0xE2, CHR 0x80, CHR 0xAF],
      [CHR 0xE2, CHR 0x81, CHR 0x9F], [CHR 0xE3, CHR 0x80, CHR 0x80]]"

function trim_prefixes :: "string list \<Rightarrow> string \<Rightarrow> string" where
  "trim_prefixes rs s =
     (case find (\<lambda>r. r \<noteq> [] \<and> HasPrefix s r) rs of
        None \<Rightarrow> s
      | Some r \<Rightarrow> trim_prefixes rs (drop (length r) s))"
  by pat_completeness auto
termination
  by (relation "measure (\<lambda>(rs, s). length s)") (auto simp: find_Some_iff HasPrefix_iff)

declare trim_prefixes.simps [simp del]

lemma trim_prefixes_None:
  "find (\<lambda>r. r \<noteq> [] \<and> HasPrefix s r) rs = None \<Longrightarrow> trim_prefixes rs s = s"
  by (subst trim_prefixes.simps) simp

lemma trim_prefixes_Some:
  "find (\<lambda>r. r \<noteq> [] \<and> HasPrefix s r) rs = Some r \<Longrightarrow>
   trim_prefixes rs s = trim_prefixes rs (drop (length r) s)"
  by (subst trim_prefixes.simps) simp

text \<open>
  \<open>strings.TrimSpace\<close>: leading encodings are cut from the front, trailing ones from the back
  (the same loop on the reversed bytes).
\<close>

definition TrimSpace :: "string \<Rightarrow> string" where
  "TrimSpace s = rev (trim_prefixes (map rev space_runes) (rev (trim_prefixes space_runes s)))"

definition no_prefix :: "string list \<Rightarrow> string \<Rightarrow> bool" where
  "no_prefix rs s \<longleftrightarrow> (\<forall>r \<in> set rs. r \<noteq> [] \<longrightarrow> \<not> HasPrefix s r)"

lemma trim_prefixes_id_iff: "trim_prefixes rs s = s \<longleftrightarrow> no_prefix rs s"
proof (cases "find (\<lambda>r. r \<noteq> [] \<and> HasPrefix s r) rs")
  case None
  then show ?thesis
    by (simp add: trim_prefixes_None) (auto simp: find_None_iff no_prefix_def)
next
  case (Some r)
  have shorter: "length (trim_prefixes rs t) \<le> length t" for t
    by (induction rs t rule: trim_prefixes.induct)
      (subst trim_prefixes.simps, auto split: option.splits intro: le_trans)
  from Some have "r \<in> set rs" "r \<noteq> []" "HasPrefix s r"
    by (auto simp: find_Some_iff)
  moreover from this have "length (drop (length r) s) < length s"
    by (auto simp: HasPrefix_iff)
  ultimately show ?thesis
    using Some shorter [of "drop (length r) s"]
    by (auto simp: no_prefix_def trim_prefixes_Some)
qed

lemma trim_prefixes_no_prefix: "no_prefix rs (trim_prefixes rs s)"
proof (induction rs s rule: trim_prefixes.induct)
  case (1 rs s)
  then show ?case
    by (subst trim_prefixes.simps) (auto simp: find_None_iff no_prefix_def split: option.splits)
qed

lemma trim_prefixes_suffix: "\<exists>p. s = p @ trim_prefixes rs s"
proof (induction rs s rule: trim_prefixes.induct)
  case (1 rs s)
  show ?case
  proof (cases "find (\<lambda>r. r \<noteq> [] \<and> HasPrefix s r) rs")
    case None
    then show ?thesis by (simp add: trim_prefixes_None)
  next
    case (Some r)
    with "1.IH" obtain p where "drop (length r) s = p @ trim_prefixes rs (drop (length r) s)"
      by blast
    then have "s = (take (length r) s @ p) @ trim_prefixes rs (drop (length r) s)"
      by (metis append_assoc append_take_drop_id)
    with Some show ?thesis by (metis trim_prefixes_Some)
  qed
qed

text \<open>A string is trimmed when no white space starts it and none ends it.\<close>

definition trimmed :: "string \<Rightarrow> bool" where
  "trimmed s \<longleftrightarrow> no_prefix space_runes s \<and> no_prefix (map rev space_runes) (rev s)"

lemma TrimSpace_trimmed: "trimmed (TrimSpace s)"
proof -
  let ?l = "trim_prefixes space_runes s"
  let ?u = "TrimSpace s"
  have trail: "no_prefix (map rev space_runes) (rev ?u)"
    by (simp add: TrimSpace_def trim_prefixes_no_prefix)
  obtain p where "rev ?l = p @ rev ?u"
    using trim_prefixes_suffix [of "rev ?l" "map rev space_runes"]
    by (metis TrimSpace_def rev_swap)
  then have "?l = ?u @ rev p"
    by (metis rev_append rev_rev_ident)
  with trim_prefixes_no_prefix [of space_runes s] have "no_prefix space_runes ?u"
    by (auto simp: no_prefix_def dest: HasPrefix_append)
  with trail show ?thesis
    by (simp add: trimmed_def)
qed

lemma TrimSpace_id_iff: "TrimSpace s = s \<longleftrightarrow> trimmed s"
proof
  assume "TrimSpace s = s"
  with TrimSpace_trimmed [of s] show "trimmed s" by simp
next
  assume "trimmed s"
  then show "TrimSpace s = s"
    by (simp add: trimmed_def TrimSpace_def flip: trim_prefixes_id_iff)
qed

lemma TrimSpace_idem [simp]: "TrimSpace (TrimSpace s) = TrimSpace s"
  by (simp add: TrimSpace_id_iff TrimSpace_trimmed)

lemma TrimSpace_Nil [simp]: "TrimSpace [] = []"
  by (simp add: TrimSpace_id_iff trimmed_def no_prefix_def space_runes_def HasPrefix_def)

section \<open>Digits and account identifiers\<close>

definition is_digit :: "char \<Rightarrow> bool" where
  "is_digit c \<longleftrightarrow> CHR ''0'' \<le> c \<and> c \<le> CHR ''9''"

lemma space_rune_not_digit: "r \<in> set space_runes \<Longrightarrow> r \<noteq> [] \<and> \<not> is_digit (hd r) \<and> \<not> is_digit (last r)"
  by (auto simp: space_runes_def is_digit_def less_eq_char_def)

lemma digits_trimmed:
  assumes "\<forall>c \<in> set s. is_digit c"
  shows "trimmed s"
proof -
  have "\<not> HasPrefix t r" if "r \<noteq> []" "\<not> is_digit (hd r)" "set t \<subseteq> set s" for t r
    using that assms by (cases r) (auto simp: HasPrefix_iff)
  then show ?thesis
    using space_rune_not_digit by (auto simp: trimmed_def no_prefix_def hd_rev)
qed

end
