(* ===== verification/Go_Errors.thy ===== *)
theory Go_Errors
  imports Go_Strings
begin

text \<open>
  Go error values as the program builds and inspects them. An error is a chain linked by
  \<open>Unwrap\<close>; \<open>errors.Is\<close> and \<open>errors.As\<close> search the chain from the outside in. Formatted texts
  keep their fixed part: no caller branches on the text, and what is interpolated into it
  (indices, names) is not represented.
\<close>

text \<open>
  \<open>Sentinel s\<close>: a value of \<open>errors.New\<close>, or a \<open>fmt.Errorf\<close> without \<open>%w\<close>, named by its text;
  \<open>Wrapped s e\<close>: a \<open>fmt.Errorf\<close> whose \<open>%w\<close> verb is given \<open>e\<close>;
  \<open>CtxCanceled\<close>, \<open>CtxDeadline\<close>: \<open>context.Canceled\<close> and \<open>context.DeadlineExceeded\<close>;
  \<open>NetError t e\<close>: an error of the network library implementing \<open>net.Error\<close>, \<open>t\<close> its \<open>Timeout()\<close>;
  \<open>APIError c e\<close>: an error of the SDK implementing \<open>smithy.APIError\<close> with code \<open>c\<close>;
  \<open>ClassifiedError\<close>, \<open>identityMismatchError\<close>, \<open>credentialsChangedError\<close> and
  \<open>unavailableVerifier\<close>: the error types of the program.
\<close>

datatype go_error =
    Sentinel string
  | Wrapped string go_error
  | CtxCanceled
  | CtxDeadline
  | NetError bool go_error
  | APIError string go_error
  | ClassifiedError string bool go_error
  | IdentityMismatchError
  | CredentialsChangedError
  | UnavailableVerifier go_error

text \<open>The chain of an error, outermost first.\<close>

primrec chain :: "go_error \<Rightarrow> go_error list" where
  "chain (Sentinel s) = [Sentinel s]"
| "chain (Wrapped s e) = Wrapped s e # chain e"
| "chain CtxCanceled = [CtxCanceled]"
| "chain CtxDeadline = [CtxDeadline]"
| "chain (NetError t e) = NetError t e # chain e"
| "chain (APIError c e) = APIError c e # chain e"
| "chain (ClassifiedError k r e) = ClassifiedError k r e # chain e"
| "chain IdentityMismatchError = [IdentityMismatchError]"
| "chain CredentialsChangedError = [CredentialsChangedError]"
| "chain (UnavailableVerifier e) = UnavailableVerifier e # chain e"

definition errors_Is :: "go_error \<Rightarrow> go_error \<Rightarrow> bool" where
  "errors_Is e target \<longleftrightarrow> target \<in> set (chain e)"

text \<open>\<open>errors.As\<close>: the first element of the chain a projection is defined on.\<close>

fun first_some :: "('a \<Rightarrow> 'b option) \<Rightarrow> 'a list \<Rightarrow> 'b option" where
  "first_some f [] = None"
| "first_some f (x # xs) = (case f x of None \<Rightarrow> first_some f xs | Some y \<Rightarrow> Some y)"

definition errors_As :: "(go_error \<Rightarrow> 'b option) \<Rightarrow> go_error \<Rightarrow> 'b option" where
  "errors_As proj e = first_some proj (chain e)"

text \<open>
  The interfaces the program asks for. \<open>context.DeadlineExceeded\<close> implements \<open>net.Error\<close> in the
  standard library, with \<open>Timeout() = true\<close>.
\<close>

fun net_error :: "go_error \<Rightarrow> bool option" where
  "net_error (NetError t e) = Some t"
| "net_error CtxDeadline = Some True"
| "net_error _ = None"

fun api_error :: "go_error \<Rightarrow> string option" where
  "api_error (APIError c e) = Some c"
| "api_error _ = None"

fun classified_error :: "go_error \<Rightarrow> (string \<times> bool) option" where
  "classified_error (ClassifiedError k r e) = Some (k, r)"
| "classified_error _ = None"

lemma chain_self [simp]: "e \<in> set (chain e)"
  by (cases e) simp_all

lemma errors_Is_Wrapped [simp]:
  "errors_Is (Wrapped s e) t \<longleftrightarrow> t = Wrapped s e \<or> errors_Is e t"
  by (auto simp: errors_Is_def)

lemma errors_Is_self [simp]: "errors_Is e e"
  by (simp add: errors_Is_def)

lemma errors_Is_Sentinel [simp]: "errors_Is (Sentinel s) t \<longleftrightarrow> t = Sentinel s"
  by (auto simp: errors_Is_def)

lemma errors_As_Wrapped [simp]:
  "proj (Wrapped s e) = None \<Longrightarrow> errors_As proj (Wrapped s e) = errors_As proj e"
  by (simp add: errors_As_def)

lemma errors_As_Classified [simp]:
  "proj (ClassifiedError k r e) = None \<Longrightarrow> errors_As proj (ClassifiedError k r e) = errors_As proj e"
  by (simp add: errors_As_def)

lemma errors_As_None_iff: "errors_As proj e = None \<longleftrightarrow> (\<forall>x \<in> set (chain e). proj x = None)"
proof -
  have "first_some proj xs = None \<longleftrightarrow> (\<forall>x \<in> set xs. proj x = None)" for xs
    by (induction xs) (auto split: option.splits)
  then show ?thesis by (simp add: errors_As_def)
qed

end
