(* ===== verification/Go_Float.thy ===== *)
theory Go_Float
  imports Prelude Complex_Main "HOL-Library.Log_Nat"
begin

text \<open>
  Go's \<open>float64\<close>: IEEE 754 binary64 with round-to-nearest-even. A value is a NaN, an infinity
  with its sign, or a finite rational; every operation rounds its exact rational result with
  \<open>f64_of_rat\<close>. The sign of zero is not represented: no operation of the modelled code
  distinguishes the two zeros. The main facts are that rounding is monotone and leaves
  representable values unchanged, which is what bounds on delays and sums rest on.
\<close>

section \<open>Rounding a rational to 53 bits\<close>

definition ilog2 :: "rat \<Rightarrow> int" where
  "ilog2 q =
     (let (a, b) = quotient_of q; e = bitlen a - bitlen b
      in if 2 powi e \<le> q then e else e - 1)"

definition round_even :: "rat \<Rightarrow> int" where
  "round_even q =
     (let f = \<lfloor>q\<rfloor>; d = q - of_int f
      in if d < 1/2 then f else if d > 1/2 then f + 1 else if even f then f else f + 1)"

text \<open>The exponent of the last mantissa bit: 52 below the leading bit, not under \<open>-1074\<close>.\<close>

definition quantum :: "rat \<Rightarrow> int" where
  "quantum q = max (ilog2 \<bar>q\<bar> - 52) (- 1074)"

definition round64 :: "rat \<Rightarrow> rat" where
  "round64 q =
     (if q = 0 then 0
      else of_int (round_even (q / 2 powi quantum q)) * 2 powi quantum q)"

lemma powi2_pos [simp]: "(0::rat) < 2 powi e"
  by simp

lemma powi2_le_iff [simp]: "(2::rat) powi a \<le> 2 powi b \<longleftrightarrow> a \<le> b"
proof
  assume "(2::rat) powi a \<le> 2 powi b"
  moreover have "(2::rat) powi b < 2 powi a" if "b < a"
    using that by (rule power_int_strict_increasing) simp
  ultimately show "a \<le> b" by force
qed (auto intro: power_int_increasing)

lemma powi2_less_iff [simp]: "(2::rat) powi a < 2 powi b \<longleftrightarrow> a < b"
  by (simp add: less_le_not_le)

lemma powi2_add: "(2::rat) powi (a + b) = 2 powi a * 2 powi b"
  by (rule power_int_add) simp

lemma powi2_int: "0 \<le> k \<Longrightarrow> (2::rat) powi k = of_int (2 ^ nat k)"
  by (simp add: power_int_def)

lemma powi2_div: "(2::rat) powi a / 2 powi b = 2 powi (a - b)"
  by (simp add: power_int_diff)

lemma bitlen_rat:
  assumes "0 < x"
  shows "2 powi (bitlen x - 1) \<le> (of_int x :: rat)" and "(of_int x :: rat) < 2 powi bitlen x"
proof -
  have pos: "1 \<le> bitlen x"
    using assms bitlen_eq_zero_iff [of x] bitlen_nonneg [of x] by linarith
  have b: "2 ^ nat (bitlen x - 1) \<le> x" "x < 2 ^ nat (bitlen x)"
    using bitlen_bounds [OF assms] by auto
  show "2 powi (bitlen x - 1) \<le> (of_int x :: rat)"
    using b(1) pos by (subst powi2_int) (simp, simp only: of_int_le_iff)
  show "(of_int x :: rat) < 2 powi bitlen x"
    using b(2) pos by (subst powi2_int) (simp, simp only: of_int_less_iff)
qed

lemma ilog2_bounds:
  assumes "0 < q"
  shows "2 powi ilog2 q \<le> q" and "q < 2 powi (ilog2 q + 1)"
proof -
  obtain a b where ab: "quotient_of q = (a, b)"
    by (cases "quotient_of q")
  then have q: "q = of_int a / of_int b" and b: "0 < b"
    by (auto simp: quotient_of_div quotient_of_denom_pos)
  with assms have a: "0 < a"
    by (simp add: zero_less_divide_iff)
  let ?e = "bitlen a - bitlen b"
  have "q < 2 powi bitlen a / 2 powi (bitlen b - 1)"
    unfolding q using bitlen_rat [OF a] bitlen_rat [OF b] a b
    by (intro frac_less) auto
  then have up: "q < 2 powi (?e + 1)"
    by (simp add: powi2_div algebra_simps)
  have "2 powi (bitlen a - 1) / 2 powi bitlen b \<le> q"
    unfolding q using bitlen_rat [OF a] bitlen_rat [OF b] a b
    by (intro frac_le) auto
  then have lo: "2 powi (?e - 1) \<le> q"
    by (simp add: powi2_div algebra_simps)
  show "2 powi ilog2 q \<le> q" and "q < 2 powi (ilog2 q + 1)"
    using up lo by (auto simp: ilog2_def ab Let_def)
qed

lemma ilog2_mono:
  assumes "0 < p" and "p \<le> q"
  shows "ilog2 p \<le> ilog2 q"
proof -
  have "2 powi ilog2 p \<le> p"
    using assms by (intro ilog2_bounds)
  also note \<open>p \<le> q\<close>
  also have "q < 2 powi (ilog2 q + 1)"
    using assms by (intro ilog2_bounds) simp
  finally show ?thesis by simp
qed

lemma round_even_cases: "round_even q = \<lfloor>q\<rfloor> \<or> round_even q = \<lfloor>q\<rfloor> + 1"
  by (simp add: round_even_def Let_def)

lemma round_even_of_int [simp]: "round_even (of_int n) = n"
  by (simp add: round_even_def Let_def)

lemma round_even_mono: "p \<le> q \<Longrightarrow> round_even p \<le> round_even q"
proof -
  assume le: "p \<le> q"
  then have fl: "\<lfloor>p\<rfloor> \<le> \<lfloor>q\<rfloor>" by (rule floor_mono)
  show ?thesis
  proof (cases "\<lfloor>p\<rfloor> = \<lfloor>q\<rfloor>")
    case True
    with le show ?thesis by (auto simp: round_even_def Let_def)
  next
    case False
    with fl show ?thesis using round_even_cases [of p] round_even_cases [of q] by linarith
  qed
qed

lemma round_even_minus: "round_even (- q) = - round_even q"
proof (cases "q = of_int \<lfloor>q\<rfloor>")
  case True
  then have "round_even q = \<lfloor>q\<rfloor>" and "- q = of_int (- \<lfloor>q\<rfloor>)"
    by (metis round_even_of_int, simp)
  then show ?thesis by (metis round_even_of_int)
next
  case False
  then have "\<lceil>q\<rceil> = \<lfloor>q\<rfloor> + 1"
    by (metis ceiling_altdef)
  then have fl: "\<lfloor>- q\<rfloor> = - \<lfloor>q\<rfloor> - 1"
    by (simp add: ceiling_def)
  then show ?thesis
    by (auto simp: round_even_def Let_def)
qed

lemma round64_0 [simp]: "round64 0 = 0"
  by (simp add: round64_def)

lemma round64_minus: "round64 (- q) = - round64 q"
  by (simp add: round64_def quantum_def round_even_minus)

lemma round64_nonneg: "0 \<le> q \<Longrightarrow> 0 \<le> round64 q"
proof -
  assume "0 \<le> q"
  then have "round_even 0 \<le> round_even (q / 2 powi quantum q)"
    by (intro round_even_mono) simp
  then show ?thesis
    using round_even_of_int [of 0] by (simp add: round64_def)
qed

lemma round64_grid_le:
  assumes "0 < q" and "q \<le> 2 powi k" and "quantum q \<le> k"
  shows "round64 q \<le> 2 powi k"
proof -
  let ?e = "quantum q"
  have int: "(2::rat) powi (k - ?e) = of_int (2 ^ nat (k - ?e))"
    using assms(3) by (intro powi2_int) simp
  have "q / 2 powi ?e \<le> 2 powi k / 2 powi ?e"
    using assms(2) by (simp add: divide_right_mono)
  then have "round_even (q / 2 powi ?e) \<le> 2 ^ nat (k - ?e)"
    using round_even_mono round_even_of_int by (metis int powi2_div)
  then have "of_int (round_even (q / 2 powi ?e)) \<le> (2::rat) powi (k - ?e)"
    unfolding int by (simp only: of_int_le_iff)
  then have "of_int (round_even (q / 2 powi ?e)) * 2 powi ?e \<le> (2::rat) powi (k - ?e) * 2 powi ?e"
    by (rule mult_right_mono) simp
  then show ?thesis
    using assms(1) by (simp add: round64_def flip: powi2_add)
qed

lemma round64_grid_ge:
  assumes "2 powi k \<le> q" and "quantum q \<le> k"
  shows "2 powi k \<le> round64 q"
proof -
  let ?e = "quantum q"
  have q: "0 < q"
    using assms(1) powi2_pos [of k] by linarith
  have int: "(2::rat) powi (k - ?e) = of_int (2 ^ nat (k - ?e))"
    using assms(2) by (intro powi2_int) simp
  have "2 powi k / 2 powi ?e \<le> q / 2 powi ?e"
    using assms(1) by (simp add: divide_right_mono)
  then have "2 ^ nat (k - ?e) \<le> round_even (q / 2 powi ?e)"
    using round_even_mono round_even_of_int by (metis int powi2_div)
  then have "(2::rat) powi (k - ?e) \<le> of_int (round_even (q / 2 powi ?e))"
    unfolding int by (simp only: of_int_le_iff)
  then have "(2::rat) powi (k - ?e) * 2 powi ?e \<le> of_int (round_even (q / 2 powi ?e)) * 2 powi ?e"
    by (rule mult_right_mono) simp
  then show ?thesis
    using q by (simp add: round64_def flip: powi2_add)
qed

lemma round64_mono_pos:
  assumes "0 < p" and "p \<le> q"
  shows "round64 p \<le> round64 q"
proof -
  have le: "ilog2 p \<le> ilog2 q"
    using assms by (rule ilog2_mono)
  show ?thesis
  proof (cases "quantum p = quantum q")
    case True
    have "p / 2 powi quantum q \<le> q / 2 powi quantum q"
      using assms(2) by (simp add: divide_right_mono)
    then have "round_even (p / 2 powi quantum q) \<le> round_even (q / 2 powi quantum q)"
      by (rule round_even_mono)
    with True assms show ?thesis
      by (simp add: round64_def mult_right_mono)
  next
    case False
    let ?l = "ilog2 q"
    from False le assms have l: "ilog2 p < ?l" and e: "quantum q = ?l - 52" "quantum p \<le> ?l"
      by (auto simp: quantum_def max_def split: if_splits)
    have "p < 2 powi (ilog2 p + 1)"
      using assms(1) by (rule ilog2_bounds)
    also have "\<dots> \<le> 2 powi ?l"
      using l by simp
    finally have "round64 p \<le> 2 powi ?l"
      using assms(1) e by (intro round64_grid_le) auto
    also have "2 powi ?l \<le> round64 q"
      using e assms by (intro round64_grid_ge ilog2_bounds) auto
    finally show ?thesis .
  qed
qed

lemma round64_mono:
  assumes "p \<le> q"
  shows "round64 p \<le> round64 q"
proof -
  consider "0 < p" | "q < 0" | "p \<le> 0" "0 \<le> q"
    by linarith
  then show ?thesis
  proof cases
    case 1
    then show ?thesis using assms by (rule round64_mono_pos)
  next
    case 2
    then have "round64 (- q) \<le> round64 (- p)"
      using assms by (intro round64_mono_pos) auto
    then show ?thesis by (simp add: round64_minus)
  next
    case 3
    then have "0 \<le> round64 (- p)" and "0 \<le> round64 q"
      by (simp_all add: round64_nonneg)
    then show ?thesis by (simp add: round64_minus)
  qed
qed


section \<open>Representable values\<close>

definition representable :: "rat \<Rightarrow> bool" where
  "representable r \<longleftrightarrow> (\<exists>m e. r = of_int m * 2 powi e \<and> \<bar>m\<bar> \<le> 2 ^ 53 \<and> - 1074 \<le> e)"

lemma round64_of_grid:
  assumes "r \<noteq> 0" and "r = of_int n * 2 powi quantum r"
  shows "round64 r = r"
proof -
  have "r / 2 powi quantum r = of_int n"
    using assms(2) by (simp add: nonzero_divide_eq_eq)
  with assms show ?thesis
    by (simp add: round64_def)
qed

lemma round64_pos_exact:
  assumes "0 < m" and "m \<le> 2 ^ 53" and "- 1074 \<le> e"
  shows "round64 (of_int m * 2 powi e) = of_int m * 2 powi e"
proof -
  let ?r = "of_int m * 2 powi e :: rat"
  have r: "0 < ?r"
    using assms(1) by simp
  show ?thesis
  proof (cases "quantum ?r \<le> e")
    case True
    then have "2 powi e = of_int (2 ^ nat (e - quantum ?r)) * (2::rat) powi quantum ?r"
      by (subst powi2_int [symmetric]) (auto simp flip: powi2_add)
    then have grid: "?r = of_int (m * 2 ^ nat (e - quantum ?r)) * 2 powi quantum ?r"
      by (simp add: mult.assoc)
    show ?thesis
      by (rule round64_of_grid [OF _ grid]) (use r in auto)
  next
    case False
    with assms(3) r have q: "quantum ?r = ilog2 ?r - 52"
      by (simp add: quantum_def max_def split: if_splits)
    have "2 powi ilog2 ?r \<le> ?r"
      using r by (rule ilog2_bounds)
    also have "?r \<le> 2 powi 53 * 2 powi e"
      using assms(2) by (intro mult_right_mono) (simp_all add: powi2_int)
    finally have "ilog2 ?r \<le> 53 + e"
      by (simp only: powi2_add [symmetric] powi2_le_iff)
    with q False have l: "ilog2 ?r = e + 53" and k: "quantum ?r = e + 1"
      by linarith+
    have "2 powi e * 2 powi 53 \<le> ?r"
      using ilog2_bounds(1) [OF r] by (simp add: l powi2_add)
    then have "(2::rat) ^ 53 \<le> of_int m"
      by (simp add: powi2_int)
    then have "m = 2 ^ 53"
      using assms(2) by (metis of_int_le_iff of_int_numeral of_int_power order_antisym)
    then have grid: "?r = of_int (2 ^ 52) * 2 powi quantum ?r"
      unfolding k by (simp add: powi2_add)
    show ?thesis
      by (rule round64_of_grid [OF _ grid]) (use r in auto)
  qed
qed

lemma round64_representable:
  assumes "representable r"
  shows "round64 r = r"
proof -
  obtain m e where r: "r = of_int m * 2 powi e" and m: "\<bar>m\<bar> \<le> 2 ^ 53" and e: "- 1074 \<le> e"
    using assms by (auto simp: representable_def)
  consider "m = 0" | "0 < m" | "0 < - m" by linarith
  then show ?thesis
  proof cases
    case 1
    with r show ?thesis by simp
  next
    case 2
    with m e show ?thesis unfolding r by (intro round64_pos_exact) auto
  next
    case 3
    with m e have "round64 (of_int (- m) * 2 powi e) = of_int (- m) * 2 powi e"
      by (intro round64_pos_exact) auto
    then show ?thesis
      unfolding r using round64_minus [of "of_int m * 2 powi e"] by simp
  qed
qed

lemma representable_int: "\<bar>n\<bar> \<le> 2 ^ 53 \<Longrightarrow> representable (of_int n)"
  unfolding representable_def by (rule exI [of _ n], rule exI [of _ 0]) simp

lemma representable_half_int: "\<bar>n\<bar> \<le> 2 ^ 53 \<Longrightarrow> representable (of_int n / 2)"
  unfolding representable_def by (rule exI [of _ n], rule exI [of _ "- 1"]) (simp add: field_simps)

section \<open>Floating-point values and operations\<close>

datatype float64 = F_NaN | F_Inf bool | F_Fin rat

definition f64_of_rat :: "rat \<Rightarrow> float64" where
  "f64_of_rat q =
     (let r = round64 q in if \<bar>r\<bar> \<ge> 2 ^ 1024 then F_Inf (r < 0) else F_Fin r)"

definition f64_of_int :: "int \<Rightarrow> float64" where
  "f64_of_int n = f64_of_rat (of_int n)"

fun IsNaN :: "float64 \<Rightarrow> bool" where
  "IsNaN F_NaN = True"
| "IsNaN _ = False"

text \<open>\<open>math.IsInf(x, 0)\<close>: an infinity of either sign.\<close>

fun IsInf :: "float64 \<Rightarrow> bool" where
  "IsInf (F_Inf _) = True"
| "IsInf _ = False"

definition f64_finite :: "float64 \<Rightarrow> bool" where
  "f64_finite x \<longleftrightarrow> \<not> IsNaN x \<and> \<not> IsInf x"

fun f64_add :: "float64 \<Rightarrow> float64 \<Rightarrow> float64" where
  "f64_add (F_Fin x) (F_Fin y) = f64_of_rat (x + y)"
| "f64_add (F_Inf s) (F_Inf t) = (if s = t then F_Inf s else F_NaN)"
| "f64_add (F_Inf s) (F_Fin _) = F_Inf s"
| "f64_add (F_Fin _) (F_Inf s) = F_Inf s"
| "f64_add _ _ = F_NaN"

fun f64_mul :: "float64 \<Rightarrow> float64 \<Rightarrow> float64" where
  "f64_mul (F_Fin x) (F_Fin y) = f64_of_rat (x * y)"
| "f64_mul (F_Inf s) (F_Inf t) = F_Inf (s \<noteq> t)"
| "f64_mul (F_Inf s) (F_Fin x) = (if x = 0 then F_NaN else F_Inf (s \<noteq> (x < 0)))"
| "f64_mul (F_Fin x) (F_Inf s) = (if x = 0 then F_NaN else F_Inf (s \<noteq> (x < 0)))"
| "f64_mul _ _ = F_NaN"

text \<open>Division; a zero divisor counts as positive zero.\<close>

fun f64_div :: "float64 \<Rightarrow> float64 \<Rightarrow> float64" where
  "f64_div (F_Fin x) (F_Fin y) =
     (if y = 0 then (if x = 0 then F_NaN else F_Inf (x < 0)) else f64_of_rat (x / y))"
| "f64_div (F_Inf s) (F_Inf t) = F_NaN"
| "f64_div (F_Inf s) (F_Fin x) = F_Inf (s \<noteq> (x < 0))"
| "f64_div (F_Fin x) (F_Inf s) = F_Fin 0"
| "f64_div _ _ = F_NaN"

fun f64_lt :: "float64 \<Rightarrow> float64 \<Rightarrow> bool" where
  "f64_lt (F_Fin x) (F_Fin y) \<longleftrightarrow> x < y"
| "f64_lt (F_Inf s) (F_Inf t) \<longleftrightarrow> s \<and> \<not> t"
| "f64_lt (F_Inf s) (F_Fin _) \<longleftrightarrow> s"
| "f64_lt (F_Fin _) (F_Inf s) \<longleftrightarrow> \<not> s"
| "f64_lt _ _ \<longleftrightarrow> False"

definition f64_eq :: "float64 \<Rightarrow> float64 \<Rightarrow> bool" where
  "f64_eq x y \<longleftrightarrow> \<not> IsNaN x \<and> x = y"

definition f64_le :: "float64 \<Rightarrow> float64 \<Rightarrow> bool" where
  "f64_le x y \<longleftrightarrow> f64_lt x y \<or> f64_eq x y"

definition f64_max :: "float64 \<Rightarrow> float64 \<Rightarrow> float64" where
  "f64_max x y = (if IsNaN x \<or> IsNaN y then F_NaN else if f64_lt x y then y else x)"

definition f64_min :: "float64 \<Rightarrow> float64 \<Rightarrow> float64" where
  "f64_min x y = (if IsNaN x \<or> IsNaN y then F_NaN else if f64_lt y x then y else x)"

text \<open>
  The conversion \<open>int64(x)\<close> truncates toward zero. Where the result does not fit, Go leaves the
  value to the implementation: the parameter \<open>impl\<close>.
\<close>

definition trunc_rat :: "rat \<Rightarrow> int" where
  "trunc_rat x = (if 0 \<le> x then \<lfloor>x\<rfloor> else \<lceil>x\<rceil>)"

fun f64_to_int64 :: "(float64 \<Rightarrow> int) \<Rightarrow> float64 \<Rightarrow> int" where
  "f64_to_int64 impl (F_Fin x) =
     (if - (2 ^ 63) \<le> trunc_rat x \<and> trunc_rat x < 2 ^ 63 then trunc_rat x else impl (F_Fin x))"
| "f64_to_int64 impl x = impl x"

lemma f64_finite_iff: "f64_finite x \<longleftrightarrow> (\<exists>q. x = F_Fin q)"
  by (cases x) (auto simp: f64_finite_def)

lemma f64_of_rat_exact: "representable q \<Longrightarrow> \<bar>q\<bar> < 2 ^ 1024 \<Longrightarrow> f64_of_rat q = F_Fin q"
  by (simp add: f64_of_rat_def round64_representable)

lemma f64_of_int_exact:
  assumes "\<bar>n\<bar> \<le> 2 ^ 53"
  shows "f64_of_int n = F_Fin (of_int n)"
proof -
  have "\<bar>of_int n :: rat\<bar> \<le> 2 ^ 53"
    using assms by (metis of_int_abs of_int_le_iff of_int_numeral of_int_power)
  also have "(2::rat) ^ 53 < 2 ^ 1024"
    by (rule power_strict_increasing) auto
  finally show ?thesis
    unfolding f64_of_int_def by (intro f64_of_rat_exact representable_int assms)
qed

text \<open>A rounded result stays between two representable bounds of the exact one.\<close>

lemma f64_of_rat_between:
  assumes "lo \<le> q" and "q \<le> hi" and "representable lo" and "representable hi"
    and "\<bar>lo\<bar> < 2 ^ 1024" and "\<bar>hi\<bar> < 2 ^ 1024"
  shows "\<exists>r. f64_of_rat q = F_Fin r \<and> lo \<le> r \<and> r \<le> hi"
proof -
  have "lo \<le> round64 q" and "round64 q \<le> hi"
    using assms(1-4) round64_mono round64_representable by metis+
  moreover from this have "\<not> \<bar>round64 q\<bar> \<ge> 2 ^ 1024"
    using assms(5,6) by linarith
  ultimately show ?thesis
    by (simp add: f64_of_rat_def)
qed

text \<open>Integers and halves in the exact range need no rounding: the equation used for evaluation.\<close>

lemma f64_of_rat_code [code]:
  "f64_of_rat q =
     (let (a, b) = quotient_of q
      in if (b = 1 \<or> b = 2) \<and> \<bar>a\<bar> \<le> 9007199254740992 then F_Fin q
         else let r = round64 q in if \<bar>r\<bar> \<ge> 2 ^ 1024 then F_Inf (r < 0) else F_Fin r)"
proof (cases "quotient_of q")
  case (Pair a b)
  then have q: "q = of_int a / of_int b" by (rule quotient_of_div)
  have "f64_of_rat q = F_Fin q" if b: "b = 1 \<or> b = 2" and a: "\<bar>a\<bar> \<le> 9007199254740992"
  proof (rule f64_of_rat_exact)
    have "\<bar>a\<bar> \<le> 2 ^ 53" using a by simp
    then show "representable q" using b representable_int [of a] representable_half_int [of a] by (auto simp: q)
    have "\<bar>q\<bar> \<le> of_int \<bar>a\<bar>" using b by (auto simp: q)
    also have "\<dots> \<le> of_int (2 ^ 53)" using \<open>\<bar>a\<bar> \<le> 2 ^ 53\<close> by (simp only: of_int_le_iff)
    also have "\<dots> < (2 ^ 1024 :: rat)" by simp
    finally show "\<bar>q\<bar> < 2 ^ 1024" .
  qed
  then show ?thesis by (simp add: Pair f64_of_rat_def)
qed

end
