(* ===== verification/Go_Time.thy ===== *)
theory Go_Time
  imports Go_Strings
begin

text \<open>
  Go's \<open>time.Time\<close> as the instant in nanoseconds since 0001-01-01T00:00:00Z (so the zero
  \<open>Time\<close> is \<open>0\<close>), \<open>time.Duration\<close> as a signed 64-bit count of nanoseconds, the proleptic
  Gregorian calendar of \<open>time.Date\<close>, and the \<open>DateOnly\<close> layout. Locations do not occur: the
  program converts with \<open>UTC()\<close> before it reads a calendar field. The calendar theorems show
  that a date and its day number determine each other, and that printing and parsing agree.
\<close>

section \<open>Instants and durations\<close>

type_synonym "time" = int
type_synonym duration = int

definition IsZero :: "time \<Rightarrow> bool" where
  "IsZero t \<longleftrightarrow> t = 0"

text \<open>\<open>Time.Sub\<close> saturates at the bounds of \<open>Duration\<close>.\<close>

definition Sub :: "time \<Rightarrow> time \<Rightarrow> duration" where
  "Sub t u = max (- (2 ^ 63)) (min (2 ^ 63 - 1) (t - u))"

definition Nanosecond :: duration where "Nanosecond = 1"
definition Millisecond :: duration where "Millisecond = 1000000"
definition Second :: duration where "Second = 1000000000"
definition Minute :: duration where "Minute = 60000000000"
definition Hour :: duration where "Hour = 3600000000000"

abbreviation day_ns :: int where "day_ns \<equiv> 86400000000000"

text \<open>Integer division of Go, which truncates towards zero.\<close>

definition quo :: "int \<Rightarrow> int \<Rightarrow> int" where
  "quo a b = sgn a * sgn b * (\<bar>a\<bar> div \<bar>b\<bar>)"

lemma quo_pos [simp]: "0 \<le> a \<Longrightarrow> 0 < b \<Longrightarrow> quo a b = a div b"
  by (cases "a = 0") (simp_all add: quo_def sgn_if)

text \<open>Two's complement 64-bit arithmetic, for sums and products of durations.\<close>

definition wrap64 :: "int \<Rightarrow> int" where
  "wrap64 x = (x + 2 ^ 63) mod 2 ^ 64 - 2 ^ 63"

lemma wrap64_id: "- (2 ^ 63) \<le> x \<Longrightarrow> x < 2 ^ 63 \<Longrightarrow> wrap64 x = x"
  by (simp add: wrap64_def)

text \<open>\<open>Time.Unix\<close>: whole seconds since 1970-01-01.\<close>

definition Unix :: "time \<Rightarrow> int" where
  "Unix t = t div 1000000000 - 62135596800"

section \<open>The calendar\<close>

definition leap :: "int \<Rightarrow> bool" where
  "leap y \<longleftrightarrow> y mod 4 = 0 \<and> (y mod 100 \<noteq> 0 \<or> y mod 400 = 0)"

definition month_lengths :: "int \<Rightarrow> int list" where
  "month_lengths y = [31, if leap y then 29 else 28, 31, 30, 31, 30, 31, 31, 30, 31, 30, 31]"

definition days_in :: "int \<Rightarrow> int \<Rightarrow> int" where
  "days_in y m = month_lengths y ! nat (m - 1)"

definition days_before_year :: "int \<Rightarrow> int" where
  "days_before_year y = (let p = y - 1 in 365 * p + p div 4 - p div 100 + p div 400)"

definition days_before_month :: "int \<Rightarrow> int \<Rightarrow> int" where
  "days_before_month y m = sum_list (take (nat (m - 1)) (month_lengths y))"

text \<open>The day number of \<open>time.Date(y, m, d, 0, 0, 0, 0, time.UTC)\<close>; months out of range carry.\<close>

definition date_days :: "int \<Rightarrow> int \<Rightarrow> int \<Rightarrow> int" where
  "date_days y m d =
     (let y' = y + (m - 1) div 12; m' = (m - 1) mod 12 + 1
      in days_before_year y' + days_before_month y' m' + d - 1)"

fun month_scan :: "int \<Rightarrow> int list \<Rightarrow> int \<Rightarrow> int \<times> int" where
  "month_scan m [] d = (m, d + 1)"
| "month_scan m (l # ls) d = (if d < l then (m, d + 1) else month_scan (m + 1) ls (d - l))"

text \<open>The year and the day of the year: whole 400-, 100-, 4- and 1-year cycles are split off.\<close>

definition year_split :: "int \<Rightarrow> int \<times> int" where
  "year_split n =
     (let a = n div 146097; d1 = n mod 146097;
          b = min 3 (d1 div 36524); d2 = d1 - 36524 * b;
          c = d2 div 1461; d3 = d2 mod 1461;
          e = min 3 (d3 div 365)
      in (400 * a + 100 * b + 4 * c + e + 1, d3 - 365 * e))"

text \<open>\<open>Time.Date()\<close>: year, month and day of a day number.\<close>

definition civil :: "int \<Rightarrow> int \<times> int \<times> int" where
  "civil n = (let (y, yd) = year_split n; (m, d) = month_scan 1 (month_lengths y) yd in (y, m, d))"

lemma year_cycles:
  fixes a b c e :: int
  assumes "0 \<le> b" "b \<le> 3" "0 \<le> c" "c \<le> 24" "0 \<le> e" "e \<le> 3"
  shows "days_before_year (400 * a + 100 * b + 4 * c + e + 1) =
           146097 * a + 36524 * b + 1461 * c + 365 * e"
proof -
  let ?p = "400 * a + 100 * b + 4 * c + e"
  have "?p div 4 = 100 * a + 25 * b + c"
    by (rule int_div_pos_eq [where r = e]) (use assms in auto)
  moreover have "?p div 100 = 4 * a + b"
    by (rule int_div_pos_eq [where r = "4 * c + e"]) (use assms in auto)
  moreover have "?p div 400 = a"
    by (rule int_div_pos_eq [where r = "100 * b + 4 * c + e"]) (use assms in auto)
  ultimately show ?thesis
    by (simp add: days_before_year_def)
qed

lemma mod_pos_bound_iff:
  fixes x k :: int
  assumes "0 < x" and "x \<le> k"
  shows "x mod k = 0 \<longleftrightarrow> x = k"
  using assms by (metis mod_pos_pos_trivial mod_self order_le_less order_less_irrefl)

lemma leap_cycles:
  fixes a b c e :: int
  assumes "0 \<le> b" "b \<le> 3" "0 \<le> c" "c \<le> 24" "0 \<le> e" "e \<le> 3"
  shows "leap (400 * a + 100 * b + 4 * c + e + 1) \<longleftrightarrow> e = 3 \<and> (c \<noteq> 24 \<or> b = 3)"
proof -
  let ?y = "400 * a + 100 * b + 4 * c + e + 1"
  have "?y = 4 * (100 * a + 25 * b + c) + (e + 1)" by simp
  then have "?y mod 4 = 0 \<longleftrightarrow> e = 3"
    using assms by (simp only: mod_mult_self4) (subst mod_pos_bound_iff, linarith, linarith, auto)
  moreover have "?y = 100 * (4 * a + b) + (4 * c + e + 1)" by simp
  then have "?y mod 100 = 0 \<longleftrightarrow> c = 24 \<and> e = 3"
    using assms by (simp only: mod_mult_self4) (subst mod_pos_bound_iff, linarith, linarith, intro iffI conjI; (linarith | simp))
  moreover have "?y = 400 * a + (100 * b + 4 * c + e + 1)" by simp
  then have "?y mod 400 = 0 \<longleftrightarrow> b = 3 \<and> c = 24 \<and> e = 3"
    using assms by (simp only: mod_mult_self4) (subst mod_pos_bound_iff, linarith, linarith, intro iffI conjI; (linarith | simp))
  ultimately show ?thesis
    unfolding leap_def by (simp only:) blast
qed

text \<open>Splitting \<open>d\<close> into at most three units of \<open>k\<close> days leaves less than a unit, or the one extra day.\<close>

lemma min3_split:
  fixes d k :: int
  assumes "0 \<le> d" and "d \<le> 4 * k" and "0 < k" and "b = min 3 (d div k)"
  shows "0 \<le> b" and "b \<le> 3" and "0 \<le> d - k * b" and "d - k * b < k \<or> b = 3 \<and> d = 4 * k"
proof -
  have q: "d = k * (d div k) + d mod k" "0 \<le> d mod k" "d mod k < k" "0 \<le> d div k"
    using assms by (simp_all add: pos_imp_zdiv_nonneg_iff)
  have "d div k \<le> 4"
    using zdiv_mono1 [OF assms(2,3)] assms(3) by simp
  then consider "b = d div k" | "b = 3" "d div k = 4"
    using assms(4) by linarith
  then show "0 \<le> b" and "b \<le> 3" and "0 \<le> d - k * b" and "d - k * b < k \<or> b = 3 \<and> d = 4 * k"
    using q assms by (cases; simp add: min_def; linarith)+
qed

lemma year_split_correct:
  assumes "year_split n = (y, yd)"
  shows "n = days_before_year y + yd" and "0 \<le> yd" and "yd < (if leap y then 366 else 365)"
proof -
  define a d1 b d2 c d3 e where defs: "a = n div 146097" "d1 = n mod 146097"
    "b = min 3 (d1 div 36524)" "d2 = d1 - 36524 * b" "c = d2 div 1461" "d3 = d2 mod 1461"
    "e = min 3 (d3 div 365)"
  have y: "y = 400 * a + 100 * b + 4 * c + e + 1" and yd: "yd = d3 - 365 * e"
    using assms unfolding year_split_def Let_def defs prod.inject by blast+
  have n: "n = 146097 * a + d1" "0 \<le> d1" "d1 < 146097"
    unfolding defs(1,2) by simp_all
  have b: "0 \<le> b" "b \<le> 3" "0 \<le> d2" "d2 < 36524 \<or> b = 3 \<and> d2 < 36525"
    using min3_split [OF n(2) _ _ defs(3)] n(3) by (simp_all add: defs(4)) linarith
  have d2: "d2 = 1461 * c + d3" "0 \<le> d3" "d3 < 1461"
    unfolding defs(5,6) by simp_all
  have "0 \<le> 1461 * c + d3" and le: "1461 * c + d3 < 36525"
    and max: "b = 3 \<or> 1461 * c + d3 < 36524"
    using b(3,4) d2(1) by auto
  then have c: "0 \<le> c" "c \<le> 24" and last: "c = 24 \<Longrightarrow> d3 = 1460 \<Longrightarrow> b = 3"
    using d2(2,3) by linarith+
  have e: "0 \<le> e" "e \<le> 3" "0 \<le> d3 - 365 * e" "d3 - 365 * e < 365 \<or> e = 3 \<and> d3 = 1460"
    using min3_split [OF d2(2) _ _ defs(7)] d2(3) by simp_all
  have "n = 146097 * a + 36524 * b + 1461 * c + 365 * e + (d3 - 365 * e)"
    using n(1) d2(1) defs(4) by linarith
  then show "n = days_before_year y + yd"
    unfolding y yd year_cycles [OF b(1,2) c e(1,2)] .
  show "0 \<le> yd"
    using e(3) yd by simp
  show "yd < (if leap y then 366 else 365)"
  proof (cases "d3 - 365 * e < 365")
    case True
    with yd show ?thesis by simp
  next
    case False
    with e(4) have "e = 3" and "d3 = 1460" by auto
    with last have "leap y"
      unfolding y leap_cycles [OF b(1,2) c e(1,2)] by blast
    with yd \<open>e = 3\<close> \<open>d3 = 1460\<close> show ?thesis by simp
  qed
qed

lemma month_lengths_nth: "1 \<le> m \<Longrightarrow> m \<le> 12 \<Longrightarrow> 28 \<le> days_in y m \<and> days_in y m \<le> 31"
proof -
  assume m: "1 \<le> m" "m \<le> 12"
  then have "nat (m - 1) < length (month_lengths y)"
    by (simp add: month_lengths_def)
  then have "days_in y m \<in> set (month_lengths y)"
    unfolding days_in_def by (rule nth_mem)
  then show ?thesis
    by (auto simp: month_lengths_def split: if_splits)
qed

lemma month_scan_correct:
  assumes "month_scan m ls yd = (m', d)" and "0 \<le> yd" and "yd < sum_list ls"
  shows "m \<le> m' \<and> m' < m + int (length ls) \<and> 1 \<le> d \<and> d \<le> ls ! nat (m' - m) \<and>
         yd = sum_list (take (nat (m' - m)) ls) + d - 1"
  using assms
proof (induction m ls yd rule: month_scan.induct)
  case (1 m d)
  then show ?case by simp
next
  case (2 m l ls yd)
  show ?case
  proof (cases "yd < l")
    case True
    with "2.prems" show ?thesis by auto
  next
    case False
    with 2 have IH: "m + 1 \<le> m' \<and> m' < m + 1 + int (length ls) \<and> 1 \<le> d \<and>
      d \<le> ls ! nat (m' - (m + 1)) \<and> yd - l = sum_list (take (nat (m' - (m + 1))) ls) + d - 1"
      by auto
    then have "nat (m' - m) = Suc (nat (m' - (m + 1)))"
      by linarith
    with IH show ?thesis by simp
  qed
qed

lemma civil_correct:
  assumes "civil n = (y, m, d)"
  shows "date_days y m d = n" and "1 \<le> m" and "m \<le> 12" and "1 \<le> d" and "d \<le> days_in y m"
proof -
  obtain yd where ys: "year_split n = (y, yd)" and ms: "month_scan 1 (month_lengths y) yd = (m, d)"
    using assms by (auto simp: civil_def Let_def split: prod.splits)
  note yd = year_split_correct [OF ys]
  have "sum_list (month_lengths y) = (if leap y then 366 else 365)"
    by (simp add: month_lengths_def)
  with yd have "yd < sum_list (month_lengths y)"
    by simp
  from month_scan_correct [OF ms yd(2) this]
  have m: "1 \<le> m" "m \<le> 12" "1 \<le> d" "d \<le> days_in y m"
    and sum: "yd = days_before_month y m + d - 1"
    by (auto simp: month_lengths_def days_in_def days_before_month_def)
  then have "(m - 1) div 12 = 0" and "(m - 1) mod 12 = m - 1"
    by (simp_all add: div_pos_pos_trivial)
  with yd(1) sum show "date_days y m d = n"
    by (simp add: date_days_def)
  show "1 \<le> m" and "m \<le> 12" and "1 \<le> d" and "d \<le> days_in y m"
    using m by auto
qed

section \<open>Uniqueness of dates and month arithmetic\<close>

lemma div_succ:
  fixes p k :: int
  assumes "0 < k"
  shows "(p + 1) div k = p div k + of_bool ((p + 1) mod k = 0)"
proof (cases "(p + 1) mod k = 0")
  case True
  then have "p + 1 = k * ((p + 1) div k)"
    by (metis add.right_neutral mult_div_mod_eq)
  then have "p = k * ((p + 1) div k - 1) + (k - 1)"
    by (simp add: right_diff_distrib)
  then have "p div k = (p + 1) div k - 1"
    using assms by (intro int_div_pos_eq [where r = "k - 1"]) simp_all
  with True show ?thesis by simp
next
  case False
  have "p + 1 = k * ((p + 1) div k) + (p + 1) mod k" and "0 < (p + 1) mod k" and "(p + 1) mod k < k"
    using assms False pos_mod_bound [OF assms] pos_mod_sign [OF assms, of "p + 1"]
    by (auto simp: order_le_less)
  then have "p div k = (p + 1) div k"
    using assms by (intro int_div_pos_eq [where r = "(p + 1) mod k - 1"]) linarith+
  with False show ?thesis by simp
qed

lemma leap_of_bool:
  "of_bool (y mod 4 = 0) - of_bool (y mod 100 = 0) + of_bool (y mod 400 = 0) = (of_bool (leap y) :: int)"
proof -
  have "(100::int) dvd 400" and "(4::int) dvd 100"
    by simp_all
  then have "y mod 400 = 0 \<Longrightarrow> y mod 100 = 0" and "y mod 100 = 0 \<Longrightarrow> y mod 4 = 0"
    by (metis dvd_trans mod_0_imp_dvd dvd_imp_mod_0)+
  then show ?thesis
    unfolding leap_def
    by (cases "y mod 4 = 0"; cases "y mod 100 = 0"; cases "y mod 400 = 0")
      (simp_all only: of_bool_eq simp_thms cancel_comm_monoid_add_class.diff_cancel diff_zero add_0)
qed

lemma year_sum_step:
  fixes y :: int
  assumes "q4 = p4 + a" and "q100 = p100 + b" and "q400 = p400 + c" and "s = 365 * y + q4 - q100 + q400"
    and "a - b + c = l"
  shows "s = 365 * (y - 1) + p4 - p100 + p400 + 365 + l"
  using assms by simp

lemma days_before_year_succ: "days_before_year (y + 1) = days_before_year y + 365 + of_bool (leap y)"
proof -
  have "y div 4 = (y - 1) div 4 + of_bool (y mod 4 = 0)"
    and "y div 100 = (y - 1) div 100 + of_bool (y mod 100 = 0)"
    and "y div 400 = (y - 1) div 400 + of_bool (y mod 400 = 0)"
    using div_succ [of _ "y - 1"] by (simp_all only: diff_add_cancel zero_less_numeral)
  moreover have "days_before_year (y + 1) = 365 * y + y div 4 - y div 100 + y div 400"
    by (simp only: days_before_year_def Let_def add_diff_cancel_right')
  ultimately show ?thesis
    unfolding days_before_year_def Let_def by (rule year_sum_step) (rule leap_of_bool)
qed

lemma days_before_year_mono: "y \<le> y' \<Longrightarrow> days_before_year y \<le> days_before_year y'"
  by (induction y' rule: int_ge_induct) (auto simp: days_before_year_succ)

lemma days_before_month_step:
  assumes "1 \<le> m" and "m \<le> 12"
  shows "days_before_month y (m + 1) = days_before_month y m + days_in y m"
proof -
  have "nat m = Suc (nat (m - 1))" and "nat (m - 1) < length (month_lengths y)"
    using assms by (auto simp: month_lengths_def)
  then show ?thesis
    by (simp add: days_before_month_def days_in_def take_Suc_conv_app_nth)
qed

lemma days_before_month_mono:
  assumes "1 \<le> m" and "m \<le> m'"
  shows "days_before_month y m \<le> days_before_month y m'"
proof -
  have k: "nat (m' - 1) = nat (m - 1) + nat (m' - m)"
    using assms by linarith
  have "0 \<le> sum_list (take (nat (m' - m)) (drop (nat (m - 1)) (month_lengths y)))"
    by (intro sum_list_nonneg) (auto dest!: in_set_takeD in_set_dropD simp: month_lengths_def split: if_splits)
  then show ?thesis
    by (simp add: days_before_month_def k take_add)
qed

lemma days_before_month_13: "days_before_month y 13 = 365 + of_bool (leap y)"
  by (simp add: days_before_month_def month_lengths_def)

definition valid_date :: "int \<Rightarrow> int \<Rightarrow> int \<Rightarrow> bool" where
  "valid_date y m d \<longleftrightarrow> 1 \<le> m \<and> m \<le> 12 \<and> 1 \<le> d \<and> d \<le> days_in y m"

lemma date_days_valid:
  "1 \<le> m \<Longrightarrow> m \<le> 12 \<Longrightarrow> date_days y m d = days_before_year y + days_before_month y m + d - 1"
  by (simp add: date_days_def div_pos_pos_trivial)

lemma valid_date_in_year:
  assumes "valid_date y m d"
  shows "days_before_year y \<le> date_days y m d" and "date_days y m d < days_before_year (y + 1)"
proof -
  have m: "1 \<le> m" "m \<le> 12" "1 \<le> d" "d \<le> days_in y m"
    using assms by (auto simp: valid_date_def)
  have "0 \<le> days_before_month y m"
    using days_before_month_mono [of 1 m y] m by (simp add: days_before_month_def)
  with m show "days_before_year y \<le> date_days y m d"
    by (simp add: date_days_valid)
  have "days_before_month y (m + 1) \<le> days_before_month y 13"
    using m by (intro days_before_month_mono) auto
  with m show "date_days y m d < days_before_year (y + 1)"
    by (simp add: date_days_valid days_before_month_step days_before_month_13 days_before_year_succ)
qed

lemma valid_date_year_le:
  assumes "valid_date y m d" and "valid_date y' m' d'" and "date_days y m d = date_days y' m' d'"
  shows "y' \<le> y"
  using valid_date_in_year [OF assms(1)] valid_date_in_year [OF assms(2)] assms(3)
    days_before_year_mono [of "y + 1" y'] by linarith

lemma valid_date_month_le:
  assumes "valid_date y m d" and "valid_date y m' d'" and "date_days y m d = date_days y m' d'"
  shows "m' \<le> m"
proof (rule ccontr)
  assume "\<not> m' \<le> m"
  then have "days_before_month y (m + 1) \<le> days_before_month y m'"
    using assms(1) by (intro days_before_month_mono) (auto simp: valid_date_def)
  with assms days_before_month_step [of m y] show False
    by (auto simp: valid_date_def date_days_valid)
qed

lemma date_days_inj:
  assumes "valid_date y m d" and "valid_date y' m' d'" and "date_days y m d = date_days y' m' d'"
  shows "y = y' \<and> m = m' \<and> d = d'"
proof -
  have y: "y = y'"
    using valid_date_year_le [OF assms] valid_date_year_le [OF assms(2,1) assms(3) [symmetric]] by simp
  have "m = m'"
    using valid_date_month_le assms unfolding y by (metis order_antisym)
  with assms y show ?thesis
    by (auto simp: valid_date_def date_days_valid)
qed

lemma civil_valid: "civil n = (y, m, d) \<Longrightarrow> valid_date y m d"
  by (simp add: civil_correct valid_date_def)

lemma civil_date_days:
  assumes "valid_date y m d"
  shows "civil (date_days y m d) = (y, m, d)"
proof (cases "civil (date_days y m d)")
  case (fields y' m' d')
  from date_days_inj [OF assms civil_valid [OF fields]] civil_correct(1) [OF fields]
  have "y = y' \<and> m = m' \<and> d = d'" by simp
  with fields show ?thesis by simp
qed

lemma date_days_add: "date_days y m (d + k) = date_days y m d + k"
  by (simp add: date_days_def Let_def)

lemma date_days_next_month:
  assumes "1 \<le> m" and "m \<le> 12"
  shows "date_days y (m + 1) 1 = date_days y m 1 + days_in y m"
proof (cases "m = 12")
  case True
  have "date_days y (12 + 1) 1 = days_before_year (y + 1)"
    by (simp add: date_days_def days_before_month_def)
  moreover have "days_before_month y 12 + days_in y 12 = days_before_month y 13"
    using days_before_month_step [of 12 y] by simp
  ultimately show ?thesis
    using True by (simp add: date_days_valid days_before_year_succ days_before_month_13)
next
  case False
  with assms show ?thesis
    by (simp add: date_days_valid days_before_month_step)
qed

section \<open>Calendar operations of \<open>Time\<close>\<close>

definition day_of :: "time \<Rightarrow> int" where
  "day_of t = t div day_ns"

text \<open>\<open>time.Date(y, m, d, 0, 0, 0, 0, time.UTC)\<close>\<close>

definition Date :: "int \<Rightarrow> int \<Rightarrow> int \<Rightarrow> time" where
  "Date y m d = date_days y m d * day_ns"

definition AddDate :: "time \<Rightarrow> int \<Rightarrow> int \<Rightarrow> int \<Rightarrow> time" where
  "AddDate t years months days =
     (let (y, m, d) = civil (day_of t)
      in Date (y + years) (m + months) (d + days) + t mod day_ns)"

lemma day_of_Date [simp]: "day_of (Date y m d) = date_days y m d"
  by (simp add: day_of_def Date_def)

lemma AddDate_days: "AddDate t 0 0 k = t + k * day_ns"
proof (cases "civil (day_of t)")
  case (fields y m d)
  then have "date_days y m (d + k) = t div day_ns + k"
    by (simp add: date_days_add civil_correct(1) day_of_def)
  then show ?thesis
    by (simp add: AddDate_def fields Date_def algebra_simps)
qed

section \<open>The DateOnly layout\<close>

definition digit :: "int \<Rightarrow> char" where
  "digit n = char_of (nat (48 + n))"

definition digit_val :: "char \<Rightarrow> int" where
  "digit_val c = int (of_char c) - 48"

fun zpad :: "nat \<Rightarrow> int \<Rightarrow> string" where
  "zpad 0 n = []"
| "zpad (Suc w) n = zpad w (n div 10) @ [digit (n mod 10)]"

function itoa :: "int \<Rightarrow> string" where
  "itoa n = (if n < 10 then [digit n] else itoa (n div 10) @ [digit (n mod 10)])"
  by pat_completeness auto
termination
  by (relation "measure nat") auto

declare itoa.simps [simp del]

text \<open>\<open>appendInt\<close>: at least \<open>w\<close> digits, with a sign for negative numbers.\<close>

definition append_int :: "nat \<Rightarrow> int \<Rightarrow> string" where
  "append_int w n =
     (if n < 0 then ''-'' else []) @ (let a = \<bar>n\<bar> in if a < 10 ^ w then zpad w a else itoa a)"

definition FormatDateOnly :: "time \<Rightarrow> string" where
  "FormatDateOnly t =
     (let (y, m, d) = civil (day_of t)
      in append_int 4 y @ ''-'' @ append_int 2 m @ ''-'' @ append_int 2 d)"

definition num :: "string \<Rightarrow> int option" where
  "num s = (if s \<noteq> [] \<and> list_all is_digit s
            then Some (foldl (\<lambda>n c. 10 * n + digit_val c) 0 s) else None)"

text \<open>
  \<open>time.Parse(time.DateOnly, s)\<close>: four digits, a hyphen, two digits, a hyphen, two digits and
  nothing else; the month and the day must exist.
\<close>

definition ParseDateOnly :: "string \<Rightarrow> time option" where
  "ParseDateOnly s =
     (if length s = 10 \<and> s ! 4 = CHR ''-'' \<and> s ! 7 = CHR ''-''
      then (case (num (take 4 s), num (take 2 (drop 5 s)), num (drop 8 s)) of
              (Some y, Some m, Some d) \<Rightarrow>
                if valid_date y m d then Some (Date y m d) else None
            | _ \<Rightarrow> None)
      else None)"

lemma digit_range:
  assumes "0 \<le> n" and "n \<le> 9"
  shows "is_digit (digit n)" and "digit_val (digit n) = n"
proof -
  have "of_char (digit n) = nat (48 + n)"
    using assms unfolding digit_def by (subst of_char_of) simp
  then show "is_digit (digit n)" and "digit_val (digit n) = n"
    using assms by (simp_all add: is_digit_def digit_val_def less_eq_char_def le_nat_iff nat_le_iff)
qed

lemma num_digits:
  assumes "\<And>x. x \<in> set ns \<Longrightarrow> 0 \<le> x \<and> x \<le> 9" and "ns \<noteq> []"
  shows "num (map digit ns) = Some (foldl (\<lambda>n x. 10 * n + x) 0 ns)"
proof -
  have "foldl (\<lambda>n c. 10 * n + digit_val c) k (map digit ns) = foldl (\<lambda>n x. 10 * n + x) k ns" for k
    using assms(1) by (induction ns arbitrary: k) (simp_all add: digit_range)
  with assms show ?thesis
    by (auto simp: num_def list_all_iff digit_range)
qed

lemma mod10_bounds: "0 \<le> k mod 10 \<and> k mod 10 \<le> (9::int)"
  using pos_mod_bound [of 10 k] pos_mod_sign [of 10 k] by linarith

lemma num_zpad2:
  assumes "0 \<le> n" and "n < 100"
  shows "num (zpad 2 n) = Some n" and "length (zpad 2 n) = 2"
proof -
  let ?ns = "[n div 10 mod 10, n mod 10]"
  have z: "zpad 2 n = map digit ?ns"
    by (simp add: eval_nat_numeral)
  have "n div 10 mod 10 = n div 10"
    using assms by simp
  then have "foldl (\<lambda>n x. 10 * n + x) 0 ?ns = n"
    by (simp only: foldl_Nil foldl_Cons mult_div_mod_eq mult_zero_right add_0)
  moreover have "num (map digit ?ns) = Some (foldl (\<lambda>n x. 10 * n + x) 0 ?ns)"
    by (rule num_digits) (auto simp only: mod10_bounds list.set insert_iff empty_iff)
  ultimately show "num (zpad 2 n) = Some n" and "length (zpad 2 n) = 2"
    unfolding z by (simp_all only: list.map list.size)
qed

lemma num_zpad4:
  assumes "0 \<le> n" and "n < 10000"
  shows "num (zpad 4 n) = Some n" and "length (zpad 4 n) = 4"
proof -
  let ?ns = "[n div 10 div 10 div 10 mod 10, n div 10 div 10 mod 10, n div 10 mod 10, n mod 10]"
  have z: "zpad 4 n = map digit ?ns"
    by (simp add: eval_nat_numeral)
  have "n div 10 div 10 div 10 mod 10 = n div 10 div 10 div 10"
    using assms by simp
  then have "foldl (\<lambda>n x. 10 * n + x) 0 ?ns = n"
    by (simp only: foldl_Nil foldl_Cons mult_div_mod_eq mult_zero_right add_0)
  moreover have "num (map digit ?ns) = Some (foldl (\<lambda>n x. 10 * n + x) 0 ?ns)"
    by (rule num_digits) (auto simp only: mod10_bounds list.set insert_iff empty_iff)
  ultimately show "num (zpad 4 n) = Some n" and "length (zpad 4 n) = 4"
    unfolding z by (simp_all only: list.map list.size)
qed

lemma ParseDateOnly_Format:
  assumes "civil (day_of t) = (y, m, d)" and "0 \<le> y" and "y \<le> 9999"
  shows "ParseDateOnly (FormatDateOnly t) = Some (day_of t * day_ns)"
proof -
  note v = civil_valid [OF assms(1)]
  then have m: "0 \<le> m" "m < 100" and d: "0 \<le> d" "d < 100"
    using month_lengths_nth [of m y] by (auto simp: valid_date_def)
  have y: "0 \<le> y" "y < 10000"
    using assms by auto
  have f: "FormatDateOnly t = zpad 4 y @ ''-'' @ zpad 2 m @ ''-'' @ zpad 2 d"
    using y m d by (simp add: FormatDateOnly_def assms(1) append_int_def)
  show ?thesis
    unfolding f ParseDateOnly_def
    using num_zpad4 [OF y] num_zpad2 [OF m] num_zpad2 [OF d] v
    by (simp add: nth_append Date_def civil_correct(1) [OF assms(1)])
qed

end
