(* ===== verification/Go_Strconv.thy ===== *)
theory Go_Strconv
  imports Go_Float Go_Time
begin

text \<open>
  \<open>strconv.ParseFloat(s, 64)\<close>: the special names, decimal and hexadecimal literals with
  optional underscores between digits, and the range error when the correctly rounded value
  does not fit. The number is read exactly as a rational and rounded once.
\<close>

datatype num_error = ErrSyntax | ErrRange

text \<open>Signs and the special names, compared without case.\<close>

fun split_sign :: "string \<Rightarrow> bool \<times> string" where
  "split_sign (CHR ''-'' # s) = (True, s)"
| "split_sign (CHR ''+'' # s) = (False, s)"
| "split_sign s = (False, s)"

definition special :: "string \<Rightarrow> float64 option" where
  "special s =
     (let (neg, t) = split_sign s; l = map lower_char t
      in if l = ''inf'' \<or> l = ''infinity'' then Some (F_Inf neg)
         else if map lower_char s = ''nan'' then Some F_NaN else None)"

text \<open>\<open>underscoreOK\<close>: every underscore follows a digit (or the base prefix) and precedes one.\<close>

datatype last_char = L_Start | L_Digit | L_Under | L_Other

definition hex_digit :: "char \<Rightarrow> bool" where
  "hex_digit c \<longleftrightarrow> CHR ''a'' \<le> lower_char c \<and> lower_char c \<le> CHR ''f''"

fun underscore_scan :: "bool \<Rightarrow> last_char \<Rightarrow> string \<Rightarrow> bool" where
  "underscore_scan hex l [] \<longleftrightarrow> l \<noteq> L_Under"
| "underscore_scan hex l (c # s) \<longleftrightarrow>
     (if is_digit c \<or> hex \<and> hex_digit c then underscore_scan hex L_Digit s
      else if c = CHR ''_'' then l = L_Digit \<and> underscore_scan hex L_Under s
      else l \<noteq> L_Under \<and> underscore_scan hex L_Other s)"

definition underscore_ok :: "string \<Rightarrow> bool" where
  "underscore_ok s =
     (let t = snd (split_sign s)
      in if 2 \<le> length t \<and> t ! 0 = CHR ''0'' \<and> lower_char (t ! 1) \<in> set ''box''
         then underscore_scan (lower_char (t ! 1) = CHR ''x'') L_Digit (drop 2 t)
         else underscore_scan False L_Start t)"

text \<open>
  The mantissa loop: the digits read so far as an integer, how many of them stand after the
  point, whether a point and a digit were seen.
\<close>

fun scan_mantissa :: "int \<Rightarrow> string \<Rightarrow> bool \<Rightarrow> bool \<Rightarrow> int \<Rightarrow> int \<Rightarrow> (bool \<times> int \<times> int) \<times> string" where
  "scan_mantissa base [] sawdot sawdigits mant fd = ((sawdigits, mant, fd), [])"
| "scan_mantissa base (c # s) sawdot sawdigits mant fd =
     (if c = CHR ''_'' then scan_mantissa base s sawdot sawdigits mant fd
      else if c = CHR ''.'' then
        (if sawdot then ((sawdigits, mant, fd), c # s)
         else scan_mantissa base s True sawdigits mant fd)
      else if is_digit c then
        scan_mantissa base s sawdot True (base * mant + digit_val c) (fd + of_bool sawdot)
      else if base = 16 \<and> hex_digit c then
        scan_mantissa base s sawdot True (base * mant + (int (of_char (lower_char c)) - 87))
          (fd + of_bool sawdot)
      else ((sawdigits, mant, fd), c # s))"

text \<open>The exponent digits; the accumulator stops growing at 10000, as in the source of \<open>strconv\<close>.\<close>

fun scan_exponent :: "string \<Rightarrow> int \<Rightarrow> int option" where
  "scan_exponent [] e = Some e"
| "scan_exponent (c # s) e =
     (if c = CHR ''_'' then scan_exponent s e
      else if is_digit c then scan_exponent s (if e < 10000 then 10 * e + digit_val c else e)
      else None)"

definition read_exponent :: "string \<Rightarrow> int option" where
  "read_exponent s =
     (let (neg, t) = split_sign s
      in case t of
           [] \<Rightarrow> None
         | c # _ \<Rightarrow> if is_digit c
                    then map_option (\<lambda>e. if neg then - e else e) (scan_exponent t 0)
                    else None)"

definition read_float :: "string \<Rightarrow> rat option" where
  "read_float s =
     (let (neg, t) = split_sign s;
          hex = (2 < length t \<and> t ! 0 = CHR ''0'' \<and> lower_char (t ! 1) = CHR ''x'');
          base = (if hex then 16 else 10);
          ((sawdigits, mant, fd), rest) =
            scan_mantissa base (if hex then drop 2 t else t) False False 0 0;
          value = (\<lambda>e. (if neg then - 1 else 1) * of_int mant / (of_int base) powi fd
                       * (if hex then 2 else 10) powi e)
      in if \<not> sawdigits \<or> \<not> underscore_ok s then None
         else case rest of
                [] \<Rightarrow> if hex then None else Some (value 0)
              | c # r \<Rightarrow> if lower_char c = (if hex then CHR ''p'' else CHR ''e'')
                         then map_option value (read_exponent r) else None)"

definition ParseFloat :: "string \<Rightarrow> num_error + float64" where
  "ParseFloat s =
     (case special s of
        Some f \<Rightarrow> Inr f
      | None \<Rightarrow>
          (case read_float s of
             None \<Rightarrow> Inl ErrSyntax
           | Some q \<Rightarrow> let f = f64_of_rat q in if IsInf f then Inl ErrRange else Inr f))"

lemma ParseFloat_empty: "ParseFloat [] = Inl ErrSyntax"
  by (simp add: ParseFloat_def special_def read_float_def underscore_ok_def)

end
