(* ===== verification/Cost_Domain.thy ===== *)
theory Cost_Domain
  imports Go_Errors Go_Strconv
begin

text \<open>
  Packages \<open>internal/domain/identity\<close> and \<open>internal/domain/cost\<close>: collector identities, money,
  billing periods, dimensions, providers and bases, the cost and forecast records, and the
  ordered cost snapshot. String types of the source are \<^typ>\<open>string\<close>.
\<close>

section \<open>identity.go\<close>

type_synonym TargetID = string

record CollectorID =
  id_Target :: TargetID
  id_Name :: string

definition CollectorID_Valid :: "CollectorID \<Rightarrow> bool" where
  "CollectorID_Valid cid \<longleftrightarrow>
     TrimSpace (id_Target cid) = id_Target cid \<and> id_Target cid \<noteq> '''' \<and>
     TrimSpace (id_Name cid) = id_Name cid \<and> id_Name cid \<noteq> ''''"

definition CollectorID_String :: "CollectorID \<Rightarrow> string" where
  "CollectorID_String cid = id_Target cid @ ''/'' @ id_Name cid"

section \<open>money.go\<close>

definition ErrInvalidAmount :: go_error where
  "ErrInvalidAmount = Sentinel ''invalid monetary amount''"
definition ErrEmptyCurrency :: go_error where
  "ErrEmptyCurrency = Sentinel ''currency must not be empty''"
definition ErrMismatchedCurrency :: go_error where
  "ErrMismatchedCurrency = Sentinel ''currency mismatch''"

record Money =
  amount :: float64
  currency :: string

text \<open>The zero value \<open>Money{}\<close>.\<close>

definition zero_money :: Money where
  "zero_money = \<lparr> amount = F_Fin 0, currency = '''' \<rparr>"

definition NewMoney :: "float64 \<Rightarrow> string \<Rightarrow> go_error + Money" where
  "NewMoney a c =
     (if IsNaN a \<or> IsInf a then Inl ErrInvalidAmount
      else let c = TrimSpace c
           in if c = '''' then Inl ErrEmptyCurrency
              else Inr \<lparr> amount = a, currency = c \<rparr>)"

definition num_error_text :: "num_error \<Rightarrow> string" where
  "num_error_text e = (case e of ErrSyntax \<Rightarrow> ''invalid syntax'' | ErrRange \<Rightarrow> ''value out of range'')"

definition ParseMoney :: "string \<Rightarrow> string \<Rightarrow> go_error + Money" where
  "ParseMoney a c =
     (case ParseFloat (TrimSpace a) of
        Inl e \<Rightarrow> Inl (Wrapped (num_error_text e) ErrInvalidAmount)
      | Inr v \<Rightarrow> NewMoney v c)"

definition Money_Add :: "Money \<Rightarrow> Money \<Rightarrow> go_error + Money" where
  "Money_Add money other =
     (if currency money \<noteq> currency other then Inl ErrMismatchedCurrency
      else let sum = f64_add (amount money) (amount other)
           in if IsNaN sum \<or> IsInf sum then Inl ErrInvalidAmount
              else Inr \<lparr> amount = sum, currency = currency money \<rparr>)"

text \<open>What every constructed amount satisfies.\<close>

definition money_wf :: "Money \<Rightarrow> bool" where
  "money_wf m \<longleftrightarrow> f64_finite (amount m) \<and> trimmed (currency m) \<and> currency m \<noteq> ''''"

lemma NewMoney_wf: "NewMoney a c = Inr m \<Longrightarrow> money_wf m \<and> amount m = a \<and> currency m = TrimSpace c"
  by (auto simp: NewMoney_def money_wf_def f64_finite_def TrimSpace_trimmed Let_def split: if_splits)

lemma NewMoney_ok:
  "f64_finite a \<Longrightarrow> TrimSpace c \<noteq> '''' \<Longrightarrow> NewMoney a c = Inr \<lparr> amount = a, currency = TrimSpace c \<rparr>"
  by (auto simp: NewMoney_def f64_finite_def)

lemma ParseMoney_wf: "ParseMoney a c = Inr m \<Longrightarrow> money_wf m \<and> currency m = TrimSpace c"
  by (auto simp: ParseMoney_def dest: NewMoney_wf split: sum.splits)

lemma Money_Add_wf:
  "Money_Add m n = Inr r \<Longrightarrow> money_wf m \<Longrightarrow> money_wf r \<and> currency r = currency m \<and> currency n = currency m"
  by (auto simp: Money_Add_def money_wf_def f64_finite_def Let_def split: if_splits)

lemma f64_add_comm: "f64_add x y = f64_add y x"
  by (cases x; cases y) (simp_all add: add.commute)

section \<open>period.go\<close>

definition ErrInvalidPeriod :: go_error where
  "ErrInvalidPeriod = Sentinel ''period start must precede end''"

record Period =
  p_start :: "time"
  p_end :: "time"

text \<open>\<open>time.Before\<close> compares instants; an instant is already independent of its location.\<close>

definition NewPeriod :: "time \<Rightarrow> time \<Rightarrow> go_error + Period" where
  "NewPeriod s e =
     (if \<not> s < e then Inl ErrInvalidPeriod else Inr \<lparr> p_start = s, p_end = e \<rparr>)"

definition DayContaining :: "time \<Rightarrow> Period" where
  "DayContaining reference =
     (let (y, m, d) = civil (day_of reference); s = Date y m d
      in \<lparr> p_start = s, p_end = AddDate s 0 0 1 \<rparr>)"

definition MonthContaining :: "time \<Rightarrow> Period" where
  "MonthContaining reference =
     (let (y, m, d) = civil (day_of reference); s = Date y m 1
      in \<lparr> p_start = s, p_end = AddDate s 0 1 0 \<rparr>)"

definition in_period :: "time \<Rightarrow> Period \<Rightarrow> bool" where
  "in_period t p \<longleftrightarrow> p_start p \<le> t \<and> t < p_end p"

lemma day_bounds: "day_of t * day_ns \<le> t \<and> t < (day_of t + 1) * day_ns"
proof -
  have t: "day_of t * day_ns + t mod day_ns = t" by (simp add: day_of_def)
  have "0 \<le> t mod day_ns" and "t mod day_ns < day_ns" by simp_all
  then show ?thesis using t by (simp only: distrib_right) linarith
qed

lemma DayContaining_eq:
  "DayContaining t = \<lparr> p_start = day_of t * day_ns, p_end = (day_of t + 1) * day_ns \<rparr>"
proof (cases "civil (day_of t)")
  case (fields y m d)
  then have "Date y m d = day_of t * day_ns" by (simp only: Date_def civil_correct(1))
  then show ?thesis
    by (simp only: DayContaining_def fields AddDate_days Let_def prod.case distrib_right)
qed

lemma MonthContaining_eq:
  assumes "civil (day_of t) = (y, m, d)"
  shows "MonthContaining t =
    \<lparr> p_start = date_days y m 1 * day_ns, p_end = (date_days y m 1 + days_in y m) * day_ns \<rparr>"
proof -
  have v: "valid_date y m d" using assms by (rule civil_valid)
  then have m: "1 \<le> m" "m \<le> 12" and "valid_date y m 1" by (auto simp: valid_date_def)
  then have c: "civil (date_days y m 1) = (y, m, 1)" by (intro civil_date_days)
  have "AddDate (Date y m 1) 0 1 0 = (date_days y m 1 + days_in y m) * day_ns"
    using date_days_next_month [OF m] c by (simp add: AddDate_def Date_def day_of_def)
  then show ?thesis by (simp add: MonthContaining_def assms Date_def Let_def)
qed

lemma MonthContaining_day:
  assumes "civil (day_of t) = (y, m, d)"
  shows "day_of t = date_days y m 1 + (d - 1)" and "1 \<le> d" and "d \<le> days_in y m"
  using civil_correct [OF assms] date_days_add [of y m 1 "d - 1"] by simp_all

lemma MonthContaining_contains: "in_period t (MonthContaining t)"
proof (cases "civil (day_of t)")
  case (fields y m d)
  note day = MonthContaining_day [OF fields]
  let ?s = "date_days y m 1"
  have "?s * day_ns \<le> day_of t * day_ns" using day by simp
  moreover have "(day_of t + 1) * day_ns \<le> (?s + days_in y m) * day_ns" using day by simp
  ultimately show ?thesis
    using day_bounds [of t] MonthContaining_eq [OF fields] by (simp add: in_period_def)
qed

lemma Day_in_Month:
  "p_start (MonthContaining t) \<le> p_start (DayContaining t) \<and>
   p_end (DayContaining t) \<le> p_end (MonthContaining t)"
proof (cases "civil (day_of t)")
  case (fields y m d)
  note day = MonthContaining_day [OF fields]
  show ?thesis using day MonthContaining_eq [OF fields] by (simp add: DayContaining_eq)
qed

section \<open>dimension.go, provider.go\<close>

definition DimensionTotal :: string where "DimensionTotal = ''total''"
definition DimensionService :: string where "DimensionService = ''service''"
definition DimensionRegion :: string where "DimensionRegion = ''region''"
definition DimensionAccount :: string where "DimensionAccount = ''account''"

definition ErrInvalidDimension :: go_error where
  "ErrInvalidDimension = Sentinel ''invalid cost dimension''"

record Dimension =
  kind :: string
  dvalue :: string

definition NewDimension :: "string \<Rightarrow> string \<Rightarrow> go_error + Dimension" where
  "NewDimension k raw =
     (let v = TrimSpace raw
      in if k = DimensionTotal then
           if v \<noteq> '''' then Inl (Wrapped ''total must not have a value'' ErrInvalidDimension)
           else Inr \<lparr> kind = k, dvalue = v \<rparr>
         else if k = DimensionRegion then
           Inr \<lparr> kind = k, dvalue = (if v = '''' then ''global'' else v) \<rparr>
         else if k = DimensionService \<or> k = DimensionAccount then
           if v = '''' then Inl (Wrapped ''value must not be empty'' ErrInvalidDimension)
           else Inr \<lparr> kind = k, dvalue = v \<rparr>
         else Inl (Wrapped ''unsupported kind'' ErrInvalidDimension))"

lemmas dimension_kinds = DimensionTotal_def DimensionService_def DimensionRegion_def DimensionAccount_def

definition dimension_wf :: "Dimension \<Rightarrow> bool" where
  "dimension_wf d \<longleftrightarrow>
     trimmed (dvalue d) \<and>
     (kind d = DimensionTotal \<and> dvalue d = '''' \<or>
      kind d \<in> {DimensionService, DimensionRegion, DimensionAccount} \<and> dvalue d \<noteq> '''')"

lemma trimmed_global: "trimmed ''global''"
  by (simp add: trimmed_def no_prefix_def space_runes_def HasPrefix_def)

lemma NewDimension_wf: "NewDimension k v = Inr d \<Longrightarrow> dimension_wf d \<and> kind d = k"
  using TrimSpace_trimmed [of v] trimmed_global
  by (auto simp: NewDimension_def dimension_wf_def Let_def split: if_splits)

lemma NewDimension_again: "dimension_wf d \<Longrightarrow> NewDimension (kind d) (dvalue d) = Inr d"
  by (auto simp: dimension_wf_def NewDimension_def dimension_kinds TrimSpace_id_iff [THEN iffD2])

definition ProviderCostExplorer :: string where "ProviderCostExplorer = ''cost_explorer''"
definition ProviderCURAthena :: string where "ProviderCURAthena = ''cur_athena''"

definition Provider_Valid :: "string \<Rightarrow> bool" where
  "Provider_Valid v \<longleftrightarrow> v = ProviderCostExplorer \<or> v = ProviderCURAthena"

definition BasisUnblended :: string where "BasisUnblended = ''unblended''"
definition BasisAmortized :: string where "BasisAmortized = ''amortized''"
definition BasisNet :: string where "BasisNet = ''net''"

definition Basis_Valid :: "string \<Rightarrow> bool" where
  "Basis_Valid v \<longleftrightarrow> v = BasisUnblended \<or> v = BasisAmortized \<or> v = BasisNet"

lemmas provider_names = ProviderCostExplorer_def ProviderCURAthena_def
lemmas basis_names = BasisUnblended_def BasisAmortized_def BasisNet_def

section \<open>snapshot.go of package cost\<close>

definition WindowDaily :: string where "WindowDaily = ''daily''"
definition WindowMonthToDate :: string where "WindowMonthToDate = ''month_to_date''"

record Cost =
  c_Target :: TargetID
  c_Provider :: string
  c_Basis :: string
  c_Window :: string
  c_Period :: Period
  c_Dimension :: Dimension
  c_Amount :: Money

record Forecast =
  f_Target :: TargetID
  f_Provider :: string
  f_Basis :: string
  f_Period :: Period
  f_Mean :: Money
  f_LowerBound :: Money
  f_UpperBound :: Money

definition costLess :: "Cost \<Rightarrow> Cost \<Rightarrow> bool" where
  "costLess l r =
     (if c_Provider l \<noteq> c_Provider r then c_Provider l < c_Provider r
      else if c_Basis l \<noteq> c_Basis r then c_Basis l < c_Basis r
      else if c_Window l \<noteq> c_Window r then c_Window l < c_Window r
      else if kind (c_Dimension l) \<noteq> kind (c_Dimension r) then kind (c_Dimension l) < kind (c_Dimension r)
      else if dvalue (c_Dimension l) \<noteq> dvalue (c_Dimension r)
      then dvalue (c_Dimension l) < dvalue (c_Dimension r)
      else if currency (c_Amount l) \<noteq> currency (c_Amount r)
      then currency (c_Amount l) < currency (c_Amount r)
      else p_start (c_Period l) < p_start (c_Period r))"

record CostSnapshot =
  cs_costs :: "Cost list"
  cs_forecasts :: "Forecast list"

definition NewSnapshot :: "Cost list \<Rightarrow> Forecast list \<Rightarrow> CostSnapshot" where
  "NewSnapshot costs forecasts =
     \<lparr> cs_costs = slice_stable costLess costs,
       cs_forecasts = slice_stable (\<lambda>l r. p_start (f_Period l) < p_start (f_Period r)) forecasts \<rparr>"

definition MergeSnapshots :: "CostSnapshot list \<Rightarrow> CostSnapshot" where
  "MergeSnapshots parts =
     (let (costs, forecasts) =
        foldl (\<lambda>(cs, fs) part. (cs @ cs_costs part, fs @ cs_forecasts part)) ([], []) parts
      in NewSnapshot costs forecasts)"

text \<open>\<open>ForEachCost\<close> and \<open>ForEachForecast\<close>: a visitor threads the state it mutates; nil does nothing.\<close>

definition ForEachCost :: "CostSnapshot \<Rightarrow> ('s \<Rightarrow> Cost \<Rightarrow> 's) option \<Rightarrow> 's \<Rightarrow> 's" where
  "ForEachCost snap visit s = (case visit of None \<Rightarrow> s | Some f \<Rightarrow> foldl f s (cs_costs snap))"

definition ForEachForecast :: "CostSnapshot \<Rightarrow> ('s \<Rightarrow> Forecast \<Rightarrow> 's) option \<Rightarrow> 's \<Rightarrow> 's" where
  "ForEachForecast snap visit s = (case visit of None \<Rightarrow> s | Some f \<Rightarrow> foldl f s (cs_forecasts snap))"

type_synonym cost_order = "string \<times> string \<times> string \<times> string \<times> string \<times> string \<times> int"

definition cost_key :: "Cost \<Rightarrow> cost_order" where
  "cost_key c = (c_Provider c, c_Basis c, c_Window c, kind (c_Dimension c), dvalue (c_Dimension c),
                 currency (c_Amount c), p_start (c_Period c))"

text \<open>The comparison cascade is the lexicographic order of the key.\<close>

lemma costLess_key: "costLess l r \<longleftrightarrow> cost_key l < cost_key r"
  by (simp only: costLess_def cost_key_def lex_cascade)

interpretation cost_order: slice_order costLess cost_key
  by unfold_locales (rule costLess_key)

interpretation cost_forecast_order:
  slice_order "\<lambda>l r. p_start (f_Period l) < p_start (f_Period r)" "\<lambda>f. p_start (f_Period f)"
  by unfold_locales (rule refl)

lemma MergeSnapshots_eq:
  "MergeSnapshots parts =
     NewSnapshot (concat (map cs_costs parts)) (concat (map cs_forecasts parts))"
proof -
  have "foldl (\<lambda>(cs, fs) part. (cs @ cs_costs part, fs @ cs_forecasts part)) (a, b) parts =
        (a @ concat (map cs_costs parts), b @ concat (map cs_forecasts parts))" for a b
    by (induction parts arbitrary: a b) simp_all
  then show ?thesis by (simp add: MergeSnapshots_def)
qed

end
