(* ===== verification/Domain_Records.thy ===== *)
theory Domain_Records
  imports Cost_Domain
begin

text \<open>
  Packages \<open>internal/domain/budget\<close>, \<open>organization\<close>, \<open>commitment\<close>, \<open>anomaly\<close> and \<open>tagcost\<close>:
  the records beside costs and forecasts, each with the \<open>Sort\<close> of its package. Every comparison
  is the lexicographic order of a key, so each sort is an instance of \<open>slice_order\<close>.
\<close>

section \<open>budget.go\<close>

record Budget =
  b_Target :: TargetID
  b_Name :: string
  b_Type :: string
  b_TimeUnit :: string
  b_Limit :: Money
  b_Actual :: Money
  b_Forecasted :: Money
  b_HasActual :: bool
  b_HasForecasted :: bool

definition budget_less :: "Budget \<Rightarrow> Budget \<Rightarrow> bool" where
  "budget_less l r =
     (if b_Target l \<noteq> b_Target r then b_Target l < b_Target r else b_Name l < b_Name r)"

definition Budget_Sort :: "Budget list \<Rightarrow> Budget list" where
  "Budget_Sort = slice_stable budget_less"

interpretation budget_order: slice_order budget_less "\<lambda>b. (b_Target b, b_Name b)"
  by unfold_locales (simp only: budget_less_def lex_cascade)

section \<open>account.go\<close>

record Account =
  a_Target :: TargetID
  a_AccountID :: string
  a_Name :: string
  a_Status :: string

definition account_less :: "Account \<Rightarrow> Account \<Rightarrow> bool" where
  "account_less l r =
     (if a_Target l \<noteq> a_Target r then a_Target l < a_Target r else a_AccountID l < a_AccountID r)"

definition Account_Sort :: "Account list \<Rightarrow> Account list" where
  "Account_Sort = slice_stable account_less"

interpretation account_order: slice_order account_less "\<lambda>a. (a_Target a, a_AccountID a)"
  by unfold_locales (simp only: account_less_def lex_cascade)

section \<open>commitment.go\<close>

definition TypeSavingsPlan :: string where "TypeSavingsPlan = ''savings_plan''"
definition TypeReservation :: string where "TypeReservation = ''reservation''"

definition Type_Valid :: "string \<Rightarrow> bool" where
  "Type_Valid v \<longleftrightarrow> v = TypeSavingsPlan \<or> v = TypeReservation"

record Commitment =
  m_Target :: TargetID
  m_Type :: string
  m_TimeUnit :: string
  m_UtilizationRatio :: float64
  m_CoverageRatio :: float64
  m_UnusedHours :: float64
  m_CoveredSpend :: Money
  m_OnDemandCost :: Money
  m_NetSavings :: Money
  m_HasUtilization :: bool
  m_HasCoverage :: bool
  m_HasUnusedHours :: bool
  m_HasCoveredSpend :: bool
  m_HasOnDemandCost :: bool
  m_HasNetSavings :: bool

definition commitment_less :: "Commitment \<Rightarrow> Commitment \<Rightarrow> bool" where
  "commitment_less l r =
     (if m_Target l \<noteq> m_Target r then m_Target l < m_Target r
      else if m_Type l \<noteq> m_Type r then m_Type l < m_Type r
      else m_TimeUnit l < m_TimeUnit r)"

definition Commitment_Sort :: "Commitment list \<Rightarrow> Commitment list" where
  "Commitment_Sort = slice_stable commitment_less"

interpretation commitment_order: slice_order commitment_less "\<lambda>m. (m_Target m, m_Type m, m_TimeUnit m)"
  by unfold_locales (simp only: commitment_less_def lex_cascade)

section \<open>anomaly.go\<close>

record Anomaly =
  n_Target :: TargetID
  n_Active :: bool
  n_Count :: int
  n_Impact :: Money
  n_MaxImpact :: Money
  n_LastDetected :: "time"
  n_HasImpact :: bool
  n_HasMaxImpact :: bool

definition anomaly_less :: "Anomaly \<Rightarrow> Anomaly \<Rightarrow> bool" where
  "anomaly_less l r \<longleftrightarrow> n_Target l < n_Target r"

definition Anomaly_Sort :: "Anomaly list \<Rightarrow> Anomaly list" where
  "Anomaly_Sort = slice_stable anomaly_less"

interpretation anomaly_order: slice_order anomaly_less n_Target
  by unfold_locales (rule anomaly_less_def)

section \<open>tagcost.go\<close>

record TagCost =
  t_Target :: TargetID
  t_Provider :: string
  t_Basis :: string
  t_Window :: string
  t_TagKey :: string
  t_TagValue :: string
  t_Amount :: Money

definition tag_less :: "TagCost \<Rightarrow> TagCost \<Rightarrow> bool" where
  "tag_less l r =
     (if t_Target l \<noteq> t_Target r then t_Target l < t_Target r
      else if t_Provider l \<noteq> t_Provider r then t_Provider l < t_Provider r
      else if t_Basis l \<noteq> t_Basis r then t_Basis l < t_Basis r
      else if t_Window l \<noteq> t_Window r then t_Window l < t_Window r
      else if t_TagKey l \<noteq> t_TagKey r then t_TagKey l < t_TagKey r
      else if t_TagValue l \<noteq> t_TagValue r then t_TagValue l < t_TagValue r
      else currency (t_Amount l) < currency (t_Amount r))"

definition TagCost_Sort :: "TagCost list \<Rightarrow> TagCost list" where
  "TagCost_Sort = slice_stable tag_less"

definition tag_order_key :: "TagCost \<Rightarrow> string \<times> string \<times> string \<times> string \<times> string \<times> string \<times> string" where
  "tag_order_key t = (t_Target t, t_Provider t, t_Basis t, t_Window t, t_TagKey t, t_TagValue t,
                      currency (t_Amount t))"

interpretation tag_order: slice_order tag_less tag_order_key
  by unfold_locales (simp only: tag_less_def tag_order_key_def lex_cascade)

end
