(* ===== verification/Aggregate_Snapshot.thy ===== *)
theory Aggregate_Snapshot
  imports Domain_Records
begin

text \<open>
  Package \<open>internal/domain/snapshot\<close>: the multi-domain snapshot, its deterministic construction
  and merge, the series count, and the two validations that guard publication. The \<open>ForEach\<close>
  visitors with a non-nil closure are folds over the stored lists, and slices are their contents;
  theory \<open>Snapshot_Heap\<close> justifies both.
\<close>

definition ErrInvalidSnapshot :: go_error where
  "ErrInvalidSnapshot = Sentinel ''invalid aggregate snapshot''"

record Snapshot =
  costs :: "Cost list"
  forecasts :: "Forecast list"
  budgets :: "Budget list"
  accounts :: "Account list"
  commitments :: "Commitment list"
  anomalies :: "Anomaly list"
  tagCosts :: "TagCost list"

section \<open>Construction\<close>

definition snapshot_cost_less :: "Cost \<Rightarrow> Cost \<Rightarrow> bool" where
  "snapshot_cost_less l r =
     (if c_Target l \<noteq> c_Target r then c_Target l < c_Target r else costLess l r)"

definition snapshot_forecast_less :: "Forecast \<Rightarrow> Forecast \<Rightarrow> bool" where
  "snapshot_forecast_less l r =
     (if f_Target l \<noteq> f_Target r then f_Target l < f_Target r
      else if f_Provider l \<noteq> f_Provider r then f_Provider l < f_Provider r
      else if f_Basis l \<noteq> f_Basis r then f_Basis l < f_Basis r
      else if p_start (f_Period l) \<noteq> p_start (f_Period r)
      then p_start (f_Period l) < p_start (f_Period r)
      else currency (f_Mean l) < currency (f_Mean r))"

definition NewWithData ::
  "Cost list \<Rightarrow> Forecast list \<Rightarrow> Budget list \<Rightarrow> Account list \<Rightarrow> Commitment list \<Rightarrow>
   Anomaly list \<Rightarrow> TagCost list \<Rightarrow> Snapshot" where
  "NewWithData cs fs bs acs cms ans ts =
     \<lparr> costs = slice_stable snapshot_cost_less cs,
       forecasts = slice_stable snapshot_forecast_less fs,
       budgets = Budget_Sort bs, accounts = Account_Sort acs,
       commitments = Commitment_Sort cms, anomalies = Anomaly_Sort ans,
       tagCosts = TagCost_Sort ts \<rparr>"

definition New :: "Cost list \<Rightarrow> Forecast list \<Rightarrow> Budget list \<Rightarrow> Account list \<Rightarrow> Snapshot" where
  "New cs fs bs acs = NewWithData cs fs bs acs [] [] []"

text \<open>The zero value \<open>Snapshot{}\<close>.\<close>

definition empty_snapshot :: Snapshot where
  "empty_snapshot = \<lparr> costs = [], forecasts = [], budgets = [], accounts = [], commitments = [],
                      anomalies = [], tagCosts = [] \<rparr>"

text \<open>One round of the loop of \<open>Merge\<close>: every visitor appends to its slice.\<close>

definition append_part :: "Snapshot \<Rightarrow> Snapshot \<Rightarrow> Snapshot" where
  "append_part acc part =
     \<lparr> costs = foldl (\<lambda>xs v. xs @ [v]) (costs acc) (costs part),
       forecasts = foldl (\<lambda>xs v. xs @ [v]) (forecasts acc) (forecasts part),
       budgets = foldl (\<lambda>xs v. xs @ [v]) (budgets acc) (budgets part),
       accounts = foldl (\<lambda>xs v. xs @ [v]) (accounts acc) (accounts part),
       commitments = foldl (\<lambda>xs v. xs @ [v]) (commitments acc) (commitments part),
       anomalies = foldl (\<lambda>xs v. xs @ [v]) (anomalies acc) (anomalies part),
       tagCosts = foldl (\<lambda>xs v. xs @ [v]) (tagCosts acc) (tagCosts part) \<rparr>"

definition Merge :: "Snapshot list \<Rightarrow> Snapshot" where
  "Merge parts =
     (let all = foldl append_part empty_snapshot parts
      in NewWithData (costs all) (forecasts all) (budgets all) (accounts all)
           (commitments all) (anomalies all) (tagCosts all))"

interpretation snapshot_cost_order: slice_order snapshot_cost_less "\<lambda>c. (c_Target c, cost_key c)"
  by unfold_locales (simp only: snapshot_cost_less_def lex_cascade costLess_key)

interpretation snapshot_forecast_order: slice_order snapshot_forecast_less
  "\<lambda>f. (f_Target f, f_Provider f, f_Basis f, p_start (f_Period f), currency (f_Mean f))"
  by unfold_locales (simp only: snapshot_forecast_less_def lex_cascade)

lemmas sort_defs = Budget_Sort_def Account_Sort_def Commitment_Sort_def Anomaly_Sort_def TagCost_Sort_def

lemma foldl_append_singletons: "foldl (\<lambda>xs v. xs @ [v]) acc ys = acc @ ys"
  by (induction ys arbitrary: acc) simp_all

lemma append_parts:
  "foldl append_part acc parts =
     \<lparr> costs = costs acc @ concat (map costs parts),
       forecasts = forecasts acc @ concat (map forecasts parts),
       budgets = budgets acc @ concat (map budgets parts),
       accounts = accounts acc @ concat (map accounts parts),
       commitments = commitments acc @ concat (map commitments parts),
       anomalies = anomalies acc @ concat (map anomalies parts),
       tagCosts = tagCosts acc @ concat (map tagCosts parts) \<rparr>"
  by (induction parts arbitrary: acc) (simp_all add: append_part_def foldl_append_singletons)

lemma Merge_eq:
  "Merge parts =
     NewWithData (concat (map costs parts)) (concat (map forecasts parts))
       (concat (map budgets parts)) (concat (map accounts parts)) (concat (map commitments parts))
       (concat (map anomalies parts)) (concat (map tagCosts parts))"
  by (simp add: Merge_def append_parts empty_snapshot_def)

lemma NewWithData_simps [simp]:
  "costs (NewWithData cs fs bs acs cms ans ts) = slice_stable snapshot_cost_less cs"
  "forecasts (NewWithData cs fs bs acs cms ans ts) = slice_stable snapshot_forecast_less fs"
  "budgets (NewWithData cs fs bs acs cms ans ts) = Budget_Sort bs"
  "accounts (NewWithData cs fs bs acs cms ans ts) = Account_Sort acs"
  "commitments (NewWithData cs fs bs acs cms ans ts) = Commitment_Sort cms"
  "anomalies (NewWithData cs fs bs acs cms ans ts) = Anomaly_Sort ans"
  "tagCosts (NewWithData cs fs bs acs cms ans ts) = TagCost_Sort ts"
  by (simp_all add: NewWithData_def)

section \<open>Series count\<close>

definition count_commitment :: "nat \<Rightarrow> Commitment \<Rightarrow> nat" where
  "count_commitment n m =
     n + of_bool (m_HasUtilization m) + of_bool (m_HasCoverage m) + of_bool (m_HasUnusedHours m)
       + of_bool (m_HasCoveredSpend m) + of_bool (m_HasOnDemandCost m) + of_bool (m_HasNetSavings m)"

definition count_anomaly :: "nat \<Rightarrow> Anomaly \<Rightarrow> nat" where
  "count_anomaly n a = n + 2 + of_bool (n_HasImpact a) + of_bool (\<not> IsZero (n_LastDetected a))"

definition count_budget :: "nat \<Rightarrow> Budget \<Rightarrow> nat" where
  "count_budget n b = n + 1 + of_bool (b_HasActual b) + of_bool (b_HasForecasted b)"

definition SeriesCount :: "Snapshot \<Rightarrow> nat" where
  "SeriesCount s =
     (let count = length (costs s) + 3 * length (forecasts s) + length (accounts s) + length (tagCosts s);
          count = foldl count_commitment count (commitments s);
          count = foldl count_anomaly count (anomalies s)
      in foldl count_budget count (budgets s))"

section \<open>Validation\<close>

definition ValidatePartial :: "Snapshot \<Rightarrow> TargetID \<Rightarrow> go_error + unit" where
  "ValidatePartial s target =
     (let valid = foldl (\<lambda>v c. v \<and> c_Target c = target \<and> Provider_Valid (c_Provider c) \<and> Basis_Valid (c_Basis c))
                    True (costs s);
          valid = foldl (\<lambda>v f. v \<and> f_Target f = target \<and> Provider_Valid (f_Provider f) \<and> Basis_Valid (f_Basis f))
                    valid (forecasts s);
          valid = foldl (\<lambda>v b. v \<and> b_Target b = target) valid (budgets s);
          valid = foldl (\<lambda>v a. v \<and> a_Target a = target) valid (accounts s);
          valid = foldl (\<lambda>v m. v \<and> m_Target m = target) valid (commitments s);
          valid = foldl (\<lambda>v n. v \<and> n_Target n = target) valid (anomalies s);
          valid = foldl (\<lambda>v t. v \<and> t_Target t = target \<and> Provider_Valid (t_Provider t) \<and> Basis_Valid (t_Basis t))
                    valid (tagCosts s)
      in if \<not> valid then Inl (Wrapped ''target, provider, or cost basis mismatch'' ErrInvalidSnapshot)
         else Inr ())"

text \<open>
  The visitors of \<open>ValidateUnique\<close>. The state is the flag and the set of keys seen so far;
  \<open>valid = valid && add(key)\<close> is \<^const>\<open>add_seen\<close>, whose short circuit leaves the set alone
  once the flag is false.
\<close>

type_synonym seen = "bool \<times> string list"

definition unique_cost :: "seen \<Rightarrow> Cost \<Rightarrow> seen" where
  "unique_cost st c =
     add_seen st (Join [''cost'', c_Target c, c_Provider c, c_Basis c, c_Window c, kind (c_Dimension c),
                        dvalue (c_Dimension c), currency (c_Amount c)] ''|'')"

definition unique_forecast :: "seen \<Rightarrow> Forecast \<Rightarrow> seen" where
  "unique_forecast st f =
     add_seen st (Join [''forecast'', f_Target f, f_Provider f, f_Basis f, currency (f_Mean f)] ''|'')"

definition unique_budget :: "seen \<Rightarrow> Budget \<Rightarrow> seen" where
  "unique_budget st b =
     (let prefix = Join [''budget'', b_Target b, b_Name b, b_Type b, b_TimeUnit b, ''''] ''|'';
          st = add_seen st (prefix @ ''limit|'' @ currency (b_Limit b));
          st = (if b_HasActual b then add_seen st (prefix @ ''actual|'' @ currency (b_Actual b)) else st)
      in if b_HasForecasted b then add_seen st (prefix @ ''forecasted|'' @ currency (b_Forecasted b)) else st)"

definition unique_account :: "seen \<Rightarrow> Account \<Rightarrow> seen" where
  "unique_account st a =
     add_seen st (Join [''account'', a_Target a, a_AccountID a, a_Name a, a_Status a] ''|'')"

definition unique_tag :: "seen \<Rightarrow> TagCost \<Rightarrow> seen" where
  "unique_tag st t =
     add_seen st (Join [''tag'', t_Target t, t_Provider t, t_Basis t, t_Window t, t_TagKey t, t_TagValue t,
                        currency (t_Amount t)] ''|'')"

definition unique_commitment :: "seen \<Rightarrow> Commitment \<Rightarrow> seen" where
  "unique_commitment st m =
     (let prefix = Join [''commitment'', m_Target m, m_Type m, m_TimeUnit m, ''''] ''|'';
          st = (if m_HasUtilization m then add_seen st (prefix @ ''utilization'') else st);
          st = (if m_HasCoverage m then add_seen st (prefix @ ''coverage'') else st);
          st = (if m_HasUnusedHours m then add_seen st (prefix @ ''unused_hours'') else st);
          st = (if m_HasCoveredSpend m
                then add_seen st (prefix @ ''covered_spend|'' @ currency (m_CoveredSpend m)) else st);
          st = (if m_HasOnDemandCost m
                then add_seen st (prefix @ ''on_demand_cost|'' @ currency (m_OnDemandCost m)) else st)
      in if m_HasNetSavings m
         then add_seen st (prefix @ ''net_savings|'' @ currency (m_NetSavings m)) else st)"

definition unique_anomaly :: "seen \<Rightarrow> Anomaly \<Rightarrow> seen" where
  "unique_anomaly st a =
     (let prefix = Join [''anomaly'', n_Target a, ''''] ''|'';
          st = foldl (\<lambda>st suffix. add_seen st (prefix @ suffix)) st [''active'', ''count'', ''last_detected'']
      in if n_HasImpact a then add_seen st (prefix @ ''impact|'' @ currency (n_Impact a)) else st)"

definition ValidateUnique :: "Snapshot \<Rightarrow> go_error + unit" where
  "ValidateUnique s =
     (let ident = foldl (\<lambda>v c. v \<and> Provider_Valid (c_Provider c) \<and> Basis_Valid (c_Basis c)) True (costs s);
          ident = foldl (\<lambda>v f. v \<and> Provider_Valid (f_Provider f) \<and> Basis_Valid (f_Basis f)) ident (forecasts s);
          ident = foldl (\<lambda>v t. v \<and> Provider_Valid (t_Provider t) \<and> Basis_Valid (t_Basis t)) ident (tagCosts s)
      in if \<not> ident then Inl (Wrapped ''invalid provider or cost basis'' ErrInvalidSnapshot)
         else let st = foldl unique_cost (True, []) (costs s);
                  st = foldl unique_forecast st (forecasts s);
                  st = foldl unique_budget st (budgets s);
                  st = foldl unique_account st (accounts s);
                  st = foldl unique_tag st (tagCosts s);
                  st = foldl unique_commitment st (commitments s);
                  st = foldl unique_anomaly st (anomalies s)
              in if \<not> fst st then Inl (Wrapped ''duplicate metric label set'' ErrInvalidSnapshot)
                 else Inr ())"

section \<open>What the validations establish\<close>

lemma foldl_and: "foldl (\<lambda>v x. v \<and> P x) b xs \<longleftrightarrow> b \<and> (\<forall>x \<in> set xs. P x)"
  by (induction xs arbitrary: b) auto

definition belongs_to :: "TargetID \<Rightarrow> Snapshot \<Rightarrow> bool" where
  "belongs_to target s \<longleftrightarrow>
     (\<forall>c \<in> set (costs s). c_Target c = target) \<and> (\<forall>f \<in> set (forecasts s). f_Target f = target) \<and>
     (\<forall>b \<in> set (budgets s). b_Target b = target) \<and> (\<forall>a \<in> set (accounts s). a_Target a = target) \<and>
     (\<forall>m \<in> set (commitments s). m_Target m = target) \<and> (\<forall>n \<in> set (anomalies s). n_Target n = target) \<and>
     (\<forall>t \<in> set (tagCosts s). t_Target t = target)"

definition identities_valid :: "Snapshot \<Rightarrow> bool" where
  "identities_valid s \<longleftrightarrow>
     (\<forall>c \<in> set (costs s). Provider_Valid (c_Provider c) \<and> Basis_Valid (c_Basis c)) \<and>
     (\<forall>f \<in> set (forecasts s). Provider_Valid (f_Provider f) \<and> Basis_Valid (f_Basis f)) \<and>
     (\<forall>t \<in> set (tagCosts s). Provider_Valid (t_Provider t) \<and> Basis_Valid (t_Basis t))"

lemma ValidatePartial_ok [go_split]:
  "ValidatePartial s target = Inr () \<longleftrightarrow> belongs_to target s \<and> identities_valid s"
  unfolding ValidatePartial_def Let_def foldl_and belongs_to_def identities_valid_def by auto

text \<open>The keys each record contributes, in the order they are added.\<close>

definition cost_unique_key :: "Cost \<Rightarrow> string" where
  "cost_unique_key c = Join [''cost'', c_Target c, c_Provider c, c_Basis c, c_Window c,
     kind (c_Dimension c), dvalue (c_Dimension c), currency (c_Amount c)] ''|''"

definition forecast_unique_key :: "Forecast \<Rightarrow> string" where
  "forecast_unique_key f = Join [''forecast'', f_Target f, f_Provider f, f_Basis f, currency (f_Mean f)] ''|''"

definition budget_unique_keys :: "Budget \<Rightarrow> string list" where
  "budget_unique_keys b =
     (let prefix = Join [''budget'', b_Target b, b_Name b, b_Type b, b_TimeUnit b, ''''] ''|''
      in (prefix @ ''limit|'' @ currency (b_Limit b))
         # (if b_HasActual b then [prefix @ ''actual|'' @ currency (b_Actual b)] else [])
         @ (if b_HasForecasted b then [prefix @ ''forecasted|'' @ currency (b_Forecasted b)] else []))"

definition account_unique_key :: "Account \<Rightarrow> string" where
  "account_unique_key a = Join [''account'', a_Target a, a_AccountID a, a_Name a, a_Status a] ''|''"

definition tag_unique_key :: "TagCost \<Rightarrow> string" where
  "tag_unique_key t = Join [''tag'', t_Target t, t_Provider t, t_Basis t, t_Window t, t_TagKey t,
     t_TagValue t, currency (t_Amount t)] ''|''"

definition commitment_unique_keys :: "Commitment \<Rightarrow> string list" where
  "commitment_unique_keys m =
     (let prefix = Join [''commitment'', m_Target m, m_Type m, m_TimeUnit m, ''''] ''|''
      in (if m_HasUtilization m then [prefix @ ''utilization''] else [])
         @ (if m_HasCoverage m then [prefix @ ''coverage''] else [])
         @ (if m_HasUnusedHours m then [prefix @ ''unused_hours''] else [])
         @ (if m_HasCoveredSpend m then [prefix @ ''covered_spend|'' @ currency (m_CoveredSpend m)] else [])
         @ (if m_HasOnDemandCost m then [prefix @ ''on_demand_cost|'' @ currency (m_OnDemandCost m)] else [])
         @ (if m_HasNetSavings m then [prefix @ ''net_savings|'' @ currency (m_NetSavings m)] else []))"

definition anomaly_unique_keys :: "Anomaly \<Rightarrow> string list" where
  "anomaly_unique_keys a =
     (let prefix = Join [''anomaly'', n_Target a, ''''] ''|''
      in [prefix @ ''active'', prefix @ ''count'', prefix @ ''last_detected'']
         @ (if n_HasImpact a then [prefix @ ''impact|'' @ currency (n_Impact a)] else []))"

definition unique_keys :: "Snapshot \<Rightarrow> string list" where
  "unique_keys s =
     map cost_unique_key (costs s) @ map forecast_unique_key (forecasts s)
     @ concat (map budget_unique_keys (budgets s)) @ map account_unique_key (accounts s)
     @ map tag_unique_key (tagCosts s) @ concat (map commitment_unique_keys (commitments s))
     @ concat (map anomaly_unique_keys (anomalies s))"

lemma foldl_visit_keys:
  assumes "\<And>st x. visit st x = foldl add_seen st (ks x)"
  shows "foldl visit st xs = foldl add_seen st (concat (map ks xs))"
  by (induction xs arbitrary: st) (simp_all add: assms)

lemma foldl_visit_key:
  assumes "\<And>st x. visit st x = add_seen st (k x)"
  shows "foldl visit st xs = foldl add_seen st (map k xs)"
  by (induction xs arbitrary: st) (simp_all add: assms)

lemma unique_visits:
  "foldl unique_cost st cs = foldl add_seen st (map cost_unique_key cs)"
  "foldl unique_forecast st fs = foldl add_seen st (map forecast_unique_key fs)"
  "foldl unique_budget st bs = foldl add_seen st (concat (map budget_unique_keys bs))"
  "foldl unique_account st acs = foldl add_seen st (map account_unique_key acs)"
  "foldl unique_tag st ts = foldl add_seen st (map tag_unique_key ts)"
  "foldl unique_commitment st cms = foldl add_seen st (concat (map commitment_unique_keys cms))"
  "foldl unique_anomaly st ans = foldl add_seen st (concat (map anomaly_unique_keys ans))"
  by (rule foldl_visit_key foldl_visit_keys,
      simp add: unique_cost_def unique_forecast_def unique_budget_def unique_account_def unique_tag_def
        unique_commitment_def unique_anomaly_def cost_unique_key_def forecast_unique_key_def
        budget_unique_keys_def account_unique_key_def tag_unique_key_def commitment_unique_keys_def
        anomaly_unique_keys_def Let_def del: Join.simps add_seen.simps)+

lemma ValidateUnique_ok [go_split]:
  "ValidateUnique s = Inr () \<longleftrightarrow> identities_valid s \<and> distinct (unique_keys s)"
proof -
  have "foldl unique_anomaly (foldl unique_commitment (foldl unique_tag (foldl unique_account
          (foldl unique_budget (foldl unique_forecast (foldl unique_cost (True, []) (costs s))
          (forecasts s)) (budgets s)) (accounts s)) (tagCosts s)) (commitments s)) (anomalies s)
        = foldl add_seen (True, []) (unique_keys s)"
    by (simp only: unique_visits unique_keys_def foldl_append)
  then show ?thesis
    unfolding ValidateUnique_def Let_def foldl_and identities_valid_def
    by (simp add: add_seen_distinct)
qed

lemma ValidateUnique_cases:
  "ValidateUnique s = Inr () \<or> (\<exists>why. ValidateUnique s = Inl (Wrapped why ErrInvalidSnapshot))"
  by (simp add: ValidateUnique_def Let_def)

lemma ValidatePartial_cases:
  "ValidatePartial s t = Inr () \<or> (\<exists>why. ValidatePartial s t = Inl (Wrapped why ErrInvalidSnapshot))"
  by (simp add: ValidatePartial_def Let_def)

lemma ValidateUnique_empty [simp]: "ValidateUnique empty_snapshot = Inr ()"
  by (simp add: ValidateUnique_def empty_snapshot_def)

text \<open>What the collectors of the program put into a snapshot.\<close>

definition exportable :: "Snapshot \<Rightarrow> bool" where
  "exportable s \<longleftrightarrow>
     (\<forall>c \<in> set (costs s). c_Window c \<in> {WindowDaily, WindowMonthToDate} \<and> dimension_wf (c_Dimension c)) \<and>
     (\<forall>f \<in> set (forecasts s). currency (f_LowerBound f) = currency (f_Mean f) \<and>
        currency (f_UpperBound f) = currency (f_Mean f)) \<and>
     (\<forall>t \<in> set (tagCosts s). t_Window t \<in> {WindowDaily, WindowMonthToDate})"

section \<open>What construction and merging establish\<close>

text \<open>The records a snapshot holds, counted with multiplicity, and its canonical order.\<close>

definition same_records :: "Snapshot \<Rightarrow> Snapshot \<Rightarrow> bool" where
  "same_records s t \<longleftrightarrow>
     mset (costs s) = mset (costs t) \<and> mset (forecasts s) = mset (forecasts t) \<and>
     mset (budgets s) = mset (budgets t) \<and> mset (accounts s) = mset (accounts t) \<and>
     mset (commitments s) = mset (commitments t) \<and> mset (anomalies s) = mset (anomalies t) \<and>
     mset (tagCosts s) = mset (tagCosts t)"

definition ordered :: "Snapshot \<Rightarrow> bool" where
  "ordered s \<longleftrightarrow>
     sorted (map (\<lambda>c. (c_Target c, cost_key c)) (costs s)) \<and>
     sorted (map (\<lambda>f. (f_Target f, f_Provider f, f_Basis f, p_start (f_Period f), currency (f_Mean f)))
       (forecasts s)) \<and>
     sorted (map (\<lambda>b. (b_Target b, b_Name b)) (budgets s)) \<and>
     sorted (map (\<lambda>a. (a_Target a, a_AccountID a)) (accounts s)) \<and>
     sorted (map (\<lambda>m. (m_Target m, m_Type m, m_TimeUnit m)) (commitments s)) \<and>
     sorted (map n_Target (anomalies s)) \<and> sorted (map tag_order_key (tagCosts s))"

lemma mset_sorts [simp]:
  "mset (Budget_Sort bs) = mset bs" "mset (Account_Sort acs) = mset acs"
  "mset (Commitment_Sort cms) = mset cms" "mset (Anomaly_Sort ans) = mset ans"
  "mset (TagCost_Sort ts) = mset ts"
  by (simp_all add: sort_defs)

lemma NewWithData_ordered: "ordered (NewWithData cs fs bs acs cms ans ts)"
  by (simp add: ordered_def sort_defs snapshot_cost_order.sorted_slice snapshot_forecast_order.sorted_slice
      budget_order.sorted_slice account_order.sorted_slice commitment_order.sorted_slice
      anomaly_order.sorted_slice tag_order.sorted_slice)

lemma NewWithData_same_records:
  "same_records (NewWithData cs fs bs acs cms ans ts)
     \<lparr> costs = cs, forecasts = fs, budgets = bs, accounts = acs, commitments = cms, anomalies = ans, tagCosts = ts \<rparr>"
  by (simp add: same_records_def)

lemma Merge_ordered: "ordered (Merge parts)"
  by (simp add: Merge_eq NewWithData_ordered)

lemma NewWithData_idem:
  "s = NewWithData cs fs bs acs cms ans ts \<Longrightarrow>
   NewWithData (costs s) (forecasts s) (budgets s) (accounts s) (commitments s) (anomalies s) (tagCosts s) = s"
  by (simp add: NewWithData_def sort_defs snapshot_cost_order.slice_idem snapshot_forecast_order.slice_idem
      budget_order.slice_idem account_order.slice_idem commitment_order.slice_idem
      anomaly_order.slice_idem tag_order.slice_idem)

lemma mset_concat_map: "mset (concat (map f ps)) = (\<Sum>p \<in># mset ps. mset (f p))"
  by (induction ps) simp_all

lemma Merge_same_records: "mset ps = mset qs \<Longrightarrow> same_records (Merge ps) (Merge qs)"
  by (simp add: same_records_def Merge_eq mset_concat_map)

lemma same_records_sets:
  assumes "same_records s t"
  shows "set (costs s) = set (costs t)" and "set (forecasts s) = set (forecasts t)"
    and "set (budgets s) = set (budgets t)" and "set (accounts s) = set (accounts t)"
    and "set (commitments s) = set (commitments t)" and "set (anomalies s) = set (anomalies t)"
    and "set (tagCosts s) = set (tagCosts t)"
  using assms by (auto simp: same_records_def dest: mset_eq_setD)

lemma mset_unique_keys: "same_records s t \<Longrightarrow> mset (unique_keys s) = mset (unique_keys t)"
  by (simp add: same_records_def unique_keys_def mset_concat_map)

lemma ValidateUnique_same_records: "same_records s t \<Longrightarrow> ValidateUnique s = Inr () \<longleftrightarrow> ValidateUnique t = Inr ()"
  using mset_eq_imp_distinct_iff [OF mset_unique_keys, of s t]
  by (simp add: ValidateUnique_ok identities_valid_def same_records_sets [of s t])

lemma SeriesCount_eq:
  "SeriesCount s =
     length (costs s) + 3 * length (forecasts s) + length (accounts s) + length (tagCosts s)
     + sum_list (map (count_commitment 0) (commitments s)) + sum_list (map (count_anomaly 0) (anomalies s))
     + sum_list (map (count_budget 0) (budgets s))"
proof -
  have "foldl count_commitment n ms = n + sum_list (map (count_commitment 0) ms)" for n ms
    by (induction ms arbitrary: n) (simp_all add: count_commitment_def)
  moreover have "foldl count_anomaly n ms = n + sum_list (map (count_anomaly 0) ms)" for n ms
    by (induction ms arbitrary: n) (simp_all add: count_anomaly_def)
  moreover have "foldl count_budget n ms = n + sum_list (map (count_budget 0) ms)" for n ms
    by (induction ms arbitrary: n) (simp_all add: count_budget_def)
  ultimately show ?thesis by (simp add: SeriesCount_def)
qed

lemma sum_list_map_mset: "sum_list (map f xs) = (\<Sum>x \<in># mset xs. f x)"
  for f :: "'a \<Rightarrow> nat"
  by (induction xs) simp_all

lemma SeriesCount_same_records: "same_records s t \<Longrightarrow> SeriesCount s = SeriesCount t"
  unfolding SeriesCount_eq same_records_def sum_list_map_mset size_mset [symmetric] by simp

lemma SeriesCount_Merge: "SeriesCount (Merge ps) = sum_list (map SeriesCount ps)"
proof -
  have "SeriesCount (Merge ps) =
    SeriesCount \<lparr> costs = concat (map costs ps), forecasts = concat (map forecasts ps),
      budgets = concat (map budgets ps), accounts = concat (map accounts ps),
      commitments = concat (map commitments ps), anomalies = concat (map anomalies ps),
      tagCosts = concat (map tagCosts ps) \<rparr>"
    unfolding Merge_eq by (rule SeriesCount_same_records [OF NewWithData_same_records])
  also have "\<dots> = sum_list (map SeriesCount ps)" by (induction ps) (simp_all add: SeriesCount_eq)
  finally show ?thesis .
qed

lemma distinct_via_key:
  assumes "distinct (map u xs)" and "\<And>x. u x = g (k x)"
  shows "distinct (map k xs)"
proof -
  have "u = g \<circ> k" using assms(2) by auto
  then have "distinct (map g (map k xs))" using assms(1) by simp
  then show ?thesis by (simp only: distinct_map)
qed

lemma distinct_concat_hd:
  assumes "distinct (concat (map ks xs))" and "\<And>x. ks x \<noteq> []"
  shows "distinct (map (\<lambda>x. hd (ks x)) xs)"
  using assms(1)
proof (induction xs)
  case Nil
  then show ?case by simp
next
  case (Cons a xs)
  have "hd (ks x) \<in> set (concat (map ks xs))" if "x \<in> set xs" for x
    using that hd_in_set [OF assms(2)] by auto
  moreover have "hd (ks a) \<in> set (ks a)" using hd_in_set [OF assms(2)] .
  ultimately have "hd (ks a) \<notin> (\<lambda>x. hd (ks x)) ` set xs"
    using Cons.prems by fastforce
  then show ?case using Cons by simp
qed

lemma unique_sort_keys:
  assumes "distinct (unique_keys s)"
  shows "distinct (map (\<lambda>c. (c_Target c, cost_key c)) (costs s))"
    and "distinct (map (\<lambda>f. (f_Target f, f_Provider f, f_Basis f, p_start (f_Period f), currency (f_Mean f)))
           (forecasts s))"
    and "distinct (map tag_order_key (tagCosts s))"
    and "distinct (map n_Target (anomalies s))"
proof -
  have d: "distinct (map cost_unique_key (costs s))" "distinct (map forecast_unique_key (forecasts s))"
    "distinct (map tag_unique_key (tagCosts s))" "distinct (concat (map anomaly_unique_keys (anomalies s)))"
    using assms by (simp_all add: unique_keys_def)
  show "distinct (map (\<lambda>c. (c_Target c, cost_key c)) (costs s))"
    by (rule distinct_via_key [OF d(1), of "\<lambda>(t, p, b, w, k, v, c, _). Join [''cost'', t, p, b, w, k, v, c] ''|''"])
       (simp only: cost_unique_key_def cost_key_def prod.case)
  show "distinct (map (\<lambda>f. (f_Target f, f_Provider f, f_Basis f, p_start (f_Period f), currency (f_Mean f)))
          (forecasts s))"
    by (rule distinct_via_key [OF d(2), of "\<lambda>(t, p, b, _, c). Join [''forecast'', t, p, b, c] ''|''"])
       (simp only: forecast_unique_key_def prod.case)
  show "distinct (map tag_order_key (tagCosts s))"
    by (rule distinct_via_key [OF d(3), of "\<lambda>(t, p, b, w, k, v, c). Join [''tag'', t, p, b, w, k, v, c] ''|''"])
       (simp only: tag_unique_key_def tag_order_key_def prod.case)
  have "distinct (map (\<lambda>a. hd (anomaly_unique_keys a)) (anomalies s))"
    by (rule distinct_concat_hd [OF d(4)]) (simp add: anomaly_unique_keys_def Let_def)
  then show "distinct (map n_Target (anomalies s))"
    by (rule distinct_via_key [where g = "\<lambda>t. Join [''anomaly'', t, ''''] ''|'' @ ''active''"])
       (simp add: anomaly_unique_keys_def Let_def del: Join.simps)
qed

section \<open>Properties\<close>

text \<open>
  Merging partial snapshots loses nothing and invents nothing: the merged snapshot holds
  exactly the records of its parts, with multiplicity, in the canonical order of every family,
  and it owns as many series as its parts together.
\<close>

theorem merge_conserves_records:
  "mset (costs (Merge parts)) = (\<Sum>p \<in># mset parts. mset (costs p)) \<and>
   mset (forecasts (Merge parts)) = (\<Sum>p \<in># mset parts. mset (forecasts p)) \<and>
   mset (budgets (Merge parts)) = (\<Sum>p \<in># mset parts. mset (budgets p)) \<and>
   mset (accounts (Merge parts)) = (\<Sum>p \<in># mset parts. mset (accounts p)) \<and>
   mset (commitments (Merge parts)) = (\<Sum>p \<in># mset parts. mset (commitments p)) \<and>
   mset (anomalies (Merge parts)) = (\<Sum>p \<in># mset parts. mset (anomalies p)) \<and>
   mset (tagCosts (Merge parts)) = (\<Sum>p \<in># mset parts. mset (tagCosts p)) \<and>
   ordered (Merge parts) \<and> SeriesCount (Merge parts) = sum_list (map SeriesCount parts)"
  using Merge_ordered [of parts] SeriesCount_Merge [of parts] by (simp add: Merge_eq mset_concat_map)


definition sample_cost :: "string \<Rightarrow> Cost" where
  "sample_cost target =
     \<lparr> c_Target = target, c_Provider = ProviderCostExplorer, c_Basis = BasisUnblended, c_Window = WindowDaily,
       c_Period = \<lparr> p_start = 0, p_end = 1 \<rparr>, c_Dimension = \<lparr> kind = DimensionTotal, dvalue = '''' \<rparr>,
       c_Amount = \<lparr> amount = F_Fin 3, currency = ''USD'' \<rparr> \<rparr>"

definition sample_part :: "string \<Rightarrow> Snapshot" where
  "sample_part target = New [sample_cost target] [] [] []"


text \<open>
  A partial snapshot passes the publication check for a target exactly when every record of
  every family carries that target and every cost, forecast and tag cost names a known provider
  and cost basis; otherwise the error is an invalid-snapshot error.
\<close>

theorem partial_check_exact:
  "(ValidatePartial s target = Inr () \<longleftrightarrow> belongs_to target s \<and> identities_valid s) \<and>
   (ValidatePartial s target = Inr () \<or>
    (\<exists>e. ValidatePartial s target = Inl e \<and> errors_Is e ErrInvalidSnapshot))"
  using ValidatePartial_ok [of s target] ValidatePartial_cases [of s target] by fastforce

end
