(* ===== verification/Cardinality.thy ===== *)
theory Cardinality
  imports Aggregate_Snapshot
begin

text \<open>
  \<open>internal/collector/cardinality.go\<close> and \<open>LimitValues\<close> of \<open>internal/collector/tag\<close>: keeping the
  largest values of a dimension and folding the rest into one overflow bucket. Both rank by
  descending amount and then by label, which is the interface \<open>ranking\<close>. The calls on overflow
  observers are returned as a list of events; they happen even if a later group fails.
\<close>

section \<open>Ranking\<close>

fun f64_val :: "float64 \<Rightarrow> rat" where
  "f64_val (F_Fin q) = q"
| "f64_val _ = 0"

locale ranking =
  fixes rless :: "'a \<Rightarrow> 'a \<Rightarrow> bool" and amt :: "'a \<Rightarrow> float64" and label :: "'a \<Rightarrow> string"
  assumes rless_amounts: "\<not> f64_eq (amt l) (amt r) \<Longrightarrow> rless l r = f64_lt (amt r) (amt l)"
    and rless_labels: "f64_eq (amt l) (amt r) \<Longrightarrow> rless l r = (label l < label r)"
begin

lemma rless_key:
  assumes "f64_finite (amt l)" and "f64_finite (amt r)"
  shows "rless l r \<longleftrightarrow> (- f64_val (amt l), label l) < (- f64_val (amt r), label r)"
proof -
  obtain p q where pq: "amt l = F_Fin p" "amt r = F_Fin q" using assms by (auto simp: f64_finite_iff)
  then have eq: "f64_eq (amt l) (amt r) \<longleftrightarrow> p = q" by (simp add: f64_eq_def)
  show ?thesis
    by (cases "p = q") (use rless_amounts [of l r] rless_labels [of l r] eq pq in auto)
qed

lemma ranked_sort_key:
  assumes "\<And>x. x \<in> set xs \<Longrightarrow> f64_finite (amt x)"
  shows "slice_stable rless xs = sort_key (\<lambda>x. (- f64_val (amt x), label x)) xs"
proof -
  let ?lt = "\<lambda>l r. (- f64_val (amt l), label l) < (- f64_val (amt r), label r)"
  have "slice_stable rless xs = slice_stable ?lt xs"
    by (rule slice_stable_cong) (simp only: rless_key assms)
  also have "\<dots> = sort_key (\<lambda>x. (- f64_val (amt x), label x)) xs"
    by (rule slice_order.sort_is_sort_key) (simp add: slice_order_def)
  finally show ?thesis .
qed

lemma kept_at_least_dropped:
  assumes "\<And>x. x \<in> set xs \<Longrightarrow> f64_finite (amt x)"
    and "x \<in> set (take k (slice_stable rless xs))" and "y \<in> set (drop k (slice_stable rless xs))"
  shows "f64_le (amt y) (amt x)"
proof -
  let ?r = "slice_stable rless xs" and ?key = "\<lambda>x. (- f64_val (amt x), label x)"
  have "sorted (map ?key ?r)" by (simp only: ranked_sort_key [OF assms(1)] sorted_sort_key)
  then have "?key x \<le> ?key y"
    using assms(2,3) sorted_append [of "map ?key (take k ?r)" "map ?key (drop k ?r)"]
    by (simp only: map_append [symmetric] append_take_drop_id set_map) blast
  then have "f64_val (amt y) \<le> f64_val (amt x)" by auto
  moreover have "f64_finite (amt x)" and "f64_finite (amt y)"
    using assms(1) in_set_takeD [OF assms(2)] in_set_dropD [OF assms(3)] by simp_all
  ultimately show ?thesis by (auto simp: f64_finite_iff f64_le_def f64_eq_def)
qed

end

section \<open>cardinality.go\<close>

definition ErrInvalidSeriesLimit :: go_error where
  "ErrInvalidSeriesLimit = Sentinel ''dimension series limit must be positive''"
definition ErrMixedCurrency :: go_error where
  "ErrMixedCurrency = Sentinel ''dimension overflow contains mixed currencies''"
definition ErrReservedDimension :: go_error where
  "ErrReservedDimension = Sentinel ''reserved dimension value''"
definition ErrInvalidCostIdentity :: go_error where
  "ErrInvalidCostIdentity = Sentinel ''invalid cost provider or basis''"
definition ErrInvalidOverflowLabel :: go_error where
  "ErrInvalidOverflowLabel = Sentinel ''overflow label must not be empty''"

text \<open>An overflow event names the observer it is sent to; a nil observer receives none.\<close>

datatype 'o overflow_event = ObserveOverflow 'o string int

definition notify :: "'o option list \<Rightarrow> string \<Rightarrow> int \<Rightarrow> 'o overflow_event list" where
  "notify observers dimension n =
     concat (map (\<lambda>ob. case ob of None \<Rightarrow> [] | Some o' \<Rightarrow> [ObserveOverflow o' dimension n]) observers)"

definition cost_ranked_less :: "Cost \<Rightarrow> Cost \<Rightarrow> bool" where
  "cost_ranked_less l r =
     (if \<not> f64_eq (amount (c_Amount l)) (amount (c_Amount r))
      then f64_lt (amount (c_Amount r)) (amount (c_Amount l))
      else dvalue (c_Dimension l) < dvalue (c_Dimension r))"

interpretation cost_rank: ranking cost_ranked_less "\<lambda>c. amount (c_Amount c)" "\<lambda>c. dvalue (c_Dimension c)"
  by unfold_locales (simp_all add: cost_ranked_less_def)

definition add_amount :: "string \<Rightarrow> float64 \<Rightarrow> Cost \<Rightarrow> go_error + float64" where
  "add_amount cur tot c =
     (if currency (c_Amount c) \<noteq> cur then Inl ErrMixedCurrency else Inr (f64_add tot (amount (c_Amount c))))"

type_synonym ('o, 'a) limited = "'o overflow_event list \<times> (go_error + 'a list)"

definition limitDimensionGroup :: "'o option list \<Rightarrow> Cost list \<Rightarrow> int \<Rightarrow> string \<Rightarrow> ('o, Cost) limited" where
  "limitDimensionGroup observers vals limit other =
     (if int (length vals) \<le> limit then ([], Inr vals)
      else let ranked = slice_stable cost_ranked_less vals;
               keep = nat (limit - 1);
               first = ranked ! keep;
               cur = currency (c_Amount first)
           in case range_err (add_amount cur) (F_Fin 0) (drop keep ranked) of
                Inl err \<Rightarrow> ([], Inl err)
              | Inr tot \<Rightarrow>
                  (case NewMoney tot cur of
                     Inl err \<Rightarrow> ([], Inl (Wrapped ''aggregate dimension overflow'' err))
                   | Inr money \<Rightarrow>
                       (case NewDimension (kind (c_Dimension first)) other of
                          Inl err \<Rightarrow> ([], Inl (Wrapped ''construct overflow dimension'' err))
                        | Inr dimension \<Rightarrow>
                            (notify observers (kind dimension) (int (length vals) - int keep),
                             Inr (take keep ranked @ [first\<lparr> c_Dimension := dimension, c_Amount := money \<rparr>])))))"

definition group_key :: "Cost \<Rightarrow> string" where
  "group_key c = c_Provider c @ [CHR 0x00] @ c_Basis c"

definition group_of :: "(string, Cost list) gomap \<Rightarrow> string \<Rightarrow> Cost list" where
  "group_of m k = (case map_of m k of None \<Rightarrow> [] | Some xs \<Rightarrow> xs)"

definition group_value ::
  "string \<Rightarrow> (string, Cost list) gomap \<Rightarrow> Cost \<Rightarrow> go_error + (string, Cost list) gomap" where
  "group_value other groups c =
     (if \<not> Provider_Valid (c_Provider c) \<or> \<not> Basis_Valid (c_Basis c) then Inl ErrInvalidCostIdentity
      else if dvalue (c_Dimension c) = other then Inl ErrReservedDimension
      else Inr (AList.update (group_key c) (group_of groups (group_key c) @ [c]) groups))"

fun limit_groups ::
  "'o option list \<Rightarrow> int \<Rightarrow> string \<Rightarrow> (string, Cost list) gomap \<Rightarrow> string list \<Rightarrow> ('o, Cost) limited" where
  "limit_groups observers limit other groups [] = ([], Inr [])"
| "limit_groups observers limit other groups (k # ks) =
     (case limitDimensionGroup observers (group_of groups k) limit other of
        (evs, Inl err) \<Rightarrow> (evs, Inl err)
      | (evs, Inr bounded) \<Rightarrow>
          (case limit_groups observers limit other groups ks of
             (evs', Inl err) \<Rightarrow> (evs @ evs', Inl err)
           | (evs', Inr rest) \<Rightarrow> (evs @ evs', Inr (bounded @ rest))))"

definition LimitDimensions :: "'o option list \<Rightarrow> Cost list \<Rightarrow> int \<Rightarrow> string \<Rightarrow> ('o, Cost) limited" where
  "LimitDimensions observers vals limit label =
     (if limit \<le> 0 then ([], Inl ErrInvalidSeriesLimit)
      else let other = TrimSpace label
           in if other = '''' then ([], Inl ErrInvalidOverflowLabel)
              else case range_err (group_value other) [] vals of
                     Inl err \<Rightarrow> ([], Inl err)
                   | Inr groups \<Rightarrow>
                       if length groups > 1
                       then limit_groups observers limit other groups (slice_stable (<) (map fst groups))
                       else limitDimensionGroup observers vals limit other)"

section \<open>LimitValues of tag/collector.go\<close>

definition tag_ranked_less :: "TagCost \<Rightarrow> TagCost \<Rightarrow> bool" where
  "tag_ranked_less l r =
     (if \<not> f64_eq (amount (t_Amount l)) (amount (t_Amount r))
      then f64_lt (amount (t_Amount r)) (amount (t_Amount l))
      else t_TagValue l < t_TagValue r)"

interpretation tag_rank: ranking tag_ranked_less "\<lambda>t. amount (t_Amount t)" t_TagValue
  by unfold_locales (simp_all add: tag_ranked_less_def)

definition add_tag_amount :: "TagCost \<Rightarrow> float64 \<Rightarrow> TagCost \<Rightarrow> go_error + float64" where
  "add_tag_amount cur tot t =
     (if currency (t_Amount t) \<noteq> currency (t_Amount cur)
      then Inl (Sentinel ''tag values contain mixed currencies'')
      else if t_Provider t \<noteq> t_Provider cur \<or> t_Basis t \<noteq> t_Basis cur \<or> t_Window t \<noteq> t_Window cur
              \<or> t_TagKey t \<noteq> t_TagKey cur
      then Inl (Sentinel ''tag values cross aggregation boundaries'')
      else Inr (f64_add tot (amount (t_Amount t))))"

definition LimitValues :: "'o option list \<Rightarrow> TagCost list \<Rightarrow> int \<Rightarrow> string \<Rightarrow> ('o, TagCost) limited" where
  "LimitValues observers vals limit overflow =
     (if int (length vals) \<le> limit then ([], Inr vals)
      else let ranked = slice_stable tag_ranked_less vals;
               keep = limit - 1
           in if keep < 0 then ([], Inl (Sentinel ''tag max values must be positive''))
              else let cur = ranked ! nat keep
                   in case range_err (add_tag_amount cur) (F_Fin 0) (drop (nat keep) ranked) of
                        Inl err \<Rightarrow> ([], Inl err)
                      | Inr tot \<Rightarrow>
                          (case NewMoney tot (currency (t_Amount cur)) of
                             Inl err \<Rightarrow> ([], Inl err)
                           | Inr money \<Rightarrow>
                               (notify observers ''tag'' (int (length vals) - keep),
                                Inr (take (nat keep) ranked
                                     @ [cur\<lparr> t_TagValue := overflow, t_Amount := money \<rparr>]))))"

section \<open>What the limits guarantee\<close>

lemma add_amounts:
  "range_err (add_amount cur) z cs = Inr t \<longleftrightarrow>
   (\<forall>c \<in> set cs. currency (c_Amount c) = cur) \<and> t = foldl f64_add z (map (\<lambda>c. amount (c_Amount c)) cs)"
  by (induction cs arbitrary: z) (auto simp: add_amount_def)

lemma add_tag_amounts:
  "range_err (add_tag_amount cur) z ts = Inr u \<longleftrightarrow>
   (\<forall>t \<in> set ts. currency (t_Amount t) = currency (t_Amount cur) \<and> t_Provider t = t_Provider cur \<and>
      t_Basis t = t_Basis cur \<and> t_Window t = t_Window cur \<and> t_TagKey t = t_TagKey cur) \<and>
   u = foldl f64_add z (map (\<lambda>t. amount (t_Amount t)) ts)"
  by (induction ts arbitrary: z) (auto simp: add_tag_amount_def)

text \<open>
  The outcome of limiting one group: within the budget it is returned as it is; beyond it, the
  first \<open>limit - 1\<close> values of the ranking stay and one bucket of the same provider, basis, window
  and kind carries the floating-point sum of the rest, which all share one currency.
\<close>

definition cost_overflow_of :: "Cost list \<Rightarrow> string \<Rightarrow> Cost \<Rightarrow> bool" where
  "cost_overflow_of dropped other bucket \<longleftrightarrow>
     dropped \<noteq> [] \<and>
     (\<forall>c \<in> set dropped. currency (c_Amount c) = currency (c_Amount (hd dropped))) \<and>
     NewMoney (foldl f64_add (F_Fin 0) (map (\<lambda>c. amount (c_Amount c)) dropped)) (currency (c_Amount (hd dropped)))
       = Inr (c_Amount bucket) \<and>
     NewDimension (kind (c_Dimension (hd dropped))) other = Inr (c_Dimension bucket) \<and>
     c_Target bucket = c_Target (hd dropped) \<and> c_Provider bucket = c_Provider (hd dropped) \<and>
     c_Basis bucket = c_Basis (hd dropped) \<and> c_Window bucket = c_Window (hd dropped) \<and>
     c_Period bucket = c_Period (hd dropped)"

lemma limitDimensionGroup_cases:
  assumes "limitDimensionGroup observers vals limit other = (evs, Inr r)" and "0 < limit"
  obtains (within) "int (length vals) \<le> limit" "r = vals" "evs = []"
  | (overflow) bucket where "limit < int (length vals)"
      "r = take (nat (limit - 1)) (slice_stable cost_ranked_less vals) @ [bucket]"
      "cost_overflow_of (drop (nat (limit - 1)) (slice_stable cost_ranked_less vals)) other bucket"
proof (cases "int (length vals) \<le> limit")
  case True
  then have "vals = r" "evs = []" using assms(1) by (simp_all add: limitDimensionGroup_def)
  with True show ?thesis by (intro within) simp_all
next
  case False
  let ?ranked = "slice_stable cost_ranked_less vals" and ?keep = "nat (limit - 1)"
  let ?first = "?ranked ! ?keep"
  have keep: "?keep < length ?ranked" using False assms(2) by simp
  then have hd: "hd (drop ?keep ?ranked) = ?first" by (simp add: hd_drop_conv_nth)
  have "(case range_err (add_amount (currency (c_Amount ?first))) (F_Fin 0) (drop ?keep ?ranked) of
      Inl err \<Rightarrow> Inl err
    | Inr t \<Rightarrow>
        (case NewMoney t (currency (c_Amount ?first)) of
           Inl err \<Rightarrow> Inl (Wrapped ''aggregate dimension overflow'' err)
         | Inr money \<Rightarrow>
             (case NewDimension (kind (c_Dimension ?first)) other of
                Inl err \<Rightarrow> Inl (Wrapped ''construct overflow dimension'' err)
              | Inr dimension \<Rightarrow>
                  Inr (take ?keep ?ranked @ [?first\<lparr> c_Dimension := dimension, c_Amount := money \<rparr>])))) = Inr r"
    using arg_cong [OF assms(1), of snd] False
    by (simp only: limitDimensionGroup_def Let_def if_False snd_conv sum.case_distrib [of snd])
  then obtain t money dimension where
    t: "range_err (add_amount (currency (c_Amount ?first))) (F_Fin 0) (drop ?keep ?ranked) = Inr t"
    and m: "NewMoney t (currency (c_Amount ?first)) = Inr money"
    and d: "NewDimension (kind (c_Dimension ?first)) other = Inr dimension"
    and r: "r = take ?keep ?ranked @ [?first\<lparr> c_Dimension := dimension, c_Amount := money \<rparr>]"
    by (auto split: sum.splits)
  have "cost_overflow_of (drop ?keep ?ranked) other (?first\<lparr> c_Dimension := dimension, c_Amount := money \<rparr>)"
    using t m d keep by (simp add: cost_overflow_of_def hd add_amounts)
  with r False show ?thesis by (intro overflow) simp_all
qed

lemma limitDimensionGroup_length:
  assumes "limitDimensionGroup observers vals limit other = (evs, Inr r)" and "0 < limit"
  shows "int (length r) \<le> limit"
  by (cases rule: limitDimensionGroup_cases [OF assms]) (use assms(2) in auto)

lemma overflow_group_key:
  "cost_overflow_of dropped other bucket \<Longrightarrow> group_key bucket = group_key (hd dropped) \<and> hd dropped \<in> set dropped"
  by (simp add: cost_overflow_of_def group_key_def)

lemma limitDimensionGroup_keys:
  assumes "limitDimensionGroup observers vals limit other = (evs, Inr r)" and "0 < limit"
  shows "group_key ` set r \<subseteq> group_key ` set vals"
proof (cases rule: limitDimensionGroup_cases [OF assms])
  case 1
  then show ?thesis by simp
next
  case (2 bucket)
  have "group_key bucket \<in> group_key ` set vals"
    using overflow_group_key [OF 2(3)] in_set_dropD by fastforce
  then show ?thesis using 2(2) by (auto dest!: in_set_takeD)
qed

text \<open>The grouping loop collects, per provider and basis, the values in their order.\<close>

lemma group_loop:
  assumes "range_err (group_value other) groups vals = Inr groups'" and "gomap_wf groups"
  shows "gomap_wf groups' \<and> (\<forall>k. group_of groups' k = group_of groups k @ filter (\<lambda>c. group_key c = k) vals) \<and>
    fst ` set groups' = fst ` set groups \<union> group_key ` set vals \<and>
    (\<forall>c \<in> set vals. Provider_Valid (c_Provider c) \<and> Basis_Valid (c_Basis c) \<and> dvalue (c_Dimension c) \<noteq> other)"
  using assms
proof (induction vals arbitrary: groups)
  case Nil
  then show ?case by simp
next
  case (Cons c cs)
  let ?g = "AList.update (group_key c) (group_of groups (group_key c) @ [c]) groups"
  have ok: "Provider_Valid (c_Provider c)" "Basis_Valid (c_Basis c)" "dvalue (c_Dimension c) \<noteq> other"
    and run: "range_err (group_value other) ?g cs = Inr groups'"
  proof -
    obtain g where g: "group_value other groups c = Inr g" and "range_err (group_value other) g cs = Inr groups'"
      using Cons.prems(1) by (auto split: sum.splits)
    moreover from g show "Provider_Valid (c_Provider c)" "Basis_Valid (c_Basis c)" "dvalue (c_Dimension c) \<noteq> other"
      by (simp_all add: group_value_def split: if_splits)
    moreover from g have "g = ?g" by (simp add: group_value_def split: if_splits)
    ultimately show "range_err (group_value other) ?g cs = Inr groups'" by simp
  qed
  have "group_of ?g k = group_of groups k @ (if group_key c = k then [c] else [])" for k
    by (simp add: group_of_def)
  moreover have "fst ` set ?g = insert (group_key c) (fst ` set groups)"
    by (simp add: dom_update flip: dom_map_of_conv_image_fst)
  ultimately show ?case using Cons.IH [OF run] Cons.prems(2) ok by auto
qed

lemma limit_groups_keys:
  assumes "limit_groups observers limit other groups ks = (evs, Inr r)" and "0 < limit" and "distinct ks"
    and "\<And>k. k \<in> set ks \<Longrightarrow> group_key ` set (group_of groups k) \<subseteq> {k}"
  shows "group_key ` set r \<subseteq> set ks \<and> (\<forall>k. int (length (filter (\<lambda>c. group_key c = k) r)) \<le> limit)"
  using assms
proof (induction ks arbitrary: evs r)
  case Nil
  then show ?case by simp
next
  case (Cons k ks)
  obtain e1 bounded e2 rest where
    b: "limitDimensionGroup observers (group_of groups k) limit other = (e1, Inr bounded)"
    and g: "limit_groups observers limit other groups ks = (e2, Inr rest)" and r: "r = bounded @ rest"
    using Cons.prems(1) by (auto split: prod.splits sum.splits)
  have ih: "group_key ` set rest \<subseteq> set ks" "\<And>j. int (length (filter (\<lambda>c. group_key c = j) rest)) \<le> limit"
    using Cons.IH [OF g] Cons.prems(2-4) by auto
  have bk: "group_key ` set bounded \<subseteq> {k}"
    using limitDimensionGroup_keys [OF b Cons.prems(2)] Cons.prems(4) [of k] by auto
  have "int (length (filter (\<lambda>c. group_key c = j) r)) \<le> limit" for j
  proof (cases "j = k")
    case True
    then have "filter (\<lambda>c. group_key c = j) rest = []" using ih(1) Cons.prems(3) by (auto simp: filter_empty_conv)
    then have "length (filter (\<lambda>c. group_key c = j) r) \<le> length bounded" by (simp add: r)
    then show ?thesis using limitDimensionGroup_length [OF b Cons.prems(2)] by linarith
  next
    case False
    then have "filter (\<lambda>c. group_key c = j) bounded = []" using bk by (auto simp: filter_empty_conv)
    then show ?thesis using ih(2) by (simp add: r)
  qed
  then show ?case using ih(1) bk by (auto simp: r)
qed

interpretation string_order: slice_order "(<) :: string \<Rightarrow> string \<Rightarrow> bool" "\<lambda>s. s"
  by unfold_locales (rule refl)

lemma LimitDimensions_groups:
  assumes "LimitDimensions observers vals limit label = (evs, Inr r)"
  shows "0 < limit" and "\<exists>groups. range_err (group_value (TrimSpace label)) [] vals = Inr groups"
    and "int (length (filter (\<lambda>c. group_key c = k) r)) \<le> limit"
proof -
  let ?other = "TrimSpace label"
  obtain groups where pos: "0 < limit" and g: "range_err (group_value ?other) [] vals = Inr groups"
    and r: "(if length groups > 1
             then limit_groups observers limit ?other groups (slice_stable (<) (map fst groups))
             else limitDimensionGroup observers vals limit ?other) = (evs, Inr r)"
    using assms by (auto simp: LimitDimensions_def Let_def split: if_splits sum.splits)
  show "0 < limit" and "\<exists>groups. range_err (group_value ?other) [] vals = Inr groups" using pos g by blast+
  note loop = group_loop [OF g]
  show "int (length (filter (\<lambda>c. group_key c = k) r)) \<le> limit"
  proof (cases "length groups > 1")
    case True
    have "distinct (slice_stable (<) (map fst groups))"
      using loop distinct_map_slice_stable [of "\<lambda>s. s" "(<)" "map fst groups"] by simp
    moreover have "group_key ` set (group_of groups j) \<subseteq> {j}" for j
      using loop by (auto simp: group_of_def)
    ultimately show ?thesis
      using limit_groups_keys [of observers limit ?other groups "slice_stable (<) (map fst groups)" evs r] r True pos
      by simp
  next
    case False
    then have "int (length r) \<le> limit" using r limitDimensionGroup_length [OF _ pos] by simp
    moreover have "length (filter (\<lambda>c. group_key c = k) r) \<le> length r" by (rule length_filter_le)
    ultimately show ?thesis by linarith
  qed
qed

lemma NewDimension_value: "NewDimension k v = Inr d \<Longrightarrow> TrimSpace v \<noteq> [] \<Longrightarrow> dvalue d = TrimSpace v"
  by (auto simp: NewDimension_def Let_def split: if_splits)

lemma overflow_label:
  assumes "cost_overflow_of dropped other bucket" and "trimmed other" and "other \<noteq> ''''"
  shows "dvalue (c_Dimension bucket) = other" and "kind (c_Dimension bucket) = kind (c_Dimension (hd dropped))"
    and "money_wf (c_Amount bucket)"
proof -
  have d: "NewDimension (kind (c_Dimension (hd dropped))) other = Inr (c_Dimension bucket)"
    and m: "NewMoney (foldl f64_add (F_Fin 0) (map (\<lambda>c. amount (c_Amount c)) dropped))
              (currency (c_Amount (hd dropped))) = Inr (c_Amount bucket)"
    using assms(1) unfolding cost_overflow_of_def by blast+
  have "TrimSpace other = other" using assms(2) by (simp add: TrimSpace_id_iff)
  then show "dvalue (c_Dimension bucket) = other"
    using NewDimension_value [OF d] assms(3) by simp
  show "kind (c_Dimension bucket) = kind (c_Dimension (hd dropped))" using NewDimension_wf [OF d] by simp
  show "money_wf (c_Amount bucket)" using NewMoney_wf [OF m] by simp
qed

definition dim_label :: "Cost \<Rightarrow> string \<times> string" where
  "dim_label c = (group_key c, dvalue (c_Dimension c))"

lemma limitDimensionGroup_labels:
  assumes "limitDimensionGroup observers vals limit other = (evs, Inr r)" and "0 < limit"
    and "trimmed other" and "other \<noteq> ''''" and "\<forall>c \<in> set vals. dvalue (c_Dimension c) \<noteq> other"
    and "distinct (map dim_label vals)"
  shows "distinct (map dim_label r)"
proof (cases rule: limitDimensionGroup_cases [OF assms(1,2)])
  case 1
  then show ?thesis using assms(6) by simp
next
  case (2 bucket)
  let ?ranked = "slice_stable cost_ranked_less vals" and ?keep = "nat (limit - 1)"
  have "distinct (map dim_label (take ?keep ?ranked))"
    using assms(6) distinct_take [of "map dim_label ?ranked" ?keep] by (simp add: take_map)
  moreover have "dim_label bucket \<notin> dim_label ` set (take ?keep ?ranked)"
    using overflow_label(1) [OF 2(3) assms(3,4)] assms(5) by (auto simp: dim_label_def dest!: in_set_takeD)
  ultimately show ?thesis by (simp add: 2(2))
qed

lemma limit_groups_labels:
  assumes "limit_groups observers limit other groups ks = (evs, Inr r)" and "0 < limit" and "distinct ks"
    and "trimmed other" and "other \<noteq> ''''"
    and "\<And>k. k \<in> set ks \<Longrightarrow> group_key ` set (group_of groups k) \<subseteq> {k} \<and>
           (\<forall>c \<in> set (group_of groups k). dvalue (c_Dimension c) \<noteq> other) \<and> distinct (map dim_label (group_of groups k))"
  shows "distinct (map dim_label r)"
  using assms
proof (induction ks arbitrary: evs r)
  case (Cons k ks)
  obtain e1 bounded e2 rest where
    b: "limitDimensionGroup observers (group_of groups k) limit other = (e1, Inr bounded)"
    and g: "limit_groups observers limit other groups ks = (e2, Inr rest)" and r: "r = bounded @ rest"
    using Cons.prems(1) by (auto split: prod.splits sum.splits)
  have "distinct (map dim_label bounded)"
    using limitDimensionGroup_labels [OF b Cons.prems(2,4,5)] Cons.prems(6) [of k] by simp
  moreover have "distinct (map dim_label rest)" 
    by (rule Cons.IH [OF g Cons.prems(2) _ Cons.prems(4,5) Cons.prems(6)]) (use Cons.prems(3) in simp_all)
  moreover have "group_key ` set bounded \<subseteq> {k}"
    using limitDimensionGroup_keys [OF b Cons.prems(2)] Cons.prems(6) [of k] by auto
  moreover have "group_key ` set rest \<subseteq> set ks"
    using limit_groups_keys [OF g Cons.prems(2)] Cons.prems(3,6) by simp
  moreover have "k \<notin> set ks" using Cons.prems(3) by simp
  ultimately have "dim_label ` set bounded \<inter> dim_label ` set rest = {}" by (auto simp: dim_label_def)
  with \<open>distinct (map dim_label bounded)\<close> \<open>distinct (map dim_label rest)\<close> show ?case by (simp add: r)
qed simp

lemma LimitDimensions_labels:
  assumes "LimitDimensions observers vals limit label = (evs, Inr r)" and "distinct (map dim_label vals)"
  shows "distinct (map dim_label r)"
proof -
  let ?other = "TrimSpace label"
  obtain groups where pos: "0 < limit" and ne: "?other \<noteq> ''''"
    and g: "range_err (group_value ?other) [] vals = Inr groups"
    and r: "(if length groups > 1
             then limit_groups observers limit ?other groups (slice_stable (<) (map fst groups))
             else limitDimensionGroup observers vals limit ?other) = (evs, Inr r)"
    using assms(1) by (auto simp: LimitDimensions_def Let_def split: if_splits sum.splits)
  note loop = group_loop [OF g]
  have nother: "\<forall>c \<in> set vals. dvalue (c_Dimension c) \<noteq> ?other" using loop by simp
  show ?thesis
  proof (cases "length groups > 1")
    case True
    have "distinct (slice_stable (<) (map fst groups))"
      using loop distinct_map_slice_stable [of "\<lambda>s. s" "(<)" "map fst groups"] by simp
    moreover have "group_of groups k = filter (\<lambda>c. group_key c = k) vals" for k
      using loop by (simp add: group_of_def)
    ultimately show ?thesis
      using limit_groups_labels [of observers limit ?other groups _ evs r] r True pos ne assms(2) nother
      by (auto simp: TrimSpace_trimmed distinct_map_filter)
  next
    case False
    with r show ?thesis
      by (intro limitDimensionGroup_labels [OF _ pos TrimSpace_trimmed ne nother assms(2)]) simp
  qed
qed

section \<open>Properties\<close>

text \<open>
  The cardinality cap holds: when limiting succeeds, the limit is positive and each provider
  and cost basis has at most that many values in the result; and if the labels of each provider
  and basis were distinct they still are, the overflow bucket included.
\<close>

theorem limit_dimensions_budget:
  assumes "LimitDimensions observers vals limit label = (evs, Inr r)"
  shows "0 < limit \<and> int (length (filter (\<lambda>c. c_Provider c = p \<and> c_Basis c = b) r)) \<le> limit \<and>
    (distinct (map dim_label vals) \<longrightarrow> distinct (map dim_label r))"
proof -
  have "length (filter (\<lambda>c. c_Provider c = p \<and> c_Basis c = b) r) \<le>
        length (filter (\<lambda>c. group_key c = p @ [CHR 0x00] @ b) r)"
    by (induction r) (auto simp: group_key_def)
  then show ?thesis
    using LimitDimensions_groups(1,3) [OF assms] LimitDimensions_labels [OF assms] by (meson of_nat_le_iff order_trans)
qed

text \<open>
  C5. The largest values survive: limiting one group of well-formed costs either returns it
  unchanged, or returns the first \<open>limit - 1\<close> values of the ranking followed by one bucket; every
  value kept is at least as large as every value folded into the bucket, the folded values share
  the bucket's currency, and the bucket's amount is their floating-point sum under the overflow
  label.
\<close>

theorem limit_group_keeps_largest:
  assumes "limitDimensionGroup observers vals limit other = (evs, Inr r)" and "0 < limit"
    and "trimmed other" and "other \<noteq> ''''" and "\<forall>c \<in> set vals. money_wf (c_Amount c)"
  shows "int (length r) \<le> limit \<and>
    (if int (length vals) \<le> limit then r = vals
     else let ranked = slice_stable cost_ranked_less vals; keep = nat (limit - 1); bucket = last r
          in r = take keep ranked @ [bucket] \<and>
             (\<forall>x \<in> set (take keep ranked). \<forall>y \<in> set (drop keep ranked).
                f64_le (amount (c_Amount y)) (amount (c_Amount x))) \<and>
             (\<forall>y \<in> set (drop keep ranked). currency (c_Amount y) = currency (c_Amount bucket)) \<and>
             amount (c_Amount bucket) = foldl f64_add (F_Fin 0) (map (\<lambda>c. amount (c_Amount c)) (drop keep ranked)) \<and>
             dvalue (c_Dimension bucket) = other \<and> money_wf (c_Amount bucket))"
proof (cases rule: limitDimensionGroup_cases [OF assms(1,2)])
  case 1
  then show ?thesis by simp
next
  case (2 bucket)
  let ?ranked = "slice_stable cost_ranked_less vals" and ?keep = "nat (limit - 1)"
  note b = 2(3) [unfolded cost_overflow_of_def]
  have fin: "\<And>c. c \<in> set vals \<Longrightarrow> f64_finite (amount (c_Amount c))"
    using assms(5) by (simp add: money_wf_def)
  have hd: "hd (drop ?keep ?ranked) \<in> set vals"
    using b in_set_dropD [of "hd (drop ?keep ?ranked)" ?keep ?ranked] by simp
  then have "TrimSpace (currency (c_Amount (hd (drop ?keep ?ranked)))) = currency (c_Amount (hd (drop ?keep ?ranked)))"
    using assms(5) by (simp add: money_wf_def TrimSpace_id_iff)
  moreover have "NewMoney (foldl f64_add (F_Fin 0) (map (\<lambda>c. amount (c_Amount c)) (drop ?keep ?ranked)))
      (currency (c_Amount (hd (drop ?keep ?ranked)))) = Inr (c_Amount bucket)"
    using b by blast
  ultimately have money: "currency (c_Amount bucket) = currency (c_Amount (hd (drop ?keep ?ranked)))"
    "amount (c_Amount bucket) = foldl f64_add (F_Fin 0) (map (\<lambda>c. amount (c_Amount c)) (drop ?keep ?ranked))"
    by (auto dest: NewMoney_wf)
  have len: "int (length r) \<le> limit" using limitDimensionGroup_length [OF assms(1,2)] .
  have last: "last r = bucket" using 2(2) by simp
  have le: "\<forall>x \<in> set (take ?keep ?ranked). \<forall>y \<in> set (drop ?keep ?ranked).
      f64_le (amount (c_Amount y)) (amount (c_Amount x))"
    using cost_rank.kept_at_least_dropped [OF fin] by blast
  have cur: "\<forall>y \<in> set (drop ?keep ?ranked). currency (c_Amount y) = currency (c_Amount bucket)"
    unfolding money(1) using b by blast
  show ?thesis
    unfolding Let_def last if_not_P [OF 2(1) [folded not_le]]
    by (intro conjI len 2(2) le cur money(2) overflow_label(1) [OF 2(3) assms(3,4)]
        overflow_label(3) [OF 2(3) assms(3,4)])
qed

text \<open>
  The tag limiter keeps every result within its limit and never mixes series: when values are
  folded, the bucket carries the target, provider, basis, window, tag key and currency of the
  values it replaces.
\<close>

theorem limit_tag_values:
  assumes "LimitValues observers vals limit overflow = (evs, Inr r)" and "\<forall>t \<in> set vals. money_wf (t_Amount t)"
  shows "int (length r) \<le> limit \<and>
    (if int (length vals) \<le> limit then r = vals
     else let ranked = slice_stable tag_ranked_less vals; keep = nat (limit - 1); bucket = last r
          in r = take keep ranked @ [bucket] \<and> t_TagValue bucket = overflow \<and>
             (\<forall>x \<in> set (take keep ranked). \<forall>y \<in> set (drop keep ranked).
                f64_le (amount (t_Amount y)) (amount (t_Amount x))) \<and>
             (\<forall>y \<in> set (drop keep ranked).
                t_Provider y = t_Provider bucket \<and> t_Basis y = t_Basis bucket \<and> t_Window y = t_Window bucket \<and>
                t_TagKey y = t_TagKey bucket \<and> currency (t_Amount y) = currency (t_Amount bucket)))"
proof (cases "int (length vals) \<le> limit")
  case True
  then show ?thesis using assms(1) by (auto simp: LimitValues_def)
next
  case False
  let ?ranked = "slice_stable tag_ranked_less vals" and ?keep = "nat (limit - 1)"
  let ?cur = "?ranked ! ?keep"
  have res: "(if limit - 1 < 0 then Inl (Sentinel ''tag max values must be positive'')
    else case range_err (add_tag_amount ?cur) (F_Fin 0) (drop ?keep ?ranked) of
      Inl err \<Rightarrow> Inl err
    | Inr t \<Rightarrow> (case NewMoney t (currency (t_Amount ?cur)) of
                  Inl err \<Rightarrow> Inl err
                | Inr money \<Rightarrow> Inr (take ?keep ?ranked @ [?cur\<lparr> t_TagValue := overflow, t_Amount := money \<rparr>]))) = Inr r"
    using arg_cong [OF assms(1), of snd] False
    by (simp only: LimitValues_def Let_def if_False snd_conv sum.case_distrib [of snd] if_distrib [of snd])
  then have pos: "0 < limit" by (auto split: if_splits)
  with res obtain t money where
    t: "range_err (add_tag_amount ?cur) (F_Fin 0) (drop ?keep ?ranked) = Inr t"
    and m: "NewMoney t (currency (t_Amount ?cur)) = Inr money"
    and r: "r = take ?keep ?ranked @ [?cur\<lparr> t_TagValue := overflow, t_Amount := money \<rparr>]"
    by (auto split: sum.splits)
  have "?cur \<in> set vals" using False pos nth_mem [of ?keep ?ranked] by simp
  then have "currency money = currency (t_Amount ?cur)"
    using NewMoney_wf [OF m] assms(2) by (simp add: money_wf_def TrimSpace_id_iff)
  moreover have fin: "\<And>t. t \<in> set vals \<Longrightarrow> f64_finite (amount (t_Amount t))"
    using assms(2) by (simp add: money_wf_def)
  moreover have "int (length r) \<le> limit" using r pos by simp
  ultimately show ?thesis
    using False r t tag_rank.kept_at_least_dropped [OF fin] by (simp add: Let_def add_tag_amounts)
qed

definition sample_tag :: "string \<Rightarrow> int \<Rightarrow> TagCost" where
  "sample_tag v n =
     \<lparr> t_Target = ''a'', t_Provider = ProviderCostExplorer, t_Basis = BasisUnblended, t_Window = WindowDaily,
       t_TagKey = ''team'', t_TagValue = v, t_Amount = \<lparr> amount = F_Fin (of_int n), currency = ''USD'' \<rparr> \<rparr>"

text \<open>
  Unlike the dimension limiter, the tag limiter does not reserve its overflow label: a tag
  value equal to the label can be kept beside the bucket, and the two series then have the same
  labels, so publishing the result is rejected as a duplicate.
\<close>

theorem tag_overflow_label_collides:
  "\<exists>vals r. LimitValues ([] :: unit option list) vals 2 ''__other__'' = ([], Inr r) \<and>
     distinct (map tag_unique_key vals) \<and> \<not> distinct (map tag_unique_key r) \<and>
     (\<exists>e. ValidateUnique (NewWithData [] [] [] [] [] [] r) = Inl e \<and> errors_Is e ErrInvalidSnapshot)"
proof -
  let ?vals = "[sample_tag ''__other__'' 9, sample_tag ''a'' 2, sample_tag ''b'' 1]"
  let ?r = "[sample_tag ''__other__'' 9, sample_tag ''__other__'' 3]"
  have "LimitValues ([] :: unit option list) ?vals 2 ''__other__'' = ([], Inr ?r)" by code_simp
  moreover have "distinct (map tag_unique_key ?vals)" by code_simp
  moreover have "\<not> distinct (map tag_unique_key ?r)" by code_simp
  moreover have "ValidateUnique (NewWithData [] [] [] [] [] [] ?r) \<noteq> Inr ()" by code_simp
  then have "\<exists>e. ValidateUnique (NewWithData [] [] [] [] [] [] ?r) = Inl e \<and> errors_Is e ErrInvalidSnapshot"
    using ValidateUnique_cases [of "NewWithData [] [] [] [] [] [] ?r"] by fastforce
  ultimately show ?thesis by blast
qed

section \<open>Concrete runs\<close>

definition sample_service :: "string \<Rightarrow> int \<Rightarrow> Cost" where
  "sample_service v n =
     (sample_cost ''a'')\<lparr> c_Dimension := \<lparr> kind = DimensionService, dvalue = v \<rparr>,
       c_Amount := \<lparr> amount = F_Fin (of_int n), currency = ''USD'' \<rparr> \<rparr>"

definition sample_services :: "Cost list" where
  "sample_services = [sample_service ''x'' 1, sample_service ''y'' 5, sample_service ''z'' 2]"

theorem limit_dimensions_budget_witness:
  "\<exists>r. LimitDimensions [Some ()] sample_services 2 '' other '' = ([ObserveOverflow () ''service'' 2], Inr r) \<and>
       int (length (filter (\<lambda>c. c_Provider c = ProviderCostExplorer \<and> c_Basis c = BasisUnblended) r)) \<le> 2 \<and>
       distinct (map dim_label r)"
proof -
  have run: "LimitDimensions [Some ()] sample_services 2 '' other '' =
      ([ObserveOverflow () ''service'' 2], Inr [sample_service ''y'' 5, sample_service ''other'' 3])"
    by code_simp
  have "distinct (map dim_label sample_services)" by code_simp
  with limit_dimensions_budget [OF run, of ProviderCostExplorer BasisUnblended] run show ?thesis by blast
qed

lemma sample_services_wf: "\<forall>c \<in> set sample_services. money_wf (c_Amount c)"
  by (simp add: sample_services_def sample_service_def money_wf_def f64_finite_def trimmed_def no_prefix_def
      space_runes_def HasPrefix_def)

theorem limit_group_keeps_largest_witness:
  "\<exists>evs r. limitDimensionGroup ([] :: unit option list) sample_services 2 ''o'' = (evs, Inr r) \<and>
     amount (c_Amount (last r)) = F_Fin 3 \<and> dvalue (c_Dimension (last r)) = ''o''"
proof -
  have run: "limitDimensionGroup ([] :: unit option list) sample_services 2 ''o'' =
      ([], Inr [sample_service ''y'' 5, sample_service ''o'' 3])" by code_simp
  have "trimmed ''o''" by (simp add: trimmed_def no_prefix_def space_runes_def HasPrefix_def)
  from limit_group_keeps_largest [OF run _ this _ sample_services_wf] run show ?thesis
    by (simp add: sample_services_def sample_service_def)
qed

theorem limit_tag_values_witness:
  "\<exists>evs r. LimitValues ([] :: unit option list) [sample_tag ''a'' 2, sample_tag ''b'' 1, sample_tag ''c'' 4] 2 ''o'' = (evs, Inr r) \<and>
     int (length r) \<le> 2 \<and> t_TagValue (last r) = ''o''"
proof -
  let ?vals = "[sample_tag ''a'' 2, sample_tag ''b'' 1, sample_tag ''c'' 4]"
  have run: "LimitValues ([] :: unit option list) ?vals 2 ''o'' = ([], Inr [sample_tag ''c'' 4, sample_tag ''o'' 3])"
    by code_simp
  have "\<forall>t \<in> set ?vals. money_wf (t_Amount t)"
    by (simp add: sample_tag_def money_wf_def f64_finite_def trimmed_def no_prefix_def space_runes_def HasPrefix_def)
  from limit_tag_values [OF run this] run show ?thesis by (simp add: sample_tag_def)
qed

end
