(* ===== verification/Collectors.thy ===== *)
theory Collectors
  imports Cardinality
begin

text \<open>
  Packages \<open>internal/ports\<close> (queries) and \<open>internal/collector\<close> with its sub-packages: the query
  builder, the grouped collection loop, every collector, and the registry. A reader is a function
  on a world \<open>'w\<close>: it may change the world (time passes, requests are made) and returns an error
  or a value. \<open>ctx.Err()\<close> is a function of the world. A constructor's nil dependency is \<open>None\<close>.
\<close>

section \<open>ports/cost_reader.go\<close>

record CostQuery =
  q_Period :: Period
  q_Window :: string
  q_Basis :: string
  q_GroupBy :: string
  q_LinkedAccountIDs :: "string list"
  q_Services :: "string list"
  q_Regions :: "string list"

record ForecastQuery =
  fq_Period :: Period
  fq_Basis :: string
  fq_PredictionInterval :: int
  fq_LinkedAccountIDs :: "string list"
  fq_Services :: "string list"
  fq_Regions :: "string list"

type_synonym ('w, 'a) action = "'w \<Rightarrow> 'w \<times> (go_error + 'a)"

section \<open>queries.go\<close>

definition BuildDailyAndMTDQueries :: "time \<Rightarrow> string \<Rightarrow> go_error + CostQuery list" where
  "BuildDailyAndMTDQueries reference groupBy =
     (let day = DayContaining reference; month = MonthContaining reference
      in case NewPeriod (p_start month) (p_end day) of
           Inl err \<Rightarrow> Inl (Wrapped ''build month-to-date period'' err)
         | Inr monthToDate \<Rightarrow>
             Inr [\<lparr> q_Period = day, q_Window = WindowDaily, q_Basis = '''', q_GroupBy = groupBy,
                    q_LinkedAccountIDs = [], q_Services = [], q_Regions = [] \<rparr>,
                  \<lparr> q_Period = monthToDate, q_Window = WindowMonthToDate, q_Basis = '''', q_GroupBy = groupBy,
                    q_LinkedAccountIDs = [], q_Services = [], q_Regions = [] \<rparr>])"

section \<open>grouped.go\<close>

definition DefaultOverflowLabel :: string where "DefaultOverflowLabel = ''__other__''"

definition ValidateOverflowLabel :: "string \<Rightarrow> go_error option" where
  "ValidateOverflowLabel label = (if TrimSpace label = '''' then Some ErrInvalidOverflowLabel else None)"

text \<open>
  The loop over the queries. Its state is the world and the overflow events; \<open>mutate\<close> and
  \<open>validate\<close> are the optional closures. Assigning the target to every value is a map.
\<close>

fun grouped_loop ::
  "('w \<Rightarrow> go_error option) \<Rightarrow> TargetID \<Rightarrow> int \<Rightarrow> string \<Rightarrow> (CostQuery \<Rightarrow> ('w, Cost list) action) \<Rightarrow>
   (CostQuery \<Rightarrow> CostQuery) option \<Rightarrow> (Cost list \<Rightarrow> go_error option) option \<Rightarrow> 'o option list \<Rightarrow>
   CostQuery list \<Rightarrow> Cost list \<Rightarrow> ('w \<times> 'o overflow_event list, Cost list) action" where
  "grouped_loop ctx_err target limit label reader mutate validate observers [] collected (w, evs) =
     ((w, evs), Inr collected)"
| "grouped_loop ctx_err target limit label reader mutate validate observers (q # qs) collected (w, evs) =
     (let query = (case mutate of None \<Rightarrow> q | Some f \<Rightarrow> f q)
      in case ctx_err w of
           Some err \<Rightarrow> ((w, evs), Inl err)
         | None \<Rightarrow>
             (case reader query w of
                (w1, Inl err) \<Rightarrow> ((w1, evs), Inl (Wrapped ''collect cost'' err))
              | (w1, Inr vals) \<Rightarrow>
                  (case (case validate of None \<Rightarrow> None | Some f \<Rightarrow> f vals) of
                     Some err \<Rightarrow> ((w1, evs), Inl (Wrapped ''validate cost'' err))
                   | None \<Rightarrow>
                       (case LimitDimensions observers vals limit label of
                          (e, Inl err) \<Rightarrow> ((w1, evs @ e), Inl (Wrapped ''limit cost'' err))
                        | (e, Inr bounded) \<Rightarrow>
                            grouped_loop ctx_err target limit label reader mutate validate observers qs
                              (collected @ map (\<lambda>c. c\<lparr> c_Target := target \<rparr>) bounded) (w1, evs @ e)))))"

definition CollectGrouped ::
  "('w \<Rightarrow> go_error option) \<Rightarrow> time \<Rightarrow> TargetID \<Rightarrow> string \<Rightarrow> int \<Rightarrow> string \<Rightarrow>
   (CostQuery \<Rightarrow> ('w, Cost list) action) \<Rightarrow> (CostQuery \<Rightarrow> CostQuery) option \<Rightarrow>
   (Cost list \<Rightarrow> go_error option) option \<Rightarrow> 'o option list \<Rightarrow> ('w \<times> 'o overflow_event list, Snapshot) action" where
  "CollectGrouped ctx_err reference target groupBy limit label reader mutate validate observers s =
     (case ValidateOverflowLabel label of
        Some err \<Rightarrow> (s, Inl err)
      | None \<Rightarrow>
          (case BuildDailyAndMTDQueries reference groupBy of
             Inl err \<Rightarrow> (s, Inl err)
           | Inr queries \<Rightarrow>
               (case grouped_loop ctx_err target limit label reader mutate validate observers queries [] s of
                  (s', Inl err) \<Rightarrow> (s', Inl err)
                | (s', Inr collected) \<Rightarrow> (s', Inr (New collected [] [] [])))))"

section \<open>total/collector.go\<close>

record TotalCollector =
  total_id :: CollectorID

definition Total_NewForTarget :: "TargetID \<Rightarrow> 'r option \<Rightarrow> go_error + TotalCollector" where
  "Total_NewForTarget target reader =
     (if reader = None then Inl (Sentinel ''total cost reader must not be nil'')
      else let cid = \<lparr> id_Target = target, id_Name = ''total'' \<rparr>
           in if \<not> CollectorID_Valid cid then Inl (Sentinel ''invalid total collector target'')
              else Inr \<lparr> total_id = cid \<rparr>)"

definition Total_New :: "'r option \<Rightarrow> go_error + TotalCollector" where
  "Total_New reader = Total_NewForTarget ''default'' reader"

fun total_loop ::
  "('w \<Rightarrow> go_error option) \<Rightarrow> TargetID \<Rightarrow> (CostQuery \<Rightarrow> ('w, Cost list) action) \<Rightarrow>
   CostQuery list \<Rightarrow> Cost list \<Rightarrow> ('w, Cost list) action" where
  "total_loop ctx_err target reader [] collected w = (w, Inr collected)"
| "total_loop ctx_err target reader (q # qs) collected w =
     (case ctx_err w of
        Some err \<Rightarrow> (w, Inl err)
      | None \<Rightarrow>
          (case reader q w of
             (w1, Inl err) \<Rightarrow> (w1, Inl (Wrapped ''collect total cost'' err))
           | (w1, Inr vals) \<Rightarrow>
               total_loop ctx_err target reader qs
                 (collected @ map (\<lambda>c. c\<lparr> c_Target := target \<rparr>) vals) w1))"

definition Total_Collect ::
  "TotalCollector \<Rightarrow> ('w \<Rightarrow> go_error option) \<Rightarrow> (CostQuery \<Rightarrow> ('w, Cost list) action) \<Rightarrow> time \<Rightarrow>
   ('w, Snapshot) action" where
  "Total_Collect col ctx_err reader reference w =
     (case BuildDailyAndMTDQueries reference DimensionTotal of
        Inl err \<Rightarrow> (w, Inl err)
      | Inr queries \<Rightarrow>
          (case total_loop ctx_err (id_Target (total_id col)) reader queries [] w of
             (w', Inl err) \<Rightarrow> (w', Inl err)
           | (w', Inr collected) \<Rightarrow> (w', Inr (New collected [] [] []))))"

section \<open>service, region and account collectors\<close>

record GroupedCollector =
  gc_id :: CollectorID
  gc_linkedAccountIDs :: "string list"
  gc_seriesLimit :: int
  gc_overflowLabel :: string

definition Service_NewForTarget :: "TargetID \<Rightarrow> 'r option \<Rightarrow> int \<Rightarrow> string \<Rightarrow> go_error + GroupedCollector" where
  "Service_NewForTarget target reader limit label =
     (if reader = None then Inl (Sentinel ''service cost reader must not be nil'')
      else if limit \<le> 0 then Inl ErrInvalidSeriesLimit
      else if ValidateOverflowLabel label \<noteq> None then Inl ErrInvalidOverflowLabel
      else Inr \<lparr> gc_id = \<lparr> id_Target = target, id_Name = ''service'' \<rparr>, gc_linkedAccountIDs = [],
                 gc_seriesLimit = limit, gc_overflowLabel = label \<rparr>)"

definition Service_New :: "'r option \<Rightarrow> int \<Rightarrow> string \<Rightarrow> go_error + GroupedCollector" where
  "Service_New reader limit label = Service_NewForTarget ''default'' reader limit label"

definition Region_NewForTarget :: "TargetID \<Rightarrow> 'r option \<Rightarrow> int \<Rightarrow> string \<Rightarrow> go_error + GroupedCollector" where
  "Region_NewForTarget target reader limit label =
     (if reader = None then Inl (Sentinel ''region cost reader must not be nil'')
      else if limit \<le> 0 then Inl ErrInvalidSeriesLimit
      else if ValidateOverflowLabel label \<noteq> None then Inl ErrInvalidOverflowLabel
      else Inr \<lparr> gc_id = \<lparr> id_Target = target, id_Name = ''region'' \<rparr>, gc_linkedAccountIDs = [],
                 gc_seriesLimit = limit, gc_overflowLabel = label \<rparr>)"

definition Region_New :: "'r option \<Rightarrow> int \<Rightarrow> string \<Rightarrow> go_error + GroupedCollector" where
  "Region_New reader limit label = Region_NewForTarget ''default'' reader limit label"

definition ErrInvalidAccountID :: go_error where
  "ErrInvalidAccountID = Sentinel ''invalid linked account ID''"

definition validAccountID :: "string \<Rightarrow> bool" where
  "validAccountID v \<longleftrightarrow> length v = 12 \<and> list_all is_digit v"

definition Account_NewForTarget ::
  "TargetID \<Rightarrow> 'r option \<Rightarrow> string list \<Rightarrow> int \<Rightarrow> string \<Rightarrow> go_error + GroupedCollector" where
  "Account_NewForTarget target reader linked limit label =
     (if reader = None then Inl (Sentinel ''account cost reader must not be nil'')
      else if limit \<le> 0 then Inl ErrInvalidSeriesLimit
      else if ValidateOverflowLabel label \<noteq> None then Inl ErrInvalidOverflowLabel
      else if \<not> list_all validAccountID linked then Inl ErrInvalidAccountID
      else Inr \<lparr> gc_id = \<lparr> id_Target = target, id_Name = ''account'' \<rparr>, gc_linkedAccountIDs = linked,
                 gc_seriesLimit = limit, gc_overflowLabel = label \<rparr>)"

definition Account_New :: "'r option \<Rightarrow> string list \<Rightarrow> int \<Rightarrow> string \<Rightarrow> go_error + GroupedCollector" where
  "Account_New reader linked limit label = Account_NewForTarget ''default'' reader linked limit label"

definition validateAccountCosts :: "Cost list \<Rightarrow> go_error option" where
  "validateAccountCosts vals =
     (if list_all (\<lambda>c. kind (c_Dimension c) = DimensionAccount \<and> validAccountID (dvalue (c_Dimension c))) vals
      then None else Some ErrInvalidAccountID)"

definition Service_Collect ::
  "GroupedCollector \<Rightarrow> ('w \<Rightarrow> go_error option) \<Rightarrow> (CostQuery \<Rightarrow> ('w, Cost list) action) \<Rightarrow> 'o option list \<Rightarrow>
   time \<Rightarrow> ('w \<times> 'o overflow_event list, Snapshot) action" where
  "Service_Collect col ctx_err reader observers reference =
     CollectGrouped ctx_err reference (id_Target (gc_id col)) DimensionService (gc_seriesLimit col)
       (gc_overflowLabel col) reader None None observers"

definition Region_Collect ::
  "GroupedCollector \<Rightarrow> ('w \<Rightarrow> go_error option) \<Rightarrow> (CostQuery \<Rightarrow> ('w, Cost list) action) \<Rightarrow> 'o option list \<Rightarrow>
   time \<Rightarrow> ('w \<times> 'o overflow_event list, Snapshot) action" where
  "Region_Collect col ctx_err reader observers reference =
     CollectGrouped ctx_err reference (id_Target (gc_id col)) DimensionRegion (gc_seriesLimit col)
       (gc_overflowLabel col) reader None None observers"

definition Account_Collect ::
  "GroupedCollector \<Rightarrow> ('w \<Rightarrow> go_error option) \<Rightarrow> (CostQuery \<Rightarrow> ('w, Cost list) action) \<Rightarrow> 'o option list \<Rightarrow>
   time \<Rightarrow> ('w \<times> 'o overflow_event list, Snapshot) action" where
  "Account_Collect col ctx_err reader observers reference =
     CollectGrouped ctx_err reference (id_Target (gc_id col)) DimensionAccount (gc_seriesLimit col)
       (gc_overflowLabel col) reader
       (Some (\<lambda>query. query\<lparr> q_LinkedAccountIDs := gc_linkedAccountIDs col \<rparr>))
       (Some validateAccountCosts) observers"

section \<open>forecast/collector.go\<close>

record ForecastCollector =
  fc_id :: CollectorID
  fc_predictionInterval :: int

definition Forecast_NewForTarget :: "TargetID \<Rightarrow> 'r option \<Rightarrow> int \<Rightarrow> go_error + ForecastCollector" where
  "Forecast_NewForTarget target reader interval =
     (if reader = None then Inl (Sentinel ''forecast reader must not be nil'')
      else if interval < 80 \<or> interval > 99 then Inl (Sentinel ''prediction interval must be between 80 and 99'')
      else Inr \<lparr> fc_id = \<lparr> id_Target = target, id_Name = ''forecast'' \<rparr>, fc_predictionInterval = interval \<rparr>)"

definition Forecast_New :: "'r option \<Rightarrow> int \<Rightarrow> go_error + ForecastCollector" where
  "Forecast_New reader interval = Forecast_NewForTarget ''default'' reader interval"

definition Forecast_Collect ::
  "ForecastCollector \<Rightarrow> (ForecastQuery \<Rightarrow> ('w, Forecast) action) \<Rightarrow> time \<Rightarrow> ('w, Snapshot) action" where
  "Forecast_Collect col reader reference w =
     (let day = DayContaining reference; month = MonthContaining reference
      in case NewPeriod (p_start day) (p_end month) of
           Inl err \<Rightarrow> (w, Inl (Wrapped ''build forecast period'' err))
         | Inr period \<Rightarrow>
             (case reader \<lparr> fq_Period = period, fq_Basis = '''', fq_PredictionInterval = fc_predictionInterval col,
                            fq_LinkedAccountIDs = [], fq_Services = [], fq_Regions = [] \<rparr> w of
                (w', Inl err) \<Rightarrow> (w', Inl (Wrapped ''collect forecast'' err))
              | (w', Inr v) \<Rightarrow> (w', Inr (New [] [v\<lparr> f_Target := id_Target (fc_id col) \<rparr>] [] []))))"

section \<open>budget and organizationmeta collectors\<close>

definition Budgets_New :: "TargetID \<Rightarrow> 'r option \<Rightarrow> go_error + CollectorID" where
  "Budgets_New target reader =
     (if target = '''' \<or> reader = None then Inl (Sentinel ''invalid Budgets collector configuration'')
      else Inr \<lparr> id_Target = target, id_Name = ''budgets'' \<rparr>)"

definition Budgets_Collect :: "('w, Budget list) action \<Rightarrow> ('w, Snapshot) action" where
  "Budgets_Collect reader w =
     (case reader w of (w', Inl err) \<Rightarrow> (w', Inl err) | (w', Inr vals) \<Rightarrow> (w', Inr (New [] [] vals [])))"

definition Organizations_New :: "TargetID \<Rightarrow> 'r option \<Rightarrow> go_error + CollectorID" where
  "Organizations_New target reader =
     (if target = '''' \<or> reader = None then Inl (Sentinel ''invalid Organizations collector configuration'')
      else Inr \<lparr> id_Target = target, id_Name = ''organizations'' \<rparr>)"

definition Organizations_Collect :: "('w, Account list) action \<Rightarrow> ('w, Snapshot) action" where
  "Organizations_Collect reader w =
     (case reader w of (w', Inl err) \<Rightarrow> (w', Inl err) | (w', Inr vals) \<Rightarrow> (w', Inr (New [] [] [] vals)))"

section \<open>commitment/collector.go\<close>

record SeriesCollector =
  sc_target :: TargetID
  sc_seriesLimit :: int

definition Commitments_New :: "TargetID \<Rightarrow> 'r option \<Rightarrow> int \<Rightarrow> go_error + SeriesCollector" where
  "Commitments_New target reader limit =
     (if reader = None then Inl (Sentinel ''commitment reader must not be nil'')
      else if limit \<le> 0 then Inl (Sentinel ''commitment series limit must be positive'')
      else Inr \<lparr> sc_target = target, sc_seriesLimit = limit \<rparr>)"

definition mergeSummaries :: "TargetID \<Rightarrow> string \<Rightarrow> Commitment \<Rightarrow> Commitment \<Rightarrow> go_error + Commitment" where
  "mergeSummaries target ctype utilization coverage =
     (if m_Target utilization \<noteq> target \<or> m_Target coverage \<noteq> target \<or> m_Type utilization \<noteq> ctype
         \<or> m_Type coverage \<noteq> ctype \<or> m_TimeUnit utilization = '''' \<or> m_TimeUnit utilization \<noteq> m_TimeUnit coverage
      then Inl (Sentinel ''commitment reader returned inconsistent summary identity'')
      else Inr \<lparr> m_Target = target, m_Type = ctype, m_TimeUnit = m_TimeUnit utilization,
                 m_UtilizationRatio = m_UtilizationRatio utilization, m_CoverageRatio = m_CoverageRatio coverage,
                 m_UnusedHours = m_UnusedHours utilization, m_CoveredSpend = m_CoveredSpend coverage,
                 m_OnDemandCost = m_OnDemandCost coverage, m_NetSavings = m_NetSavings utilization,
                 m_HasUtilization = m_HasUtilization utilization, m_HasCoverage = m_HasCoverage coverage,
                 m_HasUnusedHours = m_HasUnusedHours utilization, m_HasCoveredSpend = m_HasCoveredSpend coverage,
                 m_HasOnDemandCost = m_HasOnDemandCost coverage, m_HasNetSavings = m_HasNetSavings utilization \<rparr>)"

record 'w CommitmentReader =
  ReadSavingsPlansUtilization :: "time \<Rightarrow> ('w, Commitment) action"
  ReadSavingsPlansCoverage :: "time \<Rightarrow> ('w, Commitment) action"
  ReadReservationUtilization :: "time \<Rightarrow> ('w, Commitment) action"
  ReadReservationCoverage :: "time \<Rightarrow> ('w, Commitment) action"

definition Commitments_Collect ::
  "SeriesCollector \<Rightarrow> 'w CommitmentReader \<Rightarrow> time \<Rightarrow> ('w, Snapshot) action" where
  "Commitments_Collect col reader reference w =
     (case ReadSavingsPlansUtilization reader reference w of
        (w1, Inl err) \<Rightarrow> (w1, Inl err)
      | (w1, Inr spUtilization) \<Rightarrow>
     (case ReadSavingsPlansCoverage reader reference w1 of
        (w2, Inl err) \<Rightarrow> (w2, Inl err)
      | (w2, Inr spCoverage) \<Rightarrow>
     (case mergeSummaries (sc_target col) TypeSavingsPlan spUtilization spCoverage of
        Inl err \<Rightarrow> (w2, Inl err)
      | Inr sp \<Rightarrow>
     (case ReadReservationUtilization reader reference w2 of
        (w3, Inl err) \<Rightarrow> (w3, Inl err)
      | (w3, Inr riUtilization) \<Rightarrow>
     (case ReadReservationCoverage reader reference w3 of
        (w4, Inl err) \<Rightarrow> (w4, Inl err)
      | (w4, Inr riCoverage) \<Rightarrow>
     (case mergeSummaries (sc_target col) TypeReservation riUtilization riCoverage of
        Inl err \<Rightarrow> (w4, Inl err)
      | Inr ri \<Rightarrow>
          let result = NewWithData [] [] [] [] [sp, ri] [] []
          in if int (SeriesCount result) > sc_seriesLimit col
             then (w4, Inl (Sentinel ''commitment series limit exceeded''))
             else (w4, Inr result)))))))"

section \<open>anomaly/collector.go\<close>

definition Anomalies_New :: "TargetID \<Rightarrow> 'r option \<Rightarrow> int \<Rightarrow> go_error + SeriesCollector" where
  "Anomalies_New target reader limit =
     (if reader = None then Inl (Sentinel ''anomaly reader must not be nil'')
      else if limit \<le> 0 then Inl (Sentinel ''anomaly series limit must be positive'')
      else Inr \<lparr> sc_target = target, sc_seriesLimit = limit \<rparr>)"

definition Anomalies_Collect ::
  "SeriesCollector \<Rightarrow> (time \<Rightarrow> ('w, Anomaly) action) \<Rightarrow> time \<Rightarrow> ('w, Snapshot) action" where
  "Anomalies_Collect col reader reference w =
     (case reader reference w of
        (w', Inl err) \<Rightarrow> (w', Inl err)
      | (w', Inr v) \<Rightarrow>
          let result = NewWithData [] [] [] [] [] [v] []
          in if int (SeriesCount result) > sc_seriesLimit col
             then (w', Inl (Sentinel ''anomaly series limit exceeded''))
             else (w', Inr result))"

section \<open>tag/collector.go\<close>

record TagKeyConfig =
  tk_Key :: string
  tk_MaxValues :: int

record TagCollector =
  tg_target :: TargetID
  tg_bases :: "string list"
  tg_keys :: "TagKeyConfig list"
  tg_seriesLimit :: int
  tg_overflow :: string

definition Tags_New ::
  "TargetID \<Rightarrow> 'r option \<Rightarrow> string list \<Rightarrow> TagKeyConfig list \<Rightarrow> int \<Rightarrow> string \<Rightarrow> go_error + TagCollector" where
  "Tags_New target reader bases keys limit overflow =
     (if reader = None \<or> keys = [] \<or> limit \<le> 0 then Inl (Sentinel ''invalid tag collector'')
      else Inr \<lparr> tg_target = target, tg_bases = bases, tg_keys = keys, tg_seriesLimit = limit,
                 tg_overflow = overflow \<rparr>)"

text \<open>The three nested loops visit every basis, key and query in this order.\<close>

definition tag_requests :: "string list \<Rightarrow> TagKeyConfig list \<Rightarrow> CostQuery list \<Rightarrow> (CostQuery \<times> TagKeyConfig) list" where
  "tag_requests bases keys queries =
     concat (map (\<lambda>basis. concat (map (\<lambda>key. map (\<lambda>query. (query\<lparr> q_Basis := basis \<rparr>, key)) queries) keys)) bases)"

fun tag_loop ::
  "TagCollector \<Rightarrow> (CostQuery \<Rightarrow> string \<Rightarrow> ('w, TagCost list) action) \<Rightarrow> 'o option list \<Rightarrow>
   (CostQuery \<times> TagKeyConfig) list \<Rightarrow> TagCost list \<Rightarrow> ('w \<times> 'o overflow_event list, TagCost list) action" where
  "tag_loop col reader observers [] result s = (s, Inr result)"
| "tag_loop col reader observers ((query, key) # rest) result (w, evs) =
     (case reader query (tk_Key key) w of
        (w1, Inl err) \<Rightarrow> ((w1, evs), Inl err)
      | (w1, Inr rows) \<Rightarrow>
          (case LimitValues observers rows (tk_MaxValues key) (tg_overflow col) of
             (e, Inl err) \<Rightarrow> ((w1, evs @ e), Inl err)
           | (e, Inr bounded) \<Rightarrow>
               tag_loop col reader observers rest
                 (result @ map (\<lambda>t. t\<lparr> t_Target := tg_target col \<rparr>) bounded) (w1, evs @ e)))"

definition Tags_Collect ::
  "TagCollector \<Rightarrow> (CostQuery \<Rightarrow> string \<Rightarrow> ('w, TagCost list) action) \<Rightarrow> 'o option list \<Rightarrow> time \<Rightarrow>
   ('w \<times> 'o overflow_event list, Snapshot) action" where
  "Tags_Collect col reader observers reference s =
     (case BuildDailyAndMTDQueries reference DimensionTotal of
        Inl err \<Rightarrow> (s, Inl err)
      | Inr queries \<Rightarrow>
          (case tag_loop col reader observers (tag_requests (tg_bases col) (tg_keys col) queries) [] s of
             (s', Inl err) \<Rightarrow> (s', Inl err)
           | (s', Inr result) \<Rightarrow>
               if int (length result) > tg_seriesLimit col
               then (s', Inl (Sentinel ''tag series limit exceeded''))
               else (s', Inr (NewWithData [] [] [] [] [] [] result))))"

section \<open>cur/collector.go\<close>

record CURCollector =
  cur_target :: TargetID
  cur_bases :: "string list"
  cur_tags :: bool
  cur_seriesLimit :: int
  cur_tagSeriesLimit :: int
  cur_maxCurrencies :: int
  cur_keys :: "TagKeyConfig list"
  cur_overflow :: string

definition CUR_New ::
  "TargetID \<Rightarrow> 'r option \<Rightarrow> string list \<Rightarrow> bool \<Rightarrow> int \<Rightarrow> int \<Rightarrow> int \<Rightarrow> TagKeyConfig list \<Rightarrow> string \<Rightarrow>
   go_error + CURCollector" where
  "CUR_New target reader bases tags limit tagLimit maxCurrencies keys overflow =
     (if reader = None then Inl (Sentinel ''CUR reader must not be nil'')
      else if limit \<le> 0 \<or> tagLimit \<le> 0 \<or> maxCurrencies \<le> 0
      then Inl (Sentinel ''CUR series limits must be positive'')
      else Inr \<lparr> cur_target = target, cur_bases = bases, cur_tags = tags, cur_seriesLimit = limit,
                 cur_tagSeriesLimit = tagLimit, cur_maxCurrencies = maxCurrencies, cur_keys = keys,
                 cur_overflow = overflow \<rparr>)"

definition currencyCount :: "Cost list \<Rightarrow> TagCost list \<Rightarrow> int" where
  "currencyCount cs ts =
     int (length (foldl (\<lambda>seen c. List.insert c seen) []
       (map (\<lambda>c. currency (c_Amount c)) cs @ map (\<lambda>t. currency (t_Amount t)) ts)))"

type_synonym tag_group = "string \<times> string \<times> string \<times> string \<times> string"

definition tag_group_key :: "TagCost \<Rightarrow> tag_group" where
  "tag_group_key t = (t_TagKey t, t_Provider t, t_Basis t, t_Window t, currency (t_Amount t))"

definition tag_limits :: "TagKeyConfig list \<Rightarrow> (string, int) gomap" where
  "tag_limits keys = foldl (\<lambda>m k. AList.update (tk_Key k) (tk_MaxValues k) m) [] keys"

definition tag_limit_of :: "(string, int) gomap \<Rightarrow> string \<Rightarrow> int" where
  "tag_limit_of m k = (case map_of m k of None \<Rightarrow> 0 | Some n \<Rightarrow> n)"

definition tag_group_of :: "(tag_group, TagCost list) gomap \<Rightarrow> tag_group \<Rightarrow> TagCost list" where
  "tag_group_of m k = (case map_of m k of None \<Rightarrow> [] | Some xs \<Rightarrow> xs)"

definition group_tag ::
  "(string, int) gomap \<Rightarrow> (tag_group, TagCost list) gomap \<Rightarrow> TagCost \<Rightarrow> go_error + (tag_group, TagCost list) gomap" where
  "group_tag limits groups t =
     (if map_of limits (t_TagKey t) = None \<or> tag_limit_of limits (t_TagKey t) \<le> 0
      then Inl (Sentinel ''CUR returned a non-allowlisted tag key'')
      else Inr (AList.update (tag_group_key t) (tag_group_of groups (tag_group_key t) @ [t]) groups))"

fun limit_tag_groups ::
  "'o option list \<Rightarrow> (string, int) gomap \<Rightarrow> string \<Rightarrow> (tag_group, TagCost list) gomap \<Rightarrow> ('o, TagCost) limited" where
  "limit_tag_groups observers limits overflow [] = ([], Inr [])"
| "limit_tag_groups observers limits overflow ((k, members) # rest) =
     (case LimitValues observers members (tag_limit_of limits (fst k)) overflow of
        (e, Inl err) \<Rightarrow> (e, Inl err)
      | (e, Inr bounded) \<Rightarrow>
          (case limit_tag_groups observers limits overflow rest of
             (e', Inl err) \<Rightarrow> (e @ e', Inl err)
           | (e', Inr others) \<Rightarrow> (e @ e', Inr (bounded @ others))))"

definition limitTags :: "CURCollector \<Rightarrow> 'o option list \<Rightarrow> TagCost list \<Rightarrow> ('o, TagCost) limited" where
  "limitTags col observers vals =
     (let limits = tag_limits (cur_keys col)
      in case range_err (group_tag limits) [] vals of
           Inl err \<Rightarrow> ([], Inl err)
         | Inr groups \<Rightarrow>
             (case limit_tag_groups observers limits (cur_overflow col) groups of
                (e, Inl err) \<Rightarrow> (e, Inl err)
              | (e, Inr result) \<Rightarrow> (e, Inr (TagCost_Sort result))))"

text \<open>The checks after the reads, on the costs and the limited tags.\<close>

definition cur_finish :: "CURCollector \<Rightarrow> Cost list \<Rightarrow> TagCost list \<Rightarrow> go_error + Snapshot" where
  "cur_finish col cs tags =
     (if currencyCount cs tags > cur_maxCurrencies col then Inl (Sentinel ''CUR currency limit exceeded'')
      else if int (length cs) + int (length tags) > cur_seriesLimit col
      then Inl (Sentinel ''CUR series limit exceeded'')
      else Inr (NewWithData cs [] [] [] [] [] tags))"

definition CUR_Collect ::
  "CURCollector \<Rightarrow> (time \<Rightarrow> string list \<Rightarrow> ('w, Cost list) action) \<Rightarrow>
   (time \<Rightarrow> string list \<Rightarrow> ('w, TagCost list) action) \<Rightarrow> 'o option list \<Rightarrow> time \<Rightarrow>
   ('w \<times> 'o overflow_event list, Snapshot) action" where
  "CUR_Collect col queryCosts queryTagCosts observers reference = (\<lambda>(w, evs).
     (case queryCosts reference (cur_bases col) w of
        (w1, Inl err) \<Rightarrow> ((w1, evs), Inl err)
      | (w1, Inr cs) \<Rightarrow>
          if currencyCount cs [] > cur_maxCurrencies col
          then ((w1, evs), Inl (Sentinel ''CUR currency limit exceeded''))
          else if \<not> cur_tags col then ((w1, evs), cur_finish col cs [])
          else (case queryTagCosts reference (cur_bases col) w1 of
                  (w2, Inl err) \<Rightarrow> ((w2, evs), Inl err)
                | (w2, Inr raw) \<Rightarrow>
                    (case limitTags col observers raw of
                       (e, Inl err) \<Rightarrow> ((w2, evs @ e), Inl err)
                     | (e, Inr tags) \<Rightarrow>
                         if int (length tags) > cur_tagSeriesLimit col
                         then ((w2, evs @ e), Inl (Sentinel ''CUR tag series limit exceeded''))
                         else ((w2, evs @ e), cur_finish col cs tags)))))"

section \<open>registry.go\<close>

definition ErrInvalidRegistration :: go_error where
  "ErrInvalidRegistration = Sentinel ''invalid collector registration''"
definition ErrDuplicateRegistration :: go_error where
  "ErrDuplicateRegistration = Sentinel ''duplicate collector registration''"
definition ErrUnknownCollector :: go_error where
  "ErrUnknownCollector = Sentinel ''unknown collector''"

text \<open>A factory returns a collector, or nil, or an error; \<open>ident\<close> is the collector's \<open>ID\<close>.\<close>

type_synonym ('w, 'c) factory = "('w, 'c option) action"

definition Register ::
  "string \<Rightarrow> ('w, 'c) factory option \<Rightarrow> (string, ('w, 'c) factory) gomap \<Rightarrow>
   (string, ('w, 'c) factory) gomap \<times> go_error option" where
  "Register raw factory factories =
     (let name = TrimSpace raw
      in case factory of
           None \<Rightarrow> (factories, Some ErrInvalidRegistration)
         | Some f \<Rightarrow>
             if name = '''' then (factories, Some ErrInvalidRegistration)
             else if map_of factories name \<noteq> None
             then (factories, Some (Wrapped name ErrDuplicateRegistration))
             else (AList.update name f factories, None))"

fun Build ::
  "('c \<Rightarrow> CollectorID) \<Rightarrow> (string, ('w, 'c) factory) gomap \<Rightarrow> string list \<Rightarrow> ('w, 'c list) action" where
  "Build ident factories [] w = (w, Inr [])"
| "Build ident factories (name # names) w =
     (case map_of factories name of
        None \<Rightarrow> (w, Inl (Wrapped name ErrUnknownCollector))
      | Some factory \<Rightarrow>
          (case factory w of
             (w1, Inl err) \<Rightarrow> (w1, Inl (Wrapped ''construct collector'' err))
           | (w1, Inr None) \<Rightarrow> (w1, Inl (Wrapped ''factory returned mismatched collector'' ErrInvalidRegistration))
           | (w1, Inr (Some c)) \<Rightarrow>
               if \<not> CollectorID_Valid (ident c) \<or> id_Name (ident c) \<noteq> name
               then (w1, Inl (Wrapped ''factory returned mismatched collector'' ErrInvalidRegistration))
               else (case Build ident factories names w1 of
                       (w2, Inl err) \<Rightarrow> (w2, Inl err)
                     | (w2, Inr cs) \<Rightarrow> (w2, Inr (c # cs)))))"

section \<open>Queries and limited rows\<close>

lemma BuildDailyAndMTDQueries_eq:
  "BuildDailyAndMTDQueries reference groupBy =
     Inr [\<lparr> q_Period = DayContaining reference, q_Window = WindowDaily, q_Basis = [], q_GroupBy = groupBy,
            q_LinkedAccountIDs = [], q_Services = [], q_Regions = [] \<rparr>,
          \<lparr> q_Period = \<lparr> p_start = p_start (MonthContaining reference), p_end = p_end (DayContaining reference) \<rparr>,
            q_Window = WindowMonthToDate, q_Basis = [], q_GroupBy = groupBy,
            q_LinkedAccountIDs = [], q_Services = [], q_Regions = [] \<rparr>]"
proof -
  have "p_start (DayContaining reference) < p_end (DayContaining reference)" by (simp add: DayContaining_eq)
  then have "p_start (MonthContaining reference) < p_end (DayContaining reference)"
    using Day_in_Month [of reference] by linarith
  then show ?thesis by (simp add: BuildDailyAndMTDQueries_def NewPeriod_def Let_def)
qed

text \<open>What one row of a cost query looks like: the contract between readers and collectors.\<close>

definition cost_row :: "string \<Rightarrow> string \<Rightarrow> Cost \<Rightarrow> bool" where
  "cost_row window groupBy c \<longleftrightarrow>
     Provider_Valid (c_Provider c) \<and> Basis_Valid (c_Basis c) \<and> c_Window c = window \<and>
     dimension_wf (c_Dimension c) \<and> kind (c_Dimension c) = groupBy \<and> money_wf (c_Amount c)"

lemma overflow_row:
  assumes "cost_overflow_of dropped other bucket" and "\<forall>c \<in> set dropped. cost_row w k c"
  shows "cost_row w k bucket"
proof -
  have d: "NewDimension (kind (c_Dimension (hd dropped))) other = Inr (c_Dimension bucket)"
    and m: "NewMoney (foldl f64_add (F_Fin 0) (map (\<lambda>c. amount (c_Amount c)) dropped))
              (currency (c_Amount (hd dropped))) = Inr (c_Amount bucket)"
    and e: "c_Provider bucket = c_Provider (hd dropped)" "c_Basis bucket = c_Basis (hd dropped)"
      "c_Window bucket = c_Window (hd dropped)" and ne: "dropped \<noteq> []"
    using assms(1) unfolding cost_overflow_of_def by blast+
  have "cost_row w k (hd dropped)" using assms(2) ne by simp
  then show ?thesis using NewDimension_wf [OF d] NewMoney_wf [OF m] e by (simp add: cost_row_def)
qed

lemma limitDimensionGroup_rows:
  assumes "limitDimensionGroup observers vals limit other = (evs, Inr r)" and "0 < limit"
    and "\<forall>c \<in> set vals. cost_row w k c"
  shows "\<forall>c \<in> set r. cost_row w k c"
proof (cases rule: limitDimensionGroup_cases [OF assms(1,2)])
  case 1
  then show ?thesis using assms(3) by simp
next
  case (2 bucket)
  have "cost_row w k bucket"
    by (rule overflow_row [OF 2(3)]) (use assms(3) in \<open>auto dest: in_set_dropD\<close>)
  then show ?thesis using assms(3) by (auto simp: 2(2) dest!: in_set_takeD)
qed

lemma limit_groups_rows:
  assumes "limit_groups observers limit other groups ks = (evs, Inr r)" and "0 < limit"
    and "\<forall>j. \<forall>c \<in> set (group_of groups j). cost_row w k c"
  shows "\<forall>c \<in> set r. cost_row w k c"
  using assms(1)
proof (induction ks arbitrary: evs r)
  case (Cons j ks)
  obtain e1 bounded e2 rest where
    b: "limitDimensionGroup observers (group_of groups j) limit other = (e1, Inr bounded)"
    and g: "limit_groups observers limit other groups ks = (e2, Inr rest)" and r: "r = bounded @ rest"
    using Cons.prems by (auto split: prod.splits sum.splits)
  show ?case using limitDimensionGroup_rows [OF b assms(2)] Cons.IH [OF g] assms(3) by (auto simp: r)
qed simp

lemma LimitDimensions_rows:
  assumes "LimitDimensions observers vals limit label = (evs, Inr r)" and "\<forall>c \<in> set vals. cost_row w k c"
  shows "\<forall>c \<in> set r. cost_row w k c"
proof -
  let ?other = "TrimSpace label"
  obtain groups where pos: "0 < limit" and g: "range_err (group_value ?other) [] vals = Inr groups"
    and r: "(if length groups > 1
             then limit_groups observers limit ?other groups (slice_stable (<) (map fst groups))
             else limitDimensionGroup observers vals limit ?other) = (evs, Inr r)"
    using assms(1) by (auto simp: LimitDimensions_def Let_def split: if_splits sum.splits)
  have rows: "\<forall>j. \<forall>c \<in> set (group_of groups j). cost_row w k c"
    using group_loop [OF g] assms(2) by (auto simp: group_of_def)
  show ?thesis
  proof (cases "length groups > 1")
    case True
    then show ?thesis using r by (intro limit_groups_rows [OF _ pos rows]) simp
  next
    case False
    then show ?thesis using r by (intro limitDimensionGroup_rows [OF _ pos assms(2)]) simp
  qed
qed

section \<open>The contract of a cost source\<close>

text \<open>What a publishable cost partial is: records of one target, known identities, exportable.\<close>

definition publishable :: "TargetID \<Rightarrow> Snapshot \<Rightarrow> bool" where
  "publishable target s \<longleftrightarrow> ValidatePartial s target = Inr () \<and> exportable s"

lemma publishable_costs:
  assumes "\<forall>c \<in> set cs. \<exists>w \<in> {WindowDaily, WindowMonthToDate}. \<exists>k. cost_row w k c" and "\<forall>c \<in> set cs. c_Target c = target"
  shows "publishable target (New cs [] [] [])"
  using assms
  by (auto simp: publishable_def ValidatePartial_ok belongs_to_def identities_valid_def exportable_def New_def
      cost_row_def sort_defs)

locale cost_source =
  fixes read :: "CostQuery \<Rightarrow> ('s, Cost list) action"
  assumes read_rows: "read q s = (s', Inr cs) \<Longrightarrow> c \<in> set cs \<Longrightarrow> cost_row (q_Window q) (q_GroupBy q) c"
begin

lemma total_rows:
  assumes "total_loop ctx_err target read qs acc s = (s', Inr cs)"
    and "\<forall>q \<in> set qs. q_Window q \<in> W" and "\<forall>c \<in> set acc. c_Target c = target \<and> (\<exists>w \<in> W. \<exists>k. cost_row w k c)"
  shows "\<forall>c \<in> set cs. c_Target c = target \<and> (\<exists>w \<in> W. \<exists>k. cost_row w k c)"
  using assms
proof (induction qs arbitrary: acc s)
  case (Cons q qs)
  obtain s1 vals where v: "read q s = (s1, Inr vals)"
    and run: "total_loop ctx_err target read qs (acc @ map (\<lambda>c. c\<lparr> c_Target := target \<rparr>) vals) s1 = (s', Inr cs)"
    using Cons.prems(1) by (auto split: option.splits prod.splits sum.splits)
  have "cost_row (q_Window q) (q_GroupBy q) (c\<lparr> c_Target := target \<rparr>)" if "c \<in> set vals" for c
    using read_rows [OF v that] by (simp add: cost_row_def)
  with Cons.prems show ?case by (intro Cons.IH [OF run]) auto
qed simp

lemma total_publishable:
  assumes "Total_Collect col ctx_err read reference s = (s', Inr p)"
  shows "publishable (id_Target (total_id col)) p"
proof -
  obtain qs cs where q: "BuildDailyAndMTDQueries reference DimensionTotal = Inr qs"
    and run: "total_loop ctx_err (id_Target (total_id col)) read qs [] s = (s', Inr cs)" and p: "p = New cs [] [] []"
    using assms by (auto simp: Total_Collect_def split: sum.splits prod.splits)
  have "\<forall>c \<in> set cs. c_Target c = id_Target (total_id col) \<and>
      (\<exists>w \<in> {WindowDaily, WindowMonthToDate}. \<exists>k. cost_row w k c)"
    by (rule total_rows [OF run]) (use q in \<open>auto simp: BuildDailyAndMTDQueries_eq\<close>)
  then show ?thesis unfolding p by (intro publishable_costs) blast+
qed

lemma grouped_rows:
  assumes "grouped_loop ctx_err target limit label read mutate validate observers qs acc st = (st', Inr cs)"
    and "\<forall>q \<in> set qs. q_Window (case mutate of None \<Rightarrow> q | Some f \<Rightarrow> f q) \<in> W"
    and "\<forall>c \<in> set acc. c_Target c = target \<and> (\<exists>w \<in> W. \<exists>k. cost_row w k c)"
  shows "\<forall>c \<in> set cs. c_Target c = target \<and> (\<exists>w \<in> W. \<exists>k. cost_row w k c)"
  using assms
proof (induction qs arbitrary: acc st)
  case Nil
  then show ?case by (cases st) simp
next
  case (Cons q qs)
  let ?q = "case mutate of None \<Rightarrow> q | Some f \<Rightarrow> f q"
  obtain s evs where st: "st = (s, evs)" by fastforce
  obtain s1 vals e bounded where v: "read ?q s = (s1, Inr vals)"
    and l: "LimitDimensions observers vals limit label = (e, Inr bounded)"
    and run: "grouped_loop ctx_err target limit label read mutate validate observers qs
      (acc @ map (\<lambda>c. c\<lparr> c_Target := target \<rparr>) bounded) (s1, evs @ e) = (st', Inr cs)"
    using Cons.prems(1) by (auto simp: st Let_def split: option.splits prod.splits sum.splits)
  have "\<forall>c \<in> set bounded. cost_row (q_Window ?q) (q_GroupBy ?q) c"
    using LimitDimensions_rows [OF l] read_rows [OF v] by blast
  then have "\<forall>c \<in> set bounded. cost_row (q_Window ?q) (q_GroupBy ?q) (c\<lparr> c_Target := target \<rparr>)"
    by (simp add: cost_row_def)
  moreover have "q_Window ?q \<in> W" using Cons.prems(2) by simp
  ultimately show ?case using Cons.prems(2,3) by (intro Cons.IH [OF run]) auto
qed

lemma grouped_publishable:
  assumes "CollectGrouped ctx_err reference target groupBy limit label read mutate validate observers st = (st', Inr p)"
    and "\<And>q f. mutate = Some f \<Longrightarrow> q_Window (f q) = q_Window q"
  shows "publishable target p"
proof -
  obtain qs cs where q: "BuildDailyAndMTDQueries reference groupBy = Inr qs"
    and run: "grouped_loop ctx_err target limit label read mutate validate observers qs [] st = (st', Inr cs)"
    and p: "p = New cs [] [] []"
    using assms(1) by (auto simp: CollectGrouped_def split: option.splits sum.splits prod.splits)
  have "\<forall>c \<in> set cs. c_Target c = target \<and> (\<exists>w \<in> {WindowDaily, WindowMonthToDate}. \<exists>k. cost_row w k c)"
    by (rule grouped_rows [OF run]) (use q assms(2) in \<open>auto simp: BuildDailyAndMTDQueries_eq split: option.split\<close>)
  then show ?thesis unfolding p by (intro publishable_costs) blast+
qed

end

section \<open>Properties of the collectors\<close>

text \<open>
  The query builder never fails, and its two windows are what the exporter promises: the day
  of the reference, exactly 24 hours from its UTC midnight, and the month to date, from the first
  of that UTC month to the end of that same day. Both contain the reference.
\<close>

theorem query_windows_cover_reference:
  "\<exists>daily mtd y m d. BuildDailyAndMTDQueries reference groupBy = Inr [daily, mtd] \<and>
     civil (day_of reference) = (y, m, d) \<and>
     q_Window daily = WindowDaily \<and> p_start (q_Period daily) = Date y m d \<and>
     p_end (q_Period daily) = Date y m d + 24 * Hour \<and> in_period reference (q_Period daily) \<and>
     q_Window mtd = WindowMonthToDate \<and> p_start (q_Period mtd) = Date y m 1 \<and>
     p_end (q_Period mtd) = p_end (q_Period daily) \<and> in_period reference (q_Period mtd) \<and>
     q_GroupBy daily = groupBy \<and> q_GroupBy mtd = groupBy"
proof (cases "civil (day_of reference)")
  case (fields y m d)
  have start: "p_start (DayContaining reference) = Date y m d"
    by (simp only: DayContaining_eq Date_def civil_correct(1) [OF fields] Period.simps)
  have stop: "p_end (DayContaining reference) = Date y m d + 24 * Hour"
    using start by (simp add: DayContaining_eq distrib_right Hour_def)
  have month: "p_start (MonthContaining reference) = Date y m 1"
    by (simp add: MonthContaining_eq [OF fields] Date_def)
  have day: "in_period reference (DayContaining reference)"
    using day_bounds [of reference] by (simp add: in_period_def DayContaining_eq)
  have "in_period reference \<lparr> p_start = p_start (MonthContaining reference), p_end = p_end (DayContaining reference) \<rparr>"
    using day MonthContaining_contains [of reference] by (simp add: in_period_def)
  then show ?thesis
    using fields start stop month day by (intro exI conjI) (rule BuildDailyAndMTDQueries_eq, simp_all)
qed

text \<open>
  The registry builds exactly what the configuration names: on success the collectors have
  the requested names, in the requested order, with valid identities.
\<close>

theorem registry_builds_in_order:
  assumes "Build ident factories names w = (w', Inr cs)"
  shows "map (\<lambda>c. id_Name (ident c)) cs = names \<and> (\<forall>c \<in> set cs. CollectorID_Valid (ident c)) \<and>
    (\<forall>n \<in> set names. map_of factories n \<noteq> None)"
  using assms
proof (induction names arbitrary: w cs)
  case (Cons name names)
  obtain f w1 c rest where "map_of factories name = Some f" and "f w = (w1, Inr (Some c))"
    and "CollectorID_Valid (ident c)" and "id_Name (ident c) = name"
    and run: "Build ident factories names w1 = (w', Inr rest)" and cs: "cs = c # rest"
    using Cons.prems by (auto split: option.splits prod.splits sum.splits if_splits)
  then show ?case using Cons.IH [OF run] by simp
qed simp

theorem registry_builds_in_order_witness:
  "\<exists>cs. Build (\<lambda>c. c) (fst (Register '' total '' (Some (\<lambda>w. (w, Inr (Some \<lparr> id_Target = ''a'', id_Name = ''total'' \<rparr>)))) []))
     [''total''] () = ((), Inr cs) \<and> map id_Name cs = [''total'']"
proof -
  have "Build (\<lambda>c. c) (fst (Register '' total '' (Some (\<lambda>w. (w, Inr (Some \<lparr> id_Target = ''a'', id_Name = ''total'' \<rparr>)))) []))
     [''total''] () = ((), Inr [\<lparr> id_Target = ''a'', id_Name = ''total'' \<rparr>])" by code_simp
  with registry_builds_in_order [OF this] show ?thesis by auto
qed

lemma currencyCount_eq:
  "currencyCount cs ts = int (card ((\<lambda>c. currency (c_Amount c)) ` set cs \<union> (\<lambda>t. currency (t_Amount t)) ` set ts))"
proof -
  have "distinct (foldl (\<lambda>seen c. List.insert c seen) acc xs) \<and>
      set (foldl (\<lambda>seen c. List.insert c seen) acc xs) = set acc \<union> set xs"
    if "distinct acc" for acc and xs :: "string list"
    using that by (induction xs arbitrary: acc) auto
  note ins = this [of "[]", OF distinct.simps(1) [THEN eqTrueE]]
  show ?thesis
    unfolding currencyCount_def distinct_card [OF conjunct1 [OF ins], symmetric] conjunct2 [OF ins] by simp
qed

text \<open>
  The optional collectors respect their budgets: a partial of the commitments, anomalies, tag
  or CUR collector exports at most its series limit; a CUR partial moreover has at most its limit
  of tag rows and of distinct currencies.
\<close>

theorem optional_collectors_bounded:
  "(Commitments_Collect sc creader reference w = (w', Inr p) \<longrightarrow> int (SeriesCount p) \<le> sc_seriesLimit sc) \<and>
   (Anomalies_Collect sc areader reference w = (w', Inr p) \<longrightarrow> int (SeriesCount p) \<le> sc_seriesLimit sc) \<and>
   (Tags_Collect tg treader observers reference s = (s', Inr p) \<longrightarrow> int (SeriesCount p) \<le> tg_seriesLimit tg) \<and>
   (CUR_Collect cur queryCosts queryTagCosts observers reference s = (s', Inr p) \<longrightarrow>
      int (SeriesCount p) \<le> cur_seriesLimit cur \<and>
      (tagCosts p \<noteq> [] \<longrightarrow> int (length (tagCosts p)) \<le> cur_tagSeriesLimit cur) \<and>
      int (card ((\<lambda>c. currency (c_Amount c)) ` set (costs p) \<union> (\<lambda>t. currency (t_Amount t)) ` set (tagCosts p)))
        \<le> cur_maxCurrencies cur)"
proof (intro conjI impI)
  assume "Commitments_Collect sc creader reference w = (w', Inr p)"
  then show "int (SeriesCount p) \<le> sc_seriesLimit sc"
    by (auto simp: Commitments_Collect_def Let_def split: prod.splits sum.splits if_splits)
next
  assume "Anomalies_Collect sc areader reference w = (w', Inr p)"
  then show "int (SeriesCount p) \<le> sc_seriesLimit sc"
    by (auto simp: Anomalies_Collect_def Let_def split: prod.splits sum.splits if_splits)
next
  assume "Tags_Collect tg treader observers reference s = (s', Inr p)"
  then show "int (SeriesCount p) \<le> tg_seriesLimit tg"
    by (auto simp: Tags_Collect_def SeriesCount_eq sort_defs split: prod.splits sum.splits if_splits)
next
  assume run: "CUR_Collect cur queryCosts queryTagCosts observers reference s = (s', Inr p)"
  obtain cs tags where f: "cur_finish cur cs tags = Inr p"
    and t: "tags \<noteq> [] \<longrightarrow> int (length tags) \<le> cur_tagSeriesLimit cur"
    using run by (auto simp: CUR_Collect_def split: prod.splits sum.splits if_splits)
  then show "int (SeriesCount p) \<le> cur_seriesLimit cur"
    by (auto simp: cur_finish_def SeriesCount_eq sort_defs split: if_splits)
  show "int (length (tagCosts p)) \<le> cur_tagSeriesLimit cur" if "tagCosts p \<noteq> []"
    using f t that by (auto simp: cur_finish_def sort_defs split: if_splits)
  show "int (card ((\<lambda>c. currency (c_Amount c)) ` set (costs p) \<union> (\<lambda>t. currency (t_Amount t)) ` set (tagCosts p)))
      \<le> cur_maxCurrencies cur"
    using f by (auto simp: cur_finish_def currencyCount_eq sort_defs split: if_splits)
qed

definition sample_cur :: CURCollector where
  "sample_cur = \<lparr> cur_target = ''a'', cur_bases = [BasisUnblended], cur_tags = False, cur_seriesLimit = 3,
     cur_tagSeriesLimit = 1, cur_maxCurrencies = 1, cur_keys = [], cur_overflow = ''__other__'' \<rparr>"

theorem optional_collectors_bounded_witness:
  "snd (CUR_Collect sample_cur (\<lambda>_ _ w. (w, Inr [sample_cost ''a'', sample_cost ''a''])) (\<lambda>_ _ w. (w, Inr []))
      ([] :: unit option list) 0 ((), [])) = Inr (New [sample_cost ''a'', sample_cost ''a''] [] [] []) \<and>
   int (SeriesCount (New [sample_cost ''a'', sample_cost ''a''] [] [] [])) \<le> cur_seriesLimit sample_cur"
proof -
  have run: "CUR_Collect sample_cur (\<lambda>_ _ w. (w, Inr [sample_cost ''a'', sample_cost ''a''])) (\<lambda>_ _ w. (w, Inr []))
      ([] :: unit option list) 0 ((), []) = (((), []), Inr (New [sample_cost ''a'', sample_cost ''a''] [] [] []))"
    by code_simp
  then show ?thesis
    using optional_collectors_bounded [THEN conjunct2, THEN conjunct2, THEN conjunct2, THEN mp, OF run] by simp
qed

end
