(* ===== verification/Aws_Common.thy ===== *)
theory Aws_Common
  imports Go_Errors Go_Float Go_Time
begin

text \<open>
  Package \<open>internal/aws/common\<close>: the classification of failures into bounded kinds, the status
  and retry labels, the two attempt limiters, the observed retryer, and the exponential
  backoff handed to the SDK.
\<close>

section \<open>errors.go\<close>

definition ErrorCanceled :: string where "ErrorCanceled = ''canceled''"
definition ErrorTimeout :: string where "ErrorTimeout = ''timeout''"
definition ErrorThrottle :: string where "ErrorThrottle = ''throttle''"
definition ErrorAuthorization :: string where "ErrorAuthorization = ''authorization''"
definition ErrorValidation :: string where "ErrorValidation = ''validation''"
definition ErrorTransient :: string where "ErrorTransient = ''transient''"
definition ErrorUnknown :: string where "ErrorUnknown = ''unknown''"

lemmas error_kinds = ErrorCanceled_def ErrorTimeout_def ErrorThrottle_def ErrorAuthorization_def
  ErrorValidation_def ErrorTransient_def ErrorUnknown_def

definition IsThrottleCode :: "string \<Rightarrow> bool" where
  "IsThrottleCode code \<longleftrightarrow>
     code \<in> {''Throttling'', ''ThrottlingException'', ''TooManyRequestsException'',
             ''RequestLimitExceeded'', ''LimitExceededException''}"

text \<open>The switch of \<open>ClassifyError\<close> on the code of an API error.\<close>

definition classify_code :: "string \<Rightarrow> string \<times> bool" where
  "classify_code raw =
     (let code = ToLower raw
      in if IsThrottleCode raw then (ErrorThrottle, True)
         else if Contains code ''accessdenied'' \<or> Contains code ''unauthorized''
                 \<or> Contains code ''notauthorized'' then (ErrorAuthorization, False)
         else if Contains code ''validation'' \<or> Contains code ''invalid'' then (ErrorValidation, False)
         else if Contains code ''unavailable'' \<or> Contains code ''internal''
                 \<or> Contains code ''serviceexception'' then (ErrorTransient, True)
         else (ErrorUnknown, False))"

definition classify :: "go_error \<Rightarrow> string \<times> bool" where
  "classify err =
     (if errors_Is err CtxCanceled then (ErrorCanceled, False)
      else if errors_Is err CtxDeadline then (ErrorTimeout, True)
      else case errors_As net_error err of
             Some t \<Rightarrow> (if t then ErrorTimeout else ErrorTransient, True)
           | None \<Rightarrow> (case errors_As api_error err of
                        None \<Rightarrow> (ErrorUnknown, False)
                      | Some code \<Rightarrow> classify_code code))"

text \<open>A nil error stays nil.\<close>

definition ClassifyError :: "go_error option \<Rightarrow> go_error option" where
  "ClassifyError err =
     (case err of
        None \<Rightarrow> None
      | Some e \<Rightarrow> (let (kind, retryable) = classify e in Some (ClassifiedError kind retryable e)))"

definition classify_error :: "go_error \<Rightarrow> go_error" where
  "classify_error e = the (ClassifyError (Some e))"

lemma classify_error_simp: "classify_error e = ClassifiedError (fst (classify e)) (snd (classify e)) e"
  by (simp add: classify_error_def ClassifyError_def split_beta)

text \<open>\<open>errors.As\<close> for \<open>interface{ Retryable() bool }\<close> and \<open>interface{ SafeKind() string }\<close>.\<close>

fun retryable_iface :: "go_error \<Rightarrow> bool option" where
  "retryable_iface (ClassifiedError k r e) = Some r"
| "retryable_iface IdentityMismatchError = Some False"
| "retryable_iface CredentialsChangedError = Some True"
| "retryable_iface (UnavailableVerifier e) = Some False"
| "retryable_iface _ = None"

fun safe_kind_iface :: "go_error \<Rightarrow> string option" where
  "safe_kind_iface (ClassifiedError k r e) = Some k"
| "safe_kind_iface IdentityMismatchError = Some ErrorValidation"
| "safe_kind_iface CredentialsChangedError = Some ErrorTransient"
| "safe_kind_iface (UnavailableVerifier e) = Some ErrorValidation"
| "safe_kind_iface _ = None"

definition error_kind_set :: "string set" where
  "error_kind_set = {ErrorCanceled, ErrorTimeout, ErrorThrottle, ErrorAuthorization,
                     ErrorValidation, ErrorTransient, ErrorUnknown}"

lemma classify_cases:
  "classify e \<in> {(ErrorCanceled, False), (ErrorTimeout, True), (ErrorThrottle, True),
     (ErrorAuthorization, False), (ErrorValidation, False), (ErrorTransient, True), (ErrorUnknown, False)}"
  by (simp add: classify_def classify_code_def Let_def split: option.splits)

lemma classify_retryable_iff:
  "snd (classify e) \<longleftrightarrow> fst (classify e) \<in> {ErrorTimeout, ErrorThrottle, ErrorTransient}"
  using classify_cases [of e] by (auto simp: error_kinds)

lemma classify_kind_bounded: "fst (classify e) \<in> error_kind_set"
  using classify_cases [of e] unfolding error_kind_set_def by auto

lemma classify_Wrapped [simp]: "classify (Wrapped s e) = classify e"
  by (simp add: classify_def split: option.split)

lemma classify_Classified [simp]: "classify (ClassifiedError k r e) = classify e"
  by (simp add: classify_def errors_Is_def split: option.split)

section \<open>instrumentation.go\<close>

definition RequestStatus :: "go_error option \<Rightarrow> string" where
  "RequestStatus err =
     (case err of
        None \<Rightarrow> ''success''
      | Some e \<Rightarrow>
          if errors_Is e CtxCanceled \<or> errors_Is e CtxDeadline then ''canceled''
          else case errors_As api_error e of
                 Some code \<Rightarrow> if IsThrottleCode code then ''throttle'' else ''error''
               | None \<Rightarrow> ''error'')"

definition RetryReason :: "go_error \<Rightarrow> string" where
  "RetryReason e =
     (case errors_As api_error e of
        Some code \<Rightarrow> if IsThrottleCode code then ''throttle''
                     else if errors_As net_error e = Some True then ''timeout'' else ''other''
      | None \<Rightarrow> if errors_As net_error e = Some True then ''timeout'' else ''other'')"

text \<open>
  A limiter is the \<open>Wait\<close> method of code outside the repository: it acts on a world \<open>'w\<close> and
  returns an error or nil. \<open>None\<close> is a nil interface value.
\<close>

type_synonym 'w limiter = "'w \<Rightarrow> 'w \<times> go_error option"

definition DualLimiter_Wait :: "'w limiter option \<Rightarrow> 'w limiter option \<Rightarrow> 'w limiter" where
  "DualLimiter_Wait global target w =
     (case (global, target) of
        (Some g, Some t) \<Rightarrow>
          (case g w of
             (w1, Some err) \<Rightarrow> (w1, Some (Wrapped ''wait for global AWS attempt limit'' err))
           | (w1, None) \<Rightarrow>
               (case t w1 of
                  (w2, Some err) \<Rightarrow> (w2, Some (Wrapped ''wait for target AWS attempt limit'' err))
                | (w2, None) \<Rightarrow> (w2, None)))
      | _ \<Rightarrow> (w, Some (Sentinel ''AWS attempt limiters must not be nil'')))"

text \<open>
  The observed retryer around the SDK's: \<open>base\<close> is the SDK retryer's own token call, and the
  retry observation is appended to the events of the request.
\<close>

datatype aws_event =
    ObserveRequest string string string duration
  | ObserveRetry string string string
  | ObservePaginationPage string string

definition GetRetryToken ::
  "(go_error \<Rightarrow> 'w \<Rightarrow> 'w \<times> (go_error + 'tok)) \<Rightarrow> string \<Rightarrow> string \<Rightarrow> go_error \<Rightarrow>
   'w \<times> aws_event list \<Rightarrow> ('w \<times> aws_event list) \<times> (go_error + 'tok)" where
  "GetRetryToken base target operation operationError = (\<lambda>(w, evs).
     (case base operationError w of
        (w1, Inr release) \<Rightarrow>
          ((w1, evs @ [ObserveRetry target operation (RetryReason operationError)]), Inr release)
      | (w1, Inl err) \<Rightarrow> ((w1, evs), Inl err)))"

text \<open>
  \<open>attempt\<close> is the attempt token of a \<open>RetryerV2\<close>, \<open>None\<close> when the base retryer is not one;
  \<open>initial\<close> is its \<open>GetInitialToken\<close>.
\<close>

definition GetAttemptToken ::
  "'w limiter option \<Rightarrow> ('w \<Rightarrow> 'w \<times> (go_error + 'tok)) option \<Rightarrow> ('w \<Rightarrow> 'w \<times> 'tok) \<Rightarrow>
   'w \<Rightarrow> 'w \<times> (go_error + 'tok)" where
  "GetAttemptToken limiter attempt initial w =
     (case limiter of
        None \<Rightarrow> (w, Inl (Sentinel ''AWS attempt limiter must not be nil''))
      | Some wait \<Rightarrow>
          (case wait w of
             (w1, Some err) \<Rightarrow> (w1, Inl err)
           | (w1, None) \<Rightarrow>
               (case attempt of
                  Some get \<Rightarrow> get w1
                | None \<Rightarrow> (let (w2, token) = initial w1 in (w2, Inr token)))))"

definition ObserveCall ::
  "bool \<Rightarrow> string \<Rightarrow> string \<Rightarrow> time \<Rightarrow> time \<Rightarrow> go_error option \<Rightarrow> aws_event list" where
  "ObserveCall observed target operation started finished err =
     (if observed then [ObserveRequest target operation (RequestStatus err) (Sub finished started)]
      else [])"

section \<open>retry.go\<close>

text \<open>
  \<open>jitterBackoff.BackoffDelay\<close>: the doubling loop runs on \<open>step\<close> from 1 to \<open>attempt\<close>; the
  product is 64-bit arithmetic and division truncates.
\<close>

record jitterBackoff =
  jb_base :: duration
  jb_max :: duration

fun backoff_loop :: "duration \<Rightarrow> nat \<Rightarrow> duration \<Rightarrow> duration" where
  "backoff_loop mx 0 delay = delay"
| "backoff_loop mx (Suc steps) delay =
     (if delay < mx
      then if delay > quo mx 2 then mx else backoff_loop mx steps (wrap64 (delay * 2))
      else delay)"

definition backoff_cap :: "jitterBackoff \<Rightarrow> int \<Rightarrow> duration" where
  "backoff_cap b attempt =
     (let delay = backoff_loop (jb_max b) (nat (attempt - 1)) (jb_base b)
      in if delay > jb_max b then jb_max b else delay)"

definition BackoffDelay :: "(float64 \<Rightarrow> int) \<Rightarrow> float64 \<Rightarrow> jitterBackoff \<Rightarrow> int \<Rightarrow> duration" where
  "BackoffDelay impl rnd b attempt =
     f64_to_int64 impl (f64_mul rnd (f64_of_int (backoff_cap b attempt)))"

lemma backoff_loop_doubles:
  assumes "0 < delay" and "delay \<le> mx" and "mx < 2 ^ 63"
  shows "backoff_loop mx steps delay = min mx (delay * 2 ^ steps)"
  using assms
proof (induction steps arbitrary: delay)
  case 0
  then show ?case by simp
next
  case (Suc steps)
  show ?case
  proof (cases "delay < mx \<and> delay \<le> mx div 2")
    case True
    then have "wrap64 (delay * 2) = delay * 2" and "delay * 2 \<le> mx"
      using Suc.prems by (auto intro!: wrap64_id)
    then show ?thesis
      using True Suc.prems Suc.IH [of "delay * 2"] by (simp add: mult.assoc)
  next
    case False
    then have "mx < delay * 2" using Suc.prems by linarith
    also have "delay * 2 \<le> delay * 2 ^ Suc steps"
      using Suc.prems by (intro mult_left_mono) simp_all
    finally show ?thesis using False Suc.prems by auto
  qed
qed

lemma backoff_cap_doubles:
  assumes "0 < jb_base b" and "jb_base b \<le> jb_max b" and "jb_max b < 2 ^ 63"
  shows "backoff_cap b attempt = min (jb_max b) (jb_base b * 2 ^ nat (attempt - 1))"
  using backoff_loop_doubles [OF assms] by (simp add: backoff_cap_def Let_def)

lemma mul_unit_between:
  assumes "0 \<le> u" and "u \<le> 1" and "0 \<le> n" and "n \<le> 2 ^ 53"
  shows "\<exists>q. f64_mul (F_Fin u) (f64_of_int n) = F_Fin q \<and> 0 \<le> q \<and> q \<le> of_int n"
proof -
  have n: "f64_of_int n = F_Fin (of_int n)" using assms by (intro f64_of_int_exact) simp
  have "0 \<le> u * of_int n" and "u * of_int n \<le> of_int n"
    using assms by (simp_all add: mult_left_le_one_le)
  moreover have "representable 0" and "representable (of_int n)"
    using assms representable_int [of 0] representable_int [of n] by simp_all
  moreover have "\<bar>of_int n :: rat\<bar> < 2 ^ 1024"
  proof -
    have "(of_int n :: rat) \<le> of_int (2 ^ 53)" using assms by (simp only: of_int_le_iff)
    also have "\<dots> < 2 ^ 1024" by simp
    finally show ?thesis using assms by simp
  qed
  ultimately show ?thesis
    using f64_of_rat_between [of 0 "u * of_int n" "of_int n"] by (simp add: n)
qed

lemma f64_to_int64_between:
  assumes "0 \<le> q" and "q \<le> of_int n" and "n < 2 ^ 63"
  shows "0 \<le> f64_to_int64 impl (F_Fin q) \<and> f64_to_int64 impl (F_Fin q) \<le> n"
proof -
  have "0 \<le> trunc_rat q" and "trunc_rat q \<le> n"
    using assms floor_mono [of q "of_int n"] by (simp_all add: trunc_rat_def)
  then show ?thesis using assms by simp
qed

section \<open>Properties\<close>

text \<open>
  Classification is bounded and decides retries: \<open>ClassifyError\<close> wraps any error in one of
  seven kinds, is retryable exactly for the timeout, throttle and transient kinds, keeps the
  original reachable, and a cancelled context is never retried whatever else the chain holds.
  Classifying again, or after wrapping, gives the same kind.
\<close>

theorem classification_bounded:
  "\<exists>k r. ClassifyError (Some e) = Some (ClassifiedError k r e) \<and> k \<in> error_kind_set \<and>
     (r \<longleftrightarrow> k \<in> {ErrorTimeout, ErrorThrottle, ErrorTransient}) \<and>
     (errors_Is e CtxCanceled \<longrightarrow> k = ErrorCanceled \<and> \<not> r) \<and>
     ClassifyError (Some (ClassifiedError k r e)) = Some (ClassifiedError k r (ClassifiedError k r e)) \<and>
     ClassifyError (Some (Wrapped msg e)) = Some (ClassifiedError k r (Wrapped msg e))"
proof -
  obtain k r where c: "classify e = (k, r)" by fastforce
  have "errors_Is e CtxCanceled \<longrightarrow> k = ErrorCanceled \<and> \<not> r" using c by (auto simp: classify_def)
  moreover have "k \<in> error_kind_set" and "r \<longleftrightarrow> k \<in> {ErrorTimeout, ErrorThrottle, ErrorTransient}"
    using classify_kind_bounded [of e] classify_retryable_iff [of e] c by simp_all
  ultimately show ?thesis using c by (intro exI [of _ k] exI [of _ r]) (auto simp: ClassifyError_def)
qed

theorem classification_bounded_witness:
  "ClassifyError (Some (Wrapped ''read'' CtxCanceled)) =
     Some (ClassifiedError ErrorCanceled False (Wrapped ''read'' CtxCanceled))"
  using classification_bounded [of "Wrapped ''read'' CtxCanceled"] by auto

text \<open>
  Exponential backoff: for a positive base not above the maximum, the cap of attempt \<open>n\<close> is
  exactly \<open>base * 2^(n-1)\<close> clipped at the maximum, with no 64-bit overflow for any attempt number;
  and the jittered delay lies between zero and that cap, hence never above the maximum, for every
  random draw in the unit interval.
\<close>

theorem backoff_within_cap:
  assumes "0 < jb_base b" and "jb_base b \<le> jb_max b" and "jb_max b \<le> 2 ^ 53" and "0 \<le> u" and "u \<le> 1"
  shows "backoff_cap b n = min (jb_max b) (jb_base b * 2 ^ nat (n - 1)) \<and>
    0 \<le> BackoffDelay impl (F_Fin u) b n \<and> BackoffDelay impl (F_Fin u) b n \<le> backoff_cap b n \<and>
    BackoffDelay impl (F_Fin u) b n \<le> jb_max b"
proof -
  have cap: "backoff_cap b n = min (jb_max b) (jb_base b * 2 ^ nat (n - 1))"
    using assms by (intro backoff_cap_doubles) simp_all
  have "0 \<le> backoff_cap b n" and le: "backoff_cap b n \<le> jb_max b" using cap assms by simp_all
  moreover from this have "backoff_cap b n \<le> 2 ^ 53" using assms(3) by linarith
  ultimately obtain q where q: "f64_mul (F_Fin u) (f64_of_int (backoff_cap b n)) = F_Fin q"
    "0 \<le> q" "q \<le> of_int (backoff_cap b n)"
    using mul_unit_between [OF assms(4,5)] by blast
  have "0 \<le> BackoffDelay impl (F_Fin u) b n \<and> BackoffDelay impl (F_Fin u) b n \<le> backoff_cap b n"
    unfolding BackoffDelay_def q(1) using q(2,3) \<open>backoff_cap b n \<le> 2 ^ 53\<close> by (intro f64_to_int64_between) simp_all
  with cap le show ?thesis by auto
qed

theorem backoff_within_cap_witness:
  "backoff_cap \<lparr> jb_base = 200, jb_max = 5000 \<rparr> 4 = 1600 \<and>
   BackoffDelay (\<lambda>_. 0) (F_Fin (1/2)) \<lparr> jb_base = 200, jb_max = 5000 \<rparr> 9 \<le> 5000"
  using backoff_within_cap [of "\<lparr> jb_base = 200, jb_max = 5000 \<rparr>" "1/2" 4 "\<lambda>_. 0"]
    backoff_within_cap [of "\<lparr> jb_base = 200, jb_max = 5000 \<rparr>" "1/2" 9 "\<lambda>_. 0"] by simp

end
