(* ===== verification/Cost_Explorer.thy ===== *)
theory Cost_Explorer
  imports Collectors Aws_Common
begin

text \<open>
  \<open>internal/aws/costexplorer\<close>, usage and forecast side: request construction, the all-or-nothing
  paginator, the mapping of responses to domain records, and the filtered reader of
  \<open>internal/app/bootstrap.go\<close> that the cost collectors call. The SDK client is a parameter: a
  function from the request and the world to an error or a possibly nil output. A pointer field
  of the SDK is an option; \<open>aws.ToString\<close> reads nil as the empty string.
\<close>

section \<open>SDK shapes\<close>

record DateInterval =
  di_Start :: "string option"
  di_End :: "string option"

record MetricValue =
  mv_Amount :: "string option"
  mv_Unit :: "string option"

record Group =
  g_Keys :: "string list"
  g_Metrics :: "(string, MetricValue) gomap"

record ResultByTime =
  rb_TimePeriod :: "DateInterval option"
  rb_Total :: "(string, MetricValue) gomap"
  rb_Groups :: "Group list"

datatype Expression = DimensionValues string "string list" | AndExpr "Expression list"

record UsageInput =
  in_TimePeriod :: DateInterval
  in_Granularity :: string
  in_Metrics :: "string list"
  in_Filter :: "Expression option"
  in_GroupBy :: "(string \<times> string) list"
  in_NextPageToken :: "string option"

record UsageOutput =
  out_ResultsByTime :: "ResultByTime list"
  out_NextPageToken :: "string option"

definition ToString :: "string option \<Rightarrow> string" where
  "ToString s = (case s of None \<Rightarrow> '''' | Some v \<Rightarrow> v)"

section \<open>pagination.go\<close>

definition ErrDuplicatePageToken :: go_error where
  "ErrDuplicatePageToken = Sentinel ''duplicate Cost Explorer page token''"
definition ErrInvalidPage :: go_error where
  "ErrInvalidPage = Sentinel ''invalid Cost Explorer page''"
definition ErrPageLimitExceeded :: go_error where
  "ErrPageLimitExceeded = Sentinel ''cost explorer page limit exceeded''"
definition ErrInvalidPageLimit :: go_error where
  "ErrInvalidPageLimit = Sentinel ''cost explorer page limit must be positive''"

record UsagePaginator =
  pg_maxPages :: int
  pg_target :: TargetID

definition NewUsagePaginatorForTarget :: "TargetID \<Rightarrow> int \<Rightarrow> go_error + UsagePaginator" where
  "NewUsagePaginatorForTarget target maxPages =
     (if maxPages \<le> 0 then Inl (Wrapped ''got'' ErrInvalidPageLimit)
      else Inr \<lparr> pg_maxPages = maxPages, pg_target = target \<rparr>)"

definition NewUsagePaginator :: "int \<Rightarrow> go_error + UsagePaginator" where
  "NewUsagePaginator maxPages = NewUsagePaginatorForTarget ''default'' maxPages"

type_synonym 'w api_state = "'w \<times> aws_event list"

text \<open>
  The page loop. \<open>remaining\<close> is the number of pages still allowed, so \<open>page > maxPages\<close> is
  \<open>remaining = 0\<close>; it strictly decreases, which is the termination argument of the loop.
\<close>

fun read_pages ::
  "('w \<Rightarrow> go_error option) \<Rightarrow> (UsageInput \<Rightarrow> ('w, UsageOutput option) action) \<Rightarrow> UsagePaginator \<Rightarrow>
   nat \<Rightarrow> UsageInput \<Rightarrow> string list \<Rightarrow> ResultByTime list \<Rightarrow> ('w api_state, ResultByTime list) action" where
  "read_pages ctx_err api pg remaining request seen results (w, evs) =
     (case ctx_err w of
        Some err \<Rightarrow> ((w, evs), Inl err)
      | None \<Rightarrow>
          (case remaining of
             0 \<Rightarrow> ((w, evs), Inl (Wrapped ''limit'' ErrPageLimitExceeded))
           | Suc n \<Rightarrow>
               (case api request w of
                  (w1, Inl err) \<Rightarrow> ((w1, evs), Inl (Wrapped ''read Cost Explorer page'' err))
                | (w1, Inr None) \<Rightarrow> ((w1, evs), Inl (Wrapped ''page is nil'' ErrInvalidPage))
                | (w1, Inr (Some out)) \<Rightarrow>
                    let results' = results @ out_ResultsByTime out;
                        evs' = evs @ [ObservePaginationPage (pg_target pg) ''GetCostAndUsage''];
                        token = ToString (out_NextPageToken out)
                    in if token = '''' then ((w1, evs'), Inr results')
                       else if token \<in> set seen then ((w1, evs'), Inl (Wrapped ''at page'' ErrDuplicatePageToken))
                       else read_pages ctx_err api pg n (request\<lparr> in_NextPageToken := Some token \<rparr>)
                              (token # seen) results' (w1, evs'))))"

definition Paginator_Read ::
  "('w \<Rightarrow> go_error option) \<Rightarrow> (UsageInput \<Rightarrow> ('w, UsageOutput option) action) \<Rightarrow> UsagePaginator \<Rightarrow>
   UsageInput option \<Rightarrow> ('w api_state, ResultByTime list) action" where
  "Paginator_Read ctx_err api pg input s =
     (case input of
        None \<Rightarrow> (s, Inl (Wrapped ''input must not be nil'' ErrInvalidPage))
      | Some request \<Rightarrow>
          let token = ToString (in_NextPageToken request);
              seen = (if token \<noteq> '''' then [token] else [])
          in read_pages ctx_err api pg (nat (pg_maxPages pg)) request seen [] s)"

section \<open>mapping.go\<close>

definition ErrInvalidResponse :: go_error where
  "ErrInvalidResponse = Sentinel ''invalid Cost Explorer response''"

definition mapPeriod :: "DateInterval option \<Rightarrow> go_error + Period" where
  "mapPeriod interval =
     (case interval of
        None \<Rightarrow> Inl ErrInvalidResponse
      | Some iv \<Rightarrow>
          if di_Start iv = None \<or> di_End iv = None then Inl ErrInvalidResponse
          else (case (ParseDateOnly (ToString (di_Start iv)), ParseDateOnly (ToString (di_End iv))) of
                  (Some s, Some e) \<Rightarrow>
                    (case NewPeriod s e of
                       Inl err \<Rightarrow> Inl (Wrapped ''invalid period'' ErrInvalidResponse)
                     | Inr p \<Rightarrow> Inr p)
                | _ \<Rightarrow> Inl (Wrapped ''invalid date interval'' ErrInvalidResponse)))"

definition metricBasis :: "string \<Rightarrow> string" where
  "metricBasis metric =
     (if metric = ''AmortizedCost'' then BasisAmortized
      else if metric = ''NetUnblendedCost'' then BasisNet else BasisUnblended)"

definition mapCost ::
  "Period \<Rightarrow> string \<Rightarrow> Dimension \<Rightarrow> (string, MetricValue) gomap \<Rightarrow> string \<Rightarrow> go_error + Cost" where
  "mapCost period window dimension metrics costMetric =
     (case map_of metrics costMetric of
        None \<Rightarrow> Inl (Wrapped ''missing metric'' ErrInvalidResponse)
      | Some metric \<Rightarrow>
          (case ParseMoney (ToString (mv_Amount metric)) (ToString (mv_Unit metric)) of
             Inl err \<Rightarrow> Inl err
           | Inr money \<Rightarrow>
               Inr \<lparr> c_Target = '''', c_Provider = ProviderCostExplorer, c_Basis = metricBasis costMetric,
                     c_Window = window, c_Period = period, c_Dimension = dimension, c_Amount = money \<rparr>))"

definition map_group :: "CostQuery \<Rightarrow> string \<Rightarrow> Period \<Rightarrow> Cost list \<Rightarrow> Group \<Rightarrow> go_error + Cost list" where
  "map_group query costMetric period mapped g =
     (case g_Keys g of
        [key] \<Rightarrow>
          (case NewDimension (q_GroupBy query) key of
             Inl err \<Rightarrow> Inl (Wrapped ''map result group'' err)
           | Inr dimension \<Rightarrow>
               (case mapCost period (q_Window query) dimension (g_Metrics g) costMetric of
                  Inl err \<Rightarrow> Inl (Wrapped ''map result group'' err)
                | Inr entry \<Rightarrow> Inr (mapped @ [entry])))
      | _ \<Rightarrow> Inl (Wrapped ''group must have one key'' ErrInvalidResponse))"

definition map_result :: "CostQuery \<Rightarrow> string \<Rightarrow> Cost list \<Rightarrow> ResultByTime \<Rightarrow> go_error + Cost list" where
  "map_result query costMetric mapped result =
     (case mapPeriod (rb_TimePeriod result) of
        Inl err \<Rightarrow> Inl (Wrapped ''map result'' err)
      | Inr period \<Rightarrow>
          if q_GroupBy query = DimensionTotal then
            (case mapCost period (q_Window query) \<lparr> kind = DimensionTotal, dvalue = '''' \<rparr>
                    (rb_Total result) costMetric of
               Inl err \<Rightarrow> Inl (Wrapped ''map result'' err)
             | Inr entry \<Rightarrow> Inr (mapped @ [entry]))
          else range_err (map_group query costMetric period) mapped (rb_Groups result))"

text \<open>
  The month-to-date aggregation. \<open>totals\<close> is the map from keys to accumulated costs; the keys are
  sorted by kind, value and currency, which is total on them because one call only ever sees one
  provider and basis.
\<close>

type_synonym aggregateKey = "string \<times> string \<times> string \<times> string \<times> string"

definition aggregate_key :: "Cost \<Rightarrow> aggregateKey" where
  "aggregate_key c = (kind (c_Dimension c), dvalue (c_Dimension c), currency (c_Amount c), c_Provider c, c_Basis c)"

definition aggregate_less :: "aggregateKey \<Rightarrow> aggregateKey \<Rightarrow> bool" where
  "aggregate_less l r =
     (case (l, r) of ((k1, v1, c1, _, _), (k2, v2, c2, _, _)) \<Rightarrow>
        if k1 \<noteq> k2 then k1 < k2 else if v1 \<noteq> v2 then v1 < v2 else c1 < c2)"

definition add_total ::
  "Period \<Rightarrow> (aggregateKey, Cost) gomap \<Rightarrow> Cost \<Rightarrow> go_error + (aggregateKey, Cost) gomap" where
  "add_total period totals entry =
     (let key = aggregate_key entry
      in case map_of totals key of
           None \<Rightarrow>
             Inr (AList.update key
               \<lparr> c_Target = '''', c_Provider = c_Provider entry, c_Basis = c_Basis entry,
                 c_Window = WindowMonthToDate, c_Period = period, c_Dimension = c_Dimension entry,
                 c_Amount = c_Amount entry \<rparr> totals)
         | Some existing \<Rightarrow>
             (case Money_Add (c_Amount existing) (c_Amount entry) of
                Inl err \<Rightarrow> Inl err
              | Inr total' \<Rightarrow> Inr (AList.update key (existing\<lparr> c_Amount := total' \<rparr>) totals)))"

definition aggregateMonthToDate :: "Cost list \<Rightarrow> Period \<Rightarrow> go_error + Cost list" where
  "aggregateMonthToDate cs period =
     (if cs = [] then Inr []
      else case range_err (add_total period) [] cs of
             Inl err \<Rightarrow> Inl err
           | Inr totals \<Rightarrow>
               Inr (map (\<lambda>key. the (map_of totals key)) (slice_stable aggregate_less (map fst totals))))"

definition MapUsage :: "ResultByTime list \<Rightarrow> CostQuery \<Rightarrow> string \<Rightarrow> go_error + Cost list" where
  "MapUsage results query costMetric =
     (if costMetric = '''' then Inl (Wrapped ''cost metric must not be empty'' ErrInvalidResponse)
      else if q_GroupBy query \<noteq> DimensionTotal \<and> q_GroupBy query \<noteq> DimensionService \<and>
              q_GroupBy query \<noteq> DimensionRegion \<and> q_GroupBy query \<noteq> DimensionAccount
      then Inl (Wrapped ''unsupported group'' ErrInvalidResponse)
      else case range_err (map_result query costMetric) [] results of
             Inl err \<Rightarrow> Inl err
           | Inr mapped \<Rightarrow>
               if q_Window query \<noteq> WindowMonthToDate then Inr mapped
               else aggregateMonthToDate mapped (q_Period query))"

section \<open>usage.go\<close>

definition metricForBasis :: "string \<Rightarrow> string \<Rightarrow> go_error + string" where
  "metricForBasis basis fallback =
     (if basis = BasisUnblended then Inr fallback
      else if basis = BasisAmortized then Inr ''AmortizedCost''
      else if basis = BasisNet then Inr ''NetUnblendedCost''
      else Inl (Wrapped ''unsupported cost basis'' ErrInvalidResponse))"

definition usageDimension :: "string \<Rightarrow> go_error + string" where
  "usageDimension k =
     (if k = DimensionService then Inr ''SERVICE''
      else if k = DimensionRegion then Inr ''REGION''
      else if k = DimensionAccount then Inr ''LINKED_ACCOUNT''
      else Inl (Wrapped ''unsupported group'' ErrInvalidResponse))"

definition dimensionFilter :: "string list \<Rightarrow> string list \<Rightarrow> string list \<Rightarrow> Expression option" where
  "dimensionFilter linked services regions =
     (let expressions = concat (map (\<lambda>(key, vals). if vals \<noteq> [] then [DimensionValues key vals] else [])
            [(''LINKED_ACCOUNT'', linked), (''SERVICE'', services), (''REGION'', regions)])
      in case expressions of
           [] \<Rightarrow> None
         | [e] \<Rightarrow> Some e
         | _ \<Rightarrow> Some (AndExpr expressions))"

definition usageFilter :: "CostQuery \<Rightarrow> Expression option" where
  "usageFilter query = dimensionFilter (q_LinkedAccountIDs query) (q_Services query) (q_Regions query)"

record UsageAdapter =
  ua_paginator :: UsagePaginator
  ua_costMetric :: string

definition NewUsageAdapterForTarget :: "TargetID \<Rightarrow> 'api option \<Rightarrow> int \<Rightarrow> string \<Rightarrow> go_error + UsageAdapter" where
  "NewUsageAdapterForTarget target api maxPages costMetric =
     (if api = None then Inl (Sentinel ''cost explorer usage API must not be nil'')
      else if costMetric = '''' then Inl (Wrapped ''cost metric must not be empty'' ErrInvalidResponse)
      else case NewUsagePaginatorForTarget target maxPages of
             Inl err \<Rightarrow> Inl err
           | Inr pg \<Rightarrow> Inr \<lparr> ua_paginator = pg, ua_costMetric = costMetric \<rparr>)"

definition NewUsageAdapter :: "'api option \<Rightarrow> int \<Rightarrow> string \<Rightarrow> go_error + UsageAdapter" where
  "NewUsageAdapter api maxPages costMetric = NewUsageAdapterForTarget ''default'' api maxPages costMetric"

definition usage_input :: "CostQuery \<Rightarrow> string \<Rightarrow> (string \<times> string) list \<Rightarrow> UsageInput" where
  "usage_input query costMetric groupBy =
     \<lparr> in_TimePeriod = \<lparr> di_Start = Some (FormatDateOnly (p_start (q_Period query))),
                         di_End = Some (FormatDateOnly (p_end (q_Period query))) \<rparr>,
       in_Granularity = ''DAILY'', in_Metrics = [costMetric], in_Filter = usageFilter query,
       in_GroupBy = groupBy, in_NextPageToken = None \<rparr>"

definition usage_groups :: "CostQuery \<Rightarrow> go_error + (string \<times> string) list" where
  "usage_groups query =
     (if q_GroupBy query = DimensionTotal then Inr []
      else case usageDimension (q_GroupBy query) of
             Inl err \<Rightarrow> Inl err
           | Inr dimension \<Rightarrow> Inr [(dimension, ''DIMENSION'')])"

definition ReadCosts ::
  "('w \<Rightarrow> go_error option) \<Rightarrow> (UsageInput \<Rightarrow> ('w, UsageOutput option) action) \<Rightarrow> UsageAdapter \<Rightarrow>
   CostQuery \<Rightarrow> ('w api_state, Cost list) action" where
  "ReadCosts ctx_err api adapter query s =
     (case metricForBasis (q_Basis query) (ua_costMetric adapter) of
        Inl err \<Rightarrow> (s, Inl err)
      | Inr costMetric \<Rightarrow>
          (case usage_groups query of
             Inl err \<Rightarrow> (s, Inl err)
           | Inr groupBy \<Rightarrow>
               (case Paginator_Read ctx_err api (ua_paginator adapter) (Some (usage_input query costMetric groupBy)) s of
                  (s', Inl err) \<Rightarrow> (s', Inl (classify_error err))
                | (s', Inr results) \<Rightarrow> (s', MapUsage results query costMetric))))"

section \<open>tag_mapping.go\<close>

definition map_tag_group :: "CostQuery \<Rightarrow> string \<Rightarrow> string \<Rightarrow> TagCost list \<Rightarrow> Group \<Rightarrow> go_error + TagCost list" where
  "map_tag_group query metric tagKey vals g =
     (case g_Keys g of
        [key] \<Rightarrow>
          (case map_of (g_Metrics g) metric of
             None \<Rightarrow> Inl (Wrapped ''missing metric'' ErrInvalidResponse)
           | Some mv \<Rightarrow>
               (case ParseMoney (ToString (mv_Amount mv)) (ToString (mv_Unit mv)) of
                  Inl err \<Rightarrow> Inl err
                | Inr money \<Rightarrow>
                    let v = TrimPrefix key (tagKey @ ''$'')
                    in Inr (vals @ [\<lparr> t_Target = '''', t_Provider = ProviderCostExplorer, t_Basis = q_Basis query,
                                      t_Window = q_Window query, t_TagKey = tagKey,
                                      t_TagValue = (if v = '''' then ''__untagged__'' else v), t_Amount = money \<rparr>])))
      | _ \<Rightarrow> Inl (Wrapped ''tag group must have one key'' ErrInvalidResponse))"

definition map_tag_result :: "CostQuery \<Rightarrow> string \<Rightarrow> string \<Rightarrow> TagCost list \<Rightarrow> ResultByTime \<Rightarrow> go_error + TagCost list" where
  "map_tag_result query metric tagKey vals result =
     (case mapPeriod (rb_TimePeriod result) of
        Inl err \<Rightarrow> Inl (Wrapped ''map tag result'' err)
      | Inr _ \<Rightarrow> range_err (map_tag_group query metric tagKey) vals (rb_Groups result))"

type_synonym tagKeyPair = "string \<times> string"

definition add_tag_total ::
  "(tagKeyPair, TagCost) gomap \<Rightarrow> TagCost \<Rightarrow> go_error + (tagKeyPair, TagCost) gomap" where
  "add_tag_total totals t =
     (let k = (t_TagValue t, currency (t_Amount t))
      in case map_of totals k of
           None \<Rightarrow> Inr (AList.update k t totals)
         | Some existing \<Rightarrow>
             (case Money_Add (t_Amount existing) (t_Amount t) of
                Inl err \<Rightarrow> Inl err
              | Inr total' \<Rightarrow> Inr (AList.update k (existing\<lparr> t_Amount := total' \<rparr>) totals)))"

definition tag_pair_less :: "tagKeyPair \<Rightarrow> tagKeyPair \<Rightarrow> bool" where
  "tag_pair_less l r =
     (case (l, r) of ((v1, c1), (v2, c2)) \<Rightarrow> if v1 \<noteq> v2 then v1 < v2 else c1 < c2)"

definition mapTagUsage :: "ResultByTime list \<Rightarrow> CostQuery \<Rightarrow> string \<Rightarrow> string \<Rightarrow> go_error + TagCost list" where
  "mapTagUsage results query metric tagKey =
     (if \<not> Basis_Valid (q_Basis query) then Inl (Wrapped ''unsupported tag cost basis'' ErrInvalidResponse)
      else case range_err (map_tag_result query metric tagKey) [] results of
             Inl err \<Rightarrow> Inl err
           | Inr vals \<Rightarrow>
               if q_Window query \<noteq> WindowMonthToDate then Inr vals
               else case range_err add_tag_total [] vals of
                      Inl err \<Rightarrow> Inl err
                    | Inr totals \<Rightarrow>
                        Inr (map (\<lambda>k. the (map_of totals k)) (slice_stable tag_pair_less (map fst totals))))"

definition ReadTagCosts ::
  "('w \<Rightarrow> go_error option) \<Rightarrow> (UsageInput \<Rightarrow> ('w, UsageOutput option) action) \<Rightarrow> UsageAdapter \<Rightarrow>
   CostQuery \<Rightarrow> string \<Rightarrow> ('w api_state, TagCost list) action" where
  "ReadTagCosts ctx_err api adapter query tagKey s =
     (case metricForBasis (q_Basis query) (ua_costMetric adapter) of
        Inl err \<Rightarrow> (s, Inl err)
      | Inr costMetric \<Rightarrow>
          (case Paginator_Read ctx_err api (ua_paginator adapter)
                  (Some (usage_input query costMetric [(tagKey, ''TAG'')])) s of
             (s', Inl err) \<Rightarrow> (s', Inl (classify_error err))
           | (s', Inr results) \<Rightarrow> (s', mapTagUsage results query costMetric tagKey)))"

section \<open>forecast.go\<close>

record ForecastResult =
  fr_TimePeriod :: "DateInterval option"
  fr_MeanValue :: "string option"
  fr_LowerBound :: "string option"
  fr_UpperBound :: "string option"

record ForecastOutput =
  fo_Total :: "MetricValue option"
  fo_Results :: "ForecastResult list"

record ForecastInput =
  fi_Granularity :: string
  fi_Metric :: string
  fi_PredictionIntervalLevel :: int
  fi_Filter :: "Expression option"
  fi_TimePeriod :: DateInterval

definition forecastMetric :: "string \<Rightarrow> go_error + string" where
  "forecastMetric basis =
     (if basis = BasisUnblended then Inr ''UNBLENDED_COST''
      else if basis = BasisAmortized then Inr ''AMORTIZED_COST''
      else if basis = BasisNet then Inr ''NET_UNBLENDED_COST''
      else Inl (Wrapped ''unsupported forecast cost basis'' ErrInvalidResponse))"

text \<open>The three amounts, in the order they are parsed, and the order check between them.\<close>

definition forecast_amounts :: "ForecastResult \<Rightarrow> string \<Rightarrow> go_error + (Money \<times> Money \<times> Money)" where
  "forecast_amounts result cur =
     (case ParseMoney (ToString (fr_MeanValue result)) cur of
        Inl err \<Rightarrow> Inl (Wrapped ''map forecast mean'' err)
      | Inr mean \<Rightarrow>
          (case ParseMoney (ToString (fr_LowerBound result)) cur of
             Inl err \<Rightarrow> Inl (Wrapped ''map forecast lower bound'' err)
           | Inr lower \<Rightarrow>
               (case ParseMoney (ToString (fr_UpperBound result)) cur of
                  Inl err \<Rightarrow> Inl (Wrapped ''map forecast upper bound'' err)
                | Inr upper \<Rightarrow>
                    if f64_lt (amount mean) (amount lower) \<or> f64_lt (amount upper) (amount mean)
                    then Inl (Wrapped ''prediction bounds are unordered'' ErrInvalidResponse)
                    else Inr (mean, lower, upper))))"

definition MapForecast :: "ForecastOutput option \<Rightarrow> ForecastQuery \<Rightarrow> go_error + Forecast" where
  "MapForecast output query =
     (if \<not> Basis_Valid (fq_Basis query) then Inl (Wrapped ''unsupported forecast cost basis'' ErrInvalidResponse)
      else case output of
             None \<Rightarrow> Inl (Wrapped ''expected one forecast result'' ErrInvalidResponse)
           | Some out \<Rightarrow>
               (case (fo_Total out, fo_Results out) of
                  (Some tot, [result]) \<Rightarrow>
                    (case mapPeriod (fr_TimePeriod result) of
                       Inl err \<Rightarrow> Inl err
                     | Inr period \<Rightarrow>
                         let month = MonthContaining (p_start (fq_Period query));
                             validStart = (p_start period = p_start (fq_Period query) \<or> p_start period = p_start month)
                         in if \<not> validStart \<or> p_end period \<noteq> p_end (fq_Period query)
                            then Inl (Wrapped ''forecast period mismatch'' ErrInvalidResponse)
                            else (case forecast_amounts result (ToString (mv_Unit tot)) of
                                    Inl err \<Rightarrow> Inl err
                                  | Inr (mean, lower, upper) \<Rightarrow>
                                      Inr \<lparr> f_Target = '''', f_Provider = ProviderCostExplorer,
                                            f_Basis = fq_Basis query, f_Period = fq_Period query, f_Mean = mean,
                                            f_LowerBound = lower, f_UpperBound = upper \<rparr>))
                | _ \<Rightarrow> Inl (Wrapped ''expected one forecast result'' ErrInvalidResponse)))"

definition ReadForecast ::
  "(ForecastInput \<Rightarrow> ('w, ForecastOutput option) action) \<Rightarrow> ForecastQuery \<Rightarrow> ('w, Forecast) action" where
  "ReadForecast api query w =
     (case forecastMetric (fq_Basis query) of
        Inl err \<Rightarrow> (w, Inl err)
      | Inr metric \<Rightarrow>
          (case api \<lparr> fi_Granularity = ''MONTHLY'', fi_Metric = metric,
                      fi_PredictionIntervalLevel = fq_PredictionInterval query,
                      fi_Filter = dimensionFilter (fq_LinkedAccountIDs query) (fq_Services query) (fq_Regions query),
                      fi_TimePeriod = \<lparr> di_Start = Some (FormatDateOnly (p_start (fq_Period query))),
                                        di_End = Some (FormatDateOnly (p_end (fq_Period query))) \<rparr> \<rparr> w of
             (w', Inl err) \<Rightarrow> (w', Inl (classify_error err))
           | (w', Inr output) \<Rightarrow> (w', MapForecast output query)))"

section \<open>filteredReader of bootstrap.go\<close>

record FiltersConfig =
  flt_LinkedAccountIDs :: "string list"
  flt_Services :: "string list"
  flt_Regions :: "string list"

definition with_filters :: "FiltersConfig \<Rightarrow> CostQuery \<Rightarrow> CostQuery" where
  "with_filters filters query =
     query\<lparr> q_LinkedAccountIDs := flt_LinkedAccountIDs filters, q_Services := flt_Services filters,
            q_Regions := flt_Regions filters \<rparr>"

fun read_bases ::
  "(CostQuery \<Rightarrow> ('s, Cost list) action) \<Rightarrow> CostQuery \<Rightarrow> string list \<Rightarrow> Cost list \<Rightarrow> ('s, Cost list) action" where
  "read_bases read query [] vals s = (s, Inr vals)"
| "read_bases read query (basis # bases) vals s =
     (case read (query\<lparr> q_Basis := basis \<rparr>) s of
        (s', Inl err) \<Rightarrow> (s', Inl err)
      | (s', Inr result) \<Rightarrow> read_bases read query bases (vals @ result) s')"

definition Filtered_ReadCosts ::
  "(CostQuery \<Rightarrow> ('s, Cost list) action) \<Rightarrow> FiltersConfig \<Rightarrow> string list \<Rightarrow> CostQuery \<Rightarrow> ('s, Cost list) action" where
  "Filtered_ReadCosts read filters bases query =
     read_bases read (with_filters filters query) (if bases = [] then [BasisUnblended] else bases) []"

definition Filtered_ReadForecast ::
  "(ForecastQuery \<Rightarrow> ('s, Forecast) action) \<Rightarrow> FiltersConfig \<Rightarrow> string list \<Rightarrow> ForecastQuery \<Rightarrow> ('s, Forecast) action" where
  "Filtered_ReadForecast read filters bases query =
     read (query\<lparr> fq_LinkedAccountIDs := flt_LinkedAccountIDs filters, fq_Services := flt_Services filters,
                  fq_Regions := flt_Regions filters,
                  fq_Basis := (case bases of [] \<Rightarrow> BasisUnblended | b # _ \<Rightarrow> b) \<rparr>)"

definition Filtered_ReadTagCosts ::
  "(CostQuery \<Rightarrow> string \<Rightarrow> ('s, TagCost list) action) \<Rightarrow> FiltersConfig \<Rightarrow> CostQuery \<Rightarrow> string \<Rightarrow>
   ('s, TagCost list) action" where
  "Filtered_ReadTagCosts read filters query tagKey = read (with_filters filters query) tagKey"

declare read_pages.simps [simp del]

section \<open>Pagination is complete and bounded\<close>

text \<open>The pages the service serves from a request on, following its tokens to the end.\<close>

inductive page_chain ::
  "(UsageInput \<Rightarrow> ('w, UsageOutput option) action) \<Rightarrow> UsageInput \<Rightarrow> 'w \<Rightarrow> UsageOutput list \<Rightarrow> 'w \<Rightarrow> bool"
  for api where
  last_page: "api req w = (w', Inr (Some out)) \<Longrightarrow> ToString (out_NextPageToken out) = [] \<Longrightarrow>
    page_chain api req w [out] w'"
| next_page: "api req w = (w1, Inr (Some out)) \<Longrightarrow> ToString (out_NextPageToken out) = token \<Longrightarrow> token \<noteq> [] \<Longrightarrow>
    page_chain api (req\<lparr> in_NextPageToken := Some token \<rparr>) w1 outs w' \<Longrightarrow> page_chain api req w (out # outs) w'"

lemma read_pages_chain:
  assumes "read_pages ctx_err api pg remaining req seen results (w, evs) = ((w', evs'), Inr rs)"
  shows "\<exists>outs. page_chain api req w outs w' \<and> rs = results @ concat (map out_ResultsByTime outs) \<and>
    evs' = evs @ replicate (length outs) (ObservePaginationPage (pg_target pg) ''GetCostAndUsage'') \<and>
    length outs \<le> remaining"
  using assms
proof (induction remaining arbitrary: req seen results w evs)
  case 0
  then show ?case by (subst (asm) read_pages.simps) (simp split: option.splits)
next
  case (Suc n)
  let ?ev = "ObservePaginationPage (pg_target pg) ''GetCostAndUsage''"
  obtain w1 out where call: "api req w = (w1, Inr (Some out))"
    and run: "(if ToString (out_NextPageToken out) = []
        then ((w1, evs @ [?ev]), Inr (results @ out_ResultsByTime out))
        else if ToString (out_NextPageToken out) \<in> set seen
        then ((w1, evs @ [?ev]), Inl (Wrapped ''at page'' ErrDuplicatePageToken))
        else read_pages ctx_err api pg n (req\<lparr> in_NextPageToken := Some (ToString (out_NextPageToken out)) \<rparr>)
               (ToString (out_NextPageToken out) # seen) (results @ out_ResultsByTime out) (w1, evs @ [?ev]))
      = ((w', evs'), Inr rs)"
    using Suc.prems
    by (subst (asm) read_pages.simps) (auto simp: Let_def split: option.splits prod.splits sum.splits)
  show ?case
  proof (cases "ToString (out_NextPageToken out) = []")
    case True
    then have "page_chain api req w [out] w1" by (rule last_page [where api = api, OF call])
    then show ?thesis using run True by (intro exI [of _ "[out]"]) auto
  next
    case False
    then have rec: "read_pages ctx_err api pg n (req\<lparr> in_NextPageToken := Some (ToString (out_NextPageToken out)) \<rparr>)
        (ToString (out_NextPageToken out) # seen) (results @ out_ResultsByTime out) (w1, evs @ [?ev]) = ((w', evs'), Inr rs)"
      using run by (simp split: if_splits)
    from Suc.IH [OF rec] obtain outs where
      "page_chain api (req\<lparr> in_NextPageToken := Some (ToString (out_NextPageToken out)) \<rparr>) w1 outs w'"
      "rs = (results @ out_ResultsByTime out) @ concat (map out_ResultsByTime outs)"
      "evs' = (evs @ [?ev]) @ replicate (length outs) ?ev" "length outs \<le> n" by blast
    then show ?thesis
      using next_page [where api = api, OF call refl False] by (intro exI [of _ "out # outs"]) simp
  qed
qed

section \<open>Mapping\<close>

lemma Basis_Valid_metricBasis: "Basis_Valid (metricBasis m)"
  by (simp add: metricBasis_def Basis_Valid_def)

lemma mapCost_row:
  assumes "mapCost period w d ms metric = Inr c" and "dimension_wf d"
  shows "cost_row w (kind d) c \<and> c_Basis c = metricBasis metric \<and> c_Provider c = ProviderCostExplorer"
  using assms Basis_Valid_metricBasis
  by (auto simp: mapCost_def cost_row_def Provider_Valid_def dest: ParseMoney_wf split: option.splits sum.splits)

definition usage_row :: "CostQuery \<Rightarrow> string \<Rightarrow> Cost \<Rightarrow> bool" where
  "usage_row query metric c \<longleftrightarrow>
     cost_row (q_Window query) (q_GroupBy query) c \<and> c_Basis c = metricBasis metric \<and>
     c_Provider c = ProviderCostExplorer"

lemma map_group_rows:
  assumes "map_group query metric period mapped g = Inr mapped'" and "\<forall>c \<in> set mapped. usage_row query metric c"
  shows "\<forall>c \<in> set mapped'. usage_row query metric c"
proof -
  obtain key d entry where "g_Keys g = [key]" and d: "NewDimension (q_GroupBy query) key = Inr d"
    and e: "mapCost period (q_Window query) d (g_Metrics g) metric = Inr entry" and m: "mapped' = mapped @ [entry]"
    using assms(1) by (auto simp: map_group_def split: list.splits sum.splits)
  have "usage_row query metric entry"
    using mapCost_row [OF e] NewDimension_wf [OF d] by (simp add: usage_row_def)
  then show ?thesis using assms(2) by (simp add: m)
qed

lemma dimension_wf_total: "dimension_wf \<lparr> kind = DimensionTotal, dvalue = [] \<rparr>"
  by (simp add: dimension_wf_def trimmed_def no_prefix_def space_runes_def HasPrefix_def)

lemma map_result_rows:
  assumes "map_result query metric mapped res = Inr mapped'" and "\<forall>c \<in> set mapped. usage_row query metric c"
  shows "\<forall>c \<in> set mapped'. usage_row query metric c"
proof -
  obtain period where p: "mapPeriod (rb_TimePeriod res) = Inr period"
    using assms(1) by (auto simp: map_result_def split: sum.splits)
  show ?thesis
  proof (cases "q_GroupBy query = DimensionTotal")
    case True
    then obtain entry where
      e: "mapCost period (q_Window query) \<lparr> kind = DimensionTotal, dvalue = [] \<rparr> (rb_Total res) metric = Inr entry"
      and m: "mapped' = mapped @ [entry]"
      using assms(1) p by (auto simp: map_result_def split: sum.splits)
    show ?thesis using mapCost_row [OF e dimension_wf_total] True assms(2) by (simp add: m usage_row_def)
  next
    case False
    then have "range_err (map_group query metric period) mapped (rb_Groups res) = Inr mapped'"
      using assms(1) p by (simp add: map_result_def)
    then show ?thesis
      by (rule range_err_invariant) (use assms(2) map_group_rows in blast)+
  qed
qed

text \<open>The amount accumulated for a key: the first entry, then the others added in order.\<close>

definition running_total :: "aggregateKey \<Rightarrow> Cost list \<Rightarrow> float64" where
  "running_total k cs =
     (case map (\<lambda>c. amount (c_Amount c)) (filter (\<lambda>c. aggregate_key c = k) cs) of
        [] \<Rightarrow> F_Fin 0 | x # xs \<Rightarrow> foldl f64_add x xs)"

definition totals_inv :: "Period \<Rightarrow> Cost list \<Rightarrow> (aggregateKey, Cost) gomap \<Rightarrow> bool" where
  "totals_inv period cs totals \<longleftrightarrow>
     gomap_wf totals \<and> fst ` set totals = aggregate_key ` set cs \<and>
     (\<forall>k t. map_of totals k = Some t \<longrightarrow>
        aggregate_key t = k \<and> c_Window t = WindowMonthToDate \<and> c_Period t = period \<and>
        amount (c_Amount t) = running_total k cs \<and>
        ((\<forall>c \<in> set cs. money_wf (c_Amount c) \<and> dimension_wf (c_Dimension c)) \<longrightarrow>
         money_wf (c_Amount t) \<and> dimension_wf (c_Dimension t)))"

lemma running_total_snoc:
  "running_total k (cs @ [c]) =
     (if aggregate_key c \<noteq> k then running_total k cs
      else if \<exists>x \<in> set cs. aggregate_key x = k then f64_add (running_total k cs) (amount (c_Amount c))
      else amount (c_Amount c))"
proof (cases "filter (\<lambda>c. aggregate_key c = k) cs")
  case Nil
  then have "\<not> (\<exists>x \<in> set cs. aggregate_key x = k)" by (auto simp: filter_empty_conv)
  then show ?thesis by (simp add: running_total_def Nil)
next
  case (Cons y ys)
  then have "y \<in> set (filter (\<lambda>c. aggregate_key c = k) cs)" by (metis list.set_intros(1))
  then have "\<exists>x \<in> set cs. aggregate_key x = k" by auto
  then show ?thesis by (simp add: running_total_def Cons)
qed

lemma totals_inv_update:
  assumes inv: "totals_inv period cs totals"
    and t: "aggregate_key t = aggregate_key c" "c_Window t = WindowMonthToDate" "c_Period t = period"
      "amount (c_Amount t) = running_total (aggregate_key c) (cs @ [c])"
      "(\<forall>x \<in> set (cs @ [c]). money_wf (c_Amount x) \<and> dimension_wf (c_Dimension x)) \<longrightarrow>
       money_wf (c_Amount t) \<and> dimension_wf (c_Dimension t)"
  shows "totals_inv period (cs @ [c]) (AList.update (aggregate_key c) t totals)"
proof -
  have "fst ` set (AList.update (aggregate_key c) t totals) = aggregate_key ` set (cs @ [c])"
    using inv by (simp add: totals_inv_def dom_update flip: dom_map_of_conv_image_fst)
  then show ?thesis
    using inv t unfolding totals_inv_def by (auto simp: running_total_snoc split: if_splits)
qed

lemma add_total_inv:
  assumes "totals_inv period cs totals" and "add_total period totals c = Inr totals'"
  shows "totals_inv period (cs @ [c]) totals'"
proof -
  let ?k = "aggregate_key c"
  have wf: "gomap_wf totals" and dom: "fst ` set totals = aggregate_key ` set cs"
    and ent: "\<And>k t. map_of totals k = Some t \<Longrightarrow> aggregate_key t = k \<and> c_Window t = WindowMonthToDate \<and>
      c_Period t = period \<and> amount (c_Amount t) = running_total k cs \<and>
      ((\<forall>c \<in> set cs. money_wf (c_Amount c) \<and> dimension_wf (c_Dimension c)) \<longrightarrow>
       money_wf (c_Amount t) \<and> dimension_wf (c_Dimension t))"
    using assms(1) by (auto simp: totals_inv_def)
  have seen: "(\<exists>x \<in> set cs. aggregate_key x = ?k) \<longleftrightarrow> map_of totals ?k \<noteq> None"
  proof -
    have "(\<exists>x \<in> set cs. aggregate_key x = ?k) \<longleftrightarrow> ?k \<in> aggregate_key ` set cs" by (metis image_iff)
    then show ?thesis by (simp add: map_of_eq_None_iff dom)
  qed
  note new = totals_inv_update [OF assms(1)]
  show ?thesis
  proof (cases "map_of totals ?k")
    case None
    let ?t = "\<lparr> c_Target = [], c_Provider = c_Provider c, c_Basis = c_Basis c, c_Window = WindowMonthToDate,
        c_Period = period, c_Dimension = c_Dimension c, c_Amount = c_Amount c \<rparr>"
    have t': "totals' = AList.update ?k ?t totals" using assms(2) None by (simp add: add_total_def)
    have "aggregate_key ?t = ?k" by (simp add: aggregate_key_def)
    moreover have "running_total ?k (cs @ [c]) = amount (c_Amount c)" using None seen by (simp add: running_total_snoc)
    ultimately show ?thesis unfolding t' by (intro new) simp_all
  next
    case (Some old)
    then obtain m where m: "Money_Add (c_Amount old) (c_Amount c) = Inr m"
      and t': "totals' = AList.update ?k (old\<lparr> c_Amount := m \<rparr>) totals"
      using assms(2) by (auto simp: add_total_def split: sum.splits)
    have cur: "currency m = currency (c_Amount old)" and amt: "amount m = f64_add (amount (c_Amount old)) (amount (c_Amount c))"
      using m by (auto simp: Money_Add_def Let_def split: if_splits)
    have "aggregate_key (old\<lparr> c_Amount := m \<rparr>) = ?k" using ent [OF Some] cur by (simp add: aggregate_key_def)
    then show ?thesis
      unfolding t' using ent [OF Some] seen Some amt Money_Add_wf [OF m]
      by (intro new) (auto simp: running_total_snoc)
  qed
qed

lemma add_totals_inv:
  assumes "range_err (add_total period) totals cs = Inr totals'" and "totals_inv period ds totals"
  shows "totals_inv period (ds @ cs) totals'"
  using assms
proof (induction cs arbitrary: ds totals)
  case (Cons c cs)
  obtain t where t: "add_total period totals c = Inr t" and run: "range_err (add_total period) t cs = Inr totals'"
    using Cons.prems(1) by (auto split: sum.splits)
  show ?case using Cons.IH [OF run add_total_inv [OF Cons.prems(2) t]] by simp
qed simp

lemma totals_entry:
  assumes "totals_inv period cs totals" and "k \<in> fst ` set totals"
  shows "map_of totals k = Some (the (map_of totals k))" and "aggregate_key (the (map_of totals k)) = k"
proof -
  obtain t where t: "map_of totals k = Some t" using assms(2) by (metis not_None_eq map_of_eq_None_iff)
  moreover have "aggregate_key t = k" using assms(1) t unfolding totals_inv_def by blast
  ultimately show "map_of totals k = Some (the (map_of totals k))" "aggregate_key (the (map_of totals k)) = k" by simp_all
qed

lemma aggregate_ok:
  assumes "aggregateMonthToDate cs period = Inr r"
  shows "distinct (map aggregate_key r)" and "set (map aggregate_key r) = set (map aggregate_key cs)"
    and "\<And>c. c \<in> set r \<Longrightarrow> c_Window c = WindowMonthToDate \<and> c_Period c = period \<and>
           amount (c_Amount c) = running_total (aggregate_key c) cs \<and>
           ((\<forall>c \<in> set cs. money_wf (c_Amount c) \<and> dimension_wf (c_Dimension c)) \<longrightarrow>
            money_wf (c_Amount c) \<and> dimension_wf (c_Dimension c))"
proof -
  have "distinct (map aggregate_key r) \<and> set (map aggregate_key r) = set (map aggregate_key cs) \<and>
    (\<forall>c \<in> set r. c_Window c = WindowMonthToDate \<and> c_Period c = period \<and>
       amount (c_Amount c) = running_total (aggregate_key c) cs \<and>
       ((\<forall>c \<in> set cs. money_wf (c_Amount c) \<and> dimension_wf (c_Dimension c)) \<longrightarrow>
        money_wf (c_Amount c) \<and> dimension_wf (c_Dimension c)))"
  proof (cases "cs = []")
    case True
    then show ?thesis using assms by (simp add: aggregateMonthToDate_def)
  next
    case False
    then obtain totals where run: "range_err (add_total period) [] cs = Inr totals"
      and r: "r = map (\<lambda>k. the (map_of totals k)) (slice_stable aggregate_less (map fst totals))"
      using assms by (auto simp: aggregateMonthToDate_def split: sum.splits)
    have "totals_inv period [] []" by (simp add: totals_inv_def)
    from add_totals_inv [OF run this] have inv: "totals_inv period cs totals" by simp
    let ?ks = "slice_stable aggregate_less (map fst totals)"
    note entry = totals_entry [OF inv]
    then have keys: "map aggregate_key r = ?ks" unfolding r map_map by (intro map_idI) simp
    have "distinct ?ks" using inv distinct_map_slice_stable [of "\<lambda>k. k" aggregate_less "map fst totals"]
      by (simp add: totals_inv_def)
    moreover have "set ?ks = set (map aggregate_key cs)" using inv by (simp add: totals_inv_def)
    moreover have "\<exists>k. map_of totals k = Some c" if in_r: "c \<in> set r" for c
    proof -
      obtain k where k: "k \<in> set ?ks" "c = the (map_of totals k)" using in_r unfolding r set_map by blast
      then have "k \<in> fst ` set totals" by simp
      from entry(1) [OF this] show ?thesis unfolding k(2) by (rule exI)
    qed
    ultimately show ?thesis using keys inv unfolding totals_inv_def by (metis (no_types, lifting))
  qed
  then show "distinct (map aggregate_key r)" "set (map aggregate_key r) = set (map aggregate_key cs)"
    "\<And>c. c \<in> set r \<Longrightarrow> c_Window c = WindowMonthToDate \<and> c_Period c = period \<and>
       amount (c_Amount c) = running_total (aggregate_key c) cs \<and>
       ((\<forall>c \<in> set cs. money_wf (c_Amount c) \<and> dimension_wf (c_Dimension c)) \<longrightarrow>
        money_wf (c_Amount c) \<and> dimension_wf (c_Dimension c))"
    by blast+
qed

lemma MapUsage_rows:
  assumes "MapUsage results query metric = Inr cs" and "c \<in> set cs"
  shows "usage_row query metric c"
proof -
  obtain mapped where m: "range_err (map_result query metric) [] results = Inr mapped"
    and r: "(if q_Window query \<noteq> WindowMonthToDate then Inr mapped
             else aggregateMonthToDate mapped (q_Period query)) = Inr cs"
    using assms(1) by (auto simp: MapUsage_def split: if_splits sum.splits)
  have rows: "\<forall>c \<in> set mapped. usage_row query metric c"
  proof (rule range_err_invariant [OF m])
    show "\<forall>c \<in> set []. usage_row query metric c" by simp
  next
    fix acc x acc'
    assume "map_result query metric acc x = Inr acc'" "\<forall>c \<in> set acc. usage_row query metric c"
    then show "\<forall>c \<in> set acc'. usage_row query metric c" by (rule map_result_rows)
  qed
  show ?thesis
  proof (cases "q_Window query = WindowMonthToDate")
    case False
    then show ?thesis using r rows assms(2) by simp
  next
    case True
    then have a: "aggregateMonthToDate mapped (q_Period query) = Inr cs" using r by simp
    have "aggregate_key c \<in> set (map aggregate_key mapped)" using aggregate_ok(2) [OF a] assms(2)
      by (metis image_eqI set_map)
    then obtain d where d: "d \<in> set mapped" "aggregate_key c = aggregate_key d" by (metis imageE set_map)
    have "usage_row query metric d" using rows d(1) by blast
    moreover have "money_wf (c_Amount c) \<and> dimension_wf (c_Dimension c) \<and> c_Window c = WindowMonthToDate"
      using aggregate_ok(3) [OF a assms(2)] rows by (auto simp: usage_row_def cost_row_def)
    ultimately show ?thesis using d(2) True by (auto simp: usage_row_def cost_row_def aggregate_key_def)
  qed
qed

lemma metricForBasis_basis:
  assumes "metricForBasis basis fallback = Inr metric" and "metricBasis fallback = BasisUnblended"
  shows "metricBasis metric = basis" and "Basis_Valid basis"
proof -
  consider "basis = BasisUnblended" "metric = fallback" | "basis = BasisAmortized" "metric = ''AmortizedCost''"
    | "basis = BasisNet" "metric = ''NetUnblendedCost''"
    using assms(1) unfolding metricForBasis_def by (metis (full_types) Inl_Inr_False sum.inject(2))
  then have "metricBasis metric = basis \<and> Basis_Valid basis"
  proof cases
    case 1
    then show ?thesis using assms(2) unfolding Basis_Valid_def by blast
  next
    case 2
    then show ?thesis by (simp add: metricBasis_def Basis_Valid_def)
  next
    case 3
    then show ?thesis by (simp add: metricBasis_def Basis_Valid_def)
  qed
  then show "metricBasis metric = basis" "Basis_Valid basis" by blast+
qed

lemma ReadCosts_rows:
  assumes "ReadCosts ctx_err api adapter query s = (s', Inr cs)" and "c \<in> set cs"
  shows "\<exists>metric. metricForBasis (q_Basis query) (ua_costMetric adapter) = Inr metric \<and> usage_row query metric c"
  using assms MapUsage_rows by (auto simp: ReadCosts_def split: sum.splits prod.splits)

lemma read_bases_rows:
  assumes "read_bases read query bases acc s = (s', Inr cs)" and "\<forall>c \<in> set acc. P c"
    and "\<And>b s s' cs c. read (query\<lparr> q_Basis := b \<rparr>) s = (s', Inr cs) \<Longrightarrow> c \<in> set cs \<Longrightarrow> P c"
  shows "\<forall>c \<in> set cs. P c"
  using assms(1,2)
proof (induction bases arbitrary: acc s)
  case (Cons b bases)
  obtain s1 res where r: "read (query\<lparr> q_Basis := b \<rparr>) s = (s1, Inr res)"
    and run: "read_bases read query bases (acc @ res) s1 = (s', Inr cs)"
    using Cons.prems(1) by (auto split: prod.splits sum.splits)
  show ?case using Cons.prems(2) assms(3) [OF r] by (intro Cons.IH [OF run]) auto
qed simp

text \<open>The production reader honours the contract of a cost source, whatever the service answers.\<close>

interpretation filtered: cost_source "Filtered_ReadCosts (ReadCosts ctx_err api adapter) filters bases"
  for ctx_err :: "'w \<Rightarrow> go_error option" and api adapter filters bases
proof
  fix q s s' cs c
  assume "Filtered_ReadCosts (ReadCosts ctx_err api adapter) filters bases q s = (s', Inr cs)" and "c \<in> set cs"
  then have "\<forall>c \<in> set cs. cost_row (q_Window q) (q_GroupBy q) c"
    unfolding Filtered_ReadCosts_def
    by (elim read_bases_rows) (use ReadCosts_rows in \<open>fastforce simp: usage_row_def with_filters_def\<close>)+
  then show "cost_row (q_Window q) (q_GroupBy q) c" using \<open>c \<in> set cs\<close> by blast
qed

section \<open>Forecasts\<close>

definition forecast_ok :: "Forecast \<Rightarrow> bool" where
  "forecast_ok f \<longleftrightarrow>
     Provider_Valid (f_Provider f) \<and> Basis_Valid (f_Basis f) \<and>
     money_wf (f_Mean f) \<and> money_wf (f_LowerBound f) \<and> money_wf (f_UpperBound f) \<and>
     currency (f_LowerBound f) = currency (f_Mean f) \<and> currency (f_UpperBound f) = currency (f_Mean f) \<and>
     f64_le (amount (f_LowerBound f)) (amount (f_Mean f)) \<and> f64_le (amount (f_Mean f)) (amount (f_UpperBound f))"

lemma f64_not_lt: "f64_finite x \<Longrightarrow> f64_finite y \<Longrightarrow> \<not> f64_lt x y \<longleftrightarrow> f64_le y x"
  by (auto simp: f64_finite_iff f64_le_def f64_eq_def)

lemma MapForecast_ok:
  assumes "MapForecast output query = Inr f"
  shows "forecast_ok f \<and> f_Period f = fq_Period query \<and> f_Basis f = fq_Basis query"
proof -
  obtain res cur mean lower upper where "Basis_Valid (fq_Basis query)"
    and a: "forecast_amounts res cur = Inr (mean, lower, upper)"
    and f: "f = \<lparr> f_Target = [], f_Provider = ProviderCostExplorer, f_Basis = fq_Basis query,
                  f_Period = fq_Period query, f_Mean = mean, f_LowerBound = lower, f_UpperBound = upper \<rparr>"
    using assms by (auto simp: MapForecast_def Let_def split: if_splits option.splits list.splits sum.splits)
  have "money_wf mean \<and> currency mean = TrimSpace cur" "money_wf lower \<and> currency lower = TrimSpace cur"
    "money_wf upper \<and> currency upper = TrimSpace cur"
    and "\<not> f64_lt (amount mean) (amount lower)" "\<not> f64_lt (amount upper) (amount mean)"
    using a ParseMoney_wf by (auto simp: forecast_amounts_def split: sum.splits if_splits)
  moreover from this have "f64_le (amount lower) (amount mean)" and "f64_le (amount mean) (amount upper)"
    by (simp_all add: money_wf_def flip: f64_not_lt)
  ultimately show ?thesis
    using \<open>Basis_Valid (fq_Basis query)\<close> by (simp add: f forecast_ok_def Provider_Valid_def)
qed

lemma ReadForecast_ok: "ReadForecast api query w = (w', Inr f) \<Longrightarrow> forecast_ok f \<and> f_Period f = fq_Period query"
  using MapForecast_ok by (auto simp: ReadForecast_def split: sum.splits prod.splits)

section \<open>Tag rows\<close>

definition tag_row :: "CostQuery \<Rightarrow> string \<Rightarrow> TagCost \<Rightarrow> bool" where
  "tag_row query tagKey t \<longleftrightarrow>
     t_Provider t = ProviderCostExplorer \<and> t_Basis t = q_Basis query \<and> Basis_Valid (t_Basis t) \<and>
     t_Window t = q_Window query \<and> t_TagKey t = tagKey \<and> t_TagValue t \<noteq> [] \<and> money_wf (t_Amount t)"

lemma map_tag_group_rows:
  assumes "map_tag_group query metric tagKey vals g = Inr vals'" and "Basis_Valid (q_Basis query)"
    and "\<forall>t \<in> set vals. tag_row query tagKey t"
  shows "\<forall>t \<in> set vals'. tag_row query tagKey t"
  using assms ParseMoney_wf
  by (auto simp: map_tag_group_def tag_row_def Let_def split: list.splits option.splits sum.splits if_splits)

lemma map_tag_result_rows:
  assumes "map_tag_result query metric tagKey vals res = Inr vals'" and "Basis_Valid (q_Basis query)"
    and "\<forall>t \<in> set vals. tag_row query tagKey t"
  shows "\<forall>t \<in> set vals'. tag_row query tagKey t"
proof -
  have "range_err (map_tag_group query metric tagKey) vals (rb_Groups res) = Inr vals'"
    using assms(1) by (auto simp: map_tag_result_def split: sum.splits)
  then show ?thesis
    by (rule range_err_invariant) (use assms(2,3) map_tag_group_rows in blast)+
qed

lemma tag_totals_rows:
  assumes "range_err add_tag_total [] vals = Inr totals" and "\<forall>t \<in> set vals. tag_row query tagKey t"
  shows "gomap_wf totals \<and> (\<forall>(k, t) \<in> set totals. k = (t_TagValue t, currency (t_Amount t)) \<and> tag_row query tagKey t)"
proof (rule range_err_invariant [OF assms(1)])
  show "gomap_wf [] \<and> (\<forall>(k, t) \<in> set []. k = (t_TagValue t, currency (t_Amount t)) \<and> tag_row query tagKey t)" by simp
  fix s x s'
  assume x: "x \<in> set vals" and s': "add_tag_total s x = Inr s'"
    and s: "gomap_wf s \<and> (\<forall>(k, t) \<in> set s. k = (t_TagValue t, currency (t_Amount t)) \<and> tag_row query tagKey t)"
  let ?k = "(t_TagValue x, currency (t_Amount x))"
  show "gomap_wf s' \<and> (\<forall>(k, t) \<in> set s'. k = (t_TagValue t, currency (t_Amount t)) \<and> tag_row query tagKey t)"
  proof (cases "map_of s ?k")
    case None
    then have "s' = AList.update ?k x s" using s' by (simp add: add_tag_total_def)
    then show ?thesis using s x assms(2) by (auto simp: set_update_iff)
  next
    case (Some old)
    then obtain m where m: "Money_Add (t_Amount old) (t_Amount x) = Inr m"
      and s'': "s' = AList.update ?k (old\<lparr> t_Amount := m \<rparr>) s"
      using s' by (auto simp: add_tag_total_def split: sum.splits)
    have old: "(?k, old) \<in> set s" using Some by (rule map_of_SomeD)
    then have o: "?k = (t_TagValue old, currency (t_Amount old))" "tag_row query tagKey old" using s by auto
    have "money_wf m \<and> currency m = currency (t_Amount old)"
      using Money_Add_wf [OF m] o(2) by (simp add: tag_row_def)
    then have "?k = (t_TagValue (old\<lparr> t_Amount := m \<rparr>), currency (t_Amount (old\<lparr> t_Amount := m \<rparr>))) \<and>
        tag_row query tagKey (old\<lparr> t_Amount := m \<rparr>)"
      using o by (auto simp: tag_row_def)
    then show ?thesis using s unfolding s'' by (auto simp: set_update_iff)
  qed
qed

lemma mapTagUsage_rows:
  assumes "mapTagUsage results query metric tagKey = Inr ts" and "t \<in> set ts"
  shows "tag_row query tagKey t"
proof -
  obtain vals where b: "Basis_Valid (q_Basis query)" and v: "range_err (map_tag_result query metric tagKey) [] results = Inr vals"
    and r: "(if q_Window query \<noteq> WindowMonthToDate then Inr vals
             else case range_err add_tag_total [] vals of
                    Inl err \<Rightarrow> Inl err
                  | Inr totals \<Rightarrow> Inr (map (\<lambda>k. the (map_of totals k)) (slice_stable tag_pair_less (map fst totals)))) = Inr ts"
    using assms(1) by (auto simp: mapTagUsage_def split: if_splits sum.splits)
  have rows: "\<forall>t \<in> set vals. tag_row query tagKey t"
    by (rule range_err_invariant [OF v]) (use map_tag_result_rows b in \<open>simp, blast\<close>)
  show ?thesis
  proof (cases "q_Window query = WindowMonthToDate")
    case False
    then show ?thesis using r rows assms(2) by simp
  next
    case True
    then obtain totals where tot: "range_err add_tag_total [] vals = Inr totals"
      and ts: "ts = map (\<lambda>k. the (map_of totals k)) (slice_stable tag_pair_less (map fst totals))"
      using r by (auto split: sum.splits)
    obtain k where "k \<in> fst ` set totals" "t = the (map_of totals k)" using assms(2) by (auto simp: ts)
    then obtain t' where "map_of totals k = Some t'" "t = t'" by (metis map_of_eq_None_iff option.exhaust_sel)
    then have "(k, t) \<in> set totals" by (simp add: map_of_SomeD)
    then show ?thesis using tag_totals_rows [OF tot rows] by auto
  qed
qed

section \<open>Pagination properties\<close>

definition page_tokens :: "UsageOutput list \<Rightarrow> string list" where
  "page_tokens outs = map (\<lambda>o'. ToString (out_NextPageToken o')) (butlast outs)"

inductive_cases page_chain_elim: "page_chain api req w outs w'"

lemma page_chain_nonempty: "page_chain api req w outs w' \<Longrightarrow> outs \<noteq> []"
  by (erule page_chain_elim) simp_all

lemma page_chain_read:
  assumes "page_chain api req w outs w'" and "\<And>w. ctx_err w = None" and "length outs \<le> remaining"
    and "distinct (page_tokens outs)" and "set (page_tokens outs) \<inter> set seen = {}"
  shows "read_pages ctx_err api pg remaining req seen results (w, evs) =
    ((w', evs @ replicate (length outs) (ObservePaginationPage (pg_target pg) ''GetCostAndUsage'')),
     Inr (results @ concat (map out_ResultsByTime outs)))"
  using assms(1,3-)
proof (induction arbitrary: remaining seen results evs rule: page_chain.induct)
  case (last_page req w w' out)
  then obtain n where "remaining = Suc n" by (cases remaining) simp_all
  then show ?case using last_page assms(2) by (subst read_pages.simps) simp
next
  case (next_page req w w1 out token outs w')
  obtain n where n: "remaining = Suc n" using next_page.prems(1) by (cases remaining) simp_all
  have "outs \<noteq> []" using next_page.hyps(4) by (rule page_chain_nonempty)
  then have tok: "page_tokens (out # outs) = token # page_tokens outs"
    using next_page.hyps(2) by (simp add: page_tokens_def)
  have "read_pages ctx_err api pg n (req\<lparr> in_NextPageToken := Some token \<rparr>) (token # seen)
      (results @ out_ResultsByTime out) (w1, evs @ [ObservePaginationPage (pg_target pg) ''GetCostAndUsage'']) =
    ((w', (evs @ [ObservePaginationPage (pg_target pg) ''GetCostAndUsage'']) @
        replicate (length outs) (ObservePaginationPage (pg_target pg) ''GetCostAndUsage'')),
     Inr ((results @ out_ResultsByTime out) @ concat (map out_ResultsByTime outs)))"
    using next_page.prems tok n by (intro next_page.IH) auto
  then show ?case
    using next_page.hyps next_page.prems tok assms(2) n by (subst read_pages.simps) (simp add: Let_def)
qed

text \<open>
  C17. Pagination is all or nothing and bounded: when the paginator returns results, they are the
  concatenation, in order, of every page the service served from the first request to the page
  without a continuation token; at most \<open>maxPages\<close> pages were read, and one pagination event
  was recorded per page.
\<close>

theorem pagination_all_or_nothing:
  assumes "Paginator_Read ctx_err api pg (Some req) (w, evs) = ((w', evs'), Inr rs)"
  shows "\<exists>outs. page_chain api req w outs w' \<and> rs = concat (map out_ResultsByTime outs) \<and>
    evs' = evs @ replicate (length outs) (ObservePaginationPage (pg_target pg) ''GetCostAndUsage'') \<and>
    1 \<le> length outs \<and> int (length outs) \<le> pg_maxPages pg"
proof -
  obtain seen where "read_pages ctx_err api pg (nat (pg_maxPages pg)) req seen [] (w, evs) = ((w', evs'), Inr rs)"
    using assms by (auto simp: Paginator_Read_def Let_def)
  from read_pages_chain [OF this] obtain outs where c: "page_chain api req w outs w'"
    and r: "rs = concat (map out_ResultsByTime outs)"
    "evs' = evs @ replicate (length outs) (ObservePaginationPage (pg_target pg) ''GetCostAndUsage'')"
    and l: "length outs \<le> nat (pg_maxPages pg)" by auto
  have "1 \<le> length outs" using page_chain_nonempty [OF c] by (cases outs) simp_all
  moreover from this have "int (length outs) \<le> pg_maxPages pg" using l by linarith
  ultimately show ?thesis using c r by blast
qed

text \<open>
  C18. The paginator reads every page: if the service serves a chain of at most \<open>maxPages\<close> pages
  whose continuation tokens never repeat (nor repeat the token of the first request) and the
  context stays live, the read succeeds with all their results.
\<close>

theorem pagination_reads_every_page:
  assumes "page_chain api req w outs w'" and "\<And>w. ctx_err w = None" and "int (length outs) \<le> pg_maxPages pg"
    and "distinct (page_tokens outs)" and "ToString (in_NextPageToken req) \<notin> set (page_tokens outs)"
  shows "Paginator_Read ctx_err api pg (Some req) (w, evs) =
    ((w', evs @ replicate (length outs) (ObservePaginationPage (pg_target pg) ''GetCostAndUsage'')),
     Inr (concat (map out_ResultsByTime outs)))"
  using page_chain_read [OF assms(1,2) _ assms(4), of "nat (pg_maxPages pg)"] assms(3,5)
  by (simp add: Paginator_Read_def Let_def)

text \<open>A service with two pages, and the request a total query makes.\<close>

definition demo_day :: ResultByTime where
  "demo_day = \<lparr> rb_TimePeriod = Some \<lparr> di_Start = Some ''2024-05-01'', di_End = Some ''2024-05-02'' \<rparr>,
    rb_Total = [(''UnblendedCost'', \<lparr> mv_Amount = Some ''12.5'', mv_Unit = Some ''USD'' \<rparr>)], rb_Groups = [] \<rparr>"

definition demo_page :: "string option \<Rightarrow> UsageOutput" where
  "demo_page token = \<lparr> out_ResultsByTime = [demo_day], out_NextPageToken = token \<rparr>"

definition demo_api :: "UsageInput \<Rightarrow> (nat, UsageOutput option) action" where
  "demo_api req w =
     (Suc w, Inr (Some (demo_page (if in_NextPageToken req = None then Some ''next'' else None))))"

definition demo_request :: UsageInput where
  "demo_request = \<lparr> in_TimePeriod = \<lparr> di_Start = Some ''2024-05-01'', di_End = Some ''2024-05-03'' \<rparr>,
    in_Granularity = ''DAILY'', in_Metrics = [''UnblendedCost''], in_Filter = None, in_GroupBy = [],
    in_NextPageToken = None \<rparr>"

definition demo_paginator :: UsagePaginator where
  "demo_paginator = \<lparr> pg_maxPages = 5, pg_target = ''payer'' \<rparr>"

lemmas demo_defs = demo_page_def demo_api_def demo_request_def demo_paginator_def

lemma demo_chain: "page_chain demo_api demo_request 0 [demo_page (Some ''next''), demo_page None] 2"
proof (rule next_page)
  show "demo_api demo_request 0 = (1, Inr (Some (demo_page (Some ''next''))))" by (simp add: demo_defs)
  show "page_chain demo_api (demo_request\<lparr> in_NextPageToken := Some ''next'' \<rparr>) 1 [demo_page None] 2"
    by (rule last_page) (simp_all add: demo_defs ToString_def numeral_2_eq_2)
qed (simp_all add: demo_defs ToString_def)

theorem pagination_reads_every_page_witness:
  "Paginator_Read (\<lambda>_. None) demo_api demo_paginator (Some demo_request) (0, []) =
    ((2, replicate 2 (ObservePaginationPage ''payer'' ''GetCostAndUsage'')), Inr [demo_day, demo_day])"
  using pagination_reads_every_page [OF demo_chain, of "\<lambda>_. None" demo_paginator "[]"]
  by (simp add: demo_defs page_tokens_def ToString_def numeral_2_eq_2)

theorem pagination_all_or_nothing_witness:
  "\<exists>outs. page_chain demo_api demo_request 0 outs 2 \<and> concat (map out_ResultsByTime outs) = [demo_day, demo_day] \<and>
    length outs = 2"
proof -
  have "Paginator_Read (\<lambda>_. None) demo_api demo_paginator (Some demo_request) (0, []) =
    ((2, replicate 2 (ObservePaginationPage ''payer'' ''GetCostAndUsage'')), Inr [demo_day, demo_day])"
    by code_simp
  from pagination_all_or_nothing [OF this] obtain outs where "page_chain demo_api demo_request 0 outs 2"
    "[demo_day, demo_day] = concat (map out_ResultsByTime outs)"
    "replicate 2 (ObservePaginationPage ''payer'' ''GetCostAndUsage'') =
     [] @ replicate (length outs) (ObservePaginationPage (pg_target demo_paginator) ''GetCostAndUsage'')" by blast
  then show ?thesis by (metis append_Nil length_replicate)
qed

section \<open>Month-to-date totals, collectors over the service, forecasts\<close>

text \<open>
  Month-to-date aggregation: a successful aggregation has exactly one row per combination of
  dimension, currency, provider and basis that occurs in the daily rows, no other row, and the
  amount of a row is the float64 sum, in order, of the daily amounts of its combination; every
  row is labelled with the month-to-date window and the queried period.
\<close>

theorem month_to_date_totals:
  assumes "aggregateMonthToDate cs period = Inr r"
  shows "distinct (map aggregate_key r) \<and> aggregate_key ` set r = aggregate_key ` set cs \<and>
    (\<forall>c \<in> set r. c_Window c = WindowMonthToDate \<and> c_Period c = period \<and>
      amount (c_Amount c) = running_total (aggregate_key c) cs)"
  using aggregate_ok [OF assms] by simp

definition demo_cost :: "string \<Rightarrow> int \<Rightarrow> Cost" where
  "demo_cost svc n = \<lparr> c_Target = '''', c_Provider = ProviderCostExplorer, c_Basis = BasisUnblended,
     c_Window = WindowDaily, c_Period = \<lparr> p_start = 0, p_end = 1 \<rparr>,
     c_Dimension = \<lparr> kind = DimensionService, dvalue = svc \<rparr>,
     c_Amount = \<lparr> amount = F_Fin (of_int n), currency = ''USD'' \<rparr> \<rparr>"

definition demo_month :: Period where
  "demo_month = \<lparr> p_start = 0, p_end = 9 \<rparr>"

definition demo_total :: "string \<Rightarrow> int \<Rightarrow> Cost" where
  "demo_total svc n = (demo_cost svc n)\<lparr> c_Window := WindowMonthToDate, c_Period := demo_month \<rparr>"

theorem month_to_date_totals_witness:
  "aggregateMonthToDate [demo_cost ''S3'' 2, demo_cost ''EC2'' 5, demo_cost ''S3'' 4] demo_month =
     Inr [demo_total ''EC2'' 5, demo_total ''S3'' 6] \<and>
   amount (c_Amount (demo_total ''S3'' 6)) =
     running_total (aggregate_key (demo_total ''S3'' 6)) [demo_cost ''S3'' 2, demo_cost ''EC2'' 5, demo_cost ''S3'' 4]"
proof -
  have "aggregateMonthToDate [demo_cost ''S3'' 2, demo_cost ''EC2'' 5, demo_cost ''S3'' 4] demo_month =
     Inr [demo_total ''EC2'' 5, demo_total ''S3'' 6]" by code_simp
  with month_to_date_totals [OF this] show ?thesis by simp
qed

text \<open>
  C4. Whatever the Cost Explorer service answers, a partial the total, service, region or account
  collector returns is one the store accepts as to ownership and identities, and one whose every
  sample the metrics collector can export: all records belong to the collector's target, carry a
  known provider, basis and window, and have finite amounts with a currency.
\<close>

theorem cost_partials_publishable:
  "(Total_Collect tc ctx (Filtered_ReadCosts (ReadCosts ctx_err api adapter) filters bases) reference s = (s', Inr p)
      \<longrightarrow> publishable (id_Target (total_id tc)) p) \<and>
   (Service_Collect gc ctx (Filtered_ReadCosts (ReadCosts ctx_err api adapter) filters bases) observers reference st = (st', Inr p)
      \<longrightarrow> publishable (id_Target (gc_id gc)) p) \<and>
   (Region_Collect gc ctx (Filtered_ReadCosts (ReadCosts ctx_err api adapter) filters bases) observers reference st = (st', Inr p)
      \<longrightarrow> publishable (id_Target (gc_id gc)) p) \<and>
   (Account_Collect gc ctx (Filtered_ReadCosts (ReadCosts ctx_err api adapter) filters bases) observers reference st = (st', Inr p)
      \<longrightarrow> publishable (id_Target (gc_id gc)) p)"
  unfolding Service_Collect_def Region_Collect_def Account_Collect_def
  by (auto intro: filtered.total_publishable elim: filtered.grouped_publishable)

definition demo_adapter :: UsageAdapter where
  "demo_adapter = \<lparr> ua_paginator = demo_paginator, ua_costMetric = ''UnblendedCost'' \<rparr>"

definition demo_filters :: FiltersConfig where
  "demo_filters = \<lparr> flt_LinkedAccountIDs = [], flt_Services = [], flt_Regions = [] \<rparr>"

definition demo_collector :: TotalCollector where
  "demo_collector = \<lparr> total_id = \<lparr> id_Target = ''payer'', id_Name = ''total'' \<rparr> \<rparr>"

definition demo_run :: "(nat \<times> aws_event list) \<times> (go_error + Snapshot)" where
  "demo_run = Total_Collect demo_collector (\<lambda>_. None)
     (Filtered_ReadCosts (ReadCosts (\<lambda>_. None) demo_api demo_adapter) demo_filters [])
     (Date 2024 5 2) (0, [])"

theorem cost_partials_publishable_witness:
  "\<exists>p. snd demo_run = Inr p \<and> length (costs p) = 3 \<and> publishable ''payer'' p"
proof -
  have ok: "(case snd demo_run of Inl _ \<Rightarrow> False | Inr p \<Rightarrow> length (costs p) = 3)" by code_simp
  then obtain p where p: "snd demo_run = Inr p" "length (costs p) = 3"
    by (auto split: sum.splits)
  then have "Total_Collect demo_collector (\<lambda>_. None)
      (Filtered_ReadCosts (ReadCosts (\<lambda>_. None) demo_api demo_adapter) demo_filters []) (Date 2024 5 2) (0, []) =
      (fst demo_run, Inr p)" by (metis demo_run_def prod.collapse)
  with cost_partials_publishable [of demo_collector "\<lambda>_. None" "\<lambda>_. None" demo_api demo_adapter demo_filters "[]"
      "Date 2024 5 2" "(0, [])" "fst demo_run" p]
  have "publishable (id_Target (total_id demo_collector)) p" by blast
  with p show ?thesis by (auto simp: demo_collector_def)
qed

text \<open>
  A forecast partial is one forecast of the collector's target, over the rest of the month of
  the reference (from the UTC midnight of its day to the first of the next month), with all three
  amounts finite, in one currency, and ordered lower \<open>\<le>\<close> mean \<open>\<le>\<close> upper; it is publishable. The
  period itself is always well formed, so every failure is the reader's.
\<close>

theorem forecast_partial_sound:
  assumes "Forecast_Collect col (Filtered_ReadForecast (ReadForecast api) filters bases) reference w = (w', r)"
  shows "(\<exists>f. r = Inr (New [] [f] [] []) \<and> forecast_ok f \<and> f_Target f = id_Target (fc_id col) \<and>
            p_start (f_Period f) = p_start (DayContaining reference) \<and>
            p_end (f_Period f) = p_end (MonthContaining reference) \<and>
            publishable (id_Target (fc_id col)) (New [] [f] [] [])) \<or>
         (\<exists>err. r = Inl (Wrapped ''collect forecast'' err))"
proof -
  let ?p = "\<lparr> p_start = p_start (DayContaining reference), p_end = p_end (MonthContaining reference) \<rparr>"
  have "p_start (DayContaining reference) < p_end (MonthContaining reference)"
    using Day_in_Month [of reference] by (simp add: DayContaining_eq)
  then have "NewPeriod (p_start (DayContaining reference)) (p_end (MonthContaining reference)) = Inr ?p"
    by (simp add: NewPeriod_def)
  then obtain w1 res where rd: "Filtered_ReadForecast (ReadForecast api) filters bases
        \<lparr> fq_Period = ?p, fq_Basis = [], fq_PredictionInterval = fc_predictionInterval col,
          fq_LinkedAccountIDs = [], fq_Services = [], fq_Regions = [] \<rparr> w = (w1, res)"
    and r: "r = (case res of Inl err \<Rightarrow> Inl (Wrapped ''collect forecast'' err)
                 | Inr v \<Rightarrow> Inr (New [] [v\<lparr> f_Target := id_Target (fc_id col) \<rparr>] [] []))"
    using assms by (auto simp: Forecast_Collect_def Let_def split: prod.splits sum.splits)
  show ?thesis
  proof (cases res)
    case (Inr v)
    have v: "forecast_ok v \<and> f_Period v = ?p"
      using ReadForecast_ok [OF rd [unfolded Filtered_ReadForecast_def Inr]] by simp
    let ?f = "v\<lparr> f_Target := id_Target (fc_id col) \<rparr>"
    have "publishable (id_Target (fc_id col)) (New [] [?f] [] [])"
      using v by (auto simp: publishable_def ValidatePartial_ok belongs_to_def identities_valid_def exportable_def
          forecast_ok_def New_def sort_defs)
    moreover have "forecast_ok ?f" using v by (simp add: forecast_ok_def)
    ultimately show ?thesis using v r Inr by (intro disjI1 exI [of _ ?f]) simp
  qed (use r in simp)
qed

definition demo_forecast :: "ForecastInput \<Rightarrow> (unit, ForecastOutput option) action" where
  "demo_forecast input w = (w, Inr (Some \<lparr> fo_Total = Some \<lparr> mv_Amount = Some ''9'', mv_Unit = Some ''USD'' \<rparr>,
     fo_Results = [\<lparr> fr_TimePeriod = Some (fi_TimePeriod input), fr_MeanValue = Some ''9'',
                     fr_LowerBound = Some ''8.5'', fr_UpperBound = Some ''11'' \<rparr>] \<rparr>))"

definition demo_forecast_run :: "unit \<times> (go_error + Snapshot)" where
  "demo_forecast_run =
     Forecast_Collect \<lparr> fc_id = \<lparr> id_Target = ''payer'', id_Name = ''forecast'' \<rparr>, fc_predictionInterval = 80 \<rparr>
       (Filtered_ReadForecast (ReadForecast demo_forecast) demo_filters []) (Date 2024 2 10) ()"

theorem forecast_partial_sound_witness:
  "\<exists>f. snd demo_forecast_run = Inr (New [] [f] [] []) \<and> forecast_ok f \<and> p_end (f_Period f) = Date 2024 3 1"
proof -
  have ok: "(case snd demo_forecast_run of Inl _ \<Rightarrow> False | Inr _ \<Rightarrow> True)" by code_simp
  have stop: "p_end (MonthContaining (Date 2024 2 10)) = Date 2024 3 1" by code_simp
  have "Forecast_Collect \<lparr> fc_id = \<lparr> id_Target = ''payer'', id_Name = ''forecast'' \<rparr>, fc_predictionInterval = 80 \<rparr>
       (Filtered_ReadForecast (ReadForecast demo_forecast) demo_filters []) (Date 2024 2 10) () =
       (fst demo_forecast_run, snd demo_forecast_run)" unfolding demo_forecast_run_def by (rule prod.collapse [symmetric])
  from forecast_partial_sound [OF this] ok stop show ?thesis by auto
qed

end
