(* ===== verification/Commitment_Reader.thy ===== *)
theory Commitment_Reader
  imports Cost_Explorer
begin

text \<open>
  \<open>internal/aws/costexplorer\<close>, the rest: the instrumented client, the commitment reader and the
  anomaly reader. An SDK operation is an action on a world; \<open>clock\<close> reads the time in a world, so
  that the observed duration of a call is the difference of two readings.
\<close>

section \<open>instrumentation.go\<close>

text \<open>
  A call of the SDK followed by \<open>common.ObserveCall\<close>. The retryer option of the call concerns the SDK
  only. A nil observer is replaced by one that discards, which is the caller ignoring the events.
\<close>

definition observed_call ::
  "('w \<Rightarrow> time) \<Rightarrow> TargetID \<Rightarrow> string \<Rightarrow> ('i \<Rightarrow> ('w, 'o) action) \<Rightarrow> 'i \<Rightarrow> ('w api_state, 'o) action" where
  "observed_call clock target operation api input = (\<lambda>(w, evs).
     (case api input w of
        (w1, r) \<Rightarrow>
          ((w1, evs @ ObserveCall True target operation (clock w) (clock w1)
                  (case r of Inl err \<Rightarrow> Some err | Inr _ \<Rightarrow> None)), r)))"

record InstrumentedClient =
  ic_target :: TargetID

definition NewInstrumented :: "TargetID \<Rightarrow> 'api option \<Rightarrow> go_error + InstrumentedClient" where
  "NewInstrumented target api =
     (if target = '''' \<or> api = None then Inl (Sentinel ''target and cost explorer API must not be empty'')
      else Inr \<lparr> ic_target = target \<rparr>)"

definition Instrumented_GetCostAndUsage ::
  "('w \<Rightarrow> time) \<Rightarrow> InstrumentedClient \<Rightarrow> (UsageInput \<Rightarrow> ('w, UsageOutput option) action) \<Rightarrow>
   UsageInput \<Rightarrow> ('w api_state, UsageOutput option) action" where
  "Instrumented_GetCostAndUsage clock client api = observed_call clock (ic_target client) ''GetCostAndUsage'' api"

definition Instrumented_GetCostForecast ::
  "('w \<Rightarrow> time) \<Rightarrow> InstrumentedClient \<Rightarrow> ('i \<Rightarrow> ('w, 'o) action) \<Rightarrow> 'i \<Rightarrow> ('w api_state, 'o) action" where
  "Instrumented_GetCostForecast clock client api = observed_call clock (ic_target client) ''GetCostForecast'' api"

definition observe_page :: "TargetID \<Rightarrow> string \<Rightarrow> 'w api_state \<Rightarrow> 'w api_state" where
  "observe_page target operation = (\<lambda>(w, evs). (w, evs @ [ObservePaginationPage target operation]))"

section \<open>commitments.go\<close>

text \<open>The fields of the requests and outputs the reader uses.\<close>

record CommitmentInput =
  ci_TimePeriod :: DateInterval
  ci_Granularity :: string
  ci_Metrics :: "string list"
  ci_Token :: "string option"

record SavingsPlansCoverageData =
  cd_SpendCoveredBySavingsPlans :: "string option"
  cd_OnDemandCost :: "string option"
  cd_TotalCost :: "string option"

record SavingsPlansCoverageOutput =
  co_SavingsPlansCoverages :: "SavingsPlansCoverageData option list"
  co_NextToken :: "string option"

record ReservationCoverageOutput =
  rc_CoverageHoursPercentage :: "string option"
  rc_OnDemandCost :: "string option"
  rc_NextPageToken :: "string option"

record SavingsPlansUtilizationOutput =
  su_UtilizationPercentage :: "string option"
  su_NetSavings :: "string option"

record ReservationUtilizationOutput =
  ru_UtilizationPercentage :: "string option"
  ru_UnusedHours :: "string option"
  ru_NetRISavings :: "string option"
  ru_NextPageToken :: "string option"

text \<open>
  The nested pointers \<open>output.Total\<close>, \<open>CoverageHours\<close>, \<open>CoverageCost\<close>, \<open>Savings\<close> only guard the fields above: a
  nil pointer anywhere on the path is \<open>None\<close>. For \<open>GetSavingsPlansUtilization\<close> a nil output, total or
  utilization is an error and is the outer \<open>None\<close>.
\<close>

record 'w CommitmentAPI =
  api_GetSavingsPlansUtilization :: "CommitmentInput \<Rightarrow> ('w, SavingsPlansUtilizationOutput option) action"
  api_GetSavingsPlansCoverage :: "CommitmentInput \<Rightarrow> ('w, SavingsPlansCoverageOutput option) action"
  api_GetReservationUtilization :: "CommitmentInput \<Rightarrow> ('w, ReservationUtilizationOutput option) action"
  api_GetReservationCoverage :: "CommitmentInput \<Rightarrow> ('w, ReservationCoverageOutput option) action"

record CEReader =
  cx_target :: TargetID
  cx_maxPages :: int

definition NewCommitmentReader :: "TargetID \<Rightarrow> 'api option \<Rightarrow> int \<Rightarrow> go_error + CEReader" where
  "NewCommitmentReader target api maxPages =
     (if api = None then Inl (Sentinel ''commitment API must not be nil'')
      else if maxPages \<le> 0 then Inl (Sentinel ''commitment max pages must be positive'')
      else Inr \<lparr> cx_target = target, cx_maxPages = maxPages \<rparr>)"

definition commitmentPeriod :: "time \<Rightarrow> DateInterval" where
  "commitmentPeriod reference =
     \<lparr> di_Start = Some (FormatDateOnly (p_start (MonthContaining reference))),
       di_End = Some (FormatDateOnly (p_end (DayContaining reference))) \<rparr>"

definition parsePercent :: "string \<Rightarrow> go_error + float64" where
  "parsePercent v =
     (case ParseFloat v of
        Inl e \<Rightarrow> Inl (Sentinel (num_error_text e))
      | Inr parsed \<Rightarrow>
          if f64_lt parsed (F_Fin 0) \<or> f64_lt (F_Fin 100) parsed then Inl (Sentinel ''percentage out of range'')
          else Inr (f64_div parsed (F_Fin 100)))"

definition addDecimal :: "float64 \<Rightarrow> string option \<Rightarrow> go_error + float64" where
  "addDecimal total' v =
     (case v of
        None \<Rightarrow> Inr total'
      | Some s \<Rightarrow>
          (case ParseFloat s of
             Inl e \<Rightarrow> Inl (Sentinel (num_error_text e))
           | Inr parsed \<Rightarrow> Inr (f64_add total' parsed)))"

text \<open>The zero summary of a reader call; the has-flags say which fields were reported.\<close>

definition empty_summary :: "TargetID \<Rightarrow> string \<Rightarrow> Commitment" where
  "empty_summary target ctype =
     \<lparr> m_Target = target, m_Type = ctype, m_TimeUnit = ''MONTHLY'', m_UtilizationRatio = F_Fin 0,
       m_CoverageRatio = F_Fin 0, m_UnusedHours = F_Fin 0, m_CoveredSpend = zero_money, m_OnDemandCost = zero_money,
       m_NetSavings = zero_money, m_HasUtilization = False, m_HasCoverage = False, m_HasUnusedHours = False,
       m_HasCoveredSpend = False, m_HasOnDemandCost = False, m_HasNetSavings = False \<rparr>"

definition commitment_input :: "DateInterval \<Rightarrow> string list \<Rightarrow> CommitmentInput" where
  "commitment_input period metrics =
     \<lparr> ci_TimePeriod = period, ci_Granularity = ''MONTHLY'', ci_Metrics = metrics, ci_Token = None \<rparr>"

type_synonym coverage_sums = "float64 \<times> float64 \<times> float64"

definition add_coverage :: "coverage_sums \<Rightarrow> SavingsPlansCoverageData option \<Rightarrow> go_error + coverage_sums" where
  "add_coverage = (\<lambda>(covered, onDemand, total') item.
     (case item of
        None \<Rightarrow> Inr (covered, onDemand, total')
      | Some cov \<Rightarrow>
          (case addDecimal covered (cd_SpendCoveredBySavingsPlans cov) of
             Inl err \<Rightarrow> Inl err
           | Inr covered' \<Rightarrow>
               (case addDecimal onDemand (cd_OnDemandCost cov) of
                  Inl err \<Rightarrow> Inl err
                | Inr onDemand' \<Rightarrow>
                    (case addDecimal total' (cd_TotalCost cov) of
                       Inl err \<Rightarrow> Inl err
                     | Inr total'' \<Rightarrow> Inr (covered', onDemand', total''))))))"

text \<open>The page loop; \<open>remaining\<close> pages may still be read.\<close>

fun savings_coverage_pages ::
  "('w \<Rightarrow> time) \<Rightarrow> 'w CommitmentAPI \<Rightarrow> TargetID \<Rightarrow> nat \<Rightarrow> CommitmentInput \<Rightarrow> coverage_sums \<Rightarrow>
   ('w api_state, coverage_sums) action" where
  "savings_coverage_pages clock api target 0 input acc s = (s, Inr acc)"
| "savings_coverage_pages clock api target (Suc n) input acc s =
     (case observed_call clock target ''GetSavingsPlansCoverage'' (api_GetSavingsPlansCoverage api) input s of
        (s1, Inl err) \<Rightarrow> (s1, Inl (classify_error err))
      | (s1, Inr None) \<Rightarrow> (s1, Inl (Sentinel ''invalid Savings Plans coverage response''))
      | (s1, Inr (Some out)) \<Rightarrow>
          let s2 = observe_page target ''GetSavingsPlansCoverage'' s1
          in case range_err add_coverage acc (co_SavingsPlansCoverages out) of
               Inl err \<Rightarrow> (s2, Inl err)
             | Inr acc' \<Rightarrow>
                 if ToString (co_NextToken out) = '''' then (s2, Inr acc')
                 else if n = 0 then (s2, Inl (Sentinel ''savings plans coverage page limit exceeded''))
                 else savings_coverage_pages clock api target n (input\<lparr> ci_Token := co_NextToken out \<rparr>) acc' s2)"

definition coverage_summary :: "coverage_sums \<Rightarrow> Commitment \<Rightarrow> Commitment" where
  "coverage_summary = (\<lambda>(covered, onDemand, total') result.
     (let result = (if f64_lt (F_Fin 0) total'
                    then result\<lparr> m_CoverageRatio := f64_div covered total', m_HasCoverage := True \<rparr> else result);
          result = (case NewMoney covered ''USD'' of
                      Inl _ \<Rightarrow> result | Inr money \<Rightarrow> result\<lparr> m_CoveredSpend := money, m_HasCoveredSpend := True \<rparr>)
      in case NewMoney onDemand ''USD'' of
           Inl _ \<Rightarrow> result | Inr money \<Rightarrow> result\<lparr> m_OnDemandCost := money, m_HasOnDemandCost := True \<rparr>))"

definition readSavingsCoverage ::
  "('w \<Rightarrow> time) \<Rightarrow> 'w CommitmentAPI \<Rightarrow> CEReader \<Rightarrow> DateInterval \<Rightarrow> Commitment \<Rightarrow> ('w api_state, Commitment) action" where
  "readSavingsCoverage clock api reader period result s =
     (case savings_coverage_pages clock api (cx_target reader) (nat (cx_maxPages reader))
             (commitment_input period [''SpendCoveredBySavingsPlans'']) (F_Fin 0, F_Fin 0, F_Fin 0) s of
        (s1, Inl err) \<Rightarrow> (s1, Inl err)
      | (s1, Inr acc) \<Rightarrow> (s1, Inr (coverage_summary acc result)))"

text \<open>Optional fields of a response: nothing when nil, an error when malformed.\<close>

definition set_percent ::
  "(float64 \<Rightarrow> Commitment \<Rightarrow> Commitment) \<Rightarrow> string option \<Rightarrow> Commitment \<Rightarrow> go_error + Commitment" where
  "set_percent upd v result =
     (case v of None \<Rightarrow> Inr result
      | Some s \<Rightarrow> (case parsePercent s of Inl err \<Rightarrow> Inl err | Inr p \<Rightarrow> Inr (upd p result)))"

definition set_money ::
  "(Money \<Rightarrow> Commitment \<Rightarrow> Commitment) \<Rightarrow> string option \<Rightarrow> Commitment \<Rightarrow> go_error + Commitment" where
  "set_money upd v result =
     (case v of None \<Rightarrow> Inr result
      | Some s \<Rightarrow> (case ParseMoney s ''USD'' of Inl err \<Rightarrow> Inl err | Inr money \<Rightarrow> Inr (upd money result)))"

definition set_hours :: "string option \<Rightarrow> Commitment \<Rightarrow> go_error + Commitment" where
  "set_hours v result =
     (case v of None \<Rightarrow> Inr result
      | Some s \<Rightarrow>
          (case ParseFloat s of
             Inl e \<Rightarrow> Inl (Sentinel (num_error_text e))
           | Inr hours \<Rightarrow> Inr (result\<lparr> m_UnusedHours := hours, m_HasUnusedHours := True \<rparr>)))"

definition set_coverage :: "float64 \<Rightarrow> Commitment \<Rightarrow> Commitment" where
  "set_coverage p result = result\<lparr> m_CoverageRatio := p, m_HasCoverage := True \<rparr>"
definition set_utilization :: "float64 \<Rightarrow> Commitment \<Rightarrow> Commitment" where
  "set_utilization p result = result\<lparr> m_UtilizationRatio := p, m_HasUtilization := True \<rparr>"
definition set_on_demand :: "Money \<Rightarrow> Commitment \<Rightarrow> Commitment" where
  "set_on_demand money result = result\<lparr> m_OnDemandCost := money, m_HasOnDemandCost := True \<rparr>"
definition set_net_savings :: "Money \<Rightarrow> Commitment \<Rightarrow> Commitment" where
  "set_net_savings money result = result\<lparr> m_NetSavings := money, m_HasNetSavings := True \<rparr>"

fun bind_err :: "'e + 'a \<Rightarrow> ('a \<Rightarrow> 'e + 'b) \<Rightarrow> 'e + 'b" where
  "bind_err (Inl e) f = Inl e"
| "bind_err (Inr x) f = f x"

definition reservation_coverage_total :: "ReservationCoverageOutput \<Rightarrow> Commitment \<Rightarrow> go_error + Commitment" where
  "reservation_coverage_total out result =
     bind_err (set_percent set_coverage (rc_CoverageHoursPercentage out) result)
       (set_money set_on_demand (rc_OnDemandCost out))"

definition reservation_utilization_total :: "ReservationUtilizationOutput \<Rightarrow> Commitment \<Rightarrow> go_error + Commitment" where
  "reservation_utilization_total out result =
     bind_err (bind_err (set_percent set_utilization (ru_UtilizationPercentage out) result) (set_hours (ru_UnusedHours out)))
       (set_money set_net_savings (ru_NetRISavings out))"

text \<open>
  The two reservation loops differ in the operation and in what the first page's total sets; \<open>first\<close> says that
  the page is page 0.
\<close>

fun reservation_pages ::
  "('w \<Rightarrow> time) \<Rightarrow> string \<Rightarrow> (CommitmentInput \<Rightarrow> ('w, 'o option) action) \<Rightarrow> ('o \<Rightarrow> Commitment \<Rightarrow> go_error + Commitment) \<Rightarrow>
   ('o \<Rightarrow> string option) \<Rightarrow> string \<Rightarrow> string \<Rightarrow> TargetID \<Rightarrow> nat \<Rightarrow> bool \<Rightarrow> CommitmentInput \<Rightarrow> Commitment \<Rightarrow>
   ('w api_state, Commitment) action" where
  "reservation_pages clock operation call total_of token_of nil_message limit_message target 0 page0 input result s =
     (s, Inl (Sentinel limit_message))"
| "reservation_pages clock operation call total_of token_of nil_message limit_message target (Suc n) page0 input result s =
     (case observed_call clock target operation call input s of
        (s1, Inl err) \<Rightarrow> (s1, Inl (classify_error err))
      | (s1, Inr None) \<Rightarrow> (s1, Inl (Sentinel nil_message))
      | (s1, Inr (Some out)) \<Rightarrow>
          let s2 = observe_page target operation s1
          in case (if page0 then total_of out result else Inr result) of
               Inl err \<Rightarrow> (s2, Inl err)
             | Inr result' \<Rightarrow>
                 if ToString (token_of out) = '''' then (s2, Inr result')
                 else reservation_pages clock operation call total_of token_of nil_message limit_message target n False
                        (input\<lparr> ci_Token := token_of out \<rparr>) result' s2)"

definition readReservationCoverage ::
  "('w \<Rightarrow> time) \<Rightarrow> 'w CommitmentAPI \<Rightarrow> CEReader \<Rightarrow> DateInterval \<Rightarrow> Commitment \<Rightarrow> ('w api_state, Commitment) action" where
  "readReservationCoverage clock api reader period result =
     reservation_pages clock ''GetReservationCoverage'' (api_GetReservationCoverage api) reservation_coverage_total
       rc_NextPageToken ''invalid Reserved Instance coverage response'' ''reserved instance coverage page limit exceeded''
       (cx_target reader) (nat (cx_maxPages reader)) True (commitment_input period [''Hour'', ''Cost'']) result"

definition readReservations ::
  "('w \<Rightarrow> time) \<Rightarrow> 'w CommitmentAPI \<Rightarrow> CEReader \<Rightarrow> DateInterval \<Rightarrow> Commitment \<Rightarrow> ('w api_state, Commitment) action" where
  "readReservations clock api reader period result =
     reservation_pages clock ''GetReservationUtilization'' (api_GetReservationUtilization api) reservation_utilization_total
       ru_NextPageToken ''invalid Reserved Instance utilization response'' ''reserved instance utilization page limit exceeded''
       (cx_target reader) (nat (cx_maxPages reader)) True (commitment_input period []) result"

definition readSavingsPlans ::
  "('w \<Rightarrow> time) \<Rightarrow> 'w CommitmentAPI \<Rightarrow> CEReader \<Rightarrow> DateInterval \<Rightarrow> Commitment \<Rightarrow> ('w api_state, Commitment) action" where
  "readSavingsPlans clock api reader period result s =
     (case observed_call clock (cx_target reader) ''GetSavingsPlansUtilization'' (api_GetSavingsPlansUtilization api)
             (commitment_input period []) s of
        (s1, Inl err) \<Rightarrow> (s1, Inl (classify_error err))
      | (s1, Inr out) \<Rightarrow>
          let s2 = observe_page (cx_target reader) ''GetSavingsPlansUtilization'' s1
          in case out of
               None \<Rightarrow> (s2, Inl (Sentinel ''invalid Savings Plans utilization response''))
             | Some u \<Rightarrow>
                 (s2, bind_err (set_percent set_utilization (su_UtilizationPercentage u) result)
                        (set_money set_net_savings (su_NetSavings u))))"

definition Reader_commitments :: "('w \<Rightarrow> time) \<Rightarrow> 'w CommitmentAPI \<Rightarrow> CEReader \<Rightarrow> 'w api_state CommitmentReader" where
  "Reader_commitments clock api reader =
     \<lparr> ReadSavingsPlansUtilization = (\<lambda>reference. readSavingsPlans clock api reader (commitmentPeriod reference)
         (empty_summary (cx_target reader) TypeSavingsPlan)),
       ReadSavingsPlansCoverage = (\<lambda>reference. readSavingsCoverage clock api reader (commitmentPeriod reference)
         (empty_summary (cx_target reader) TypeSavingsPlan)),
       ReadReservationUtilization = (\<lambda>reference. readReservations clock api reader (commitmentPeriod reference)
         (empty_summary (cx_target reader) TypeReservation)),
       ReadReservationCoverage = (\<lambda>reference. readReservationCoverage clock api reader (commitmentPeriod reference)
         (empty_summary (cx_target reader) TypeReservation)) \<rparr>"

section \<open>anomalies.go\<close>

record AnomalyItem =
  an_AnomalyEndDate :: "string option"
  an_Impact :: "(float64 \<times> float64) option"

text \<open>An impact is its total and its maximum.\<close>

record AnomaliesInput =
  ai_StartDate :: string
  ai_EndDate :: string
  ai_MaxResults :: int
  ai_NextPageToken :: "string option"

record AnomaliesOutput =
  ao_Anomalies :: "AnomalyItem list"
  ao_NextPageToken :: "string option"

definition NewAnomalyReader :: "TargetID \<Rightarrow> 'api option \<Rightarrow> int \<Rightarrow> go_error + CEReader" where
  "NewAnomalyReader target api maxPages =
     (if api = None then Inl (Sentinel ''anomaly API must not be nil'')
      else if maxPages \<le> 0 then Inl (Sentinel ''anomaly max pages must be positive'')
      else Inr \<lparr> cx_target = target, cx_maxPages = maxPages \<rparr>)"

text \<open>\<open>Truncate(24*time.Hour)\<close> rounds down to a multiple of a day since the zero time.\<close>

definition anomalyEndIsActive :: "AnomalyItem \<Rightarrow> time \<Rightarrow> bool" where
  "anomalyEndIsActive item reference =
     (case an_AnomalyEndDate item of
        None \<Rightarrow> True
      | Some s \<Rightarrow>
          (case ParseDateOnly s of
             None \<Rightarrow> True
           | Some date \<Rightarrow> \<not> date < reference - reference mod (24 * Hour)))"

definition add_impact :: "(float64 \<times> float64) option \<Rightarrow> Anomaly \<Rightarrow> go_error + Anomaly" where
  "add_impact impact result =
     (case impact of
        None \<Rightarrow> Inr result
      | Some (totalImpact, maxImpact) \<Rightarrow>
          (case NewMoney totalImpact ''USD'' of
             Inl err \<Rightarrow> Inl err
           | Inr v \<Rightarrow>
               let result =
                     (if \<not> n_HasImpact result then result\<lparr> n_Impact := v, n_HasImpact := True \<rparr>
                      else case Money_Add (n_Impact result) v of
                             Inl _ \<Rightarrow> result | Inr m \<Rightarrow> result\<lparr> n_Impact := m \<rparr>)
               in Inr (case NewMoney maxImpact ''USD'' of
                         Inl _ \<Rightarrow> result
                       | Inr m \<Rightarrow>
                           if \<not> n_HasMaxImpact result \<or> f64_lt (amount (n_MaxImpact result)) (amount m)
                           then result\<lparr> n_MaxImpact := m, n_HasMaxImpact := True \<rparr> else result)))"

definition add_detected :: "string option \<Rightarrow> Anomaly \<Rightarrow> Anomaly" where
  "add_detected v result =
     (case v of
        None \<Rightarrow> result
      | Some s \<Rightarrow>
          (case ParseDateOnly s of
             None \<Rightarrow> result
           | Some instant \<Rightarrow> if n_LastDetected result < instant then result\<lparr> n_LastDetected := instant \<rparr> else result))"

definition add_anomaly :: "time \<Rightarrow> Anomaly \<Rightarrow> AnomalyItem \<Rightarrow> go_error + Anomaly" where
  "add_anomaly reference result item =
     (let result = result\<lparr> n_Count := n_Count result + 1 \<rparr>;
          result = (if anomalyEndIsActive item reference then result\<lparr> n_Active := True \<rparr> else result)
      in case add_impact (an_Impact item) result of
           Inl err \<Rightarrow> Inl err
         | Inr result \<Rightarrow> Inr (add_detected (an_AnomalyEndDate item) result))"

fun anomaly_pages ::
  "('w \<Rightarrow> time) \<Rightarrow> (AnomaliesInput \<Rightarrow> ('w, AnomaliesOutput option) action) \<Rightarrow> TargetID \<Rightarrow> time \<Rightarrow> nat \<Rightarrow>
   AnomaliesInput \<Rightarrow> Anomaly \<Rightarrow> ('w api_state, Anomaly) action" where
  "anomaly_pages clock api target reference 0 input result s = (s, Inr result)"
| "anomaly_pages clock api target reference (Suc n) input result s =
     (case observed_call clock target ''GetAnomalies'' api input s of
        (s1, Inl err) \<Rightarrow> (s1, Inl (classify_error err))
      | (s1, Inr None) \<Rightarrow> (s1, Inl (Sentinel ''invalid anomaly response''))
      | (s1, Inr (Some out)) \<Rightarrow>
          let s2 = observe_page target ''GetAnomalies'' s1
          in case range_err (add_anomaly reference) result (ao_Anomalies out) of
               Inl err \<Rightarrow> (s2, Inl err)
             | Inr result' \<Rightarrow>
                 if ToString (ao_NextPageToken out) = '''' then (s2, Inr result')
                 else if n = 0 then (s2, Inl (Sentinel ''anomaly page limit exceeded''))
                 else anomaly_pages clock api target reference n (input\<lparr> ai_NextPageToken := ao_NextPageToken out \<rparr>) result' s2)"

definition empty_anomaly :: "TargetID \<Rightarrow> Anomaly" where
  "empty_anomaly target =
     \<lparr> n_Target = target, n_Active = False, n_Count = 0, n_Impact = zero_money, n_MaxImpact = zero_money, n_LastDetected = 0,
       n_HasImpact = False, n_HasMaxImpact = False \<rparr>"

definition anomalies_input :: "time \<Rightarrow> AnomaliesInput" where
  "anomalies_input reference =
     \<lparr> ai_StartDate = FormatDateOnly (AddDate reference 0 0 (- 90)), ai_EndDate = FormatDateOnly reference,
       ai_MaxResults = 100, ai_NextPageToken = None \<rparr>"

definition ReadAnomalySummary ::
  "('w \<Rightarrow> time) \<Rightarrow> (AnomaliesInput \<Rightarrow> ('w, AnomaliesOutput option) action) \<Rightarrow> CEReader \<Rightarrow> time \<Rightarrow>
   ('w api_state, Anomaly) action" where
  "ReadAnomalySummary clock api reader reference =
     anomaly_pages clock api (cx_target reader) reference (nat (cx_maxPages reader)) (anomalies_input reference)
       (empty_anomaly (cx_target reader))"

section \<open>Chains of pages\<close>

text \<open>
  The pages a service answers to a request and its continuations: the interface every paginated
  reader relies on. The last page carries no token.
\<close>

inductive call_chain ::
  "('i \<Rightarrow> ('w, 'o option) action) \<Rightarrow> ('o \<Rightarrow> string option) \<Rightarrow> (string option \<Rightarrow> 'i \<Rightarrow> 'i) \<Rightarrow> 'i \<Rightarrow> 'w \<Rightarrow> 'o list \<Rightarrow> 'w \<Rightarrow> bool"
  for api token_of set_token where
  chain_last: "api input w = (w1, Inr (Some out)) \<Longrightarrow> ToString (token_of out) = '''' \<Longrightarrow>
     call_chain api token_of set_token input w [out] w1"
| chain_next: "api input w = (w1, Inr (Some out)) \<Longrightarrow> ToString (token_of out) \<noteq> '''' \<Longrightarrow>
     call_chain api token_of set_token (set_token (token_of out) input) w1 outs w2 \<Longrightarrow>
     call_chain api token_of set_token input w (out # outs) w2"

lemma observed_call_world: "observed_call clock target operation api input (w, evs) = ((w1, evs'), r) \<Longrightarrow> api input w = (w1, r)"
  by (auto simp: observed_call_def split: prod.splits)

lemma fst_observe_page [simp]: "fst (observe_page target operation s) = fst s"
  by (simp add: observe_page_def split: prod.split)

text \<open>What the items of all pages determine.\<close>

definition detected_dates :: "AnomalyItem list \<Rightarrow> time list" where
  "detected_dates items = List.map_filter (\<lambda>i. Option.bind (an_AnomalyEndDate i) ParseDateOnly) items"

definition anomaly_of :: "time \<Rightarrow> Anomaly \<Rightarrow> AnomalyItem list \<Rightarrow> Anomaly \<Rightarrow> bool" where
  "anomaly_of reference a items r \<longleftrightarrow>
     n_Target r = n_Target a \<and> n_Count r = n_Count a + int (length items) \<and>
     (n_Active r \<longleftrightarrow> n_Active a \<or> (\<exists>i \<in> set items. anomalyEndIsActive i reference)) \<and>
     n_LastDetected r = foldl max (n_LastDetected a) (detected_dates items) \<and>
     (n_HasImpact r \<longleftrightarrow> n_HasImpact a \<or> (\<exists>i \<in> set items. an_Impact i \<noteq> None))"

lemma add_impact_fields:
  assumes "add_impact impact a = Inr r"
  shows "n_Target r = n_Target a" "n_Count r = n_Count a" "n_Active r = n_Active a" "n_LastDetected r = n_LastDetected a"
    and "n_HasImpact r \<longleftrightarrow> n_HasImpact a \<or> impact \<noteq> None"
  using assms by (auto simp: add_impact_def Let_def split: option.splits prod.splits sum.splits if_splits)

lemma add_anomaly_of:
  assumes "add_anomaly reference a item = Inr r"
  shows "anomaly_of reference a [item] r"
proof -
  let ?a = "a\<lparr> n_Count := n_Count a + 1 \<rparr>"
  let ?b = "if anomalyEndIsActive item reference then ?a\<lparr> n_Active := True \<rparr> else ?a"
  obtain b where b: "add_impact (an_Impact item) ?b = Inr b" and r: "r = add_detected (an_AnomalyEndDate item) b"
    using assms by (auto simp: add_anomaly_def Let_def split: sum.splits)
  show ?thesis
    using add_impact_fields [OF b] unfolding r
    by (auto simp: anomaly_of_def add_detected_def detected_dates_def List.map_filter_def max_def split: option.splits)
qed

lemma anomaly_of_trans: "anomaly_of reference a xs b \<Longrightarrow> anomaly_of reference b ys c \<Longrightarrow> anomaly_of reference a (xs @ ys) c"
  by (auto simp: anomaly_of_def detected_dates_def List.map_filter_def)

lemma add_anomalies_of: "range_err (add_anomaly reference) a items = Inr r \<Longrightarrow> anomaly_of reference a items r"
proof (induction items arbitrary: a)
  case (Cons item items)
  then obtain b where "add_anomaly reference a item = Inr b" "range_err (add_anomaly reference) b items = Inr r"
    by (auto split: sum.splits)
  then show ?case using Cons.IH anomaly_of_trans [OF add_anomaly_of, of reference a item b items r] by simp
qed (simp add: anomaly_of_def detected_dates_def List.map_filter_def)

lemma anomaly_pages_chain:
  assumes "anomaly_pages clock api target reference n input a s = (s', Inr r)" and "0 < n"
  shows "\<exists>outs. call_chain api ao_NextPageToken (\<lambda>t i. i\<lparr> ai_NextPageToken := t \<rparr>) input (fst s) outs (fst s') \<and>
    length outs \<le> n \<and> anomaly_of reference a (concat (map ao_Anomalies outs)) r"
  using assms
proof (induction n arbitrary: input a s)
  case (Suc n)
  obtain s1 out where call: "observed_call clock target ''GetAnomalies'' api input s = (s1, Inr (Some out))"
    using Suc.prems(1) by (auto split: prod.splits sum.splits option.splits)
  have api: "api input (fst s) = (fst s1, Inr (Some out))"
    using observed_call_world [of clock target "''GetAnomalies''" api input "fst s" "snd s"] call by (metis prod.collapse)
  obtain b where b: "range_err (add_anomaly reference) a (ao_Anomalies out) = Inr b"
    using Suc.prems(1) call by (auto simp: Let_def split: sum.splits)
  note step = add_anomalies_of [OF b]
  show ?case
  proof (cases "ToString (ao_NextPageToken out) = ''''")
    case True
    then have "r = b" "s' = observe_page target ''GetAnomalies'' s1" using Suc.prems(1) call b by (auto simp: Let_def)
    then show ?thesis
      using step chain_last [where api = api and token_of = ao_NextPageToken, OF api True] by (intro exI [of _ "[out]"]) simp
  next
    case False
    then have n: "0 < n" and rest: "anomaly_pages clock api target reference n (input\<lparr> ai_NextPageToken := ao_NextPageToken out \<rparr>)
        b (observe_page target ''GetAnomalies'' s1) = (s', Inr r)"
      using Suc.prems(1) call b by (auto simp: Let_def split: if_splits)
    obtain outs where "call_chain api ao_NextPageToken (\<lambda>t i. i\<lparr> ai_NextPageToken := t \<rparr>)
        (input\<lparr> ai_NextPageToken := ao_NextPageToken out \<rparr>) (fst s1) outs (fst s')"
      "length outs \<le> n" "anomaly_of reference b (concat (map ao_Anomalies outs)) r"
      using Suc.IH [OF rest n] by auto
    then show ?thesis
      using chain_next [where api = api and token_of = ao_NextPageToken and set_token = "\<lambda>t i. i\<lparr> ai_NextPageToken := t \<rparr>", OF api False] anomaly_of_trans [OF step]
      by (intro exI [of _ "out # outs"]) auto
  qed
qed simp

section \<open>Commitment summaries\<close>

definition ratio_ok :: "float64 \<Rightarrow> bool" where
  "ratio_ok x \<longleftrightarrow> IsNaN x \<or> (\<exists>q. x = F_Fin q \<and> 0 \<le> q \<and> q \<le> 1)"

text \<open>
  What every read keeps: the identity of the summary, and that the utilization it reports, and the coverage of reservations, are
  ratios of at most one or NaN.
\<close>

definition summary_ok :: "TargetID \<Rightarrow> string \<Rightarrow> Commitment \<Rightarrow> bool" where
  "summary_ok target ctype r \<longleftrightarrow>
     m_Target r = target \<and> m_Type r = ctype \<and> m_TimeUnit r = ''MONTHLY'' \<and> ratio_ok (m_UtilizationRatio r) \<and>
     (ctype = TypeReservation \<longrightarrow> ratio_ok (m_CoverageRatio r))"

lemma empty_summary_ok: "summary_ok target ctype (empty_summary target ctype)"
  by (simp add: summary_ok_def empty_summary_def ratio_ok_def)

lemma parsePercent_ratio: "parsePercent v = Inr p \<Longrightarrow> ratio_ok p"
proof -
  assume "parsePercent v = Inr p"
  then obtain x where x: "p = f64_div x (F_Fin 100)" "\<not> f64_lt x (F_Fin 0)" "\<not> f64_lt (F_Fin 100) x"
    by (auto simp: parsePercent_def split: sum.splits if_splits)
  show "ratio_ok p"
  proof (cases x)
    case (F_Fin q)
    with x have "0 \<le> q / 100" "q / 100 \<le> 1" by auto
    then have "\<exists>r. f64_of_rat (q / 100) = F_Fin r \<and> 0 \<le> r \<and> r \<le> 1"
      using representable_int [of 0] representable_int [of 1] by (intro f64_of_rat_between) auto
    then show ?thesis using x(1) F_Fin by (auto simp: ratio_ok_def)
  qed (use x in \<open>auto simp: ratio_ok_def\<close>)
qed

lemma set_fields_ok:
  "set_percent set_utilization v r = Inr r' \<Longrightarrow> summary_ok t c r \<Longrightarrow> summary_ok t c r'"
  "set_percent set_coverage v r = Inr r' \<Longrightarrow> summary_ok t c r \<Longrightarrow> summary_ok t c r'"
  "set_money set_on_demand v r = Inr r' \<Longrightarrow> summary_ok t c r \<Longrightarrow> summary_ok t c r'"
  "set_money set_net_savings v r = Inr r' \<Longrightarrow> summary_ok t c r \<Longrightarrow> summary_ok t c r'"
  "set_hours v r = Inr r' \<Longrightarrow> summary_ok t c r \<Longrightarrow> summary_ok t c r'"
  by (auto simp: set_percent_def set_money_def set_hours_def set_utilization_def set_coverage_def set_on_demand_def
      set_net_savings_def summary_ok_def parsePercent_ratio split: option.splits sum.splits)

lemma bind_err_ok: "bind_err x f = Inr r \<Longrightarrow> (\<And>y. x = Inr y \<Longrightarrow> f y = Inr r \<Longrightarrow> P) \<Longrightarrow> P"
  by (cases x) auto

lemma totals_ok:
  "reservation_coverage_total out r = Inr r' \<Longrightarrow> summary_ok t c r \<Longrightarrow> summary_ok t c r'"
  "reservation_utilization_total out' r = Inr r' \<Longrightarrow> summary_ok t c r \<Longrightarrow> summary_ok t c r'"
  by (auto simp: reservation_coverage_total_def reservation_utilization_total_def elim!: bind_err_ok dest!: set_fields_ok)

lemma reservation_pages_keeps:
  assumes "reservation_pages clock operation call total_of token_of m1 m2 target n page0 input r s = (s', Inr r')"
    and "\<And>out x y. total_of out x = Inr y \<Longrightarrow> P x \<Longrightarrow> P y" and "P r"
  shows "P r'"
  using assms(1,3)
proof (induction n arbitrary: page0 input r s)
  case (Suc n)
  obtain s1 out where call: "observed_call clock target operation call input s = (s1, Inr (Some out))"
    using Suc.prems(1) by (auto split: prod.splits sum.splits option.splits)
  obtain b where b: "(if page0 then total_of out r else Inr r) = Inr b"
    using Suc.prems(1) call by (auto simp: Let_def split: sum.splits)
  have "P b" using b assms(2) Suc.prems(2) by (auto split: if_splits)
  then show ?case using Suc.prems(1) call b Suc.IH by (auto simp: Let_def split: if_splits)
qed simp

lemma reads_ok:
  fixes clock api assumes "reader = \<lparr> cx_target = target, cx_maxPages = n \<rparr>"
  defines "r \<equiv> Reader_commitments clock api reader"
  shows "ReadSavingsPlansUtilization r reference s = (s', Inr m) \<Longrightarrow> summary_ok target TypeSavingsPlan m"
    and "ReadSavingsPlansCoverage r reference s = (s', Inr m) \<Longrightarrow> summary_ok target TypeSavingsPlan m"
    and "ReadReservationUtilization r reference s = (s', Inr m) \<Longrightarrow> summary_ok target TypeReservation m"
    and "ReadReservationCoverage r reference s = (s', Inr m) \<Longrightarrow> summary_ok target TypeReservation m"
proof -
  have t: "cx_target reader = target" by (simp add: assms(1))
  show "ReadSavingsPlansUtilization r reference s = (s', Inr m) \<Longrightarrow> summary_ok target TypeSavingsPlan m"
    using empty_summary_ok [of target TypeSavingsPlan]
    by (auto simp: r_def Reader_commitments_def readSavingsPlans_def Let_def t elim!: bind_err_ok
        intro: set_fields_ok split: prod.splits sum.splits option.splits)
  show "ReadSavingsPlansCoverage r reference s = (s', Inr m) \<Longrightarrow> summary_ok target TypeSavingsPlan m"
    using empty_summary_ok [of target TypeSavingsPlan]
    by (auto simp: r_def Reader_commitments_def readSavingsCoverage_def coverage_summary_def Let_def t summary_ok_def
        TypeSavingsPlan_def TypeReservation_def split: prod.splits sum.splits if_splits)
  show "ReadReservationUtilization r reference s = (s', Inr m) \<Longrightarrow> summary_ok target TypeReservation m"
    by (rule reservation_pages_keeps [where P = "summary_ok target TypeReservation", OF _ totals_ok(2) empty_summary_ok])
      (simp_all add: r_def Reader_commitments_def readReservations_def t)
  show "ReadReservationCoverage r reference s = (s', Inr m) \<Longrightarrow> summary_ok target TypeReservation m"
    by (rule reservation_pages_keeps [where P = "summary_ok target TypeReservation", OF _ totals_ok(1) empty_summary_ok])
      (simp_all add: r_def Reader_commitments_def readReservationCoverage_def t)
qed

lemma merge_ok:
  assumes "summary_ok target ctype u" and "summary_ok target ctype c"
  shows "\<exists>m. mergeSummaries target ctype u c = Inr m \<and> summary_ok target ctype m"
  using assms by (auto simp: mergeSummaries_def summary_ok_def)

lemma commitment_six: "count_commitment 0 m \<le> 6"
  by (simp add: count_commitment_def)

lemma pair_series: "SeriesCount (NewWithData [] [] [] [] [sp, ri] [] []) \<le> 12"
  using commitment_six [of sp] commitment_six [of ri] by (auto simp: SeriesCount_eq NewWithData_def sort_defs)


text \<open>
  The anomaly collector over the Cost Explorer reader is all or nothing: a collected partial holds one summary of the
  target made from all items of an unbroken chain of pages, at most the page limit of them. It counts
  every item once, is active exactly when some item has no end date, an unreadable one, or one not
  before the reference day, and shows the latest readable end date.
\<close>

theorem anomaly_collection_exact:
  assumes "NewAnomalyReader target (Some api) maxPages = Inr reader" and "Anomalies_New target (Some ()) limit = Inr col"
    and "Anomalies_Collect col (ReadAnomalySummary clock api reader) reference s = (s', Inr p)"
  shows "\<exists>outs r. call_chain api ao_NextPageToken (\<lambda>t i. i\<lparr> ai_NextPageToken := t \<rparr>) (anomalies_input reference) (fst s) outs (fst s') \<and>
    int (length outs) \<le> maxPages \<and> anomalies p = [r] \<and> n_Target r = target \<and>
    n_Count r = int (length (concat (map ao_Anomalies outs))) \<and>
    (n_Active r \<longleftrightarrow> (\<exists>i \<in> set (concat (map ao_Anomalies outs)). anomalyEndIsActive i reference)) \<and>
    n_LastDetected r = foldl max 0 (detected_dates (concat (map ao_Anomalies outs))) \<and>
    ValidatePartial p target = Inr ()"
proof -
  have r: "cx_target reader = target" "cx_maxPages reader = maxPages" "0 < maxPages"
    using assms(1) by (auto simp: NewAnomalyReader_def split: if_splits)
  obtain a where a: "ReadAnomalySummary clock api reader reference s = (s', Inr a)" and p: "p = NewWithData [] [] [] [] [] [a] []"
    using assms(3) by (auto simp: Anomalies_Collect_def Let_def split: prod.splits sum.splits if_splits)
  obtain outs where outs: "call_chain api ao_NextPageToken (\<lambda>t i. i\<lparr> ai_NextPageToken := t \<rparr>) (anomalies_input reference) (fst s) outs (fst s')"
    "length outs \<le> nat maxPages" "anomaly_of reference (empty_anomaly target) (concat (map ao_Anomalies outs)) a"
    using anomaly_pages_chain [OF a [unfolded ReadAnomalySummary_def]] r by auto
  have "anomalies p = [a]" by (simp add: p NewWithData_def Anomaly_Sort_def)
  moreover have "ValidatePartial p target = Inr ()"
    using outs(3) by (auto simp: ValidatePartial_ok belongs_to_def identities_valid_def p NewWithData_def sort_defs anomaly_of_def empty_anomaly_def)
  ultimately show ?thesis using outs r(3) by (intro exI [of _ outs] exI [of _ a]) (auto simp: anomaly_of_def empty_anomaly_def)
qed

text \<open>A percentage that is not a number passes the range check and becomes the ratio.\<close>

lemma parsePercent_accepts_NaN: "parsePercent ''NaN'' = Inr F_NaN"
  by code_simp

section \<open>Witnesses\<close>

definition sample_commitment_api :: "unit CommitmentAPI" where
  "sample_commitment_api =
     \<lparr> api_GetSavingsPlansUtilization = (\<lambda>_ w. (w, Inr (Some \<lparr> su_UtilizationPercentage = Some ''50'', su_NetSavings = Some ''3'' \<rparr>))),
       api_GetSavingsPlansCoverage = (\<lambda>_ w. (w, Inr (Some \<lparr> co_SavingsPlansCoverages = [None, Some \<lparr>
         cd_SpendCoveredBySavingsPlans = Some ''2'', cd_OnDemandCost = Some ''2'', cd_TotalCost = Some ''4'' \<rparr>], co_NextToken = None \<rparr>))),
       api_GetReservationUtilization = (\<lambda>_ w. (w, Inr (Some \<lparr> ru_UtilizationPercentage = Some ''100'', ru_UnusedHours = Some ''0'',
         ru_NetRISavings = None, ru_NextPageToken = None \<rparr>))),
       api_GetReservationCoverage = (\<lambda>_ w. (w, Inr (Some \<lparr> rc_CoverageHoursPercentage = Some ''0'', rc_OnDemandCost = Some ''1'',
         rc_NextPageToken = None \<rparr>))) \<rparr>"

definition sample_ce_reader :: CEReader where
  "sample_ce_reader = \<lparr> cx_target = ''a'', cx_maxPages = 2 \<rparr>"

definition read_ok :: "'s \<times> (go_error + 'a) \<Rightarrow> bool" where
  "read_ok r = (case snd r of Inl _ \<Rightarrow> False | Inr _ \<Rightarrow> True)"

lemma read_okE: "read_ok r \<Longrightarrow> (\<And>s x. r = (s, Inr x) \<Longrightarrow> P) \<Longrightarrow> P"
  by (cases r) (auto simp: read_ok_def split: sum.splits)


definition sample_anomalies :: "AnomaliesInput \<Rightarrow> (unit, AnomaliesOutput option) action" where
  "sample_anomalies input w =
     (w, Inr (Some (if ai_NextPageToken input = None
        then \<lparr> ao_Anomalies = [\<lparr> an_AnomalyEndDate = Some ''2024-01-02'', an_Impact = Some (F_Fin 4, F_Fin 3) \<rparr>], ao_NextPageToken = Some ''t'' \<rparr>
        else \<lparr> ao_Anomalies = [\<lparr> an_AnomalyEndDate = None, an_Impact = None \<rparr>], ao_NextPageToken = None \<rparr>)))"

theorem anomaly_collection_exact_witness:
  "\<exists>p r s'. Anomalies_Collect \<lparr> sc_target = ''a'', sc_seriesLimit = 10 \<rparr>
      (ReadAnomalySummary (\<lambda>_. 0) sample_anomalies sample_ce_reader) 0 ((), []) = (s', Inr p) \<and>
    anomalies p = [r] \<and> n_Target r = ''a'' \<and> ValidatePartial p ''a'' = Inr ()"
proof -
  have "read_ok (Anomalies_Collect \<lparr> sc_target = ''a'', sc_seriesLimit = 10 \<rparr>
      (ReadAnomalySummary (\<lambda>_. 0) sample_anomalies sample_ce_reader) 0 ((), []))" by code_simp
  then obtain s' p where run: "Anomalies_Collect \<lparr> sc_target = ''a'', sc_seriesLimit = 10 \<rparr>
      (ReadAnomalySummary (\<lambda>_. 0) sample_anomalies sample_ce_reader) 0 ((), []) = (s', Inr p)" by (rule read_okE)
  have "NewAnomalyReader ''a'' (Some sample_anomalies) 2 = Inr sample_ce_reader"
    "Anomalies_New ''a'' (Some ()) 10 = Inr \<lparr> sc_target = ''a'', sc_seriesLimit = 10 \<rparr>"
    by (simp_all add: NewAnomalyReader_def Anomalies_New_def sample_ce_reader_def)
  from anomaly_collection_exact [OF this run] run show ?thesis by blast
qed

end
