(* ===== verification/Memory_Store.thy ===== *)
theory Memory_Store
  imports Aggregate_Snapshot
begin

text \<open>
  Package \<open>internal/cache/memory\<close> and the store types of \<open>internal/ports\<close>: the copy-on-write
  cache that keeps one partial snapshot per collector and the merged snapshot readers see.
  A Go map is an association list with distinct keys; ranging over it follows the list, and
  theory \<open>Aggregate_Snapshot\<close> shows what another order can change. The write lock serialises
  \<open>Publish\<close> and \<open>RecordFailure\<close>, so each is one step here; theory \<open>Store_Concurrency\<close> justifies it.
  The clock reading is an argument.
\<close>

section \<open>ports/snapshot_store.go\<close>

definition FreshnessMissing :: string where "FreshnessMissing = ''missing''"
definition FreshnessFresh :: string where "FreshnessFresh = ''fresh''"
definition FreshnessAging :: string where "FreshnessAging = ''aging''"
definition FreshnessStale :: string where "FreshnessStale = ''stale''"

lemmas freshness_names = FreshnessMissing_def FreshnessFresh_def FreshnessAging_def FreshnessStale_def

record CollectorStatus =
  LastAttempt :: "time"
  LastSuccess :: "time"
  Up :: bool
  Freshness :: string
  Series :: int

record SnapshotView =
  v_Snapshot :: Snapshot
  v_Collectors :: "(CollectorID, CollectorStatus) gomap"

text \<open>What indexing a map with an absent key yields.\<close>

definition zero_status :: CollectorStatus where
  "zero_status = \<lparr> LastAttempt = 0, LastSuccess = 0, Up = False, Freshness = '''', Series = 0 \<rparr>"

definition status_of :: "(CollectorID, CollectorStatus) gomap \<Rightarrow> CollectorID \<Rightarrow> CollectorStatus" where
  "status_of m cid = (case map_of m cid of None \<Rightarrow> zero_status | Some s \<Rightarrow> s)"

section \<open>Configuration and state\<close>

definition ErrInvalidConfig :: go_error where
  "ErrInvalidConfig = Sentinel ''invalid memory cache configuration''"
definition ErrInvalidCollector :: go_error where
  "ErrInvalidCollector = Sentinel ''collector identity must be valid''"
definition ErrSeriesLimit :: go_error where
  "ErrSeriesLimit = Sentinel ''organization metadata series limit exceeded''"

record OrganizationPolicy =
  AccountIDs :: "string list"
  SeriesLimit :: int

record state =
  snapshot :: Snapshot
  parts :: "(CollectorID, Snapshot) gomap"
  statuses :: "(CollectorID, CollectorStatus) gomap"

record Store =
  freshnessTTL :: duration
  staleAfter :: duration
  organizationPolicies :: "(TargetID, OrganizationPolicy) gomap"
  current :: state

type_synonym store_option = "Store \<Rightarrow> go_error + Store"

definition install_policy :: "Store \<Rightarrow> TargetID \<times> OrganizationPolicy \<Rightarrow> go_error + Store" where
  "install_policy store = (\<lambda>(target, policy).
     if target = '''' \<or> SeriesLimit policy \<le> 0 then Inl ErrInvalidConfig
     else Inr (store\<lparr> organizationPolicies := AList.update target policy (organizationPolicies store) \<rparr>))"

definition WithOrganizationPolicies :: "(TargetID, OrganizationPolicy) gomap \<Rightarrow> store_option" where
  "WithOrganizationPolicies values store =
     range_err install_policy (store\<lparr> organizationPolicies := [] \<rparr>) values"

definition empty_state :: state where
  "empty_state = \<lparr> snapshot = empty_snapshot, parts = [], statuses = [] \<rparr>"

text \<open>The clock is \<open>None\<close> for a nil interface, an option is \<open>None\<close> for a nil function.\<close>

definition apply_option :: "Store \<Rightarrow> store_option option \<Rightarrow> go_error + Store" where
  "apply_option store opt =
     (case opt of
        None \<Rightarrow> Inl ErrInvalidConfig
      | Some f \<Rightarrow> (case f store of Inl e \<Rightarrow> Inl ErrInvalidConfig | Inr s \<Rightarrow> Inr s))"

definition NewStore ::
  "'clock option \<Rightarrow> duration \<Rightarrow> duration \<Rightarrow> store_option option list \<Rightarrow> go_error + Store" where
  "NewStore clock fresh stale options =
     (if clock = None \<or> fresh \<le> 0 \<or> stale < fresh then Inl ErrInvalidConfig
      else range_err apply_option
             \<lparr> freshnessTTL = fresh, staleAfter = stale, organizationPolicies = [], current = empty_state \<rparr>
             options)"

section \<open>Merging the parts\<close>

definition accountID :: "string \<Rightarrow> bool" where
  "accountID v \<longleftrightarrow> length v = 12 \<and> list_all is_digit v"

text \<open>The linked accounts seen in the account costs of each target; an inner map is a list used as a set.\<close>

type_synonym account_sets = "(TargetID, string list) gomap"

definition account_set :: "account_sets \<Rightarrow> TargetID \<Rightarrow> string list" where
  "account_set m t = (case map_of m t of None \<Rightarrow> [] | Some xs \<Rightarrow> xs)"

definition observe_account :: "account_sets \<Rightarrow> Cost \<Rightarrow> account_sets" where
  "observe_account obs c =
     (if kind (c_Dimension c) \<noteq> DimensionAccount \<or> \<not> accountID (dvalue (c_Dimension c)) then obs
      else AList.update (c_Target c) (List.insert (dvalue (c_Dimension c)) (account_set obs (c_Target c))) obs)"

definition allowed_accounts :: "(TargetID, OrganizationPolicy) gomap \<Rightarrow> account_sets \<Rightarrow> account_sets" where
  "allowed_accounts policies obs =
     map (\<lambda>(target, policy).
            (target, if AccountIDs policy = [] then account_set obs target else AccountIDs policy)) policies"

definition count_of :: "(TargetID, int) gomap \<Rightarrow> TargetID \<Rightarrow> int" where
  "count_of m t = (case map_of m t of None \<Rightarrow> 0 | Some n \<Rightarrow> n)"

definition select_account ::
  "account_sets \<Rightarrow> (TargetID, int) gomap \<times> Account list \<Rightarrow> Account \<Rightarrow> (TargetID, int) gomap \<times> Account list" where
  "select_account allowed = (\<lambda>(counts, selected) a.
     (case map_of allowed (a_Target a) of
        None \<Rightarrow> (counts, selected)
      | Some ids \<Rightarrow>
          if a_AccountID a \<notin> set ids then (counts, selected)
          else (AList.update (a_Target a) (count_of counts (a_Target a) + 1) counts, selected @ [a])))"

definition policy_limit :: "(TargetID, OrganizationPolicy) gomap \<Rightarrow> TargetID \<Rightarrow> int" where
  "policy_limit policies t = (case map_of policies t of None \<Rightarrow> 0 | Some p \<Rightarrow> SeriesLimit p)"

definition mergeParts :: "Store \<Rightarrow> (CollectorID, Snapshot) gomap \<Rightarrow> go_error + Snapshot" where
  "mergeParts store ps =
     (let merged = Merge (map snd ps)
      in case ValidateUnique merged of
           Inl err \<Rightarrow> Inl err
         | Inr _ \<Rightarrow>
             if organizationPolicies store = [] then Inr merged
             else let observed = foldl observe_account [] (costs merged);
                      allowed = allowed_accounts (organizationPolicies store) observed;
                      (counts, selected) = foldl (select_account allowed) ([], []) (accounts merged)
                  in if list_ex (\<lambda>(t, n). n > policy_limit (organizationPolicies store) t) counts
                     then Inl ErrSeriesLimit
                     else let result = NewWithData (costs merged) (forecasts merged) (budgets merged) selected
                                         (commitments merged) (anomalies merged) (tagCosts merged)
                          in case ValidateUnique result of Inl err \<Rightarrow> Inl err | Inr _ \<Rightarrow> Inr result)"

definition publishedSeries :: "TargetID \<Rightarrow> Snapshot \<Rightarrow> Snapshot \<Rightarrow> int" where
  "publishedSeries target partial merged =
     (let series = int (SeriesCount partial); raw = int (length (accounts partial))
      in if raw = 0 then series
         else series - raw + foldl (\<lambda>n a. if a_Target a = target then n + 1 else n) 0 (accounts merged))"

section \<open>Operations\<close>

definition refresh_series ::
  "Snapshot \<Rightarrow> (CollectorID, CollectorStatus) gomap \<Rightarrow> CollectorID \<times> Snapshot \<Rightarrow> (CollectorID, CollectorStatus) gomap" where
  "refresh_series merged sts = (\<lambda>(cid, part).
     AList.update cid ((status_of sts cid)\<lparr> Series := publishedSeries (id_Target cid) part merged \<rparr>) sts)"

definition Publish :: "time \<Rightarrow> CollectorID \<Rightarrow> Snapshot \<Rightarrow> Store \<Rightarrow> Store \<times> go_error option" where
  "Publish now cid partial store =
     (if \<not> CollectorID_Valid cid then (store, Some ErrInvalidCollector)
      else case ValidatePartial partial (id_Target cid) of
             Inl err \<Rightarrow> (store, Some err)
           | Inr _ \<Rightarrow>
               let ps = AList.update cid partial (parts (current store))
               in case mergeParts store ps of
                    Inl err \<Rightarrow> (store, Some err)
                  | Inr merged \<Rightarrow>
                      let sts = AList.update cid
                            \<lparr> LastAttempt = now, LastSuccess = now, Up = True, Freshness = '''', Series = 0 \<rparr>
                            (statuses (current store));
                          sts = foldl (refresh_series merged) sts ps
                      in (store\<lparr> current := \<lparr> snapshot = merged, parts = ps, statuses = sts \<rparr> \<rparr>, None))"

definition RecordFailure :: "time \<Rightarrow> CollectorID \<Rightarrow> Store \<Rightarrow> Store \<times> go_error option" where
  "RecordFailure now cid store =
     (if \<not> CollectorID_Valid cid then (store, Some ErrInvalidCollector)
      else let cur = current store;
               status = (status_of (statuses cur) cid)\<lparr> LastAttempt := now, Up := False \<rparr>
           in (store\<lparr> current := \<lparr> snapshot = snapshot cur, parts = parts cur,
                                    statuses = AList.update cid status (statuses cur) \<rparr> \<rparr>, None))"

definition Snapshot_of :: "Store \<Rightarrow> Snapshot" where
  "Snapshot_of store = snapshot (current store)"

definition freshness :: "Store \<Rightarrow> time \<Rightarrow> time \<Rightarrow> string" where
  "freshness store now success =
     (if IsZero success then FreshnessMissing
      else let age = Sub now success
           in if age \<le> freshnessTTL store then FreshnessFresh
              else if age \<le> staleAfter store then FreshnessAging else FreshnessStale)"

definition Load :: "time \<Rightarrow> Store \<Rightarrow> SnapshotView" where
  "Load now store =
     \<lparr> v_Snapshot = snapshot (current store),
       v_Collectors = map (\<lambda>(cid, st). (cid, st\<lparr> Freshness := freshness store now (LastSuccess st) \<rparr>))
                        (statuses (current store)) \<rparr>"

section \<open>What merging selects\<close>

text \<open>
  The accounts a target may expose: its allowlist, or, when that is empty, the linked accounts
  that appear in the account costs of the same target.
\<close>

definition observed_account :: "Cost list \<Rightarrow> TargetID \<Rightarrow> string \<Rightarrow> bool" where
  "observed_account cs t v \<longleftrightarrow>
     (\<exists>c \<in> set cs. c_Target c = t \<and> kind (c_Dimension c) = DimensionAccount \<and>
        dvalue (c_Dimension c) = v \<and> accountID v)"

definition permitted :: "(TargetID, OrganizationPolicy) gomap \<Rightarrow> Cost list \<Rightarrow> Account \<Rightarrow> bool" where
  "permitted policies cs a \<longleftrightarrow>
     (case map_of policies (a_Target a) of
        None \<Rightarrow> False
      | Some p \<Rightarrow> if AccountIDs p = [] then observed_account cs (a_Target a) (a_AccountID a)
                  else a_AccountID a \<in> set (AccountIDs p))"

definition exposed :: "Account list \<Rightarrow> TargetID \<Rightarrow> int" where
  "exposed as t = int (length (filter (\<lambda>a. a_Target a = t) as))"

lemma account_set_update:
  "account_set (AList.update t xs m) u = (if u = t then xs else account_set m u)"
  by (simp add: account_set_def)

lemma observe_accounts:
  "v \<in> set (account_set (foldl observe_account obs cs) t) \<longleftrightarrow>
   v \<in> set (account_set obs t) \<or> observed_account cs t v"
proof (induction cs arbitrary: obs)
  case Nil
  then show ?case by (simp add: observed_account_def)
next
  case (Cons c cs)
  have "v \<in> set (account_set (observe_account obs c) t) \<longleftrightarrow>
    v \<in> set (account_set obs t) \<or> observed_account [c] t v"
    by (auto simp: observe_account_def account_set_update observed_account_def)
  then show ?case using Cons.IH by (auto simp: observed_account_def)
qed

lemma allowed_permitted:
  "(case map_of (allowed_accounts policies (foldl observe_account [] cs)) (a_Target a) of
      None \<Rightarrow> False | Some ids \<Rightarrow> a_AccountID a \<in> set ids) \<longleftrightarrow> permitted policies cs a"
proof -
  have "map_of (allowed_accounts policies obs) t =
    map_option (\<lambda>p. if AccountIDs p = [] then account_set obs t else AccountIDs p) (map_of policies t)" for obs t
    by (induction policies) (auto simp: allowed_accounts_def)
  moreover have "account_set [] t = []" for t by (simp add: account_set_def)
  ultimately show ?thesis
    by (auto simp: permitted_def observe_accounts split: option.split)
qed

lemma count_of_update: "count_of (AList.update t n m) u = (if u = t then n else count_of m u)"
  by (simp add: count_of_def)

lemma select_accounts:
  assumes "foldl (select_account allowed) (counts, sel) as = (counts', sel')"
    and "gomap_wf counts" and "\<And>t. count_of counts t = exposed sel t"
    and "fst ` set counts = a_Target ` set sel"
  shows "sel' = sel @ filter (\<lambda>a. case map_of allowed (a_Target a) of
                                     None \<Rightarrow> False | Some ids \<Rightarrow> a_AccountID a \<in> set ids) as
    \<and> gomap_wf counts' \<and> (\<forall>t. count_of counts' t = exposed sel' t) \<and> fst ` set counts' = a_Target ` set sel'"
  using assms
proof (induction as arbitrary: counts sel)
  case Nil
  then show ?case by simp
next
  case (Cons a as)
  show ?case
  proof (cases "case map_of allowed (a_Target a) of None \<Rightarrow> False | Some ids \<Rightarrow> a_AccountID a \<in> set ids")
    case False
    then have "select_account allowed (counts, sel) a = (counts, sel)"
      by (auto simp: select_account_def split: option.splits)
    then show ?thesis using Cons.IH [of counts sel] Cons.prems False by auto
  next
    case True
    let ?c = "AList.update (a_Target a) (count_of counts (a_Target a) + 1) counts"
    have step: "select_account allowed (counts, sel) a = (?c, sel @ [a])"
      using True by (auto simp: select_account_def split: option.splits)
    have "count_of ?c t = exposed (sel @ [a]) t" for t
      using Cons.prems(3) by (simp add: count_of_update exposed_def)
    moreover have "fst ` set ?c = a_Target ` set (sel @ [a])"
      using Cons.prems(4) by (simp add: dom_update flip: dom_map_of_conv_image_fst)
    ultimately show ?thesis
      using Cons.IH [of ?c "sel @ [a]"] Cons.prems True step by simp
  qed
qed

lemma unique_keys_filter_accounts:
  assumes "distinct (unique_keys s)"
  shows "distinct (unique_keys (s\<lparr> accounts := filter P (accounts s) \<rparr>))"
proof -
  have gen: "distinct (a @ map f (filter P xs) @ b)" if "distinct (a @ map f xs @ b)"
    for a b :: "string list" and f and xs :: "Account list"
    using that by (auto simp: distinct_map_filter)
  let ?before = "map cost_unique_key (costs s) @ map forecast_unique_key (forecasts s)
    @ concat (map budget_unique_keys (budgets s))"
  show ?thesis
    using gen [of ?before account_unique_key "accounts s"] assms
    by (simp add: unique_keys_def del: distinct_append)
qed

lemma NewWithData_ordered_id:
  assumes "ordered s"
  shows "NewWithData (costs s) (forecasts s) (budgets s) (accounts s) (commitments s) (anomalies s) (tagCosts s) = s"
  using assms
  by (simp add: ordered_def NewWithData_def sort_defs snapshot_cost_order.sort_is_sort_key
      snapshot_forecast_order.sort_is_sort_key budget_order.sort_is_sort_key account_order.sort_is_sort_key
      commitment_order.sort_is_sort_key anomaly_order.sort_is_sort_key tag_order.sort_is_sort_key
      sort_key_id_if_sorted)

lemma ordered_filter_accounts: "ordered s \<Longrightarrow> ordered (s\<lparr> accounts := filter P (accounts s) \<rparr>)"
  by (simp add: ordered_def sorted_filter)

text \<open>
  The specification of \<open>mergeParts\<close>: reject a merge that is not unique, otherwise keep the
  permitted accounts unless a target exceeds its limit. The second uniqueness check of the
  code never fires.
\<close>

definition merge_spec :: "Store \<Rightarrow> (CollectorID, Snapshot) gomap \<Rightarrow> go_error + Snapshot" where
  "merge_spec store ps =
     (let merged = Merge (map snd ps); policies = organizationPolicies store;
          kept = filter (permitted policies (costs merged)) (accounts merged)
      in case ValidateUnique merged of
           Inl err \<Rightarrow> Inl err
         | Inr _ \<Rightarrow>
             if policies = [] then Inr merged
             else if \<exists>a \<in> set kept. exposed kept (a_Target a) > policy_limit policies (a_Target a)
             then Inl ErrSeriesLimit
             else Inr (merged\<lparr> accounts := kept \<rparr>))"

lemma list_ex_counts:
  assumes "gomap_wf counts" and "\<And>t. count_of counts t = exposed sel t"
    and "fst ` set counts = a_Target ` set sel"
  shows "list_ex (\<lambda>(t, n). n > bnd t) counts \<longleftrightarrow> (\<exists>a \<in> set sel. exposed sel (a_Target a) > bnd (a_Target a))"
proof -
  have "list_ex (\<lambda>(t, n). n > bnd t) counts \<longleftrightarrow> (\<exists>t \<in> fst ` set counts. count_of counts t > bnd t)"
    using assms(1) by (force simp: list_ex_iff count_of_def)
  then show ?thesis by (simp add: assms)
qed

lemma mergeParts_eq: "mergeParts store ps = merge_spec store ps"
proof (cases "ValidateUnique (Merge (map snd ps))")
  case (Inl err)
  then show ?thesis by (simp add: mergeParts_def merge_spec_def)
next
  case (Inr u)
  define merged where "merged = Merge (map snd ps)"
  define policies where "policies = organizationPolicies store"
  define allowed where "allowed = allowed_accounts policies (foldl observe_account [] (costs merged))"
  define kept where "kept = filter (permitted policies (costs merged)) (accounts merged)"
  obtain counts sel where fold: "foldl (select_account allowed) ([], []) (accounts merged) = (counts, sel)"
    by fastforce
  have "sel = kept" and wf: "gomap_wf counts" and cnt: "\<And>t. count_of counts t = exposed sel t"
    and dom: "fst ` set counts = a_Target ` set sel"
    using select_accounts [OF fold]
    by (simp_all add: kept_def allowed_permitted allowed_def count_of_def exposed_def)
  have ord: "ordered merged" by (simp add: merged_def Merge_ordered)
  have uniq: "identities_valid merged \<and> distinct (unique_keys merged)"
    using Inr by (simp add: merged_def flip: ValidateUnique_ok)
  have result: "NewWithData (costs merged) (forecasts merged) (budgets merged) sel
      (commitments merged) (anomalies merged) (tagCosts merged) = merged\<lparr> accounts := kept \<rparr>"
    using NewWithData_ordered_id [OF ordered_filter_accounts [OF ord, of "permitted policies (costs merged)"]]
    by (simp add: \<open>sel = kept\<close> kept_def)
  have ok: "ValidateUnique (merged\<lparr> accounts := kept \<rparr>) = Inr ()"
    using uniq unique_keys_filter_accounts [of merged "permitted policies (costs merged)"]
    by (simp add: ValidateUnique_ok identities_valid_def kept_def)
  show ?thesis
    unfolding mergeParts_def merge_spec_def
    using Inr fold result ok list_ex_counts [OF wf cnt dom, of "policy_limit policies"]
    by (simp add: Let_def \<open>sel = kept\<close> flip: merged_def policies_def allowed_def kept_def)
qed

lemma mergeParts_ok:
  assumes "mergeParts store ps = Inr m"
  shows "ValidateUnique m = Inr ()" and "ordered m"
    and "ValidateUnique (Merge (map snd ps)) = Inr ()"
    and "\<exists>P. m = (Merge (map snd ps))\<lparr> accounts := filter P (accounts (Merge (map snd ps))) \<rparr>"
proof -
  let ?M = "Merge (map snd ps)"
  show v: "ValidateUnique ?M = Inr ()"
    using assms by (auto simp: mergeParts_eq merge_spec_def Let_def split: sum.splits)
  show e: "\<exists>P. m = ?M\<lparr> accounts := filter P (accounts ?M) \<rparr>"
    using assms v
    by (auto simp: mergeParts_eq merge_spec_def Let_def split: if_splits intro: exI [of _ "\<lambda>_. True"])
  then obtain P where m: "m = ?M\<lparr> accounts := filter P (accounts ?M) \<rparr>" by blast
  show "ordered m" unfolding m by (rule ordered_filter_accounts [OF Merge_ordered])
  show "ValidateUnique m = Inr ()"
    using v unique_keys_filter_accounts [of ?M P] unfolding m by (simp add: ValidateUnique_ok identities_valid_def)
qed

section \<open>The store contract\<close>

text \<open>
  What the scheduler relies on: a rejected publication changes nothing, an accepted one replaces
  the part of its own collector only, and recording a failure keeps every part and the view.
\<close>

datatype ('id, 'part) store_op = OpPublish "time" 'id 'part | OpFailure "time" 'id

fun apply_op ::
  "(time \<Rightarrow> 'id \<Rightarrow> 'part \<Rightarrow> 's \<Rightarrow> 's \<times> go_error option) \<Rightarrow> (time \<Rightarrow> 'id \<Rightarrow> 's \<Rightarrow> 's \<times> go_error option) \<Rightarrow>
   's \<Rightarrow> ('id, 'part) store_op \<Rightarrow> 's" where
  "apply_op publish failure s (OpPublish now i p) = fst (publish now i p s)"
| "apply_op publish failure s (OpFailure now i) = fst (failure now i s)"

fun op_publishes :: "'id \<Rightarrow> ('id, 'part) store_op \<Rightarrow> bool" where
  "op_publishes i (OpPublish now j p) \<longleftrightarrow> i = j"
| "op_publishes i (OpFailure now j) \<longleftrightarrow> False"

locale snapshot_store =
  fixes publish :: "time \<Rightarrow> 'id \<Rightarrow> 'part \<Rightarrow> 's \<Rightarrow> 's \<times> go_error option"
    and failure :: "time \<Rightarrow> 'id \<Rightarrow> 's \<Rightarrow> 's \<times> go_error option"
    and part_of :: "'s \<Rightarrow> 'id \<Rightarrow> 'part option"
    and view :: "'s \<Rightarrow> 'snap"
  assumes publish_rejected: "publish now i p s = (s', Some e) \<Longrightarrow> s' = s"
    and publish_accepted: "publish now i p s = (s', None) \<Longrightarrow> part_of s' = (part_of s)(i \<mapsto> p)"
    and failure_keeps_parts: "part_of (fst (failure now i s)) = part_of s"
    and failure_keeps_view: "view (fst (failure now i s)) = view s"
begin

lemma op_frame: "\<not> op_publishes i op \<Longrightarrow> part_of (apply_op publish failure s op) i = part_of s i"
proof (cases op)
  case (OpPublish now j p)
  assume "\<not> op_publishes i op"
  with OpPublish have "i \<noteq> j" by simp
  obtain s' r where "publish now j p s = (s', r)" by fastforce
  then show ?thesis
    using OpPublish \<open>i \<noteq> j\<close> publish_rejected publish_accepted by (cases r) fastforce+
qed (simp add: failure_keeps_parts)

lemma ops_frame:
  assumes "\<And>op. op \<in> set ops \<Longrightarrow> \<not> op_publishes i op"
  shows "part_of (foldl (apply_op publish failure) s ops) i = part_of s i"
  using assms by (induction ops arbitrary: s) (simp_all add: op_frame)

lemma last_accepted_part:
  assumes "publish now i p s = (s', None)" and "\<And>op. op \<in> set ops \<Longrightarrow> \<not> op_publishes i op"
  shows "part_of (foldl (apply_op publish failure) s' ops) i = Some p"
  using ops_frame [OF assms(2)] publish_accepted [OF assms(1)] by simp

lemma failures_keep_view:
  assumes "\<And>op. op \<in> set ops \<Longrightarrow> \<exists>now i. op = OpFailure now i"
  shows "view (foldl (apply_op publish failure) s ops) = view s"
  using assms
proof (induction ops arbitrary: s)
  case (Cons op ops)
  then obtain now i where "op = OpFailure now i" by (metis list.set_intros(1))
  with Cons show ?case by (simp add: failure_keeps_view)
qed simp

end

section \<open>The store keeps its contract and its invariant\<close>

definition part_of :: "Store \<Rightarrow> CollectorID \<Rightarrow> Snapshot option" where
  "part_of store = map_of (parts (current store))"

lemma mergeParts_cong [simp]: "mergeParts (store\<lparr> current := c \<rparr>) ps = mergeParts store ps"
  by (cases "ValidateUnique (Merge (map snd ps))") (simp_all add: mergeParts_eq merge_spec_def Let_def)

definition published :: "time \<Rightarrow> CollectorID \<Rightarrow> Snapshot \<Rightarrow> Snapshot \<Rightarrow> Store \<Rightarrow> state" where
  "published now cid partial merged store =
     (let ps = AList.update cid partial (parts (current store))
      in \<lparr> snapshot = merged, parts = ps,
           statuses = foldl (refresh_series merged)
             (AList.update cid
                \<lparr> LastAttempt = now, LastSuccess = now, Up = True, Freshness = '''', Series = 0 \<rparr>
                (statuses (current store))) ps \<rparr>)"

lemma Publish_accepts:
  "Publish now cid partial store = (store', None) \<longleftrightarrow>
   CollectorID_Valid cid \<and> ValidatePartial partial (id_Target cid) = Inr () \<and>
   (\<exists>merged. mergeParts store (AList.update cid partial (parts (current store))) = Inr merged \<and>
             store' = store\<lparr> current := published now cid partial merged store \<rparr>)"
  by (auto simp: Publish_def published_def Let_def split: sum.splits)

lemma Publish_rejects: "Publish now cid partial store = (store', Some e) \<Longrightarrow> store' = store"
  by (auto simp: Publish_def Let_def split: if_splits sum.splits)

interpretation memory: snapshot_store Publish RecordFailure part_of Snapshot_of
proof
  show "s' = s" if "Publish now i p s = (s', Some e)" for now i p s s' e
    using that by (rule Publish_rejects)
  show "part_of s' = (part_of s)(i \<mapsto> p)" if "Publish now i p s = (s', None)" for now i p s s'
    using that by (auto simp: Publish_accepts part_of_def published_def Let_def)
  show "part_of (fst (RecordFailure now i s)) = part_of s" for now i s
    by (simp add: RecordFailure_def part_of_def Let_def)
  show "Snapshot_of (fst (RecordFailure now i s)) = Snapshot_of s" for now i s
    by (simp add: RecordFailure_def Snapshot_of_def Let_def)
qed

lemma status_of_update: "status_of (AList.update i st m) j = (if j = i then st else status_of m j)"
  by (simp add: status_of_def)

lemma refresh_fold:
  assumes "gomap_wf ps"
  shows "status_of (foldl (refresh_series merged) sts ps) j =
    (case map_of ps j of
       None \<Rightarrow> status_of sts j
     | Some p \<Rightarrow> (status_of sts j)\<lparr> Series := publishedSeries (id_Target j) p merged \<rparr>)"
  using assms
proof (induction ps arbitrary: sts)
  case (Cons q ps)
  obtain i p where q: "q = (i, p)" by fastforce
  have "map_of ps i = None" using Cons.prems by (simp add: q map_of_eq_None_iff)
  with Cons show ?case
    by (auto simp: q refresh_series_def status_of_update split: option.splits)
qed simp

lemma refresh_dom:
  "fst ` set (foldl (refresh_series merged) sts ps) = fst ` set sts \<union> fst ` set ps"
  by (induction ps arbitrary: sts) (auto simp: refresh_series_def dom_update simp flip: dom_map_of_conv_image_fst)

lemma refresh_wf: "gomap_wf sts \<Longrightarrow> gomap_wf (foldl (refresh_series merged) sts ps)"
  by (induction ps arbitrary: sts) (auto simp: refresh_series_def)

text \<open>The configuration the constructor accepts, and the invariant of the cache state.\<close>

definition config_wf :: "Store \<Rightarrow> bool" where
  "config_wf store \<longleftrightarrow>
     0 < freshnessTTL store \<and> freshnessTTL store \<le> staleAfter store \<and>
     gomap_wf (organizationPolicies store) \<and>
     (\<forall>(t, p) \<in> set (organizationPolicies store). t \<noteq> '''' \<and> 0 < SeriesLimit p)"

definition parts_wf :: "Store \<Rightarrow> bool" where
  "parts_wf store \<longleftrightarrow>
     gomap_wf (parts (current store)) \<and>
     (\<forall>(cid, p) \<in> set (parts (current store)).
        CollectorID_Valid cid \<and> ValidatePartial p (id_Target cid) = Inr ()) \<and>
     mergeParts store (parts (current store)) = Inr (snapshot (current store))"

definition status_ok :: "Snapshot \<Rightarrow> CollectorID \<Rightarrow> Snapshot option \<Rightarrow> CollectorStatus \<Rightarrow> bool" where
  "status_ok merged cid part st \<longleftrightarrow>
     (case part of
        None \<Rightarrow> LastSuccess st = 0 \<and> \<not> Up st \<and> Series st = 0
      | Some p \<Rightarrow> Series st = publishedSeries (id_Target cid) p merged) \<and>
     (Up st \<longrightarrow> LastAttempt st = LastSuccess st)"

definition statuses_wf :: "Store \<Rightarrow> bool" where
  "statuses_wf store \<longleftrightarrow>
     gomap_wf (statuses (current store)) \<and>
     fst ` set (parts (current store)) \<subseteq> fst ` set (statuses (current store)) \<and>
     (\<forall>cid. status_ok (snapshot (current store)) cid (part_of store cid) (status_of (statuses (current store)) cid))"

definition store_inv :: "Store \<Rightarrow> bool" where
  "store_inv store \<longleftrightarrow> config_wf store \<and> parts_wf store \<and> statuses_wf store"

definition store_init :: "Store \<Rightarrow> bool" where
  "store_init store \<longleftrightarrow>
     (\<exists>fresh stale policies.
        NewStore (Some ()) fresh stale (map (Some \<circ> WithOrganizationPolicies) policies) = Inr store)"

inductive store_step :: "Store \<Rightarrow> Store \<Rightarrow> bool" where
  step_publish: "store_step s (fst (Publish now cid partial s))"
| step_failure: "store_step s (fst (RecordFailure now cid s))"

inductive_cases store_stepE: "store_step s t"

lemma install_policies_config:
  assumes "WithOrganizationPolicies values s = Inr t" and "config_wf s"
  shows "config_wf t \<and> current t = current s"
proof -
  have "(\<lambda>x. config_wf x \<and> current x = current s) t"
  proof (rule range_err_invariant [OF assms(1) [unfolded WithOrganizationPolicies_def]])
    show "config_wf (s\<lparr> organizationPolicies := [] \<rparr>) \<and> current (s\<lparr> organizationPolicies := [] \<rparr>) = current s"
      using assms(2) by (simp add: config_wf_def)
    fix u x v
    assume "config_wf u \<and> current u = current s" and "install_policy u x = Inr v"
    then show "config_wf v \<and> current v = current s"
      by (cases x) (fastforce simp: install_policy_def config_wf_def set_update_iff split: if_splits)
  qed
  then show ?thesis .
qed

lemma NewStore_config:
  assumes "store_init s"
  shows "config_wf s \<and> current s = empty_state"
proof -
  obtain fresh stale policies where new:
    "NewStore (Some ()) fresh stale (map (Some \<circ> WithOrganizationPolicies) policies) = Inr s"
    using assms unfolding store_init_def by blast
  let ?s0 = "\<lparr> freshnessTTL = fresh, staleAfter = stale, organizationPolicies = [], current = empty_state \<rparr>"
  have fresh: "0 < fresh" "fresh \<le> stale"
    and run: "range_err apply_option ?s0 (map (Some \<circ> WithOrganizationPolicies) policies) = Inr s"
    using new by (auto simp: NewStore_def split: if_splits)
  show ?thesis
  proof (rule range_err_invariant [OF run])
    show "config_wf ?s0 \<and> current ?s0 = empty_state" using fresh by (simp add: config_wf_def)
    fix u x v
    assume "x \<in> set (map (Some \<circ> WithOrganizationPolicies) policies)"
      and "config_wf u \<and> current u = empty_state" and "apply_option u x = Inr v"
    then show "config_wf v \<and> current v = empty_state"
      using install_policies_config by (auto simp: apply_option_def split: sum.splits)
  qed
qed

lemma Merge_Nil: "Merge [] = empty_snapshot"
  by (simp add: Merge_eq NewWithData_def empty_snapshot_def sort_defs)

lemma store_init_inv: "store_init s \<Longrightarrow> store_inv s"
proof -
  assume "store_init s"
  then have c: "config_wf s" and e: "current s = empty_state" using NewStore_config by blast+
  have "mergeParts s [] = Inr empty_snapshot"
    by (simp add: mergeParts_eq merge_spec_def Merge_Nil Let_def) (simp add: empty_snapshot_def)
  then show ?thesis
    using c by (simp add: store_inv_def parts_wf_def statuses_wf_def e empty_state_def part_of_def
        status_of_def zero_status_def status_ok_def)
qed

lemma Publish_inv:
  assumes "store_inv s"
  shows "store_inv (fst (Publish now cid partial s))"
proof (cases "Publish now cid partial s")
  case (Pair s' r)
  show ?thesis
  proof (cases r)
    case (Some e)
    then show ?thesis using Pair Publish_rejects assms by fastforce
  next
    case None
    let ?ps = "AList.update cid partial (parts (current s))"
    obtain merged where v: "CollectorID_Valid cid" "ValidatePartial partial (id_Target cid) = Inr ()"
      and m: "mergeParts s ?ps = Inr merged"
      and s': "s' = s\<lparr> current := published now cid partial merged s \<rparr>"
      using Pair None by (auto simp: Publish_accepts)
    have wf: "gomap_wf ?ps" "gomap_wf (parts (current s))" "gomap_wf (statuses (current s))"
      using assms by (simp_all add: store_inv_def parts_wf_def statuses_wf_def)
    have "config_wf s'" using assms by (simp add: s' store_inv_def config_wf_def)
    moreover have "parts_wf s'"
      using assms v m wf
      by (auto simp: s' store_inv_def parts_wf_def published_def Let_def set_update_iff)
    moreover have "status_ok merged j (part_of s' j) (status_of (statuses (current s')) j)" for j
    proof -
      have "status_ok (snapshot (current s)) j (part_of s j) (status_of (statuses (current s)) j)"
        using assms by (simp add: store_inv_def statuses_wf_def)
      then show ?thesis
        unfolding s' published_def Let_def part_of_def
        by (simp add: refresh_fold [OF wf(1)] status_of_update status_ok_def split: option.splits)
    qed
    then have "statuses_wf s'"
      using assms wf
      by (auto simp: s' store_inv_def statuses_wf_def published_def Let_def refresh_wf refresh_dom)
    ultimately show ?thesis by (simp add: Pair store_inv_def)
  qed
qed

lemma RecordFailure_inv:
  assumes "store_inv s"
  shows "store_inv (fst (RecordFailure now cid s))"
proof (cases "CollectorID_Valid cid")
  case True
  let ?s = "fst (RecordFailure now cid s)"
  have cur: "snapshot (current ?s) = snapshot (current s)" "parts (current ?s) = parts (current s)"
    "statuses (current ?s) = AList.update cid
       ((status_of (statuses (current s)) cid)\<lparr> LastAttempt := now, Up := False \<rparr>) (statuses (current s))"
    using True by (simp_all add: RecordFailure_def Let_def)
  have "status_ok (snapshot (current s)) j (part_of s j) (status_of (statuses (current ?s)) j)" for j
  proof -
    have "status_ok (snapshot (current s)) j (part_of s j) (status_of (statuses (current s)) j)"
      using assms by (simp add: store_inv_def statuses_wf_def)
    then show ?thesis
      by (auto simp: cur status_of_update status_ok_def split: option.splits)
  qed
  then have "statuses_wf ?s"
    using assms by (auto simp: statuses_wf_def store_inv_def cur part_of_def dom_update
        simp flip: dom_map_of_conv_image_fst)
  moreover have "config_wf ?s" and "parts_wf ?s"
    using assms True by (simp_all add: store_inv_def config_wf_def parts_wf_def RecordFailure_def Let_def)
  ultimately show ?thesis by (simp add: store_inv_def)
qed (simp add: RecordFailure_def assms)

interpretation store_system: invariant_system store_init store_step store_inv
proof
  show "store_inv s" if "store_init s" for s using that by (rule store_init_inv)
  show "store_inv t" if "store_inv s" and "store_step s t" for s t
    using that(2,1) by (auto elim!: store_stepE intro: Publish_inv RecordFailure_inv)
qed

section \<open>Properties\<close>

lemma reachable_store:
  assumes "reach store_init store_step s"
  shows "config_wf s" and "gomap_wf (parts (current s))"
    and "\<And>cid p. (cid, p) \<in> set (parts (current s)) \<Longrightarrow>
           CollectorID_Valid cid \<and> belongs_to (id_Target cid) p \<and> identities_valid p"
    and "mergeParts s (parts (current s)) = Inr (snapshot (current s))"
    and "\<And>cid. status_ok (snapshot (current s)) cid (part_of s cid) (status_of (statuses (current s)) cid)"
  using store_system.reachable_inv [OF assms]
  by (auto simp: store_inv_def parts_wf_def statuses_wf_def ValidatePartial_ok)

text \<open>
  C1. In every reachable state of the cache the visible snapshot is exactly what merging the
  stored parts specifies, it passes the uniqueness check (no duplicate metric label set), and
  it is in canonical order.
\<close>

theorem store_snapshot_consistent:
  assumes "reach store_init store_step s"
  shows "merge_spec s (parts (current s)) = Inr (Snapshot_of s) \<and>
    ValidateUnique (Snapshot_of s) = Inr () \<and> ordered (Snapshot_of s)"
  using reachable_store(4) [OF assms] mergeParts_ok(1,2) [OF reachable_store(4) [OF assms]]
  by (simp add: Snapshot_of_def mergeParts_eq)

lemma merged_sources:
  assumes "mergeParts s ps = Inr m" and "\<And>cid p. (cid, p) \<in> set ps \<Longrightarrow> belongs_to (id_Target cid) p"
  shows "c \<in> set (costs m) \<Longrightarrow> \<exists>(cid, p) \<in> set ps. c \<in> set (costs p) \<and> id_Target cid = c_Target c"
    and "f \<in> set (forecasts m) \<Longrightarrow> \<exists>(cid, p) \<in> set ps. f \<in> set (forecasts p) \<and> id_Target cid = f_Target f"
    and "b \<in> set (budgets m) \<Longrightarrow> \<exists>(cid, p) \<in> set ps. b \<in> set (budgets p) \<and> id_Target cid = b_Target b"
    and "a \<in> set (accounts m) \<Longrightarrow> \<exists>(cid, p) \<in> set ps. a \<in> set (accounts p) \<and> id_Target cid = a_Target a"
    and "x \<in> set (commitments m) \<Longrightarrow> \<exists>(cid, p) \<in> set ps. x \<in> set (commitments p) \<and> id_Target cid = m_Target x"
    and "n \<in> set (anomalies m) \<Longrightarrow> \<exists>(cid, p) \<in> set ps. n \<in> set (anomalies p) \<and> id_Target cid = n_Target n"
    and "t \<in> set (tagCosts m) \<Longrightarrow> \<exists>(cid, p) \<in> set ps. t \<in> set (tagCosts p) \<and> id_Target cid = t_Target t"
proof -
  obtain P where m: "m = (Merge (map snd ps))\<lparr> accounts := filter P (accounts (Merge (map snd ps))) \<rparr>"
    using mergeParts_ok(4) [OF assms(1)] by blast
  note b = assms(2) [unfolded belongs_to_def]
  show "c \<in> set (costs m) \<Longrightarrow> \<exists>(cid, p) \<in> set ps. c \<in> set (costs p) \<and> id_Target cid = c_Target c"
    "f \<in> set (forecasts m) \<Longrightarrow> \<exists>(cid, p) \<in> set ps. f \<in> set (forecasts p) \<and> id_Target cid = f_Target f"
    "b \<in> set (budgets m) \<Longrightarrow> \<exists>(cid, p) \<in> set ps. b \<in> set (budgets p) \<and> id_Target cid = b_Target b"
    "a \<in> set (accounts m) \<Longrightarrow> \<exists>(cid, p) \<in> set ps. a \<in> set (accounts p) \<and> id_Target cid = a_Target a"
    "x \<in> set (commitments m) \<Longrightarrow> \<exists>(cid, p) \<in> set ps. x \<in> set (commitments p) \<and> id_Target cid = m_Target x"
    "n \<in> set (anomalies m) \<Longrightarrow> \<exists>(cid, p) \<in> set ps. n \<in> set (anomalies p) \<and> id_Target cid = n_Target n"
    "t \<in> set (tagCosts m) \<Longrightarrow> \<exists>(cid, p) \<in> set ps. t \<in> set (tagCosts p) \<and> id_Target cid = t_Target t"
    using b by (fastforce simp: m Merge_eq sort_defs)+
qed

text \<open>
  C11. Targets are isolated: every record of every family in a reachable snapshot was published by
  a valid collector of the very target the record names.
\<close>

theorem store_target_isolation:
  assumes "reach store_init store_step s"
  shows "(\<forall>c \<in> set (costs (Snapshot_of s)). \<exists>(cid, p) \<in> set (parts (current s)). c \<in> set (costs p) \<and> id_Target cid = c_Target c) \<and>
    (\<forall>f \<in> set (forecasts (Snapshot_of s)). \<exists>(cid, p) \<in> set (parts (current s)). f \<in> set (forecasts p) \<and> id_Target cid = f_Target f) \<and>
    (\<forall>b \<in> set (budgets (Snapshot_of s)). \<exists>(cid, p) \<in> set (parts (current s)). b \<in> set (budgets p) \<and> id_Target cid = b_Target b) \<and>
    (\<forall>a \<in> set (accounts (Snapshot_of s)). \<exists>(cid, p) \<in> set (parts (current s)). a \<in> set (accounts p) \<and> id_Target cid = a_Target a) \<and>
    (\<forall>m \<in> set (commitments (Snapshot_of s)). \<exists>(cid, p) \<in> set (parts (current s)). m \<in> set (commitments p) \<and> id_Target cid = m_Target m) \<and>
    (\<forall>n \<in> set (anomalies (Snapshot_of s)). \<exists>(cid, p) \<in> set (parts (current s)). n \<in> set (anomalies p) \<and> id_Target cid = n_Target n) \<and>
    (\<forall>t \<in> set (tagCosts (Snapshot_of s)). \<exists>(cid, p) \<in> set (parts (current s)). t \<in> set (tagCosts p) \<and> id_Target cid = t_Target t)"
proof -
  note src = merged_sources [OF reachable_store(4) [OF assms]] and r = reachable_store(3) [OF assms]
  show ?thesis
    unfolding Snapshot_of_def by (intro conjI ballI; rule src; use r in blast)
qed

text \<open>
  With organization policies configured, a reachable snapshot exposes an account only if its
  target has a policy and the account is in the allowlist, or, for an empty allowlist, occurs in
  an account cost of the same target; and no target exposes more accounts than its limit.
\<close>

theorem store_organization_policy:
  assumes "reach store_init store_step s" and "organizationPolicies s \<noteq> []" and "a \<in> set (accounts (Snapshot_of s))"
  shows "\<exists>policy. map_of (organizationPolicies s) (a_Target a) = Some policy \<and>
    exposed (accounts (Snapshot_of s)) (a_Target a) \<le> SeriesLimit policy \<and>
    (if AccountIDs policy = [] then observed_account (costs (Snapshot_of s)) (a_Target a) (a_AccountID a)
     else a_AccountID a \<in> set (AccountIDs policy))"
proof -
  let ?M = "Merge (map snd (parts (current s)))" and ?pol = "organizationPolicies s"
  let ?kept = "filter (permitted ?pol (costs ?M)) (accounts ?M)"
  have v: "ValidateUnique ?M = Inr ()" using mergeParts_ok(3) [OF reachable_store(4) [OF assms(1)]] .
  have S: "Snapshot_of s = ?M\<lparr> accounts := ?kept \<rparr>"
    and lim: "\<forall>a \<in> set ?kept. exposed ?kept (a_Target a) \<le> policy_limit ?pol (a_Target a)"
    using reachable_store(4) [OF assms(1)] assms(2) v
    by (auto simp: Snapshot_of_def mergeParts_eq merge_spec_def Let_def split: if_splits)
  have a: "a \<in> set ?kept" using assms(3) by (simp add: S)
  then have "permitted ?pol (costs ?M) a" by simp
  then obtain p where "map_of ?pol (a_Target a) = Some p"
    by (auto simp: permitted_def split: option.splits)
  with a lim show ?thesis by (auto simp: S permitted_def policy_limit_def split: if_splits)
qed

text \<open>
  An accepted publication replaces the part of its own collector and nothing else: other
  parts, and the attempt time, success time and health of other collectors, are as before, and
  the publishing collector is up with both times at the clock reading. A rejected one leaves the
  whole store as it was.
\<close>

theorem publish_frame:
  assumes "reach store_init store_step s" and "Publish now cid partial s = (s', r)"
  shows "case r of
      Some e \<Rightarrow> s' = s
    | None \<Rightarrow>
        part_of s' = (part_of s)(cid \<mapsto> partial) \<and>
        Up (status_of (statuses (current s')) cid) \<and>
        LastSuccess (status_of (statuses (current s')) cid) = now \<and>
        LastAttempt (status_of (statuses (current s')) cid) = now \<and>
        (\<forall>j. j \<noteq> cid \<longrightarrow>
           LastAttempt (status_of (statuses (current s')) j) = LastAttempt (status_of (statuses (current s)) j) \<and>
           LastSuccess (status_of (statuses (current s')) j) = LastSuccess (status_of (statuses (current s)) j) \<and>
           Up (status_of (statuses (current s')) j) = Up (status_of (statuses (current s)) j))"
proof (cases r)
  case (Some e)
  then show ?thesis using assms(2) Publish_rejects by simp
next
  case None
  then obtain merged where s': "s' = s\<lparr> current := published now cid partial merged s \<rparr>"
    using assms(2) by (auto simp: Publish_accepts)
  have wf: "gomap_wf (AList.update cid partial (parts (current s)))"
    using reachable_store(2) [OF assms(1)] by simp
  have "status_of (statuses (current s')) j =
    (case map_of (AList.update cid partial (parts (current s))) j of
       None \<Rightarrow> status_of (statuses (current s)) j
     | Some p \<Rightarrow> (if j = cid then \<lparr> LastAttempt = now, LastSuccess = now, Up = True, Freshness = '''', Series = 0 \<rparr>
                  else status_of (statuses (current s)) j)\<lparr> Series := publishedSeries (id_Target j) p merged \<rparr>)" for j
    by (simp add: s' published_def Let_def refresh_fold [OF wf] status_of_update split: option.split)
  then show ?thesis
    using None memory.publish_accepted [of now cid partial s s'] assms(2)
    by (auto split: option.split)
qed

text \<open>
  C19. Once a collector has published, its data stays what it last published through any later
  sequence of store operations that contains no publication of that collector: failures of any
  collector and publications of others never drop or change it, and a run of failures alone
  leaves the whole visible snapshot unchanged.
\<close>

theorem last_good_part_retained:
  assumes "Publish now cid partial s = (s', None)"
    and "\<And>op. op \<in> set ops \<Longrightarrow> \<not> op_publishes cid op"
  shows "part_of (foldl (apply_op Publish RecordFailure) s' ops) cid = Some partial \<and>
    ((\<forall>op \<in> set ops. \<exists>t i. op = OpFailure t i) \<longrightarrow>
     Snapshot_of (foldl (apply_op Publish RecordFailure) s' ops) = Snapshot_of s')"
  using memory.last_accepted_part [OF assms] memory.failures_keep_view [of ops s'] by blast

definition freshness_rank :: "string \<Rightarrow> nat" where
  "freshness_rank f = (if f = FreshnessMissing then 0 else if f = FreshnessFresh then 1
                       else if f = FreshnessAging then 2 else 3)"

text \<open>
  The freshness category of a collector is exact: missing without a success, fresh up to the
  freshness bound, aging up to the staleness bound, stale beyond it; and for a fixed success time
  it only ever gets older as the clock advances.
\<close>

theorem freshness_classification:
  assumes "config_wf s" and "staleAfter s < 2 ^ 63 - 1" and "now \<le> later"
  shows "(freshness s now success = FreshnessMissing \<longleftrightarrow> IsZero success) \<and>
    (freshness s now success = FreshnessFresh \<longleftrightarrow> \<not> IsZero success \<and> now - success \<le> freshnessTTL s) \<and>
    (freshness s now success = FreshnessAging \<longleftrightarrow>
       \<not> IsZero success \<and> freshnessTTL s < now - success \<and> now - success \<le> staleAfter s) \<and>
    (freshness s now success = FreshnessStale \<longleftrightarrow> \<not> IsZero success \<and> staleAfter s < now - success) \<and>
    freshness_rank (freshness s now success) \<le> freshness_rank (freshness s later success)"
  using assms
  by (auto simp: freshness_def Let_def Sub_def config_wf_def freshness_names freshness_rank_def min_def max_def)

text \<open>
  Series accounting. When each target has at most one collector that publishes accounts, the
  accounts of the merged snapshot split by target without overlap.
\<close>

lemma exposed_partition:
  assumes "distinct ts" and "a_Target ` set as \<subseteq> set ts"
  shows "int (length as) = (\<Sum>t\<leftarrow>ts. exposed as t)"
  using assms(2)
proof (induction as)
  case Nil
  then show ?case by (simp add: exposed_def)
next
  case (Cons a as)
  have "(\<Sum>t\<leftarrow>ts. exposed (a # as) t) = (\<Sum>t\<leftarrow>ts. of_bool (a_Target a = t) + exposed as t)"
    by (rule arg_cong [of _ _ sum_list]) (simp add: exposed_def)
  also have "\<dots> = (\<Sum>t\<leftarrow>ts. of_bool (a_Target a = t)) + (\<Sum>t\<leftarrow>ts. exposed as t)"
    by (simp add: sum_list_addf)
  also have "(\<Sum>t\<leftarrow>ts. of_bool (a_Target a = t)) = (1 :: int)"
    using assms(1) Cons.prems by (simp add: sum_list_distinct_conv_sum_set of_bool_def)
  finally show ?case using Cons by simp
qed

lemma publishedSeries_eq:
  "publishedSeries t p m =
     int (SeriesCount p) - int (length (accounts p)) + (if accounts p = [] then 0 else exposed (accounts m) t)"
proof -
  have "foldl (\<lambda>n a. if a_Target a = t then n + 1 else n) k as = k + exposed as t" for k as
    by (induction as arbitrary: k) (simp_all add: exposed_def)
  then show ?thesis by (simp add: publishedSeries_def)
qed

lemma SeriesCount_accounts:
  "int (SeriesCount (s\<lparr> accounts := as \<rparr>)) = int (SeriesCount s) - int (length (accounts s)) + int (length as)"
  by (simp add: SeriesCount_eq)

lemma sum_list_map_if_filter:
  "(\<Sum>x\<leftarrow>xs. if P x then 0 else f x) = (\<Sum>x\<leftarrow>filter (\<lambda>x. \<not> P x) xs. f x)" for f :: "'a \<Rightarrow> int"
  by (induction xs) simp_all

lemma int_sum_list: "int (sum_list (map f xs)) = (\<Sum>x\<leftarrow>xs. int (f x))"
  by (induction xs) simp_all

definition single_account_source :: "(CollectorID, Snapshot) gomap \<Rightarrow> bool" where
  "single_account_source ps \<longleftrightarrow>
     distinct (map (id_Target \<circ> fst) (filter (\<lambda>q. accounts (snd q) \<noteq> []) ps))"

text \<open>
  The per-collector series counts are exact: in a reachable state where each target has at
  most one collector publishing accounts, the counts the store reports for its parts add up to
  the number of series of the visible snapshot, organization filtering included.
\<close>

theorem series_accounting:
  assumes "reach store_init store_step s" and "single_account_source (parts (current s))"
  shows "(\<Sum>q\<leftarrow>parts (current s). Series (status_of (statuses (current s)) (fst q))) = int (SeriesCount (Snapshot_of s))"
proof -
  let ?ps = "parts (current s)" and ?m = "snapshot (current s)"
  let ?M = "Merge (map snd ?ps)" and ?src = "filter (\<lambda>q. accounts (snd q) \<noteq> []) ?ps"
  note r = reachable_store [OF assms(1)]
  obtain P where m: "?m = ?M\<lparr> accounts := filter P (accounts ?M) \<rparr>" using mergeParts_ok(4) [OF r(4)] by blast
  have len: "length (accounts ?m) = length (filter P (accounts ?M))" by (simp add: m)
  have accs: "length (accounts ?M) = sum_list (map (\<lambda>q. length (accounts (snd q))) ?ps)"
    by (simp add: Merge_eq Account_Sort_def length_concat comp_def)
  have "Series (status_of (statuses (current s)) (fst q)) = publishedSeries (id_Target (fst q)) (snd q) ?m"
    if "q \<in> set ?ps" for q
  proof -
    have "map_of ?ps (fst q) = Some (snd q)" using that r(2) by (intro map_of_is_SomeI) simp_all
    then show ?thesis using r(5) [of "fst q"] by (simp add: status_ok_def part_of_def)
  qed
  then have "(\<Sum>q\<leftarrow>?ps. Series (status_of (statuses (current s)) (fst q))) =
      (\<Sum>q\<leftarrow>?ps. int (SeriesCount (snd q)) - int (length (accounts (snd q)))
        + (if accounts (snd q) = [] then 0 else exposed (accounts ?m) (id_Target (fst q))))"
    by (simp add: publishedSeries_eq cong: map_cong)
  also have "\<dots> = int (SeriesCount ?M) - int (length (accounts ?M))
      + (\<Sum>q\<leftarrow>?src. exposed (accounts ?m) (id_Target (fst q)))"
    by (simp add: sum_list_addf sum_list_subtractf sum_list_map_if_filter SeriesCount_Merge accs
        comp_def int_sum_list)
  also have "(\<Sum>q\<leftarrow>?src. exposed (accounts ?m) (id_Target (fst q))) = int (length (accounts ?m))"
  proof -
    have "a_Target ` set (accounts ?m) \<subseteq> set (map (id_Target \<circ> fst) ?src)"
    proof
      fix t
      assume "t \<in> a_Target ` set (accounts ?m)"
      then obtain a where a: "a \<in> set (accounts ?m)" "t = a_Target a" by blast
      have "\<exists>(cid, p) \<in> set ?ps. a \<in> set (accounts p) \<and> id_Target cid = a_Target a"
        by (rule merged_sources(4) [OF r(4) _ a(1)]) (use r(3) in blast)
      then obtain cid p where "(cid, p) \<in> set ?src" "id_Target cid = t" using a(2) by fastforce
      then show "t \<in> set (map (id_Target \<circ> fst) ?src)" by (auto intro: image_eqI [of _ _ "(cid, p)"])
    qed
    then show ?thesis
      using exposed_partition [of "map (id_Target \<circ> fst) ?src" "accounts ?m"] assms(2)
      by (simp add: single_account_source_def comp_def)
  qed
  also have "int (SeriesCount ?M) - int (length (accounts ?M)) + int (length (accounts ?m)) = int (SeriesCount ?m)"
    using SeriesCount_accounts [of "filter P (accounts ?M)" ?M] m len by simp
  finally show ?thesis by (simp add: Snapshot_of_def)
qed

section \<open>A concrete run\<close>

text \<open>
  A store with one organization policy, to which a cost collector and then an organization
  collector of the target publish: the second account is not on the allowlist.
\<close>

definition sample_policy :: OrganizationPolicy where
  "sample_policy = \<lparr> AccountIDs = [''111111111111''], SeriesLimit = 5 \<rparr>"

definition sample_id :: "string \<Rightarrow> CollectorID" where
  "sample_id name = \<lparr> id_Target = ''a'', id_Name = name \<rparr>"

definition sample_account :: "string \<Rightarrow> Account" where
  "sample_account v = \<lparr> a_Target = ''a'', a_AccountID = v, a_Name = ''n'', a_Status = ''ACTIVE'' \<rparr>"

definition sample_metadata :: Snapshot where
  "sample_metadata = New [] [] [] [sample_account ''222222222222'', sample_account ''111111111111'']"

definition store0 :: Store where
  "store0 = \<lparr> freshnessTTL = 10, staleAfter = 20, organizationPolicies = [(''a'', sample_policy)],
              current = empty_state \<rparr>"

definition store1 :: Store where
  "store1 = fst (Publish 5 (sample_id ''total'') (sample_part ''a'') store0)"

definition store2 :: Store where
  "store2 = fst (Publish 7 (sample_id ''organization'') sample_metadata store1)"

lemma store0_init: "store_init store0"
proof -
  have "NewStore (Some ()) 10 20 [Some (WithOrganizationPolicies [(''a'', sample_policy)])] = Inr store0"
    by code_simp
  then show ?thesis unfolding store_init_def by (intro exI [of _ 10] exI [of _ 20] exI [of _ "[[(''a'', sample_policy)]]"]) simp
qed

lemma store2_reach: "reach store_init store_step store1" "reach store_init store_step store2"
  unfolding store1_def store2_def
  by (meson reach_init reach_step step_publish store0_init)+

lemma store2_snapshot:
  "Snapshot_of store2 = New [sample_cost ''a''] [] [] [sample_account ''111111111111'']"
  "map fst (parts (current store2)) = [sample_id ''total'', sample_id ''organization'']"
  "organizationPolicies store2 = [(''a'', sample_policy)]"
  by code_simp+

theorem store_snapshot_consistent_witness:
  "ValidateUnique (Snapshot_of store2) = Inr () \<and> ordered (Snapshot_of store2) \<and> costs (Snapshot_of store2) \<noteq> []"
  using store_snapshot_consistent [OF store2_reach(2)] by (simp add: store2_snapshot New_def)

theorem store_target_isolation_witness:
  "\<exists>(cid, p) \<in> set (parts (current store2)). sample_account ''111111111111'' \<in> set (accounts p) \<and> id_Target cid = ''a''"
proof -
  have "sample_account ''111111111111'' \<in> set (accounts (Snapshot_of store2))"
    by (simp add: store2_snapshot New_def Account_Sort_def)
  from store_target_isolation [OF store2_reach(2), THEN conjunct2, THEN conjunct2, THEN conjunct2,
      THEN conjunct1, rule_format, OF this]
  show ?thesis by (simp add: sample_account_def)
qed

theorem store_organization_policy_witness:
  "\<exists>policy. map_of (organizationPolicies store2) ''a'' = Some policy \<and>
     exposed (accounts (Snapshot_of store2)) ''a'' \<le> SeriesLimit policy"
proof -
  have "organizationPolicies store2 \<noteq> []" by (simp add: store2_snapshot)
  moreover have "sample_account ''111111111111'' \<in> set (accounts (Snapshot_of store2))"
    by (simp add: store2_snapshot New_def Account_Sort_def)
  ultimately show ?thesis
    using store_organization_policy [OF store2_reach(2), of "sample_account ''111111111111''"]
    by (auto simp: sample_account_def)
qed

theorem publish_frame_witness:
  "part_of store2 = (part_of store1)(sample_id ''organization'' \<mapsto> sample_metadata) \<and>
   LastSuccess (status_of (statuses (current store2)) (sample_id ''total'')) = 5"
proof -
  have ok: "snd (Publish 7 (sample_id ''organization'') sample_metadata store1) = None" by code_simp
  then have run: "Publish 7 (sample_id ''organization'') sample_metadata store1 = (store2, None)"
    by (simp add: store2_def prod_eq_iff)
  have "LastSuccess (status_of (statuses (current store1)) (sample_id ''total'')) = 5" by code_simp
  then show ?thesis
    using publish_frame [OF store2_reach(1) run] by (simp add: sample_id_def)
qed

theorem last_good_part_retained_witness:
  "part_of (foldl (apply_op Publish RecordFailure) store1 [OpFailure 6 (sample_id ''total'')]) (sample_id ''total'') =
     Some (sample_part ''a'')"
proof -
  have "snd (Publish 5 (sample_id ''total'') (sample_part ''a'') store0) = None" by code_simp
  then have "Publish 5 (sample_id ''total'') (sample_part ''a'') store0 = (store1, None)"
    by (simp add: store1_def prod_eq_iff)
  from last_good_part_retained [OF this, of "[OpFailure 6 (sample_id ''total'')]"] show ?thesis by simp
qed

theorem freshness_classification_witness:
  "freshness store0 30 5 = FreshnessStale \<and> freshness_rank (freshness store0 9 5) \<le> freshness_rank (freshness store0 30 5)"
proof -
  have c: "config_wf store0" using NewStore_config [OF store0_init] by blast
  have "staleAfter store0 < 2 ^ 63 - 1" by (simp add: store0_def)
  from freshness_classification [OF c this, of 30 30 5] freshness_classification [OF c this, of 9 30 5]
  show ?thesis by (simp add: IsZero_def) (simp add: store0_def)
qed

theorem series_accounting_witness:
  "(\<Sum>q\<leftarrow>parts (current store2). Series (status_of (statuses (current store2)) (fst q))) = 2"
proof -
  have "single_account_source (parts (current store2))" by code_simp
  moreover have "SeriesCount (Snapshot_of store2) = 2" by code_simp
  ultimately show ?thesis using series_accounting [OF store2_reach(2)] by simp
qed

end
