(* ===== verification/Scheduler.thy ===== *)
theory Scheduler
  imports Memory_Store Aws_Common
begin

text \<open>
  Package \<open>internal/scheduler\<close>: periodic refreshes with jitter, single flight per collector,
  bounded concurrency, one collection per target at a time, and retries with backoff. The
  goroutines of \<open>Run\<close> (one scheduler and one worker per job) are program counters in a shared
  state; a step is one channel operation, one critical section, one call of the store, or the
  return of \<open>Collect\<close>. A choice names the goroutine that moves, the branch a \<open>select\<close> takes, the
  random draws and the collector's result, so an execution is a list of choices.
\<close>

section \<open>timer.go\<close>

text \<open>
  A timer of the standard library: the instant it fires at, and \<open>None\<close> once it was stopped or its
  value received. \<open>Stop\<close> and \<open>Reset\<close> report whether it was still active.
\<close>

record Timer =
  tm_deadline :: "time option"

definition NewTimer :: "time \<Rightarrow> duration \<Rightarrow> Timer" where
  "NewTimer now delay = \<lparr> tm_deadline = Some (now + delay) \<rparr>"

definition Timer_Fired :: "time \<Rightarrow> Timer \<Rightarrow> bool" where
  "Timer_Fired now timer = (case tm_deadline timer of None \<Rightarrow> False | Some d \<Rightarrow> d \<le> now)"

definition Timer_Receive :: "Timer \<Rightarrow> Timer" where
  "Timer_Receive timer = timer\<lparr> tm_deadline := None \<rparr>"

definition Timer_Reset :: "time \<Rightarrow> duration \<Rightarrow> Timer \<Rightarrow> Timer \<times> bool" where
  "Timer_Reset now delay timer = (\<lparr> tm_deadline = Some (now + delay) \<rparr>, tm_deadline timer \<noteq> None)"

definition stopTimer :: "Timer option \<Rightarrow> Timer option" where
  "stopTimer timer = (case timer of None \<Rightarrow> None | Some t \<Rightarrow> Some (t\<lparr> tm_deadline := None \<rparr>))"

section \<open>Configuration\<close>

record BackoffConfig =
  bc_MaxAttempts :: int
  bc_Initial :: duration
  bc_Max :: duration
  bc_Multiplier :: float64

record SchedulerConfig =
  sg_Interval :: duration
  sg_StartupRefresh :: bool
  sg_JitterRatio :: float64
  sg_MaxConcurrency :: int
  sg_Backoff :: BackoffConfig
  sg_Observer :: bool
  sg_Logger :: bool

record Job =
  j_Collector :: "CollectorID option"
  j_Interval :: duration
  j_StartupRefresh :: bool

record Runner =
  rn_jobs :: "Job list"
  rn_config :: SchedulerConfig

definition Scheduler_ErrInvalidConfig :: go_error where
  "Scheduler_ErrInvalidConfig = Sentinel ''invalid scheduler configuration''"

definition add_job :: "CollectorID list \<Rightarrow> Job \<Rightarrow> go_error + CollectorID list" where
  "add_job known job =
     (case j_Collector job of
        None \<Rightarrow> Inl Scheduler_ErrInvalidConfig
      | Some cid \<Rightarrow>
          if j_Interval job \<le> 0 \<or> \<not> CollectorID_Valid cid \<or> cid \<in> set known then Inl Scheduler_ErrInvalidConfig
          else Inr (known @ [cid]))"

definition NewJobs ::
  "Job list \<Rightarrow> 's option \<Rightarrow> 'clock option \<Rightarrow> SchedulerConfig \<Rightarrow> go_error + Runner" where
  "NewJobs jobs store clock config =
     (let backoff = sg_Backoff config; ratio = sg_JitterRatio config; mult = bc_Multiplier backoff
      in if jobs = [] \<or> store = None \<or> clock = None \<or> sg_MaxConcurrency config \<le> 0 \<or>
            f64_lt ratio (F_Fin 0) \<or> f64_lt (F_Fin (1/2)) ratio \<or> IsNaN ratio \<or> IsInf ratio \<or>
            bc_MaxAttempts backoff \<le> 0 \<or> bc_MaxAttempts backoff > 10 \<or> bc_Initial backoff \<le> 0 \<or>
            bc_Max backoff < bc_Initial backoff \<or> f64_le mult (F_Fin 1) \<or> IsNaN mult \<or> IsInf mult
         then Inl Scheduler_ErrInvalidConfig
         else case range_err add_job [] jobs of
                Inl err \<Rightarrow> Inl err
              | Inr _ \<Rightarrow> Inr \<lparr> rn_jobs = jobs, rn_config = config \<rparr>)"

text \<open>The same-schedule constructor.\<close>

definition Runner_New ::
  "CollectorID option list \<Rightarrow> 's option \<Rightarrow> 'clock option \<Rightarrow> SchedulerConfig \<Rightarrow> go_error + Runner" where
  "Runner_New collectors store clock config =
     NewJobs (map (\<lambda>c. \<lparr> j_Collector = c, j_Interval = sg_Interval config,
                          j_StartupRefresh = sg_StartupRefresh config \<rparr>) collectors) store clock config"

section \<open>Delays\<close>

definition nextDelay :: "(float64 \<Rightarrow> int) \<Rightarrow> Runner \<Rightarrow> float64 \<Rightarrow> duration \<Rightarrow> duration" where
  "nextDelay impl rn random interval =
     (let v = f64_min (f64_max random (F_Fin 0)) (F_Fin 1)
      in wrap64 (interval + f64_to_int64 impl
           (f64_mul (f64_mul (f64_of_int interval) (sg_JitterRatio (rn_config rn))) v)))"

definition nextBackoff :: "(float64 \<Rightarrow> int) \<Rightarrow> Runner \<Rightarrow> duration \<Rightarrow> duration" where
  "nextBackoff impl rn delay =
     (let backoff = sg_Backoff (rn_config rn);
          nxt = f64_mul (f64_of_int delay) (bc_Multiplier backoff)
      in if f64_le (f64_of_int (bc_Max backoff)) nxt then bc_Max backoff else f64_to_int64 impl nxt)"

section \<open>Shared state and program counters\<close>

datatype schedule_pc =
    S_Start
  | S_Send "time" "Timer option"
  | S_Arm "Timer option"
  | S_Wait Timer
  | S_Done

text \<open>The locals of the loop of \<open>collect\<close>.\<close>

record refresh =
  r_attempt :: int
  r_delay :: duration
  r_reference :: "time"

datatype worker_pc =
    W_Select
  | W_Target refresh
  | W_Semaphore refresh
  | W_DropTarget
  | W_Collect refresh "time"
  | W_FreeSemaphore refresh "time" "go_error + Snapshot"
  | W_FreeTarget refresh "time" "go_error + Snapshot"
  | W_Publish refresh "time" "go_error + Snapshot"
  | W_Observe refresh "time" "go_error option"
  | W_Decide refresh go_error
  | W_Backoff refresh Timer
  | W_Clear
  | W_Exit
  | W_Done

datatype sched_event =
    ObserveRefresh CollectorID string duration
  | ObserveSkipped CollectorID string
  | ObserveCachePublishError CollectorID string
  | LogCollectorFailure CollectorID string bool
  | LogCacheFailure CollectorID string go_error

record 's sched =
  sd_now :: "time"
  sd_canceled :: bool
  sd_semaphore :: nat
  sd_targets :: "TargetID \<Rightarrow> nat"
  sd_running :: "CollectorID \<Rightarrow> bool"
  sd_queues :: "CollectorID \<Rightarrow> time list"
  sd_schedule :: "CollectorID \<Rightarrow> schedule_pc"
  sd_worker :: "CollectorID \<Rightarrow> worker_pc"
  sd_store :: 's
  sd_events :: "sched_event list"

text \<open>The \<open>Store\<close> interface; the clock reading of the store is an argument.\<close>

record 's StorePort =
  sp_Publish :: "time \<Rightarrow> CollectorID \<Rightarrow> Snapshot \<Rightarrow> 's \<Rightarrow> 's \<times> go_error option"
  sp_RecordFailure :: "time \<Rightarrow> CollectorID \<Rightarrow> 's \<Rightarrow> 's \<times> go_error option"

definition job_ids :: "Runner \<Rightarrow> CollectorID list" where
  "job_ids rn = List.map_filter j_Collector (rn_jobs rn)"

definition job_of :: "Runner \<Rightarrow> CollectorID \<Rightarrow> Job option" where
  "job_of rn cid = find (\<lambda>job. j_Collector job = Some cid) (rn_jobs rn)"

definition emit :: "bool \<Rightarrow> sched_event \<Rightarrow> 's sched \<Rightarrow> 's sched" where
  "emit enabled e s = (if enabled then s\<lparr> sd_events := sd_events s @ [e] \<rparr> else s)"

definition goto_schedule :: "CollectorID \<Rightarrow> schedule_pc \<Rightarrow> 's sched \<Rightarrow> 's sched" where
  "goto_schedule cid pc s = s\<lparr> sd_schedule := (sd_schedule s)(cid := pc) \<rparr>"

definition goto_worker :: "CollectorID \<Rightarrow> worker_pc \<Rightarrow> 's sched \<Rightarrow> 's sched" where
  "goto_worker cid pc s = s\<lparr> sd_worker := (sd_worker s)(cid := pc) \<rparr>"

section \<open>schedule and dispatch\<close>

text \<open>The critical section of \<open>dispatch\<close>: the new state and whether the reference is to be sent.\<close>

definition dispatch_claim :: "Runner \<Rightarrow> CollectorID \<Rightarrow> 's sched \<Rightarrow> 's sched \<times> bool" where
  "dispatch_claim rn cid s =
     (if sd_running s cid
      then (emit (sg_Observer (rn_config rn)) (ObserveSkipped cid ''single_flight'') s, False)
      else (s\<lparr> sd_running := (sd_running s)(cid := True) \<rparr>, True))"

definition dispatch :: "Runner \<Rightarrow> CollectorID \<Rightarrow> Timer option \<Rightarrow> 's sched \<Rightarrow> 's sched" where
  "dispatch rn cid timer s =
     (case dispatch_claim rn cid s of
        (s', False) \<Rightarrow> goto_schedule cid (S_Arm timer) s'
      | (s', True) \<Rightarrow> goto_schedule cid (S_Send (sd_now s) timer) s')"

text \<open>The send on the queue of capacity one.\<close>

definition queue_send :: "CollectorID \<Rightarrow> time \<Rightarrow> 's sched \<Rightarrow> 's sched option" where
  "queue_send cid reference s =
     (if length (sd_queues s cid) < 1
      then Some (s\<lparr> sd_queues := (sd_queues s)(cid := sd_queues s cid @ [reference]) \<rparr>) else None)"

text \<open>
  Arming: the first timer, or the reset of the one just received from, and a new timer with a
  second draw when the reset reports an inactive timer.
\<close>

definition arm_timer ::
  "(float64 \<Rightarrow> int) \<Rightarrow> Runner \<Rightarrow> duration \<Rightarrow> float64 \<Rightarrow> float64 \<Rightarrow> time \<Rightarrow> Timer option \<Rightarrow> Timer" where
  "arm_timer impl rn interval u1 u2 now timer =
     (case timer of
        None \<Rightarrow> NewTimer now (nextDelay impl rn u1 interval)
      | Some t \<Rightarrow>
          (case Timer_Reset now (nextDelay impl rn u1 interval) t of
             (t', True) \<Rightarrow> t'
           | (t', False) \<Rightarrow> NewTimer now (nextDelay impl rn u2 interval)))"

datatype branch = TakeReady | TakeDone

definition schedule_step ::
  "(float64 \<Rightarrow> int) \<Rightarrow> Runner \<Rightarrow> Job \<Rightarrow> CollectorID \<Rightarrow> branch \<Rightarrow> float64 \<Rightarrow> float64 \<Rightarrow> 's sched \<Rightarrow> 's sched option" where
  "schedule_step impl rn job cid b u1 u2 s =
     (case sd_schedule s cid of
        S_Start \<Rightarrow>
          Some (if j_StartupRefresh job then dispatch rn cid None s else goto_schedule cid (S_Arm None) s)
      | S_Send reference timer \<Rightarrow> map_option (goto_schedule cid (S_Arm timer)) (queue_send cid reference s)
      | S_Arm timer \<Rightarrow>
          Some (goto_schedule cid (S_Wait (arm_timer impl rn (j_Interval job) u1 u2 (sd_now s) timer)) s)
      | S_Wait timer \<Rightarrow>
          (case b of
             TakeDone \<Rightarrow> if sd_canceled s then Some (goto_schedule cid S_Done s) else None
           | TakeReady \<Rightarrow>
               if Timer_Fired (sd_now s) timer then Some (dispatch rn cid (Some (Timer_Receive timer)) s) else None)
      | S_Done \<Rightarrow> None)"

section \<open>worker and collect\<close>

definition enter_loop :: "Runner \<Rightarrow> refresh \<Rightarrow> worker_pc" where
  "enter_loop rn r = (if r_attempt r \<le> bc_MaxAttempts (sg_Backoff (rn_config rn)) then W_Target r else W_Clear)"

definition canRetry :: "go_error \<Rightarrow> bool" where
  "canRetry err \<longleftrightarrow> errors_As retryable_iface err = Some True"

definition logged_kind :: "go_error \<Rightarrow> string" where
  "logged_kind err =
     (case errors_As safe_kind_iface err of
        None \<Rightarrow> ''unknown''
      | Some k \<Rightarrow> if k \<in> set [''canceled'', ''timeout'', ''throttle'', ''authorization'', ''validation'',
                              ''transient'', ''unknown''] then k else ''unknown'')"

definition logCollectorFailure :: "Runner \<Rightarrow> CollectorID \<Rightarrow> go_error \<Rightarrow> bool \<Rightarrow> 's sched \<Rightarrow> 's sched" where
  "logCollectorFailure rn cid err retryable =
     emit (sg_Logger (rn_config rn)) (LogCollectorFailure cid (logged_kind err) retryable)"

definition observeCachePublishError :: "Runner \<Rightarrow> CollectorID \<Rightarrow> string \<Rightarrow> go_error \<Rightarrow> 's sched \<Rightarrow> 's sched" where
  "observeCachePublishError rn cid operation err s =
     emit (sg_Observer (rn_config rn)) (ObserveCachePublishError cid operation)
       (emit (sg_Logger (rn_config rn)) (LogCacheFailure cid operation err) s)"

definition clearRunning :: "CollectorID \<Rightarrow> 's sched \<Rightarrow> 's sched" where
  "clearRunning cid s = s\<lparr> sd_running := (sd_running s)(cid := False) \<rparr>"

definition refresh_status :: "bool \<Rightarrow> go_error option \<Rightarrow> string" where
  "refresh_status canceled err =
     (if err = None then ''success'' else if canceled then ''canceled'' else ''error'')"

text \<open>Publication of a collected partial, and the error the attempt ends with.\<close>

definition publish_result ::
  "'s StorePort \<Rightarrow> Runner \<Rightarrow> CollectorID \<Rightarrow> go_error + Snapshot \<Rightarrow> 's sched \<Rightarrow> 's sched \<times> go_error option" where
  "publish_result port rn cid result s =
     (case result of
        Inl err \<Rightarrow> (s, Some err)
      | Inr partial \<Rightarrow>
          (case sp_Publish port (sd_now s) cid partial (sd_store s) of
             (st, None) \<Rightarrow> (s\<lparr> sd_store := st \<rparr>, None)
           | (st, Some err) \<Rightarrow>
               (observeCachePublishError rn cid ''publish'' err (s\<lparr> sd_store := st \<rparr>), Some err)))"

definition record_failure :: "'s StorePort \<Rightarrow> Runner \<Rightarrow> CollectorID \<Rightarrow> 's sched \<Rightarrow> 's sched" where
  "record_failure port rn cid s =
     (case sp_RecordFailure port (sd_now s) cid (sd_store s) of
        (st, None) \<Rightarrow> s\<lparr> sd_store := st \<rparr>
      | (st, Some err) \<Rightarrow> observeCachePublishError rn cid ''record_failure'' err (s\<lparr> sd_store := st \<rparr>))"

text \<open>The end of a failed attempt: give up, or wait for the backoff timer.\<close>

definition decide ::
  "'s StorePort \<Rightarrow> Runner \<Rightarrow> CollectorID \<Rightarrow> refresh \<Rightarrow> go_error \<Rightarrow> 's sched \<Rightarrow> 's sched" where
  "decide port rn cid r err s =
     (if sd_canceled s then goto_worker cid W_Clear s
      else let s' = record_failure port rn cid (logCollectorFailure rn cid err (canRetry err) s)
           in if \<not> canRetry err \<or> r_attempt r = bc_MaxAttempts (sg_Backoff (rn_config rn))
              then goto_worker cid W_Clear s'
              else goto_worker cid (W_Backoff r (NewTimer (sd_now s') (r_delay r))) s')"

definition target_add :: "CollectorID \<Rightarrow> 's sched \<Rightarrow> 's sched option" where
  "target_add cid s =
     (if sd_targets s (id_Target cid) < 1
      then Some (s\<lparr> sd_targets := (sd_targets s)(id_Target cid := Suc (sd_targets s (id_Target cid))) \<rparr>) else None)"

definition target_take :: "CollectorID \<Rightarrow> 's sched \<Rightarrow> 's sched option" where
  "target_take cid s =
     (case sd_targets s (id_Target cid) of
        0 \<Rightarrow> None
      | Suc n \<Rightarrow> Some (s\<lparr> sd_targets := (sd_targets s)(id_Target cid := n) \<rparr>))"

definition semaphore_add :: "Runner \<Rightarrow> 's sched \<Rightarrow> 's sched option" where
  "semaphore_add rn s =
     (if int (sd_semaphore s) < sg_MaxConcurrency (rn_config rn)
      then Some (s\<lparr> sd_semaphore := Suc (sd_semaphore s) \<rparr>) else None)"

definition semaphore_take :: "'s sched \<Rightarrow> 's sched option" where
  "semaphore_take s =
     (case sd_semaphore s of 0 \<Rightarrow> None | Suc n \<Rightarrow> Some (s\<lparr> sd_semaphore := n \<rparr>))"

definition worker_ready ::
  "(float64 \<Rightarrow> int) \<Rightarrow> 's StorePort \<Rightarrow> Runner \<Rightarrow> CollectorID \<Rightarrow> go_error + Snapshot \<Rightarrow> 's sched \<Rightarrow> 's sched option" where
  "worker_ready impl port rn cid result s =
     (case sd_worker s cid of
        W_Select \<Rightarrow>
          (case sd_queues s cid of
             [] \<Rightarrow> None
           | reference # rest \<Rightarrow>
               Some (goto_worker cid
                 (enter_loop rn \<lparr> r_attempt = 1, r_delay = bc_Initial (sg_Backoff (rn_config rn)),
                                  r_reference = reference \<rparr>)
                 (s\<lparr> sd_queues := (sd_queues s)(cid := rest) \<rparr>)))
      | W_Target r \<Rightarrow> map_option (goto_worker cid (W_Semaphore r)) (target_add cid s)
      | W_Semaphore r \<Rightarrow> map_option (goto_worker cid (W_Collect r (sd_now s))) (semaphore_add rn s)
      | W_DropTarget \<Rightarrow> map_option (goto_worker cid W_Clear) (target_take cid s)
      | W_Collect r started \<Rightarrow> Some (goto_worker cid (W_FreeSemaphore r started result) s)
      | W_FreeSemaphore r started res \<Rightarrow> map_option (goto_worker cid (W_FreeTarget r started res)) (semaphore_take s)
      | W_FreeTarget r started res \<Rightarrow> map_option (goto_worker cid (W_Publish r started res)) (target_take cid s)
      | W_Publish r started res \<Rightarrow>
          (let (s', err) = publish_result port rn cid res s in Some (goto_worker cid (W_Observe r started err) s'))
      | W_Observe r started err \<Rightarrow>
          Some (goto_worker cid (case err of None \<Rightarrow> W_Clear | Some e \<Rightarrow> W_Decide r e)
            (emit (sg_Observer (rn_config rn))
               (ObserveRefresh cid (refresh_status (sd_canceled s) err) (Sub (sd_now s) started)) s))
      | W_Decide r e \<Rightarrow> Some (decide port rn cid r e s)
      | W_Backoff r timer \<Rightarrow>
          if Timer_Fired (sd_now s) timer
          then Some (goto_worker cid
            (enter_loop rn \<lparr> r_attempt = r_attempt r + 1, r_delay = nextBackoff impl rn (r_delay r),
                             r_reference = sd_now s \<rparr>) s)
          else None
      | W_Clear \<Rightarrow> Some (goto_worker cid W_Select (clearRunning cid s))
      | W_Exit \<Rightarrow> Some (goto_worker cid W_Done (clearRunning cid s))
      | W_Done \<Rightarrow> None)"

text \<open>The branches of a \<open>select\<close> on \<open>ctx.Done()\<close>.\<close>

definition worker_done :: "CollectorID \<Rightarrow> 's sched \<Rightarrow> 's sched option" where
  "worker_done cid s =
     (if \<not> sd_canceled s then None
      else case sd_worker s cid of
             W_Select \<Rightarrow> Some (goto_worker cid W_Exit s)
           | W_Target r \<Rightarrow> Some (goto_worker cid W_Clear s)
           | W_Semaphore r \<Rightarrow> Some (goto_worker cid W_DropTarget s)
           | W_Backoff r timer \<Rightarrow> Some (goto_worker cid W_Clear s)
           | _ \<Rightarrow> None)"

section \<open>Run\<close>

datatype choice =
    Tick duration
  | CancelContext
  | ScheduleStep CollectorID branch float64 float64
  | WorkerStep CollectorID branch "go_error + Snapshot"

fun runner_step ::
  "(float64 \<Rightarrow> int) \<Rightarrow> 's StorePort \<Rightarrow> Runner \<Rightarrow> choice \<Rightarrow> 's sched \<Rightarrow> 's sched option" where
  "runner_step impl port rn (Tick d) s = (if 0 \<le> d then Some (s\<lparr> sd_now := sd_now s + d \<rparr>) else None)"
| "runner_step impl port rn CancelContext s = Some (s\<lparr> sd_canceled := True \<rparr>)"
| "runner_step impl port rn (ScheduleStep cid b u1 u2) s =
     (case job_of rn cid of None \<Rightarrow> None | Some job \<Rightarrow> schedule_step impl rn job cid b u1 u2 s)"
| "runner_step impl port rn (WorkerStep cid b result) s =
     (case job_of rn cid of
        None \<Rightarrow> None
      | Some job \<Rightarrow>
          (case b of TakeReady \<Rightarrow> worker_ready impl port rn cid result s | TakeDone \<Rightarrow> worker_done cid s))"

definition Run_start :: "time \<Rightarrow> 's \<Rightarrow> 's sched" where
  "Run_start now store =
     \<lparr> sd_now = now, sd_canceled = False, sd_semaphore = 0, sd_targets = (\<lambda>_. 0), sd_running = (\<lambda>_. False),
       sd_queues = (\<lambda>_. []), sd_schedule = (\<lambda>_. S_Start), sd_worker = (\<lambda>_. W_Select), sd_store = store,
       sd_events = [] \<rparr>"

text \<open>\<open>Run\<close> returns once the context is cancelled and every goroutine is done.\<close>

definition Run_returns :: "Runner \<Rightarrow> 's sched \<Rightarrow> bool" where
  "Run_returns rn s \<longleftrightarrow>
     sd_canceled s \<and> list_all (\<lambda>cid. sd_schedule s cid = S_Done \<and> sd_worker s cid = W_Done) (job_ids rn)"

fun execute ::
  "(float64 \<Rightarrow> int) \<Rightarrow> 's StorePort \<Rightarrow> Runner \<Rightarrow> choice list \<Rightarrow> 's sched \<Rightarrow> 's sched option" where
  "execute impl port rn [] s = Some s"
| "execute impl port rn (c # cs) s =
     (case runner_step impl port rn c s of None \<Rightarrow> None | Some s' \<Rightarrow> execute impl port rn cs s')"

definition memory_port :: "Store StorePort" where
  "memory_port = \<lparr> sp_Publish = Publish, sp_RecordFailure = RecordFailure \<rparr>"

section \<open>What the constructor accepts\<close>

definition jobs_wf :: "Job list \<Rightarrow> bool" where
  "jobs_wf jobs \<longleftrightarrow>
     jobs \<noteq> [] \<and> distinct (List.map_filter j_Collector jobs) \<and>
     (\<forall>job \<in> set jobs. 0 < j_Interval job \<and> (\<exists>cid. j_Collector job = Some cid \<and> CollectorID_Valid cid))"

definition runner_wf :: "Runner \<Rightarrow> bool" where
  "runner_wf rn \<longleftrightarrow>
     jobs_wf (rn_jobs rn) \<and> 0 < sg_MaxConcurrency (rn_config rn) \<and>
     (\<exists>q. sg_JitterRatio (rn_config rn) = F_Fin q \<and> 0 \<le> q \<and> q \<le> 1/2) \<and>
     (let b = sg_Backoff (rn_config rn)
      in 1 \<le> bc_MaxAttempts b \<and> bc_MaxAttempts b \<le> 10 \<and> 0 < bc_Initial b \<and> bc_Initial b \<le> bc_Max b \<and>
         (\<exists>m. bc_Multiplier b = F_Fin m \<and> 1 < m))"

lemma map_filter_snoc: "List.map_filter f (xs @ [x]) = List.map_filter f xs @ (case f x of None \<Rightarrow> [] | Some y \<Rightarrow> [y])"
  by (simp add: List.map_filter_def split: option.split)

lemma add_jobs:
  "range_err add_job known jobs = Inr r \<longleftrightarrow>
     r = known @ List.map_filter j_Collector jobs \<and>
     (distinct known \<longrightarrow> distinct (known @ List.map_filter j_Collector jobs)) \<and>
     set known \<inter> set (List.map_filter j_Collector jobs) = {} \<and>
     distinct (List.map_filter j_Collector jobs) \<and>
     (\<forall>job \<in> set jobs. 0 < j_Interval job \<and> (\<exists>cid. j_Collector job = Some cid \<and> CollectorID_Valid cid))"
proof (induction jobs arbitrary: known)
  case (Cons job jobs)
  show ?case
  proof (cases "j_Collector job")
    case (Some cid)
    then have mf: "List.map_filter j_Collector (job # jobs) = cid # List.map_filter j_Collector jobs"
      by (simp add: map_filter_simps)
    show ?thesis
    proof (cases "j_Interval job \<le> 0 \<or> \<not> CollectorID_Valid cid \<or> cid \<in> set known")
      case True
      then show ?thesis using Some mf by (auto simp: add_job_def)
    next
      case False
      then have "range_err add_job known (job # jobs) = range_err add_job (known @ [cid]) jobs"
        using Some by (simp add: add_job_def)
      then show ?thesis using False Some mf by (auto simp: Cons.IH)
    qed
  qed (simp add: add_job_def)
qed (auto simp: List.map_filter_def)

lemma f64_ratio_ok:
  "\<not> (f64_lt x (F_Fin 0) \<or> f64_lt (F_Fin (1/2)) x \<or> IsNaN x \<or> IsInf x) \<longleftrightarrow> (\<exists>q. x = F_Fin q \<and> 0 \<le> q \<and> q \<le> 1/2)"
  by (cases x) auto

lemma f64_mult_ok: "\<not> (f64_le x (F_Fin 1) \<or> IsNaN x \<or> IsInf x) \<longleftrightarrow> (\<exists>m. x = F_Fin m \<and> 1 < m)"
  by (cases x) (auto simp: f64_le_def f64_eq_def)

lemma NewJobs_accepts:
  "NewJobs jobs store clock config = Inr rn \<longleftrightarrow>
     rn = \<lparr> rn_jobs = jobs, rn_config = config \<rparr> \<and> store \<noteq> None \<and> clock \<noteq> None \<and> runner_wf rn"
proof -
  have "NewJobs jobs store clock config = Inr rn \<longleftrightarrow>
    jobs \<noteq> [] \<and> store \<noteq> None \<and> clock \<noteq> None \<and> 0 < sg_MaxConcurrency config \<and>
    \<not> (f64_lt (sg_JitterRatio config) (F_Fin 0) \<or> f64_lt (F_Fin (1/2)) (sg_JitterRatio config) \<or>
       IsNaN (sg_JitterRatio config) \<or> IsInf (sg_JitterRatio config)) \<and>
    1 \<le> bc_MaxAttempts (sg_Backoff config) \<and> bc_MaxAttempts (sg_Backoff config) \<le> 10 \<and>
    0 < bc_Initial (sg_Backoff config) \<and> bc_Initial (sg_Backoff config) \<le> bc_Max (sg_Backoff config) \<and>
    \<not> (f64_le (bc_Multiplier (sg_Backoff config)) (F_Fin 1) \<or> IsNaN (bc_Multiplier (sg_Backoff config)) \<or>
       IsInf (bc_Multiplier (sg_Backoff config))) \<and>
    (\<exists>known. range_err add_job [] jobs = Inr known) \<and> rn = \<lparr> rn_jobs = jobs, rn_config = config \<rparr>"
    by (auto simp: NewJobs_def Let_def not_less not_le split: sum.splits)
  then show ?thesis
    unfolding f64_ratio_ok f64_mult_ok add_jobs by (auto simp: runner_wf_def jobs_wf_def Let_def)
qed

section \<open>Delays\<close>

lemma f64_to_int64_floor:
  assumes "0 \<le> q" and "\<lfloor>q\<rfloor> \<le> n" and "n \<le> 2 ^ 53"
  shows "f64_to_int64 impl (F_Fin q) = \<lfloor>q\<rfloor>"
proof -
  have "trunc_rat q = \<lfloor>q\<rfloor>" and "0 \<le> \<lfloor>q\<rfloor>" using assms(1) by (simp_all add: trunc_rat_def)
  moreover have "(2::int) ^ 53 < 2 ^ 63" by simp
  ultimately have "- (2 ^ 63) \<le> trunc_rat q \<and> trunc_rat q < 2 ^ 63" using assms(2,3) by linarith
  then show ?thesis unfolding f64_to_int64.simps using \<open>trunc_rat q = \<lfloor>q\<rfloor>\<close> by presburger
qed

lemma nextDelay_bounds:
  assumes "runner_wf rn" and "random = F_Fin u" and "0 \<le> interval" and "interval \<le> 2 ^ 53"
  shows "interval \<le> nextDelay impl rn random interval \<and> 2 * (nextDelay impl rn random interval - interval) \<le> interval"
proof -
  obtain q where q: "sg_JitterRatio (rn_config rn) = F_Fin q" "0 \<le> q" "q \<le> 1/2"
    using assms(1) by (auto simp: runner_wf_def)
  let ?v = "max 0 (min 1 u)"
  have v: "f64_min (f64_max random (F_Fin 0)) (F_Fin 1) = F_Fin ?v"
    using assms(2) by (auto simp: f64_min_def f64_max_def max_def min_def)
  let ?h = "of_int interval / 2 :: rat"
  have n: "f64_of_int interval = F_Fin (of_int interval)" using assms(3,4) by (intro f64_of_int_exact) simp
  have rep: "representable 0" "representable ?h"
    using representable_int [of 0] representable_half_int [of interval] assms(3,4) by simp_all
  have "(of_int interval :: rat) \<le> of_int (2 ^ 53)" using assms(4) by (simp only: of_int_le_iff)
  also have "\<dots> < 2 ^ 1024" by simp
  finally have big: "\<bar>0::rat\<bar> < 2 ^ 1024" "\<bar>?h\<bar> < 2 ^ 1024" using assms(3) by simp_all
  have i0: "(0::rat) \<le> of_int interval" using assms(3) by simp
  have "0 \<le> of_int interval * q" and "of_int interval * q \<le> ?h"
    using i0 q mult_left_mono [OF q(3) i0] by simp_all
  from f64_of_rat_between [OF this rep big] obtain a where
    a: "f64_of_rat (of_int interval * q) = F_Fin a" "0 \<le> a" "a \<le> ?h" by blast
  have "0 \<le> a * ?v" and "a * ?v \<le> a"
    using a(2) mult_left_mono [of ?v 1 a] by (simp_all add: max_def)
  then have "0 \<le> a * ?v" and "a * ?v \<le> ?h" using a(3) by linarith+
  from f64_of_rat_between [OF this rep big] obtain b where
    b: "f64_of_rat (a * ?v) = F_Fin b" "0 \<le> b" "b \<le> ?h" by blast
  let ?t = "f64_to_int64 impl (F_Fin b)"
  have "b \<le> of_int interval" using b(3) i0 by simp
  from f64_to_int64_between [OF b(2) this] have t: "0 \<le> ?t" "?t \<le> interval" using assms(4) by simp_all
  have "\<lfloor>b\<rfloor> \<le> interval" using \<open>b \<le> of_int interval\<close> by (simp add: floor_le_iff)
  then have "?t = \<lfloor>b\<rfloor>" using assms(4) b(2) by (intro f64_to_int64_floor)
  then have "of_int ?t \<le> b" by simp
  then have "(of_int (2 * ?t) :: rat) \<le> of_int interval" using b(3) by simp
  then have half: "2 * ?t \<le> interval" by (simp only: of_int_le_iff)
  have "nextDelay impl rn random interval = wrap64 (interval + ?t)"
    unfolding nextDelay_def v Let_def n q(1) f64_mul.simps a(1) b(1) ..
  also have "\<dots> = interval + ?t" using t assms(3,4) by (intro wrap64_id) simp_all
  finally show ?thesis using t half by simp
qed

lemma nextBackoff_bounds:
  assumes "runner_wf rn" and "0 < delay" and "delay \<le> bc_Max (sg_Backoff (rn_config rn))"
    and "bc_Max (sg_Backoff (rn_config rn)) \<le> 2 ^ 53"
  shows "delay \<le> nextBackoff impl rn delay \<and> nextBackoff impl rn delay \<le> bc_Max (sg_Backoff (rn_config rn))"
proof -
  let ?b = "sg_Backoff (rn_config rn)"
  obtain m where m: "bc_Multiplier ?b = F_Fin m" "1 < m" using assms(1) by (auto simp: runner_wf_def Let_def)
  have n: "f64_of_int delay = F_Fin (of_int delay)" "f64_of_int (bc_Max ?b) = F_Fin (of_int (bc_Max ?b))"
    using assms by (intro f64_of_int_exact; simp)+
  have d0: "(0::rat) \<le> of_int delay" using assms(2) by simp
  have le: "of_int delay \<le> of_int delay * m" using mult_left_mono [of 1 m, OF _ d0] m(2) by simp
  have rep: "representable (of_int delay)" using assms by (intro representable_int) simp
  have mono: "of_int delay \<le> round64 (of_int delay * m)"
    using round64_mono [OF le] round64_representable [OF rep] by simp
  let ?p = "f64_mul (f64_of_int delay) (bc_Multiplier ?b)"
  show ?thesis
  proof (cases "f64_le (f64_of_int (bc_Max ?b)) ?p")
    case True
    then show ?thesis using assms by (simp add: nextBackoff_def Let_def)
  next
    case False
    have "?p = f64_of_rat (of_int delay * m)" by (simp add: n m)
    moreover have "\<not> round64 (of_int delay * m) < 0" using mono d0 by linarith
    ultimately have p: "?p = F_Fin (round64 (of_int delay * m))"
      using False by (auto simp: f64_of_rat_def Let_def f64_le_def n split: if_splits)
    then have lt: "round64 (of_int delay * m) < of_int (bc_Max ?b)"
      using False by (auto simp: f64_le_def f64_eq_def n)
    let ?r = "round64 (of_int delay * m)"
    have fl: "delay \<le> \<lfloor>?r\<rfloor>" "\<lfloor>?r\<rfloor> \<le> bc_Max ?b" using mono lt by (simp_all add: le_floor_iff floor_le_iff)
    have "f64_to_int64 impl ?p = \<lfloor>?r\<rfloor>" unfolding p using fl(2) assms(4) mono d0 by (intro f64_to_int64_floor) linarith+
    then show ?thesis using fl False by (simp add: nextBackoff_def Let_def)
  qed
qed

section \<open>The invariant of a running scheduler\<close>

fun holds_semaphore :: "worker_pc \<Rightarrow> bool" where
  "holds_semaphore (W_Collect r t) = True"
| "holds_semaphore (W_FreeSemaphore r t res) = True"
| "holds_semaphore _ = False"

fun holds_target :: "worker_pc \<Rightarrow> bool" where
  "holds_target (W_Semaphore r) = True"
| "holds_target W_DropTarget = True"
| "holds_target (W_Collect r t) = True"
| "holds_target (W_FreeSemaphore r t res) = True"
| "holds_target (W_FreeTarget r t res) = True"
| "holds_target _ = False"

fun exited :: "worker_pc \<Rightarrow> bool" where
  "exited W_Exit = True"
| "exited W_Done = True"
| "exited _ = False"

definition busy :: "worker_pc \<Rightarrow> bool" where
  "busy pc \<longleftrightarrow> pc \<noteq> W_Select \<and> \<not> exited pc"

fun refresh_of :: "worker_pc \<Rightarrow> refresh option" where
  "refresh_of (W_Target r) = Some r"
| "refresh_of (W_Semaphore r) = Some r"
| "refresh_of (W_Collect r t) = Some r"
| "refresh_of (W_FreeSemaphore r t res) = Some r"
| "refresh_of (W_FreeTarget r t res) = Some r"
| "refresh_of (W_Publish r t res) = Some r"
| "refresh_of (W_Observe r t e) = Some r"
| "refresh_of (W_Decide r e) = Some r"
| "refresh_of (W_Backoff r t) = Some r"
| "refresh_of _ = None"

fun sending :: "schedule_pc \<Rightarrow> bool" where
  "sending (S_Send t timer) = True"
| "sending _ = False"

text \<open>
  The refreshes under way for a collector: a reference about to be sent, one in the queue, one
  being collected. As long as its worker has not exited there is at most one, and the running
  flag says whether there is.
\<close>

definition flights :: "'s sched \<Rightarrow> CollectorID \<Rightarrow> nat" where
  "flights s cid =
     of_bool (sending (sd_schedule s cid)) + length (sd_queues s cid) + of_bool (busy (sd_worker s cid))"

definition flight_ok :: "'s sched \<Rightarrow> CollectorID \<Rightarrow> bool" where
  "flight_ok s cid \<longleftrightarrow>
     length (sd_queues s cid) \<le> 1 \<and> (exited (sd_worker s cid) \<or> flights s cid = of_bool (sd_running s cid))"

definition refresh_ok :: "Runner \<Rightarrow> refresh option \<Rightarrow> bool" where
  "refresh_ok rn ro \<longleftrightarrow>
     (case ro of None \<Rightarrow> True
      | Some r \<Rightarrow> 1 \<le> r_attempt r \<and> r_attempt r \<le> bc_MaxAttempts (sg_Backoff (rn_config rn)) \<and>
                  (bc_Max (sg_Backoff (rn_config rn)) \<le> 2 ^ 53 \<longrightarrow>
                   bc_Initial (sg_Backoff (rn_config rn)) \<le> r_delay r \<and>
                   r_delay r \<le> bc_Max (sg_Backoff (rn_config rn))))"

definition semaphore_holders :: "Runner \<Rightarrow> 's sched \<Rightarrow> CollectorID set" where
  "semaphore_holders rn s = {i \<in> set (job_ids rn). holds_semaphore (sd_worker s i)}"

definition target_holders :: "Runner \<Rightarrow> 's sched \<Rightarrow> TargetID \<Rightarrow> CollectorID set" where
  "target_holders rn s t = {i \<in> set (job_ids rn). id_Target i = t \<and> holds_target (sd_worker s i)}"

definition sched_inv :: "Runner \<Rightarrow> 's sched \<Rightarrow> bool" where
  "sched_inv rn s \<longleftrightarrow>
     sd_semaphore s = card (semaphore_holders rn s) \<and> int (sd_semaphore s) \<le> sg_MaxConcurrency (rn_config rn) \<and>
     (\<forall>t. sd_targets s t = card (target_holders rn s t) \<and> sd_targets s t \<le> 1) \<and>
     (\<forall>i \<in> set (job_ids rn). flight_ok s i \<and> refresh_ok rn (refresh_of (sd_worker s i)))"

text \<open>
  What any step of the goroutines of one collector does: other collectors keep their queue, flag
  and program counters, and the channels change by exactly the tokens the worker gains or loses.
\<close>

definition moves :: "Runner \<Rightarrow> CollectorID \<Rightarrow> 's sched \<Rightarrow> 's sched \<Rightarrow> bool" where
  "moves rn cid s s' \<longleftrightarrow>
     (\<forall>j. j \<noteq> cid \<longrightarrow> sd_worker s' j = sd_worker s j \<and> sd_schedule s' j = sd_schedule s j \<and>
                      sd_queues s' j = sd_queues s j \<and> sd_running s' j = sd_running s j) \<and>
     sd_semaphore s' + of_bool (holds_semaphore (sd_worker s cid)) =
       sd_semaphore s + of_bool (holds_semaphore (sd_worker s' cid)) \<and>
     (sd_semaphore s' \<le> sd_semaphore s \<or> int (sd_semaphore s') \<le> sg_MaxConcurrency (rn_config rn)) \<and>
     (\<forall>t. sd_targets s' t + of_bool (id_Target cid = t \<and> holds_target (sd_worker s cid)) =
            sd_targets s t + of_bool (id_Target cid = t \<and> holds_target (sd_worker s' cid)) \<and>
          (sd_targets s' t \<le> sd_targets s t \<or> sd_targets s' t \<le> 1)) \<and>
     (flight_ok s cid \<longrightarrow> flight_ok s' cid) \<and>
     (refresh_ok rn (refresh_of (sd_worker s cid)) \<longrightarrow> refresh_ok rn (refresh_of (sd_worker s' cid)))"

lemma card_filter_update:
  assumes "finite A" and "i \<in> A" and "\<And>j. j \<noteq> i \<Longrightarrow> g j = f j"
  shows "card {j \<in> A. Q j (g j)} + of_bool (Q i (f i)) = card {j \<in> A. Q j (f j)} + of_bool (Q i (g i))"
proof -
  have split: "card {j \<in> A. Q j (h j)} = card {j \<in> A - {i}. Q j (h j)} + of_bool (Q i (h i))" for h
  proof -
    have "{j \<in> A. Q j (h j)} = {j \<in> A - {i}. Q j (h j)} \<union> (if Q i (h i) then {i} else {})"
      using assms(2) by auto
    then show ?thesis using assms(1) by (auto simp: card_insert_if)
  qed
  have "{j \<in> A - {i}. Q j (g j)} = {j \<in> A - {i}. Q j (f j)}" using assms(3) by auto
  then show ?thesis using split [of f] split [of g] by simp
qed

lemma moves_inv:
  assumes "moves rn cid s s'" and "cid \<in> set (job_ids rn)" and "sched_inv rn s"
  shows "sched_inv rn s'"
proof -
  have other: "\<And>j. j \<noteq> cid \<Longrightarrow> sd_worker s' j = sd_worker s j" using assms(1) by (simp add: moves_def)
  note count = card_filter_update [OF finite_set assms(2), of "sd_worker s'" "sd_worker s", OF other]
  have sem: "sd_semaphore s' = card (semaphore_holders rn s')"
    using count [of "\<lambda>_. holds_semaphore"] assms(1,3) unfolding moves_def sched_inv_def semaphore_holders_def by linarith
  have tgt: "sd_targets s' t = card (target_holders rn s' t)" for t
  proof -
    have "sd_targets s' t + of_bool (id_Target cid = t \<and> holds_target (sd_worker s cid)) =
        sd_targets s t + of_bool (id_Target cid = t \<and> holds_target (sd_worker s' cid))"
      using assms(1) unfolding moves_def by blast
    then show ?thesis
      using count [of "\<lambda>j pc. id_Target j = t \<and> holds_target pc"] assms(3)
      unfolding sched_inv_def target_holders_def by (metis (no_types, lifting) add_right_cancel)
  qed
  have lim: "int (sd_semaphore s') \<le> sg_MaxConcurrency (rn_config rn)"
    using assms(1,3) unfolding moves_def sched_inv_def by linarith
  have tlim: "sd_targets s' t \<le> 1" for t
    using assms(1,3) unfolding moves_def sched_inv_def by (meson order_trans)
  have "flight_ok s' i \<and> refresh_ok rn (refresh_of (sd_worker s' i))" if i: "i \<in> set (job_ids rn)" for i
  proof (cases "i = cid")
    case True
    then show ?thesis using assms i unfolding moves_def sched_inv_def by blast
  next
    case False
    then have "flight_ok s' i \<longleftrightarrow> flight_ok s i" and "sd_worker s' i = sd_worker s i"
      using assms(1) by (simp_all add: moves_def flight_ok_def flights_def)
    then show ?thesis using assms(3) i unfolding sched_inv_def by simp
  qed
  with sem tgt lim tlim show ?thesis unfolding sched_inv_def by blast
qed

lemmas step_defs = goto_schedule_def goto_worker_def emit_def clearRunning_def

lemma dispatch_moves: "\<not> sending (sd_schedule s cid) \<Longrightarrow> moves rn cid s (dispatch rn cid timer s)"
  by (auto simp: dispatch_def dispatch_claim_def step_defs moves_def flight_ok_def flights_def)

lemma goto_schedule_moves:
  "\<not> sending (sd_schedule s cid) \<Longrightarrow> \<not> sending pc \<Longrightarrow> moves rn cid s (goto_schedule cid pc s)"
  by (simp add: moves_def flight_ok_def flights_def goto_schedule_def)

lemma send_moves:
  assumes "sd_schedule s cid = S_Send reference timer" and "queue_send cid reference s = Some t"
  shows "moves rn cid s (goto_schedule cid (S_Arm timer) t)"
proof -
  have q: "sd_queues s cid = []" and t: "t = s\<lparr> sd_queues := (sd_queues s)(cid := [reference]) \<rparr>"
    using assms(2) by (auto simp: queue_send_def split: if_splits)
  show ?thesis using assms(1) q by (simp add: t moves_def flight_ok_def flights_def goto_schedule_def)
qed

lemma schedule_moves:
  assumes "schedule_step impl rn job cid b u1 u2 s = Some s'"
  shows "moves rn cid s s'"
proof (cases "sd_schedule s cid")
  case S_Start
  then have "s' = (if j_StartupRefresh job then dispatch rn cid None s else goto_schedule cid (S_Arm None) s)"
    using assms by (simp add: schedule_step_def)
  then show ?thesis using S_Start by (simp add: dispatch_moves goto_schedule_moves)
next
  case (S_Send reference timer)
  then obtain t where "queue_send cid reference s = Some t" and "s' = goto_schedule cid (S_Arm timer) t"
    using assms by (auto simp: schedule_step_def)
  then show ?thesis using send_moves [OF S_Send] by simp
next
  case (S_Arm timer)
  then have "\<exists>tm. s' = goto_schedule cid (S_Wait tm) s" using assms by (auto simp: schedule_step_def)
  then show ?thesis using S_Arm by (auto intro: goto_schedule_moves)
next
  case (S_Wait timer)
  then have "s' = goto_schedule cid S_Done s \<or> s' = dispatch rn cid (Some (Timer_Receive timer)) s"
    using assms by (auto simp: schedule_step_def split: if_splits branch.splits)
  then show ?thesis using S_Wait by (auto intro: goto_schedule_moves dispatch_moves)
next
  case S_Done
  then show ?thesis using assms by (simp add: schedule_step_def)
qed

text \<open>A worker step that leaves the channels alone keeps the tokens it holds.\<close>

lemma goto_worker_moves:
  assumes "holds_semaphore pc = holds_semaphore (sd_worker s cid)" and "holds_target pc = holds_target (sd_worker s cid)"
    and "busy pc = busy (sd_worker s cid)" and "exited pc = exited (sd_worker s cid)"
    and "refresh_ok rn (refresh_of (sd_worker s cid)) \<longrightarrow> refresh_ok rn (refresh_of pc)"
    and "sd_worker t = sd_worker s" and "sd_schedule t = sd_schedule s" and "sd_queues t = sd_queues s"
    and "sd_running t = sd_running s" and "sd_semaphore t = sd_semaphore s" and "sd_targets t = sd_targets s"
  shows "moves rn cid s (goto_worker cid pc t)"
  using assms by (simp add: moves_def flight_ok_def flights_def goto_worker_def)

lemma emit_simps [simp]:
  "sd_worker (emit b e s) = sd_worker s" "sd_schedule (emit b e s) = sd_schedule s"
  "sd_queues (emit b e s) = sd_queues s" "sd_running (emit b e s) = sd_running s"
  "sd_semaphore (emit b e s) = sd_semaphore s" "sd_targets (emit b e s) = sd_targets s"
  "sd_store (emit b e s) = sd_store s" "sd_now (emit b e s) = sd_now s" "sd_canceled (emit b e s) = sd_canceled s"
  by (simp_all add: emit_def)

definition same_control :: "'s sched \<Rightarrow> 's sched \<Rightarrow> bool" where
  "same_control s t \<longleftrightarrow>
     sd_worker t = sd_worker s \<and> sd_schedule t = sd_schedule s \<and> sd_queues t = sd_queues s \<and>
     sd_running t = sd_running s \<and> sd_semaphore t = sd_semaphore s \<and> sd_targets t = sd_targets s"

lemma publish_result_control: "publish_result port rn cid result s = (s', err) \<Longrightarrow> same_control s s'"
  by (auto simp: publish_result_def same_control_def observeCachePublishError_def split: sum.splits prod.splits option.splits)

lemma record_failure_control: "same_control s (record_failure port rn cid (logCollectorFailure rn cid err r s))"
  by (auto simp: record_failure_def logCollectorFailure_def same_control_def observeCachePublishError_def
      split: prod.splits option.splits)

lemma goto_same_control:
  assumes "same_control s t" and "holds_semaphore pc = holds_semaphore (sd_worker s cid)"
    and "holds_target pc = holds_target (sd_worker s cid)"
    and "busy pc = busy (sd_worker s cid)" and "exited pc = exited (sd_worker s cid)"
    and "refresh_ok rn (refresh_of (sd_worker s cid)) \<longrightarrow> refresh_ok rn (refresh_of pc)"
  shows "moves rn cid s (goto_worker cid pc t)"
  using assms by (intro goto_worker_moves) (simp_all add: same_control_def)

lemma same_control_refl [simp]: "same_control s s"
  by (simp add: same_control_def)

lemma same_control_emit [simp]: "same_control s (emit b e s)"
  by (simp add: same_control_def)

lemma refresh_ok_None [simp]: "refresh_ok rn None"
  by (simp add: refresh_ok_def)

lemma enter_loop_ok:
  assumes "runner_wf rn" and "1 \<le> r_attempt r"
    and "bc_Max (sg_Backoff (rn_config rn)) \<le> 2 ^ 53 \<longrightarrow>
      bc_Initial (sg_Backoff (rn_config rn)) \<le> r_delay r \<and> r_delay r \<le> bc_Max (sg_Backoff (rn_config rn))"
  shows "refresh_ok rn (refresh_of (enter_loop rn r))" and "busy (enter_loop rn r)" and "\<not> exited (enter_loop rn r)"
    and "\<not> holds_semaphore (enter_loop rn r)" and "\<not> holds_target (enter_loop rn r)"
  using assms by (simp_all add: enter_loop_def refresh_ok_def busy_def)

lemma busy_pcs [simp]:
  "busy (W_Target r)" "busy (W_Semaphore r)" "busy W_DropTarget" "busy (W_Collect r t)"
  "busy (W_FreeSemaphore r t res)" "busy (W_FreeTarget r t res)" "busy (W_Publish r t res)" "busy (W_Observe r t e)"
  "busy (W_Decide r err)" "busy (W_Backoff r timer)" "busy W_Clear" "\<not> busy W_Select" "\<not> busy W_Exit" "\<not> busy W_Done"
  by (simp_all add: busy_def)

lemma start_refresh_moves:
  assumes "runner_wf rn" and "sd_worker s cid = W_Select" and "sd_queues s cid = reference # rest"
  shows "moves rn cid s (goto_worker cid
    (enter_loop rn \<lparr> r_attempt = 1, r_delay = bc_Initial (sg_Backoff (rn_config rn)), r_reference = reference \<rparr>)
    (s\<lparr> sd_queues := (sd_queues s)(cid := rest) \<rparr>))"
proof -
  let ?pc = "enter_loop rn \<lparr> r_attempt = 1, r_delay = bc_Initial (sg_Backoff (rn_config rn)), r_reference = reference \<rparr>"
  have "bc_Initial (sg_Backoff (rn_config rn)) \<le> bc_Max (sg_Backoff (rn_config rn))"
    using assms(1) by (simp add: runner_wf_def Let_def)
  then have "refresh_ok rn (refresh_of ?pc)" "busy ?pc" "\<not> exited ?pc" "\<not> holds_semaphore ?pc" "\<not> holds_target ?pc"
    by (intro enter_loop_ok [OF assms(1)]; simp)+
  then show ?thesis using assms(2,3) by (simp add: moves_def flight_ok_def flights_def goto_worker_def)
qed

lemma retry_moves:
  assumes "runner_wf rn" and "sd_worker s cid = W_Backoff r timer"
  shows "moves rn cid s (goto_worker cid
    (enter_loop rn \<lparr> r_attempt = r_attempt r + 1, r_delay = nextBackoff impl rn (r_delay r), r_reference = sd_now s \<rparr>) s)"
proof -
  let ?r = "\<lparr> r_attempt = r_attempt r + 1, r_delay = nextBackoff impl rn (r_delay r), r_reference = sd_now s \<rparr>"
  let ?b = "sg_Backoff (rn_config rn)"
  have pos: "0 < bc_Initial ?b" using assms(1) by (simp add: runner_wf_def Let_def)
  have "refresh_ok rn (refresh_of (enter_loop rn ?r))" if ok: "refresh_ok rn (Some r)"
  proof (rule enter_loop_ok(1) [OF assms(1)])
    show "1 \<le> r_attempt ?r" using ok by (simp add: refresh_ok_def)
    show "bc_Max ?b \<le> 2 ^ 53 \<longrightarrow> bc_Initial ?b \<le> r_delay ?r \<and> r_delay ?r \<le> bc_Max ?b"
      using ok pos nextBackoff_bounds [OF assms(1), of "r_delay r" impl] unfolding refresh_ok_def by auto
  qed
  moreover have "busy (enter_loop rn ?r)" "\<not> exited (enter_loop rn ?r)" "\<not> holds_semaphore (enter_loop rn ?r)"
    "\<not> holds_target (enter_loop rn ?r)" by (simp_all add: enter_loop_def busy_def)
  ultimately show ?thesis using assms(2) by (intro goto_same_control) simp_all
qed

lemma decide_moves: "sd_worker s cid = W_Decide r err \<Longrightarrow> moves rn cid s (decide port rn cid r err s)"
  unfolding decide_def Let_def
  by (auto intro!: goto_same_control simp: record_failure_control)

lemma target_moves:
  "sd_worker s cid = W_Target r \<Longrightarrow> target_add cid s = Some t \<Longrightarrow> moves rn cid s (goto_worker cid (W_Semaphore r) t)"
  "sd_worker s cid = W_DropTarget \<Longrightarrow> target_take cid s = Some t \<Longrightarrow> moves rn cid s (goto_worker cid W_Clear t)"
  "sd_worker s cid = W_FreeTarget r st res \<Longrightarrow> target_take cid s = Some t \<Longrightarrow>
     moves rn cid s (goto_worker cid (W_Publish r st res) t)"
  by (auto simp: target_add_def target_take_def moves_def flight_ok_def flights_def goto_worker_def
      split: if_splits nat.splits)

lemma semaphore_moves:
  "sd_worker s cid = W_Semaphore r \<Longrightarrow> semaphore_add rn s = Some t \<Longrightarrow>
     moves rn cid s (goto_worker cid (W_Collect r now) t)"
  "sd_worker s cid = W_FreeSemaphore r st res \<Longrightarrow> semaphore_take s = Some t \<Longrightarrow>
     moves rn cid s (goto_worker cid (W_FreeTarget r st res) t)"
  by (auto simp: semaphore_add_def semaphore_take_def moves_def flight_ok_def flights_def goto_worker_def
      split: if_splits nat.splits)

lemma clear_moves:
  "sd_worker s cid = W_Clear \<Longrightarrow> moves rn cid s (goto_worker cid W_Select (clearRunning cid s))"
  "sd_worker s cid = W_Exit \<Longrightarrow> moves rn cid s (goto_worker cid W_Done (clearRunning cid s))"
  by (auto simp: moves_def flight_ok_def flights_def goto_worker_def clearRunning_def split: if_splits)

lemma worker_ready_moves:
  assumes "runner_wf rn" and "worker_ready impl port rn cid result s = Some s'"
  shows "moves rn cid s s'"
  using assms(2)
proof (cases "sd_worker s cid")
  case W_Select
  then show ?thesis
    using assms(2) start_refresh_moves [OF assms(1)] by (auto simp: worker_ready_def split: list.splits)
next
  case (W_Publish r st res)
  then show ?thesis
    using assms(2)
    by (auto simp: worker_ready_def split: prod.splits intro!: goto_same_control dest: publish_result_control)
next
  case (W_Backoff r timer)
  then show ?thesis using assms(2) retry_moves [OF assms(1)] by (auto simp: worker_ready_def split: if_splits)
next
  case (W_Collect r st)
  then show ?thesis using assms(2) by (auto simp: worker_ready_def intro!: goto_same_control)
next
  case (W_Observe r st err)
  then show ?thesis
    using assms(2) by (auto simp: worker_ready_def intro!: goto_same_control split: option.splits)
qed (auto simp: worker_ready_def intro: target_moves semaphore_moves decide_moves clear_moves)

lemma exit_moves: "sd_worker s cid = W_Select \<Longrightarrow> moves rn cid s (goto_worker cid W_Exit s)"
  by (simp add: moves_def flight_ok_def flights_def goto_worker_def)

lemma worker_done_moves:
  assumes "worker_done cid s = Some s'"
  shows "moves rn cid s s'"
proof (cases "sd_worker s cid")
  case W_Select
  then show ?thesis using assms exit_moves by (auto simp: worker_done_def split: if_splits)
qed (use assms in \<open>auto simp: worker_done_def intro!: goto_same_control split: if_splits\<close>)

lemma job_of_ids: "job_of rn cid = Some job \<Longrightarrow> cid \<in> set (job_ids rn)"
  by (force simp: job_of_def job_ids_def List.map_filter_def find_Some_iff image_iff)

lemma sched_inv_env [simp]:
  "sched_inv rn (s\<lparr> sd_now := n \<rparr>) = sched_inv rn s" "sched_inv rn (s\<lparr> sd_canceled := b \<rparr>) = sched_inv rn s"
  by (simp_all add: sched_inv_def semaphore_holders_def target_holders_def flight_ok_def flights_def)

lemma runner_step_inv:
  assumes "runner_wf rn" and "sched_inv rn s" and "runner_step impl port rn c s = Some s'"
  shows "sched_inv rn s'"
proof (cases c)
  case (ScheduleStep cid b u1 u2)
  then obtain job where "job_of rn cid = Some job" "schedule_step impl rn job cid b u1 u2 s = Some s'"
    using assms(3) by (auto split: option.splits)
  then show ?thesis using moves_inv [OF schedule_moves job_of_ids assms(2)] by blast
next
  case (WorkerStep cid b result)
  then obtain job where "job_of rn cid = Some job"
    "(case b of TakeReady \<Rightarrow> worker_ready impl port rn cid result s | TakeDone \<Rightarrow> worker_done cid s) = Some s'"
    using assms(3) by (auto split: option.splits)
  moreover from this have "moves rn cid s s'"
    using worker_ready_moves [OF assms(1)] worker_done_moves by (auto split: branch.splits)
  ultimately show ?thesis using moves_inv job_of_ids assms(2) by blast
qed (use assms in \<open>auto split: if_splits\<close>)

lemma Run_start_inv: "runner_wf rn \<Longrightarrow> sched_inv rn (Run_start now store)"
  by (simp add: sched_inv_def Run_start_def semaphore_holders_def target_holders_def flight_ok_def flights_def
      runner_wf_def)

definition runner_moves :: "(float64 \<Rightarrow> int) \<Rightarrow> 's StorePort \<Rightarrow> Runner \<Rightarrow> 's sched \<Rightarrow> 's sched \<Rightarrow> bool" where
  "runner_moves impl port rn s s' \<longleftrightarrow> (\<exists>c. runner_step impl port rn c s = Some s')"

definition runner_init :: "Runner \<Rightarrow> ('s \<Rightarrow> bool) \<Rightarrow> 's sched \<Rightarrow> bool" where
  "runner_init rn good s \<longleftrightarrow> runner_wf rn \<and> (\<exists>now store. good store \<and> s = Run_start now store)"

interpretation runner_system: invariant_system "runner_init rn good" "runner_moves impl port rn"
  "\<lambda>s. runner_wf rn \<and> sched_inv rn s"
  for rn good impl port
proof
  show "runner_wf rn \<and> sched_inv rn s" if "runner_init rn good s" for s
    using that Run_start_inv by (auto simp: runner_init_def)
  show "runner_wf rn \<and> sched_inv rn t" if "runner_wf rn \<and> sched_inv rn s" "runner_moves impl port rn s t" for s t
    using that runner_step_inv by (auto simp: runner_moves_def)
qed

section \<open>Properties of every interleaving\<close>

abbreviation runs :: "(float64 \<Rightarrow> int) \<Rightarrow> 's StorePort \<Rightarrow> Runner \<Rightarrow> ('s \<Rightarrow> bool) \<Rightarrow> 's sched \<Rightarrow> bool" where
  "runs impl port rn good \<equiv> reach (runner_init rn good) (runner_moves impl port rn)"

lemma runs_inv:
  assumes "runs impl port rn good s"
  shows "runner_wf rn" and "sched_inv rn s"
  using runner_system.reachable_inv [OF assms] by auto

fun collecting :: "worker_pc \<Rightarrow> bool" where
  "collecting (W_Collect r t) = True"
| "collecting _ = False"

lemma collecting_holds: "collecting pc \<Longrightarrow> holds_semaphore pc \<and> holds_target pc"
  by (cases pc) simp_all

text \<open>
  C3. Concurrency limits: whatever the interleaving of schedulers, workers, clock and
  cancellation, at most \<open>MaxConcurrency\<close> collectors are inside \<open>Collect\<close> at any moment, and at
  most one of any target.
\<close>

theorem scheduler_concurrency_bounds:
  assumes "runs impl port rn good s"
  shows "int (card {i \<in> set (job_ids rn). collecting (sd_worker s i)}) \<le> sg_MaxConcurrency (rn_config rn) \<and>
    (\<forall>t. card {i \<in> set (job_ids rn). id_Target i = t \<and> collecting (sd_worker s i)} \<le> 1)"
proof -
  have inv: "sched_inv rn s" using runs_inv(2) [OF assms] .
  have "card {i \<in> set (job_ids rn). collecting (sd_worker s i)} \<le> card (semaphore_holders rn s)"
    unfolding semaphore_holders_def by (intro card_mono) (auto dest: collecting_holds)
  moreover have "card {i \<in> set (job_ids rn). id_Target i = t \<and> collecting (sd_worker s i)} \<le>
      card (target_holders rn s t)" for t
    unfolding target_holders_def by (intro card_mono) (auto dest: collecting_holds)
  ultimately show ?thesis using inv unfolding sched_inv_def by (metis (no_types, lifting) of_nat_mono order_trans)
qed

text \<open>
  C16. Single flight: until its worker exits, a collector has at most one refresh under way
  (about to be queued, queued or being collected), its running flag is set exactly then, and a
  scheduler that has claimed the flag finds the queue empty, so its send does not block.
\<close>

theorem scheduler_single_flight:
  assumes "runs impl port rn good s" and "i \<in> set (job_ids rn)" and "\<not> exited (sd_worker s i)"
  shows "flights s i \<le> 1 \<and> (sd_running s i \<longleftrightarrow> flights s i = 1) \<and>
    (sending (sd_schedule s i) \<longrightarrow> (\<exists>s'. queue_send i reference s = Some s') \<and> sd_worker s i = W_Select)"
proof -
  have f: "flights s i = of_bool (sd_running s i)"
    using runs_inv(2) [OF assms(1)] assms(2,3) unfolding sched_inv_def flight_ok_def by blast
  then have "length (sd_queues s i) = 0 \<and> \<not> busy (sd_worker s i)" if "sending (sd_schedule s i)"
    using that unfolding flights_def by (cases "sd_running s i") simp_all
  then show ?thesis using f assms(3) by (auto simp: queue_send_def busy_def)
qed

text \<open>
  Retry discipline: every attempt of every refresh has a number between 1 and \<open>MaxAttempts\<close>,
  itself at most 10, and the delay before the next one stays between the initial and the maximal
  backoff (for a maximum up to \<open>2^53\<close> nanoseconds, about 104 days, where the conversion to
  float64 is exact).
\<close>

theorem scheduler_retry_discipline:
  assumes "runs impl port rn good s" and "i \<in> set (job_ids rn)" and "refresh_of (sd_worker s i) = Some r"
  shows "1 \<le> r_attempt r \<and> r_attempt r \<le> bc_MaxAttempts (sg_Backoff (rn_config rn)) \<and> r_attempt r \<le> 10 \<and>
    (bc_Max (sg_Backoff (rn_config rn)) \<le> 2 ^ 53 \<longrightarrow>
       bc_Initial (sg_Backoff (rn_config rn)) \<le> r_delay r \<and> r_delay r \<le> bc_Max (sg_Backoff (rn_config rn)))"
proof -
  have "refresh_ok rn (Some r)"
    using runs_inv(2) [OF assms(1)] assms(2,3) unfolding sched_inv_def by metis
  moreover have "bc_MaxAttempts (sg_Backoff (rn_config rn)) \<le> 10"
    using runs_inv(1) [OF assms(1)] by (simp add: runner_wf_def Let_def)
  ultimately show ?thesis by (simp add: refresh_ok_def)
qed

text \<open>
  Waiting times: an accepted runner's jittered delay is at least the interval and at most one
  and a half times it, for any finite random draw; its next backoff never shrinks and never
  exceeds the maximum.
\<close>

theorem scheduler_delay_bounds:
  assumes "NewJobs jobs store clock config = Inr rn"
  shows "(0 \<le> interval \<and> interval \<le> 2 ^ 53 \<longrightarrow>
      interval \<le> nextDelay impl rn (F_Fin u) interval \<and> 2 * nextDelay impl rn (F_Fin u) interval \<le> 3 * interval) \<and>
    (0 < delay \<and> delay \<le> bc_Max (sg_Backoff config) \<and> bc_Max (sg_Backoff config) \<le> 2 ^ 53 \<longrightarrow>
      delay \<le> nextBackoff impl rn delay \<and> nextBackoff impl rn delay \<le> bc_Max (sg_Backoff config))"
proof -
  have rn: "runner_wf rn" "rn_config rn = config" using assms by (auto simp: NewJobs_accepts)
  then show ?thesis
    using nextDelay_bounds [OF rn(1) refl [of "F_Fin u"], of interval impl] nextBackoff_bounds [OF rn(1), of delay impl] by auto
qed

text \<open>
  The constructor accepts exactly the sound configurations: \<open>NewJobs\<close> succeeds if and only
  if there is a store, a clock and a job, every job has a positive interval and a valid collector
  identity, no two share one, and the limits, jitter and backoff are in range.
\<close>

theorem scheduler_config_validated:
  "NewJobs jobs store clock config = Inr rn \<longleftrightarrow>
     rn = \<lparr> rn_jobs = jobs, rn_config = config \<rparr> \<and> store \<noteq> None \<and> clock \<noteq> None \<and> jobs_wf jobs \<and>
     0 < sg_MaxConcurrency config \<and> (\<exists>q. sg_JitterRatio config = F_Fin q \<and> 0 \<le> q \<and> q \<le> 1/2) \<and>
     1 \<le> bc_MaxAttempts (sg_Backoff config) \<and> bc_MaxAttempts (sg_Backoff config) \<le> 10 \<and>
     0 < bc_Initial (sg_Backoff config) \<and> bc_Initial (sg_Backoff config) \<le> bc_Max (sg_Backoff config) \<and>
     (\<exists>m. bc_Multiplier (sg_Backoff config) = F_Fin m \<and> 1 < m)"
  unfolding NewJobs_accepts by (auto simp: runner_wf_def Let_def)

section \<open>The runner drives the store through its own steps only\<close>

lemma publish_result_store:
  assumes "publish_result memory_port rn cid result s = (s', err)"
  shows "store_step\<^sup>=\<^sup>= (sd_store s) (sd_store s')"
proof (cases result)
  case (Inr partial)
  obtain st e where p: "Publish (sd_now s) cid partial (sd_store s) = (st, e)" by fastforce
  then have "store_step (sd_store s) st" using step_publish [of "sd_store s" "sd_now s" cid partial] by simp
  moreover have "sd_store s' = st"
    using assms p Inr by (cases e) (auto simp: publish_result_def memory_port_def observeCachePublishError_def)
  ultimately show ?thesis by simp
qed (use assms in \<open>simp add: publish_result_def\<close>)

lemma record_failure_store: "store_step (sd_store s) (sd_store (record_failure memory_port rn cid s))"
proof -
  obtain st e where p: "RecordFailure (sd_now s) cid (sd_store s) = (st, e)" by fastforce
  then have "store_step (sd_store s) st" using step_failure [of "sd_store s" "sd_now s" cid] by simp
  moreover have "sd_store (record_failure memory_port rn cid s) = st"
    using p by (cases e) (auto simp: record_failure_def memory_port_def observeCachePublishError_def)
  ultimately show ?thesis by simp
qed

lemma decide_store: "store_step\<^sup>=\<^sup>= (sd_store s) (sd_store (decide memory_port rn cid r err s))"
  using record_failure_store [of "logCollectorFailure rn cid err (canRetry err) s" rn cid]
  by (auto simp: decide_def Let_def goto_worker_def logCollectorFailure_def)

lemma channel_store:
  "target_add cid s = Some t \<Longrightarrow> sd_store t = sd_store s" "target_take cid s = Some t \<Longrightarrow> sd_store t = sd_store s"
  "semaphore_add rn s = Some t \<Longrightarrow> sd_store t = sd_store s" "semaphore_take s = Some t \<Longrightarrow> sd_store t = sd_store s"
  "queue_send cid reference s = Some t \<Longrightarrow> sd_store t = sd_store s"
  by (auto simp: target_add_def target_take_def semaphore_add_def semaphore_take_def queue_send_def
      split: if_splits nat.splits)

lemma goto_store [simp]:
  "sd_store (goto_worker cid pc s) = sd_store s" "sd_store (goto_schedule cid p s) = sd_store s"
  "sd_store (clearRunning cid s) = sd_store s"
  by (simp_all add: goto_worker_def goto_schedule_def clearRunning_def)

lemma worker_ready_store:
  assumes "worker_ready impl memory_port rn cid result s = Some s'"
  shows "store_step\<^sup>=\<^sup>= (sd_store s) (sd_store s')"
proof (cases "sd_worker s cid")
  case (W_Publish r st res)
  obtain t e where p: "publish_result memory_port rn cid res s = (t, e)" by fastforce
  then have "sd_store s' = sd_store t" using assms W_Publish by (auto simp: worker_ready_def)
  then show ?thesis using publish_result_store [OF p] by simp
next
  case (W_Decide r e)
  then show ?thesis using assms decide_store [of s rn cid r e] by (simp add: worker_ready_def)
next
  case W_Select
  then show ?thesis using assms by (auto simp: worker_ready_def split: list.splits)
qed (use assms in \<open>auto simp: worker_ready_def channel_store split: if_splits\<close>)

lemma worker_done_store: "worker_done cid s = Some s' \<Longrightarrow> sd_store s' = sd_store s"
  by (cases "sd_worker s cid") (auto simp: worker_done_def split: if_splits)

lemma dispatch_store: "sd_store (dispatch rn cid timer s) = sd_store s"
  by (simp add: dispatch_def dispatch_claim_def split: prod.split)

lemma schedule_step_store: "schedule_step impl rn job cid b u1 u2 s = Some s' \<Longrightarrow> sd_store s' = sd_store s"
  by (cases "sd_schedule s cid"; cases b) (auto simp: schedule_step_def dispatch_store channel_store split: if_splits)

lemma runner_step_store:
  assumes "runner_step impl memory_port rn c s = Some s'"
  shows "store_step\<^sup>=\<^sup>= (sd_store s) (sd_store s')"
proof (cases c)
  case (ScheduleStep cid b u1 u2)
  then obtain job where "schedule_step impl rn job cid b u1 u2 s = Some s'" using assms by (auto split: option.splits)
  then have "sd_store s' = sd_store s" by (rule schedule_step_store)
  then show ?thesis by simp
next
  case (WorkerStep cid b result)
  show ?thesis
  proof (cases b)
    case TakeReady
    then have "worker_ready impl memory_port rn cid result s = Some s'"
      using assms WorkerStep by (auto split: option.splits)
    then show ?thesis by (rule worker_ready_store)
  next
    case TakeDone
    then have "worker_done cid s = Some s'" using assms WorkerStep by (auto split: option.splits)
    then show ?thesis by (simp add: worker_done_store)
  qed
qed (use assms in \<open>auto split: if_splits\<close>)


section \<open>Progress, and the shutdown race\<close>

lemma holder_steps:
  assumes "sched_inv rn s" and "i \<in> set (job_ids rn)" and "job_of rn i \<noteq> None"
    and "holds_semaphore (sd_worker s i) \<or> holds_target (sd_worker s i) \<and> (\<forall>r. sd_worker s i \<noteq> W_Semaphore r)"
  shows "runner_step impl port rn (WorkerStep i TakeReady result) s \<noteq> None"
proof -
  have t: "sd_targets s (id_Target i) \<noteq> 0" if h: "holds_target (sd_worker s i)"
  proof -
    have "i \<in> target_holders rn s (id_Target i)" using h assms(2) by (simp add: target_holders_def)
    moreover have "finite (target_holders rn s (id_Target i))" by (simp add: target_holders_def)
    ultimately have "card (target_holders rn s (id_Target i)) \<noteq> 0" by auto
    then show ?thesis using assms(1) by (simp add: sched_inv_def)
  qed
  have m: "sd_semaphore s \<noteq> 0" if h: "holds_semaphore (sd_worker s i)"
  proof -
    have "i \<in> semaphore_holders rn s" using h assms(2) by (simp add: semaphore_holders_def)
    moreover have "finite (semaphore_holders rn s)" by (simp add: semaphore_holders_def)
    ultimately have "card (semaphore_holders rn s) \<noteq> 0" by auto
    then show ?thesis using assms(1) by (simp add: sched_inv_def)
  qed
  obtain job where "job_of rn i = Some job" using assms(3) by blast
  then show ?thesis
    using assms(4) t m
    by (cases "sd_worker s i") (auto simp: worker_ready_def target_take_def semaphore_take_def split: nat.splits)
qed

lemma job_ids_of: "runner_wf rn \<Longrightarrow> i \<in> set (job_ids rn) \<Longrightarrow> job_of rn i \<noteq> None"
  by (auto simp: job_ids_def job_of_def List.map_filter_def find_None_iff)

text \<open>Some worker that holds a token, or the given one, can take a step.\<close>

definition progress :: "(float64 \<Rightarrow> int) \<Rightarrow> 's StorePort \<Rightarrow> Runner \<Rightarrow> CollectorID \<Rightarrow> go_error + Snapshot \<Rightarrow> 's sched \<Rightarrow> bool" where
  "progress impl port rn i result s \<longleftrightarrow>
     (\<exists>j \<in> set (job_ids rn). (j = i \<or> holds_semaphore (sd_worker s j) \<or> holds_target (sd_worker s j)) \<and>
        runner_step impl port rn (WorkerStep j TakeReady result) s \<noteq> None)"

lemma semaphore_progress:
  assumes "runner_wf rn" and "sched_inv rn s" and "j \<in> set (job_ids rn)" and "sd_worker s j = W_Semaphore q"
  shows "progress impl port rn i result s"
proof (cases "int (sd_semaphore s) < sg_MaxConcurrency (rn_config rn)")
  case True
  then have "runner_step impl port rn (WorkerStep j TakeReady result) s \<noteq> None"
    using assms(4) job_ids_of [OF assms(1,3)] by (auto simp: worker_ready_def semaphore_add_def)
  moreover have "holds_target (sd_worker s j)" using assms(4) by simp
  ultimately show ?thesis using assms(3) by (auto simp: progress_def)
next
  case False
  then have "sd_semaphore s \<noteq> 0" using assms(1) by (auto simp: runner_wf_def)
  then have "semaphore_holders rn s \<noteq> {}" using assms(2) by (auto simp: sched_inv_def)
  then obtain k where k: "k \<in> set (job_ids rn)" "holds_semaphore (sd_worker s k)"
    by (auto simp: semaphore_holders_def)
  from holder_steps [OF assms(2) k(1) job_ids_of [OF assms(1) k(1)] disjI1 [OF k(2)]] show ?thesis
    using k unfolding progress_def by blast
qed

lemma target_progress:
  assumes "runner_wf rn" and "sched_inv rn s" and "i \<in> set (job_ids rn)" and "sd_worker s i = W_Target r"
  shows "progress impl port rn i result s"
proof (cases "sd_targets s (id_Target i) < 1")
  case True
  then have "runner_step impl port rn (WorkerStep i TakeReady result) s \<noteq> None"
    using assms(4) job_ids_of [OF assms(1,3)] by (auto simp: worker_ready_def target_add_def)
  then show ?thesis using assms(3) unfolding progress_def by blast
next
  case False
  then have "target_holders rn s (id_Target i) \<noteq> {}" using assms(2) by (auto simp: sched_inv_def)
  then obtain k where k: "k \<in> set (job_ids rn)" "holds_target (sd_worker s k)" by (auto simp: target_holders_def)
  show ?thesis
  proof (cases "\<exists>q. sd_worker s k = W_Semaphore q")
    case True
    then show ?thesis using semaphore_progress [OF assms(1,2) k(1)] by blast
  next
    case False
    then have "holds_semaphore (sd_worker s k) \<or> holds_target (sd_worker s k) \<and> (\<forall>r. sd_worker s k \<noteq> W_Semaphore r)"
      using k(2) by simp
    from holder_steps [OF assms(2) k(1) job_ids_of [OF assms(1) k(1)] this] show ?thesis using k unfolding progress_def by blast
  qed
qed

text \<open>
  C39. No deadlock: in any reachable state in which a worker waits for its target or for the
  semaphore, some worker can take a step: the waiting one if the token is free, otherwise a holder
  of the token, so every wait is on a worker that is itself able to move.
\<close>

theorem scheduler_no_deadlock:
  assumes "runs impl port rn good s" and "i \<in> set (job_ids rn)"
    and "sd_worker s i = W_Target r \<or> sd_worker s i = W_Semaphore r"
  shows "\<exists>j \<in> set (job_ids rn). (j = i \<or> holds_semaphore (sd_worker s j) \<or> holds_target (sd_worker s j)) \<and>
    runner_step impl port rn (WorkerStep j TakeReady result) s \<noteq> None"
proof -
  note inv = runs_inv [OF assms(1)]
  have "progress impl port rn i result s"
    using assms(3) semaphore_progress [OF inv(1,2) assms(2)] target_progress [OF inv(1,2) assms(2)] by blast
  then show ?thesis unfolding progress_def .
qed

text \<open>The blocked scheduler: a claimed flag, a full queue and no worker left to empty it.\<close>

definition stuck :: "CollectorID \<Rightarrow> 's sched \<Rightarrow> bool" where
  "stuck cid s \<longleftrightarrow> sending (sd_schedule s cid) \<and> sd_queues s cid \<noteq> [] \<and> sd_worker s cid = W_Done"

lemma moves_other: "moves rn cid s s' \<Longrightarrow> i \<noteq> cid \<Longrightarrow> stuck i s \<Longrightarrow> stuck i s'"
  by (simp add: moves_def stuck_def)

lemma stuck_step:
  assumes "runner_wf rn" and "stuck i s" and "runner_step impl port rn c s = Some s'"
  shows "stuck i s'"
proof (cases c)
  case (ScheduleStep cid b u1 u2)
  then obtain job where st: "schedule_step impl rn job cid b u1 u2 s = Some s'"
    using assms(3) by (auto split: option.splits)
  have "i \<noteq> cid"
  proof
    assume "i = cid"
    then obtain ref tm where "sd_schedule s cid = S_Send ref tm" "sd_queues s cid \<noteq> []"
      using assms(2) by (cases "sd_schedule s cid") (auto simp: stuck_def)
    then show False using st by (auto simp: schedule_step_def queue_send_def)
  qed
  then show ?thesis using moves_other [OF schedule_moves [OF st]] assms(2) by blast
next
  case (WorkerStep cid b result)
  then have st: "(case b of TakeReady \<Rightarrow> worker_ready impl port rn cid result s | TakeDone \<Rightarrow> worker_done cid s) = Some s'"
    using assms(3) by (auto split: option.splits)
  have "i \<noteq> cid"
    using st assms(2) by (cases b) (auto simp: stuck_def worker_ready_def worker_done_def split: if_splits)
  moreover have "moves rn cid s s'"
    using st worker_ready_moves [OF assms(1)] worker_done_moves by (auto split: branch.splits)
  ultimately show ?thesis using moves_other assms(2) by blast
qed (use assms in \<open>auto simp: stuck_def split: if_splits\<close>)

lemma stuck_forever:
  assumes "(runner_moves impl port rn)\<^sup>*\<^sup>* s t" and "runner_wf rn" and "stuck i s"
  shows "stuck i t"
  using assms by (induction rule: rtranclp_induct) (auto simp: runner_moves_def intro: stuck_step)

definition sample_runner :: Runner where
  "sample_runner =
     \<lparr> rn_jobs = [\<lparr> j_Collector = Some (sample_id ''total''), j_Interval = 10, j_StartupRefresh = False \<rparr>],
       rn_config = \<lparr> sg_Interval = 10, sg_StartupRefresh = False, sg_JitterRatio = F_Fin 0, sg_MaxConcurrency = 1,
         sg_Backoff = \<lparr> bc_MaxAttempts = 3, bc_Initial = 1, bc_Max = 8, bc_Multiplier = F_Fin 2 \<rparr>,
         sg_Observer = True, sg_Logger = False \<rparr> \<rparr>"

definition sched_choice :: "branch \<Rightarrow> choice" where
  "sched_choice b = ScheduleStep (sample_id ''total'') b (F_Fin 0) (F_Fin 0)"

definition work_choice :: "branch \<Rightarrow> choice" where
  "work_choice b = WorkerStep (sample_id ''total'') b (Inr (sample_part ''a''))"

text \<open>
  The execution: a reference is queued, the context is cancelled before the worker takes it, the
  worker's select takes the cancelled branch and the deferred \<open>clearRunning\<close> drops the flag, and
  the scheduler's select takes the timer branch once more.
\<close>

definition hang_trace :: "choice list" where
  "hang_trace =
     [sched_choice TakeReady, sched_choice TakeReady, Tick 10, sched_choice TakeReady, sched_choice TakeReady,
      sched_choice TakeReady, Tick 10, CancelContext, work_choice TakeDone, work_choice TakeReady,
      sched_choice TakeReady]"

lemma execute_runs:
  "runs impl port rn good s \<Longrightarrow> execute impl port rn cs s = Some t \<Longrightarrow> runs impl port rn good t"
proof (induction cs arbitrary: s)
  case (Cons c cs)
  then obtain s1 where s1: "runner_step impl port rn c s = Some s1" and run: "execute impl port rn cs s1 = Some t"
    by (auto split: option.splits)
  have "runner_moves impl port rn s s1" using s1 by (auto simp: runner_moves_def)
  then have "runs impl port rn good s1" using Cons.prems(1) by (rule reach_step [rotated])
  then show ?case using run by (rule Cons.IH)
qed simp

lemma sample_runner_wf: "runner_wf sample_runner"
  by (simp add: runner_wf_def sample_runner_def jobs_wf_def Let_def List.map_filter_def) code_simp

text \<open>
  C40. The shutdown race: there is an execution after which \<open>Run\<close> never returns. The scheduler
  has claimed the running flag the exiting worker released and blocks on the full queue, and no
  continuation whatever lets every goroutine finish.
\<close>

theorem scheduler_shutdown_can_hang:
  "\<exists>s. execute (\<lambda>_. 0) memory_port sample_runner hang_trace (Run_start 0 store0) = Some s \<and> sd_canceled s \<and>
     \<not> (\<exists>t. (runner_moves (\<lambda>_. 0) memory_port sample_runner)\<^sup>*\<^sup>* s t \<and> Run_returns sample_runner t)"
proof -
  have "case execute (\<lambda>_. 0) memory_port sample_runner hang_trace (Run_start 0 store0) of
      None \<Rightarrow> False | Some s \<Rightarrow> sd_canceled s \<and> stuck (sample_id ''total'') s" by code_simp
  then obtain s where s: "execute (\<lambda>_. 0) memory_port sample_runner hang_trace (Run_start 0 store0) = Some s"
    "sd_canceled s" "stuck (sample_id ''total'') s" by (auto split: option.splits)
  have "\<not> Run_returns sample_runner t" if "stuck (sample_id ''total'') t" for t :: "Store sched"
    using that by (auto simp: Run_returns_def stuck_def sample_runner_def job_ids_def List.map_filter_def)
  then show ?thesis using s stuck_forever [OF _ sample_runner_wf s(3)] by blast
qed

section \<open>Concrete executions\<close>

definition sample_trace :: "choice list" where
  "sample_trace =
     [sched_choice TakeReady, sched_choice TakeReady, Tick 10, sched_choice TakeReady, sched_choice TakeReady,
      work_choice TakeReady, work_choice TakeReady, work_choice TakeReady, work_choice TakeReady,
      work_choice TakeReady, work_choice TakeReady, work_choice TakeReady]"

definition sample_at :: "nat \<Rightarrow> Store sched" where
  "sample_at n =
     (case execute (\<lambda>_. 0) memory_port sample_runner (take n sample_trace) (Run_start 0 store0) of
        None \<Rightarrow> Run_start 0 store0 | Some s \<Rightarrow> s)"

lemma sample_start: "runs impl memory_port sample_runner store_init (Run_start 0 store0)"
  by (rule reach.reach_init) (use sample_runner_wf store0_init in \<open>auto simp: runner_init_def\<close>)

lemma sample_runs: "runs (\<lambda>_. 0) memory_port sample_runner store_init (sample_at n)"
  using sample_start execute_runs [OF sample_start, of "\<lambda>_. 0" "take n sample_trace"]
  by (auto simp: sample_at_def split: option.split)

lemma sample_job: "sample_id ''total'' \<in> set (job_ids sample_runner)"
  by (simp add: sample_runner_def job_ids_def List.map_filter_def)

theorem scheduler_concurrency_bounds_witness:
  "collecting (sd_worker (sample_at 8) (sample_id ''total'')) \<and>
   int (card {i \<in> set (job_ids sample_runner). collecting (sd_worker (sample_at 8) i)}) \<le> 1"
proof -
  have "collecting (sd_worker (sample_at 8) (sample_id ''total''))" by code_simp
  then show ?thesis using scheduler_concurrency_bounds [OF sample_runs [of 8]] by (simp add: sample_runner_def)
qed

theorem scheduler_single_flight_witness:
  "sending (sd_schedule (sample_at 4) (sample_id ''total'')) \<and> sd_running (sample_at 4) (sample_id ''total'') \<and>
   flights (sample_at 4) (sample_id ''total'') = 1"
proof -
  have "sending (sd_schedule (sample_at 4) (sample_id ''total''))" "sd_running (sample_at 4) (sample_id ''total'')"
    "\<not> exited (sd_worker (sample_at 4) (sample_id ''total''))" by code_simp+
  then show ?thesis using scheduler_single_flight [OF sample_runs sample_job] by blast
qed

theorem scheduler_retry_discipline_witness:
  "\<exists>r. refresh_of (sd_worker (sample_at 6) (sample_id ''total'')) = Some r \<and> 1 \<le> r_attempt r \<and> r_attempt r \<le> 10"
proof -
  have "refresh_of (sd_worker (sample_at 6) (sample_id ''total'')) \<noteq> None" by code_simp
  then obtain r where "refresh_of (sd_worker (sample_at 6) (sample_id ''total'')) = Some r" by blast
  then show ?thesis using scheduler_retry_discipline [OF sample_runs sample_job] by blast
qed

theorem scheduler_delay_bounds_witness:
  "nextBackoff (\<lambda>_. 0) sample_runner 3 \<le> 8 \<and> 10 \<le> nextDelay (\<lambda>_. 0) sample_runner (F_Fin (1/2)) 10"
proof -
  have "NewJobs (rn_jobs sample_runner) (Some store0) (Some ()) (rn_config sample_runner) = Inr sample_runner"
    using sample_runner_wf by (simp add: NewJobs_accepts)
  from scheduler_delay_bounds [OF this, of 10 "\<lambda>_. 0" "1/2" 3] show ?thesis by (simp add: sample_runner_def)
qed


theorem scheduler_no_deadlock_witness:
  "\<exists>j \<in> set (job_ids sample_runner).
     runner_step (\<lambda>_. 0) memory_port sample_runner (WorkerStep j TakeReady (Inr (sample_part ''a''))) (sample_at 6) \<noteq> None"
proof -
  have "case sd_worker (sample_at 6) (sample_id ''total'') of W_Target r \<Rightarrow> True | _ \<Rightarrow> False" by code_simp
  then obtain r where "sd_worker (sample_at 6) (sample_id ''total'') = W_Target r" by (auto split: worker_pc.splits)
  then show ?thesis using scheduler_no_deadlock [OF sample_runs sample_job] by blast
qed

end
