(* ===== verification/Config_Validation.thy ===== *)
theory Config_Validation
  imports Scheduler Cost_Explorer
begin

text \<open>
  Package \<open>internal/config\<close>: the configuration records, the defaults and the validation that both
  startup and \<open>--check-config\<close> run. The process environment (\<open>os.LookupEnv\<close>) and the URL and IP
  parsers of the standard library are the arguments \<open>env\<close>, \<open>parseURL\<close> and \<open>parseIP\<close>. An error is
  nil (\<open>None\<close>) or a message whose indices are not represented. The loader is in theory
  \<open>Loader\<close>.
\<close>

section \<open>schema.go\<close>

record ServerConfig =
  sv_ListenAddress :: string
  sv_MetricsPath :: string
  sv_ReadHeaderTimeout :: duration
  sv_ReadTimeout :: duration
  sv_WriteTimeout :: duration
  sv_IdleTimeout :: duration
  sv_ShutdownTimeout :: duration
  sv_MaxInFlight :: int
  sv_DebugEnabled :: bool

record LogConfig =
  lg_Level :: string
  lg_Format :: string
  lg_AddSource :: bool

record CredentialSourceConfig =
  cr_Type :: string
  cr_Profile :: string
  cr_AccessKeyIDEnv :: string
  cr_SecretAccessKeyEnv :: string
  cr_SessionTokenEnv :: string

record EndpointsConfig =
  ep_STS :: string
  ep_CostExplorer :: string
  ep_Organizations :: string
  ep_Budgets :: string
  ep_Athena :: string

record RetryConfig =
  rt_MaxAttempts :: int
  rt_BaseDelay :: duration
  rt_MaxBackoff :: duration

record RateLimitConfig =
  rl_GlobalRequestsPerSecond :: float64
  rl_GlobalBurst :: int
  rl_TargetRequestsPerSecond :: float64
  rl_TargetBurst :: int

record AWSConfig =
  aw_Region :: string
  aw_Sources :: "(string, CredentialSourceConfig) gomap"
  aw_RequestTimeout :: duration
  aw_Endpoints :: EndpointsConfig
  aw_Retry :: RetryConfig
  aw_RateLimit :: RateLimitConfig

record AssumeRoleConfig =
  ar_RoleARN :: string
  ar_ExternalIDEnv :: string
  ar_SessionName :: string

record CURTagColumn =
  tc_Key :: string
  tc_Column :: string

record TargetCURConfig =
  cu_Enabled :: bool
  cu_Region :: string
  cu_Database :: string
  cu_Table :: string
  cu_Workgroup :: string
  cu_OutputLocation :: string
  cu_QueryTimeout :: duration
  cu_PollInterval :: duration
  cu_TagColumns :: "CURTagColumn list"

record TargetConfig =
  tg_Name :: string
  tg_AccountID :: string
  tg_Required :: bool
  tg_Source :: string
  tg_AssumeRole :: "AssumeRoleConfig option"
  tg_CostExplorerEnabled :: bool
  tg_Filters :: FiltersConfig
  tg_OrganizationsEnabled :: bool
  tg_AccountIDs :: "string list"
  tg_BudgetsEnabled :: bool
  tg_BudgetNames :: "string list"
  tg_CommitmentsEnabled :: bool
  tg_AnomaliesEnabled :: bool
  tg_CUR :: TargetCURConfig
  tg_TagsEnabled :: bool
  tg_TagKeys :: "TagKeyConfig list"

record CollectorsConfig =
  en_Total :: bool
  en_Service :: bool
  en_Region :: bool
  en_Account :: bool
  en_Forecast :: bool

record DimensionsConfig =
  dm_SeriesLimit :: int
  dm_Overflow :: string
  dm_OverflowLabel :: string

record CollectionCostExplorerConfig =
  ce_CostBases :: "string list"
  ce_MaxPages :: int
  ce_PredictionInterval :: int
  ce_Collectors :: CollectorsConfig
  ce_Dimensions :: DimensionsConfig

text \<open>The shape shared by the optional domains; CUR adds two limits.\<close>

record DomainConfig =
  dc_RefreshInterval :: duration
  dc_MaxPages :: int
  dc_SeriesLimit :: int

record CollectionCURConfig = DomainConfig +
  dc_MaxRows :: int
  dc_MaxCurrencies :: int

record CollectionConfig =
  cl_RefreshInterval :: duration
  cl_StartupRefresh :: bool
  cl_JitterRatio :: float64
  cl_MaxConcurrency :: int
  cl_FailureBackoff :: BackoffConfig
  cl_CostExplorer :: CollectionCostExplorerConfig
  cl_Organizations :: DomainConfig
  cl_Budgets :: DomainConfig
  cl_Commitments :: DomainConfig
  cl_Anomalies :: DomainConfig
  cl_Tags :: DomainConfig
  cl_CUR :: CollectionCURConfig

record Config =
  cf_Server :: ServerConfig
  cf_Log :: LogConfig
  cf_AWS :: AWSConfig
  cf_Targets :: "TargetConfig list"
  cf_Collection :: CollectionConfig
  cf_FreshnessTTL :: duration
  cf_StaleAfter :: duration
  cf_IncludeGoCollector :: bool
  cf_IncludeProcessCollector :: bool

definition default_server :: ServerConfig where
  "default_server =
     \<lparr> sv_ListenAddress = '':8080'', sv_MetricsPath = ''/metrics'', sv_ReadHeaderTimeout = 5 * Second,
       sv_ReadTimeout = 15 * Second, sv_WriteTimeout = 30 * Second, sv_IdleTimeout = Minute,
       sv_ShutdownTimeout = 15 * Second, sv_MaxInFlight = 20, sv_DebugEnabled = False \<rparr>"

definition default_aws :: AWSConfig where
  "default_aws =
     \<lparr> aw_Region = ''us-east-1'', aw_Sources = [], aw_RequestTimeout = 30 * Second,
       aw_Endpoints = \<lparr> ep_STS = '''', ep_CostExplorer = '''', ep_Organizations = '''', ep_Budgets = '''', ep_Athena = '''' \<rparr>,
       aw_Retry = \<lparr> rt_MaxAttempts = 5, rt_BaseDelay = Second, rt_MaxBackoff = 30 * Second \<rparr>,
       aw_RateLimit = \<lparr> rl_GlobalRequestsPerSecond = F_Fin 1, rl_GlobalBurst = 2,
                        rl_TargetRequestsPerSecond = F_Fin (1/2), rl_TargetBurst = 1 \<rparr> \<rparr>"

definition default_collection :: CollectionConfig where
  "default_collection =
     \<lparr> cl_RefreshInterval = 6 * Hour, cl_StartupRefresh = True, cl_JitterRatio = f64_of_rat (1/10), cl_MaxConcurrency = 4,
       cl_FailureBackoff = \<lparr> bc_MaxAttempts = 3, bc_Initial = Minute, bc_Max = 30 * Minute, bc_Multiplier = F_Fin 2 \<rparr>,
       cl_CostExplorer = \<lparr> ce_CostBases = [''unblended''], ce_MaxPages = 50, ce_PredictionInterval = 80,
         ce_Collectors = \<lparr> en_Total = True, en_Service = True, en_Region = True, en_Account = True, en_Forecast = True \<rparr>,
         ce_Dimensions = \<lparr> dm_SeriesLimit = 1000, dm_Overflow = ''aggregate'', dm_OverflowLabel = ''__other__'' \<rparr> \<rparr>,
       cl_Organizations = \<lparr> dc_RefreshInterval = 24 * Hour, dc_MaxPages = 20, dc_SeriesLimit = 1000 \<rparr>,
       cl_Budgets = \<lparr> dc_RefreshInterval = 6 * Hour, dc_MaxPages = 20, dc_SeriesLimit = 100 \<rparr>,
       cl_Commitments = \<lparr> dc_RefreshInterval = 24 * Hour, dc_MaxPages = 20, dc_SeriesLimit = 20 \<rparr>,
       cl_Anomalies = \<lparr> dc_RefreshInterval = 6 * Hour, dc_MaxPages = 20, dc_SeriesLimit = 10 \<rparr>,
       cl_Tags = \<lparr> dc_RefreshInterval = 6 * Hour, dc_MaxPages = 50, dc_SeriesLimit = 500 \<rparr>,
       cl_CUR = \<lparr> dc_RefreshInterval = 24 * Hour, dc_MaxPages = 50, dc_SeriesLimit = 2000, dc_MaxRows = 5000,
                  dc_MaxCurrencies = 1 \<rparr> \<rparr>"

definition Default :: Config where
  "Default =
     \<lparr> cf_Server = default_server, cf_Log = \<lparr> lg_Level = ''info'', lg_Format = ''json'', lg_AddSource = False \<rparr>,
       cf_AWS = default_aws, cf_Targets = [], cf_Collection = default_collection, cf_FreshnessTTL = 12 * Hour,
       cf_StaleAfter = 24 * Hour, cf_IncludeGoCollector = True, cf_IncludeProcessCollector = True \<rparr>"

section \<open>Patterns\<close>

definition in_range :: "char \<Rightarrow> char \<Rightarrow> char \<Rightarrow> bool" where
  "in_range lo hi c \<longleftrightarrow> lo \<le> c \<and> c \<le> hi"

abbreviation "is_lower \<equiv> in_range CHR ''a'' CHR ''z''"
abbreviation "is_upper \<equiv> in_range CHR ''A'' CHR ''Z''"

definition word_char :: "string \<Rightarrow> char \<Rightarrow> bool" where
  "word_char extra c \<longleftrightarrow> is_lower c \<or> is_upper c \<or> is_digit c \<or> c \<in> set extra"

definition targetNamePattern :: "string \<Rightarrow> bool" where
  "targetNamePattern s =
     (case s of [] \<Rightarrow> False
      | c # rest \<Rightarrow> is_lower c \<and> length rest \<le> 31 \<and>
                    list_all (\<lambda>c. is_lower c \<or> is_digit c \<or> c \<in> set ''_-'') rest)"

definition accountIDPattern :: "string \<Rightarrow> bool" where
  "accountIDPattern s \<longleftrightarrow> length s = 12 \<and> list_all is_digit s"

definition environmentPattern :: "string \<Rightarrow> bool" where
  "environmentPattern s =
     (case s of [] \<Rightarrow> False
      | c # rest \<Rightarrow> (is_lower c \<or> is_upper c \<or> c = CHR ''_'') \<and> list_all (word_char ''_'') rest)"

definition sessionNamePattern :: "string \<Rightarrow> bool" where
  "sessionNamePattern s \<longleftrightarrow> 2 \<le> length s \<and> length s \<le> 64 \<and> list_all (word_char ''+=,.@_-'') s"

definition sqlIdentifierPattern :: "string \<Rightarrow> bool" where
  "sqlIdentifierPattern s =
     (case s of [] \<Rightarrow> False
      | c # rest \<Rightarrow> (is_lower c \<or> is_upper c \<or> c = CHR ''_'') \<and> length rest \<le> 127 \<and> list_all (word_char ''_'') rest)"

definition workgroupPattern :: "string \<Rightarrow> bool" where
  "workgroupPattern s \<longleftrightarrow> 1 \<le> length s \<and> length s \<le> 128 \<and> list_all (word_char ''._-'') s"

definition s3BucketPattern :: "string \<Rightarrow> bool" where
  "s3BucketPattern s \<longleftrightarrow>
     3 \<le> length s \<and> length s \<le> 63 \<and> list_all (\<lambda>c. is_lower c \<or> is_digit c \<or> c \<in> set ''.-'') s \<and>
     (is_lower (hd s) \<or> is_digit (hd s)) \<and> (is_lower (last s) \<or> is_digit (last s))"

fun split_on :: "char \<Rightarrow> string \<Rightarrow> string list" where
  "split_on d [] = [[]]"
| "split_on d (c # s) =
     (if c = d then [] # split_on d s
      else case split_on d s of [] \<Rightarrow> [[c]] | w # ws \<Rightarrow> (c # w) # ws)"

text \<open>\<open>[a-z]{2}(-[a-z0-9]+)+-[0-9]+\<close>: the segments between the dashes, which no class contains.\<close>

definition awsRegionPattern :: "string \<Rightarrow> bool" where
  "awsRegionPattern s =
     (let segs = split_on CHR ''-'' s
      in 3 \<le> length segs \<and> length (hd segs) = 2 \<and> list_all is_lower (hd segs) \<and>
         list_all (\<lambda>w. w \<noteq> [] \<and> list_all (\<lambda>c. is_lower c \<or> is_digit c) w) (butlast (tl segs)) \<and>
         last segs \<noteq> [] \<and> list_all is_digit (last segs))"

text \<open>The role pattern, and the account its second group captures.\<close>

definition role_tail :: "string \<Rightarrow> string option" where
  "role_tail s =
     (let account = take 12 s; rest = drop 12 s
      in if accountIDPattern account \<and> HasPrefix rest '':role/'' \<and>
            1 \<le> length (drop 6 rest) \<and> length (drop 6 rest) \<le> 512 \<and> list_all (word_char ''+=,.@_/-'') (drop 6 rest)
         then Some account else None)"

definition roleARNPattern :: "string \<Rightarrow> string option" where
  "roleARNPattern s =
     first_some (\<lambda>partition. if HasPrefix s (''arn:'' @ partition @ '':iam::'')
                        then role_tail (TrimPrefix s (''arn:'' @ partition @ '':iam::'')) else None)
       [''aws'', ''aws-us-gov'', ''aws-cn'']"

section \<open>validation.go: server and base checks\<close>

record validationCheck =
  vc_invalid :: bool
  vc_path :: string
  vc_message :: string

definition chk :: "bool \<Rightarrow> string \<Rightarrow> string \<Rightarrow> validationCheck" where
  "chk b p m = \<lparr> vc_invalid = b, vc_path = p, vc_message = m \<rparr>"

fun firstValidationError :: "validationCheck list \<Rightarrow> go_error option" where
  "firstValidationError [] = None"
| "firstValidationError (c # cs) =
     (if vc_invalid c then Some (Sentinel (vc_path c @ '': '' @ vc_message c)) else firstValidationError cs)"

definition nonFinite :: "float64 \<Rightarrow> bool" where
  "nonFinite v \<longleftrightarrow> IsNaN v \<or> IsInf v"

definition invalidRate :: "float64 \<Rightarrow> bool" where
  "invalidRate v \<longleftrightarrow> nonFinite v \<or> f64_le v (F_Fin 0) \<or> f64_lt (F_Fin 10) v"

definition reservedMetricsPath :: "ServerConfig \<Rightarrow> bool" where
  "reservedMetricsPath v \<longleftrightarrow>
     sv_MetricsPath v \<in> set [''/'', ''/healthz'', ''/ready'', ''/version''] \<or>
     sv_DebugEnabled v \<and>
       (sv_MetricsPath v = ''/debug'' \<or> sv_MetricsPath v = ''/debug/pprof'' \<or> HasPrefix (sv_MetricsPath v) ''/debug/pprof/'')"

definition ValidateServer :: "ServerConfig \<Rightarrow> go_error option" where
  "ValidateServer v = firstValidationError
     [chk (TrimSpace (sv_ListenAddress v) = '''') ''server.listen_address'' ''must not be empty'',
      chk (\<not> HasPrefix (sv_MetricsPath v) ''/'') ''server.metrics_path'' ''must start with /'',
      chk (reservedMetricsPath v) ''server.metrics_path'' ''conflicts with a reserved HTTP route'',
      chk (sv_MaxInFlight v \<le> 0 \<or> sv_MaxInFlight v > 1000) ''server.max_in_flight'' ''must be between 1 and 1000'',
      chk (sv_ReadHeaderTimeout v \<le> 0) ''server.read_header_timeout'' ''must be positive'',
      chk (sv_ReadTimeout v \<le> 0) ''server.read_timeout'' ''must be positive'',
      chk (sv_WriteTimeout v \<le> 0) ''server.write_timeout'' ''must be positive'',
      chk (sv_IdleTimeout v \<le> 0) ''server.idle_timeout'' ''must be positive'',
      chk (sv_ShutdownTimeout v \<le> 0) ''server.shutdown_timeout'' ''must be positive'']"

text \<open>The table of \<open>validateBase\<close> in its order, by section.\<close>

definition log_checks :: "LogConfig \<Rightarrow> validationCheck list" where
  "log_checks v =
     [chk (lg_Level v \<notin> set [''debug'', ''info'', ''warn'', ''error'']) ''log.level'' ''must be one of debug, info, warn, error'',
      chk (lg_Format v \<notin> set [''json'', ''text'']) ''log.format'' ''must be json or text'']"

definition aws_checks :: "AWSConfig \<Rightarrow> validationCheck list" where
  "aws_checks v =
     [chk (aw_Region v \<noteq> ''us-east-1'') ''aws.region'' ''billing APIs require us-east-1'',
      chk (aw_RequestTimeout v \<le> 0) ''aws.request_timeout'' ''must be positive'',
      chk (rt_MaxAttempts (aw_Retry v) \<le> 0 \<or> rt_MaxAttempts (aw_Retry v) > 10) ''aws.retry.max_attempts'' ''must be between 1 and 10'',
      chk (rt_BaseDelay (aw_Retry v) \<le> 0) ''aws.retry.base_delay'' ''must be positive'',
      chk (rt_MaxBackoff (aw_Retry v) < rt_BaseDelay (aw_Retry v)) ''aws.retry.max_backoff'' ''must not be less than base_delay'',
      chk (invalidRate (rl_GlobalRequestsPerSecond (aw_RateLimit v))) ''aws.rate_limit.global_requests_per_second'' ''must be finite and between 0 and 10'',
      chk (rl_GlobalBurst (aw_RateLimit v) \<le> 0 \<or> rl_GlobalBurst (aw_RateLimit v) > 5) ''aws.rate_limit.global_burst'' ''must be between 1 and 5'',
      chk (invalidRate (rl_TargetRequestsPerSecond (aw_RateLimit v))) ''aws.rate_limit.target_requests_per_second'' ''must be finite and between 0 and 10'',
      chk (rl_TargetBurst (aw_RateLimit v) \<le> 0 \<or> rl_TargetBurst (aw_RateLimit v) > 5) ''aws.rate_limit.target_burst'' ''must be between 1 and 5'']"

definition schedule_checks :: "duration \<Rightarrow> CollectionConfig \<Rightarrow> validationCheck list" where
  "schedule_checks timeout v =
     [chk (cl_RefreshInterval v \<le> timeout) ''collection.refresh_interval'' ''must exceed aws.request_timeout'',
      chk (nonFinite (cl_JitterRatio v)) ''collection.jitter_ratio'' ''must be finite'',
      chk (f64_lt (cl_JitterRatio v) (F_Fin 0) \<or> f64_lt (F_Fin (1/2)) (cl_JitterRatio v)) ''collection.jitter_ratio'' ''must be between 0 and 0.5'',
      chk (cl_MaxConcurrency v \<le> 0 \<or> cl_MaxConcurrency v > 100) ''collection.max_concurrency'' ''must be between 1 and 100'',
      chk (bc_MaxAttempts (cl_FailureBackoff v) \<le> 0 \<or> bc_MaxAttempts (cl_FailureBackoff v) > 10) ''collection.failure_backoff.max_attempts'' ''must be between 1 and 10'',
      chk (bc_Initial (cl_FailureBackoff v) \<le> 0) ''collection.failure_backoff.initial'' ''must be positive'',
      chk (bc_Max (cl_FailureBackoff v) < bc_Initial (cl_FailureBackoff v)) ''collection.failure_backoff.max'' ''must not be less than initial'',
      chk (nonFinite (bc_Multiplier (cl_FailureBackoff v))) ''collection.failure_backoff.multiplier'' ''must be finite'',
      chk (f64_le (bc_Multiplier (cl_FailureBackoff v)) (F_Fin 1)) ''collection.failure_backoff.multiplier'' ''must exceed 1'']"

definition ce_checks :: "CollectionCostExplorerConfig \<Rightarrow> validationCheck list" where
  "ce_checks v =
     (let c = ce_Collectors v; d = ce_Dimensions v
      in [chk (\<not> (en_Total c \<or> en_Service c \<or> en_Region c \<or> en_Account c \<or> en_Forecast c)) ''collection.cost_explorer.collectors'' ''at least one collector must be enabled'',
          chk (ce_CostBases v = []) ''collection.cost_explorer.cost_bases'' ''must contain at least one basis'',
          chk (ce_MaxPages v \<le> 0 \<or> ce_MaxPages v > 200) ''collection.cost_explorer.max_pages'' ''must be between 1 and 200'',
          chk (en_Forecast c \<and> (ce_PredictionInterval v < 80 \<or> ce_PredictionInterval v > 99)) ''collection.cost_explorer.prediction_interval'' ''must be between 80 and 99'',
          chk (dm_SeriesLimit d \<le> 0 \<or> dm_SeriesLimit d > 2000) ''collection.cost_explorer.dimensions.series_limit'' ''must be between 1 and 2000'',
          chk (dm_Overflow d \<noteq> ''aggregate'') ''collection.cost_explorer.dimensions.overflow'' ''only aggregate is supported'',
          chk (TrimSpace (dm_OverflowLabel d) = '''') ''collection.cost_explorer.dimensions.overflow_label'' ''must not be empty'',
          chk (dm_OverflowLabel d \<noteq> TrimSpace (dm_OverflowLabel d)) ''collection.cost_explorer.dimensions.overflow_label'' ''must not contain leading or trailing whitespace''])"

text \<open>The checks of one optional domain; the tag domain checks its pages before its interval.\<close>

definition interval_check :: "duration \<Rightarrow> string \<Rightarrow> ('a) DomainConfig_scheme \<Rightarrow> validationCheck" where
  "interval_check timeout path v =
     chk (dc_RefreshInterval v \<le> timeout) (''collection.'' @ path @ ''.refresh_interval'') ''must exceed aws.request_timeout''"

definition pages_check :: "string \<Rightarrow> ('a) DomainConfig_scheme \<Rightarrow> validationCheck" where
  "pages_check path v =
     chk (dc_MaxPages v \<le> 0 \<or> dc_MaxPages v > 200) (''collection.'' @ path @ ''.max_pages'') ''must be between 1 and 200''"

definition series_check :: "int \<Rightarrow> string \<Rightarrow> ('a) DomainConfig_scheme \<Rightarrow> validationCheck" where
  "series_check limit path v =
     chk (dc_SeriesLimit v \<le> 0 \<or> dc_SeriesLimit v > limit) (''collection.'' @ path @ ''.series_limit'') (''must be between 1 and '' @ itoa limit)"

definition domain_checks :: "duration \<Rightarrow> CollectionConfig \<Rightarrow> validationCheck list" where
  "domain_checks timeout v =
     [interval_check timeout ''organizations'' (cl_Organizations v), pages_check ''organizations'' (cl_Organizations v),
      series_check 2000 ''organizations'' (cl_Organizations v),
      interval_check timeout ''budgets'' (cl_Budgets v), pages_check ''budgets'' (cl_Budgets v),
      series_check 500 ''budgets'' (cl_Budgets v),
      interval_check timeout ''commitments'' (cl_Commitments v), pages_check ''commitments'' (cl_Commitments v),
      series_check 2000 ''commitments'' (cl_Commitments v),
      interval_check timeout ''anomalies'' (cl_Anomalies v), pages_check ''anomalies'' (cl_Anomalies v),
      series_check 20 ''anomalies'' (cl_Anomalies v),
      pages_check ''tags'' (cl_Tags v), interval_check timeout ''tags'' (cl_Tags v), series_check 500 ''tags'' (cl_Tags v),
      interval_check timeout ''cur'' (cl_CUR v), pages_check ''cur'' (cl_CUR v),
      chk (dc_MaxRows (cl_CUR v) \<le> 0 \<or> dc_MaxRows (cl_CUR v) > 100000) ''collection.cur.max_rows'' ''must be between 1 and 100000'',
      chk (dc_MaxCurrencies (cl_CUR v) \<le> 0 \<or> dc_MaxCurrencies (cl_CUR v) > 10) ''collection.cur.max_currencies'' ''must be between 1 and 10'',
      series_check 20000 ''cur'' (cl_CUR v)]"

definition validateBase :: "Config \<Rightarrow> go_error option" where
  "validateBase v =
     (let timeout = aw_RequestTimeout (cf_AWS v)
      in firstValidationError
           (log_checks (cf_Log v) @ aws_checks (cf_AWS v) @
            [chk (cf_Targets v = [] \<or> length (cf_Targets v) > 20) ''targets'' ''must contain between 1 and 20 entries''] @
            schedule_checks timeout (cf_Collection v) @ ce_checks (cl_CostExplorer (cf_Collection v)) @
            domain_checks timeout (cf_Collection v) @
            [chk (cf_FreshnessTTL v < cl_RefreshInterval (cf_Collection v)) ''cache.freshness_ttl'' ''must not be less than collection.refresh_interval'',
             chk (cf_StaleAfter v < cf_FreshnessTTL v) ''cache.stale_after'' ''must not be less than freshness_ttl'']))"

section \<open>validation.go: targets\<close>

text \<open>The first error of a sequence of checks.\<close>

fun first_error :: "go_error option list \<Rightarrow> go_error option" where
  "first_error [] = None"
| "first_error (e # es) = (case e of Some err \<Rightarrow> Some err | None \<Rightarrow> first_error es)"

definition fail_if :: "bool \<Rightarrow> string \<Rightarrow> go_error option" where
  "fail_if b message = (if b then Some (Sentinel message) else None)"

fun unique_strings :: "(string \<Rightarrow> bool) option \<Rightarrow> string \<Rightarrow> string list \<Rightarrow> string list \<Rightarrow> go_error option" where
  "unique_strings pat path seen [] = None"
| "unique_strings pat path seen (v # vs) =
     (if v = '''' \<or> v \<noteq> TrimSpace v then Some (Sentinel (path @ '': must be non-empty without surrounding whitespace''))
      else if (case pat of None \<Rightarrow> False | Some p \<Rightarrow> \<not> p v) then Some (Sentinel (path @ '': has invalid format''))
      else if v \<in> set seen then Some (Sentinel (path @ '': must be unique''))
      else unique_strings pat path (v # seen) vs)"

definition validateUniqueStrings :: "string \<Rightarrow> string list \<Rightarrow> (string \<Rightarrow> bool) option \<Rightarrow> go_error option" where
  "validateUniqueStrings path vals pat = unique_strings pat path [] vals"

definition validateFilters :: "string \<Rightarrow> FiltersConfig \<Rightarrow> go_error option" where
  "validateFilters path filters = first_error
     [validateUniqueStrings (path @ ''.linked_account_ids'') (flt_LinkedAccountIDs filters) (Some accountIDPattern),
      validateUniqueStrings (path @ ''.services'') (flt_Services filters) None,
      validateUniqueStrings (path @ ''.regions'') (flt_Regions filters) None]"

definition validateBudgets :: "string \<Rightarrow> TargetConfig \<Rightarrow> int \<Rightarrow> go_error option" where
  "validateBudgets path target limit =
     (if \<not> tg_BudgetsEnabled target then None
      else if tg_BudgetNames target = [] then Some (Sentinel (path @ ''.budgets.names: must not be empty when budgets is enabled''))
      else if int (length (tg_BudgetNames target)) * 3 > limit
      then Some (Sentinel (path @ ''.budgets.names: exceeds collection.budgets.series_limit''))
      else validateUniqueStrings (path @ ''.budgets.names'') (tg_BudgetNames target) None)"

definition validateOrganizations :: "string \<Rightarrow> TargetConfig \<Rightarrow> Config \<Rightarrow> go_error option" where
  "validateOrganizations path target v =
     (let ids = tg_AccountIDs target; col = cf_Collection v
      in if \<not> tg_OrganizationsEnabled target then None
         else if ids = [] then
           if \<not> tg_CostExplorerEnabled target \<or> \<not> en_Account (ce_Collectors (cl_CostExplorer col))
           then Some (Sentinel (path @ ''.organizations.account_ids: observed mode requires the account cost collector''))
           else if dc_SeriesLimit (cl_Organizations col) < dm_SeriesLimit (ce_Dimensions (cl_CostExplorer col))
           then Some (Sentinel ''collection.organizations.series_limit: must cover the account collector series limit in observed mode'')
           else None
         else if int (length ids) > dc_SeriesLimit (cl_Organizations col)
         then Some (Sentinel (path @ ''.organizations.account_ids: exceeds collection.organizations.series_limit''))
         else validateUniqueStrings (path @ ''.organizations.account_ids'') ids (Some accountIDPattern))"

text \<open>\<open>env\<close> is \<open>os.LookupEnv\<close>.\<close>

definition env_set :: "(string \<Rightarrow> string option) \<Rightarrow> string \<Rightarrow> bool" where
  "env_set env name = (case env name of None \<Rightarrow> False | Some v \<Rightarrow> TrimSpace v \<noteq> '''')"

definition validateSecretEnvironment :: "(string \<Rightarrow> string option) \<Rightarrow> string \<Rightarrow> string \<Rightarrow> bool \<Rightarrow> go_error option" where
  "validateSecretEnvironment env path name required =
     (if name = '''' \<and> \<not> required then None
      else if \<not> environmentPattern name then Some (Sentinel (path @ '': must be a valid environment variable name''))
      else fail_if (\<not> env_set env name) (path @ '': referenced environment variable must be set and non-empty''))"

definition CredentialSourceDefaultChain :: string where "CredentialSourceDefaultChain = ''default_chain''"
definition CredentialSourceProfile :: string where "CredentialSourceProfile = ''profile''"
definition CredentialSourceStaticEnv :: string where "CredentialSourceStaticEnv = ''static_env''"

definition validate_source :: "(string \<Rightarrow> string option) \<Rightarrow> string \<times> CredentialSourceConfig \<Rightarrow> go_error option" where
  "validate_source env = (\<lambda>(name, source).
     let path = ''aws.credentials.sources.'' @ name
     in if \<not> targetNamePattern name then Some (Sentinel (path @ '': source name must match the target name pattern''))
        else if cr_Type source = CredentialSourceDefaultChain then
          fail_if (cr_Profile source \<noteq> '''' \<or> cr_AccessKeyIDEnv source \<noteq> '''' \<or> cr_SecretAccessKeyEnv source \<noteq> '''' \<or>
                   cr_SessionTokenEnv source \<noteq> '''')
            (path @ '': default_chain does not accept profile or static environment fields'')
        else if cr_Type source = CredentialSourceProfile then
          first_error
            [fail_if (cr_Profile source = '''' \<or> cr_Profile source \<noteq> TrimSpace (cr_Profile source))
               (path @ ''.profile: must be non-empty without surrounding whitespace''),
             fail_if (cr_AccessKeyIDEnv source \<noteq> '''' \<or> cr_SecretAccessKeyEnv source \<noteq> '''' \<or> cr_SessionTokenEnv source \<noteq> '''')
               (path @ '': profile does not accept static environment fields'')]
        else if cr_Type source = CredentialSourceStaticEnv then
          first_error
            [fail_if (cr_Profile source \<noteq> '''') (path @ ''.profile: static_env does not accept profile''),
             validateSecretEnvironment env (path @ ''.access_key_id_env'') (cr_AccessKeyIDEnv source) True,
             validateSecretEnvironment env (path @ ''.secret_access_key_env'') (cr_SecretAccessKeyEnv source) True,
             validateSecretEnvironment env (path @ ''.session_token_env'') (cr_SessionTokenEnv source) False]
        else Some (Sentinel (path @ ''.type: must be one of default_chain, profile, static_env'')))"

definition validateCredentialSources ::
  "(string \<Rightarrow> string option) \<Rightarrow> (string, CredentialSourceConfig) gomap \<Rightarrow> go_error option" where
  "validateCredentialSources env sources =
     (if sources = [] \<or> length sources > 20
      then Some (Sentinel ''aws.credentials.sources: must contain between 1 and 20 entries'')
      else first_error (map (validate_source env) sources))"

definition validateAssumeRole ::
  "(string \<Rightarrow> string option) \<Rightarrow> string \<Rightarrow> TargetConfig \<Rightarrow> string list \<Rightarrow> go_error + string list" where
  "validateAssumeRole env path target roles =
     (case tg_AssumeRole target of
        None \<Rightarrow> Inr roles
      | Some role \<Rightarrow>
          (case roleARNPattern (ar_RoleARN role) of
             None \<Rightarrow> Inl (Sentinel (path @ ''.assume_role.role_arn: must be an exact IAM role ARN without wildcards''))
           | Some account \<Rightarrow>
               if Contains (ar_RoleARN role) ''*''
               then Inl (Sentinel (path @ ''.assume_role.role_arn: must be an exact IAM role ARN without wildcards''))
               else if account \<noteq> tg_AccountID target
               then Inl (Sentinel (path @ ''.assume_role.role_arn: account must match account_id''))
               else if ar_RoleARN role \<in> set roles then Inl (Sentinel (path @ ''.assume_role.role_arn: must be unique''))
               else if \<not> environmentPattern (ar_ExternalIDEnv role)
               then Inl (Sentinel (path @ ''.assume_role.external_id_env: must be a valid environment variable name''))
               else if \<not> env_set env (ar_ExternalIDEnv role)
               then Inl (Sentinel (path @ ''.assume_role.external_id_env: referenced environment variable must be set and non-empty''))
               else if ar_SessionName role \<noteq> '''' \<and> \<not> sessionNamePattern (ar_SessionName role)
               then Inl (Sentinel (path @ ''.assume_role.session_name: must be 2..64 AWS STS session characters''))
               else Inr (ar_RoleARN role # roles)))"

text \<open>What \<open>url.Parse\<close> returns, as far as it is used, and \<open>net.ParseIP\<close>.\<close>

record URL =
  url_Scheme :: string
  url_HasUser :: bool
  url_RawQuery :: string
  url_Fragment :: string
  url_Host :: string
  url_Path :: string

type_synonym url_parser = "string \<Rightarrow> URL option"

definition trim_slash :: "string \<Rightarrow> string" where
  "trim_slash s = rev (dropWhile (\<lambda>c. c = CHR ''/'') (rev (dropWhile (\<lambda>c. c = CHR ''/'') s)))"

definition validS3Prefix :: "url_parser \<Rightarrow> (string \<Rightarrow> bool) \<Rightarrow> string \<Rightarrow> bool" where
  "validS3Prefix parseURL parseIP s =
     (case parseURL s of
        None \<Rightarrow> False
      | Some u \<Rightarrow>
          url_Scheme u = ''s3'' \<and> \<not> url_HasUser u \<and> url_RawQuery u = '''' \<and> url_Fragment u = '''' \<and>
          s3BucketPattern (url_Host u) \<and> \<not> parseIP (url_Host u) \<and> \<not> Contains (url_Host u) ''..'' \<and>
          \<not> Contains (url_Host u) ''.-'' \<and> \<not> Contains (url_Host u) ''-.'' \<and> trim_slash (url_Path u) \<noteq> '''')"

fun tag_columns_error :: "string \<Rightarrow> string list \<Rightarrow> string list \<Rightarrow> CURTagColumn list \<Rightarrow> go_error option" where
  "tag_columns_error path seen cols [] = None"
| "tag_columns_error path seen cols (c # cs) =
     (if tc_Key c = '''' \<or> tc_Key c \<noteq> TrimSpace (tc_Key c) then Some (Sentinel (path @ ''.cur.tag_columns.key: invalid''))
      else if \<not> sqlIdentifierPattern (tc_Column c)
      then Some (Sentinel (path @ ''.cur.tag_columns.column: must be a safe SQL identifier''))
      else if tc_Key c \<in> set seen then Some (Sentinel (path @ ''.cur.tag_columns.key: must be unique''))
      else if tc_Column c \<in> set cols then Some (Sentinel (path @ ''.cur.tag_columns.column: must be unique''))
      else tag_columns_error path (tc_Key c # seen) (tc_Column c # cols) cs)"

definition blank_or_padded :: "string \<Rightarrow> bool" where
  "blank_or_padded s \<longleftrightarrow> TrimSpace s = '''' \<or> s \<noteq> TrimSpace s"

definition validateCUR ::
  "url_parser \<Rightarrow> (string \<Rightarrow> bool) \<Rightarrow> string \<Rightarrow> TargetConfig \<Rightarrow> duration \<Rightarrow> duration \<Rightarrow> go_error option" where
  "validateCUR parseURL parseIP path target requestTimeout refreshInterval =
     (let c = tg_CUR target
      in if \<not> cu_Enabled c then None
         else first_error
           ([fail_if (blank_or_padded s) (path @ ''.cur.'' @ field @ '': must be non-empty without surrounding whitespace'').
              (s, field) \<leftarrow> [(cu_Region c, ''region''), (cu_Database c, ''database''), (cu_Table c, ''table''),
                             (cu_Workgroup c, ''workgroup''), (cu_OutputLocation c, ''output_location'')]] @
            [fail_if (\<not> awsRegionPattern (cu_Region c)) (path @ ''.cur.region: must use a valid AWS region format''),
             fail_if (\<not> sqlIdentifierPattern (cu_Database c)) (path @ ''.cur.database: must be a safe SQL identifier''),
             fail_if (\<not> sqlIdentifierPattern (cu_Table c)) (path @ ''.cur.table: must be a safe SQL identifier''),
             fail_if (\<not> workgroupPattern (cu_Workgroup c)) (path @ ''.cur.workgroup: has invalid format''),
             fail_if (\<not> validS3Prefix parseURL parseIP (cu_OutputLocation c)) (path @ ''.cur.output_location: must be a valid s3:// bucket prefix''),
             fail_if (cu_QueryTimeout c \<le> 0) (path @ ''.cur.query_timeout: must be positive''),
             fail_if (cu_QueryTimeout c \<le> requestTimeout) (path @ ''.cur.query_timeout: must exceed aws.request_timeout''),
             fail_if (cu_QueryTimeout c > Hour) (path @ ''.cur.query_timeout: must not exceed 1h0m0s''),
             fail_if (cu_QueryTimeout c \<ge> refreshInterval) (path @ ''.cur.query_timeout: must be less than collection.cur.refresh_interval''),
             fail_if (cu_PollInterval c < 100 * Millisecond) (path @ ''.cur.poll_interval: must be at least 100ms''),
             fail_if (cu_PollInterval c > Minute) (path @ ''.cur.poll_interval: must not exceed 1m0s''),
             fail_if (cu_PollInterval c \<ge> cu_QueryTimeout c) (path @ ''.cur.poll_interval: must be less than query_timeout''),
             fail_if (length (cu_TagColumns c) > 20) (path @ ''.cur.tag_columns: must contain at most 20 entries''),
             tag_columns_error path [] [] (cu_TagColumns c)]))"

definition tagSeriesBudget :: "TargetConfig \<Rightarrow> int \<Rightarrow> int \<Rightarrow> int" where
  "tagSeriesBudget target basisCount currencyCnt =
     foldl (\<lambda>n k. n + tk_MaxValues k) 0 (tg_TagKeys target) * 2 * max 1 basisCount * max 1 currencyCnt"

fun tag_keys_error :: "string \<Rightarrow> bool \<Rightarrow> string list \<Rightarrow> string list \<Rightarrow> TagKeyConfig list \<Rightarrow> go_error option" where
  "tag_keys_error path cur cols seen [] = None"
| "tag_keys_error path cur cols seen (k # ks) =
     (if tk_Key k = '''' \<or> tk_Key k \<noteq> TrimSpace (tk_Key k) then Some (Sentinel (path @ ''.tags.keys.key: invalid''))
      else if tk_MaxValues k \<le> 0 \<or> tk_MaxValues k > 500
      then Some (Sentinel (path @ ''.tags.keys.max_values: must be between 1 and 500''))
      else if tk_Key k \<in> set seen then Some (Sentinel (path @ ''.tags.keys.key: must be unique''))
      else if cur \<and> tk_Key k \<notin> set cols
      then Some (Sentinel (path @ ''.tags.keys.key: requires a matching cur.tag_columns entry''))
      else tag_keys_error path cur cols (tk_Key k # seen) ks)"

definition validateTags :: "string \<Rightarrow> TargetConfig \<Rightarrow> int \<Rightarrow> int \<Rightarrow> int \<Rightarrow> go_error option" where
  "validateTags path target seriesLimit basisCount maxCurrencies =
     (let cur = cu_Enabled (tg_CUR target);
          cols = remdups (map tc_Key (cu_TagColumns (tg_CUR target)))
      in if \<not> tg_TagsEnabled target then None
         else first_error
           [fail_if (\<not> cur \<and> \<not> tg_CostExplorerEnabled target) (path @ ''.tags.enabled: requires cur or cost_explorer''),
            fail_if (tg_TagKeys target = [] \<or> length (tg_TagKeys target) > 20) (path @ ''.tags.keys: must contain between 1 and 20 entries''),
            tag_keys_error path cur cols [] (tg_TagKeys target),
            fail_if (cur \<and> length cols \<noteq> length (tg_TagKeys target)) (path @ ''.cur.tag_columns: must exactly match tags.keys''),
            fail_if (tagSeriesBudget target basisCount (if cur then maxCurrencies else 1) > seriesLimit)
              (path @ ''.tags.keys: exceeds collection.tags.series_limit'')])"

definition validateCURSeriesBudget :: "string \<Rightarrow> TargetConfig \<Rightarrow> int \<Rightarrow> int \<Rightarrow> int \<Rightarrow> go_error option" where
  "validateCURSeriesBudget path target seriesLimit basisCount maxCurrencies =
     (if \<not> cu_Enabled (tg_CUR target) then None
      else fail_if (2 * max 1 basisCount * max 1 maxCurrencies +
                    (if tg_TagsEnabled target then tagSeriesBudget target basisCount maxCurrencies else 0) > seriesLimit)
             ''collection.cur.series_limit: must cover the target'')"

text \<open>The maps and the counter the loop over the targets carries.\<close>

record target_state =
  ts_names :: "string list"
  ts_accounts :: "string list"
  ts_roles :: "string list"
  ts_direct :: "string list"
  ts_required :: nat

definition target_domains :: "url_parser \<Rightarrow> (string \<Rightarrow> bool) \<Rightarrow> Config \<Rightarrow> TargetConfig \<Rightarrow> go_error option" where
  "target_domains parseURL parseIP v target =
     (let path = ''targets''; col = cf_Collection v; bases = int (length (ce_CostBases (cl_CostExplorer col)));
          currencies = dc_MaxCurrencies (cl_CUR col)
      in first_error
           [validateFilters (path @ ''.cost_explorer.filters'') (tg_Filters target),
            validateOrganizations path target v,
            validateBudgets path target (dc_SeriesLimit (cl_Budgets col)),
            validateCUR parseURL parseIP path target (aw_RequestTimeout (cf_AWS v)) (dc_RefreshInterval (cl_CUR col)),
            validateTags path target (dc_SeriesLimit (cl_Tags col)) bases currencies,
            validateCURSeriesBudget path target (dc_SeriesLimit (cl_CUR col)) bases currencies])"

definition validate_target ::
  "(string \<Rightarrow> string option) \<Rightarrow> url_parser \<Rightarrow> (string \<Rightarrow> bool) \<Rightarrow> Config \<Rightarrow> target_state \<Rightarrow> TargetConfig \<Rightarrow>
   go_error + target_state" where
  "validate_target env parseURL parseIP v st target =
     (let path = ''targets''
      in if \<not> targetNamePattern (tg_Name target) then Inl (Sentinel (path @ ''.name: must match the name pattern''))
         else if tg_Name target \<in> set (ts_names st) then Inl (Sentinel (path @ ''.name: must be unique''))
         else if \<not> accountIDPattern (tg_AccountID target) then Inl (Sentinel (path @ ''.account_id: must contain 12 digits''))
         else if tg_AccountID target \<in> set (ts_accounts st) then Inl (Sentinel (path @ ''.account_id: must be unique''))
         else if \<not> targetNamePattern (tg_Source target)
         then Inl (Sentinel (path @ ''.credentials.source: must reference a valid credential source''))
         else if map_of (aw_Sources (cf_AWS v)) (tg_Source target) = None
         then Inl (Sentinel (path @ ''.credentials.source: credential source does not exist''))
         else if \<not> tg_CostExplorerEnabled target \<and> \<not> tg_OrganizationsEnabled target \<and> \<not> tg_BudgetsEnabled target \<and>
                 \<not> tg_CommitmentsEnabled target \<and> \<not> tg_AnomaliesEnabled target \<and> \<not> cu_Enabled (tg_CUR target) \<and>
                 \<not> tg_TagsEnabled target
         then Inl (Sentinel (path @ '': at least one integration must be enabled''))
         else if tg_Required target \<and> \<not> tg_CostExplorerEnabled target
         then Inl (Sentinel (path @ ''.required: requires cost_explorer.enabled''))
         else case validateAssumeRole env (path @ ''.credentials'') target (ts_roles st) of
                Inl err \<Rightarrow> Inl err
              | Inr roles \<Rightarrow>
                  if tg_AssumeRole target = None \<and> tg_Source target \<in> set (ts_direct st)
                  then Inl (Sentinel (path @ ''.credentials.source: a credential source may be used by at most one direct target''))
                  else (case target_domains parseURL parseIP v target of
                          Some err \<Rightarrow> Inl err
                        | None \<Rightarrow>
                            Inr \<lparr> ts_names = tg_Name target # ts_names st, ts_accounts = tg_AccountID target # ts_accounts st,
                                  ts_roles = roles,
                                  ts_direct = (if tg_AssumeRole target = None then tg_Source target # ts_direct st else ts_direct st),
                                  ts_required = ts_required st + (if tg_Required target then 1 else 0) \<rparr>))"

definition validateTargets ::
  "(string \<Rightarrow> string option) \<Rightarrow> url_parser \<Rightarrow> (string \<Rightarrow> bool) \<Rightarrow> Config \<Rightarrow> go_error option" where
  "validateTargets env parseURL parseIP v =
     (case range_err (validate_target env parseURL parseIP v)
             \<lparr> ts_names = [], ts_accounts = [], ts_roles = [], ts_direct = [], ts_required = 0 \<rparr> (cf_Targets v) of
        Inl err \<Rightarrow> Some err
      | Inr st \<Rightarrow>
          let bases = ce_CostBases (cl_CostExplorer (cf_Collection v))
          in first_error
               [fail_if (\<not> list_all (\<lambda>b. b \<in> set [''unblended'', ''amortized'', ''net'']) bases)
                  ''collection.cost_explorer.cost_bases: must be unblended, amortized, or net'',
                validateUniqueStrings ''collection.cost_explorer.cost_bases'' bases None,
                fail_if (ts_required st = 0) ''targets: at least one required Cost Explorer target is required''])"

definition Validate ::
  "(string \<Rightarrow> string option) \<Rightarrow> url_parser \<Rightarrow> (string \<Rightarrow> bool) \<Rightarrow> Config \<Rightarrow> go_error option" where
  "Validate env parseURL parseIP v = first_error
     [ValidateServer (cf_Server v), validateBase v, validateCredentialSources env (aw_Sources (cf_AWS v)),
      validateTargets env parseURL parseIP v]"

section \<open>What a validated configuration guarantees\<close>

lemma firstValidationError_None [simp]:
  "firstValidationError cs = None \<longleftrightarrow> (\<forall>c \<in> set cs. \<not> vc_invalid c)"
  by (induction cs) auto

lemma chk_invalid [simp]: "vc_invalid (chk b p m) = b"
  by (simp add: chk_def)

lemma first_error_None [simp]: "first_error es = None \<longleftrightarrow> (\<forall>e \<in> set es. e = None)"
  by (induction es) (auto split: option.splits)

lemma fail_if_None [simp]: "fail_if b m = None \<longleftrightarrow> \<not> b"
  by (simp add: fail_if_def)

declare first_error.simps(2) [simp del] firstValidationError.simps(2) [simp del]

lemma unique_strings_None:
  "unique_strings pat path seen vs = None \<longleftrightarrow>
     distinct vs \<and> set vs \<inter> set seen = {} \<and>
     (\<forall>v \<in> set vs. v \<noteq> '''' \<and> v = TrimSpace v \<and> (case pat of None \<Rightarrow> True | Some p \<Rightarrow> p v))"
  by (induction vs arbitrary: seen) (auto split: option.splits)

lemma validateUniqueStrings_None:
  "validateUniqueStrings path vs pat = None \<longleftrightarrow>
     distinct vs \<and> (\<forall>v \<in> set vs. v \<noteq> '''' \<and> v = TrimSpace v \<and> (case pat of None \<Rightarrow> True | Some p \<Rightarrow> p v))"
  by (simp add: validateUniqueStrings_def unique_strings_None)

lemma tag_keys_error_None:
  "tag_keys_error path cur cols seen ks = None \<longleftrightarrow>
     distinct (map tk_Key ks) \<and> tk_Key ` set ks \<inter> set seen = {} \<and>
     (\<forall>k \<in> set ks. tk_Key k \<noteq> '''' \<and> tk_Key k = TrimSpace (tk_Key k) \<and> 0 < tk_MaxValues k \<and> tk_MaxValues k \<le> 500 \<and>
        (cur \<longrightarrow> tk_Key k \<in> set cols))"
  by (induction ks arbitrary: seen) auto

text \<open>What the loop over the targets has established about the targets it has seen.\<close>

definition target_ok :: "url_parser \<Rightarrow> (string \<Rightarrow> bool) \<Rightarrow> Config \<Rightarrow> TargetConfig \<Rightarrow> bool" where
  "target_ok parseURL parseIP v t \<longleftrightarrow>
     targetNamePattern (tg_Name t) \<and> accountIDPattern (tg_AccountID t) \<and>
     map_of (aw_Sources (cf_AWS v)) (tg_Source t) \<noteq> None \<and>
     (tg_Required t \<longrightarrow> tg_CostExplorerEnabled t) \<and>
     (\<forall>role. tg_AssumeRole t = Some role \<longrightarrow> roleARNPattern (ar_RoleARN role) = Some (tg_AccountID t)) \<and>
     target_domains parseURL parseIP v t = None"

definition roles_of :: "TargetConfig list \<Rightarrow> string list" where
  "roles_of ts = List.map_filter (\<lambda>t. map_option ar_RoleARN (tg_AssumeRole t)) ts"

definition direct_of :: "TargetConfig list \<Rightarrow> string list" where
  "direct_of ts = map tg_Source (filter (\<lambda>t. tg_AssumeRole t = None) ts)"

definition targets_inv :: "url_parser \<Rightarrow> (string \<Rightarrow> bool) \<Rightarrow> Config \<Rightarrow> TargetConfig list \<Rightarrow> target_state \<Rightarrow> bool" where
  "targets_inv parseURL parseIP v ts st \<longleftrightarrow>
     (\<forall>t \<in> set ts. target_ok parseURL parseIP v t) \<and>
     distinct (map tg_Name ts) \<and> set (ts_names st) = tg_Name ` set ts \<and>
     distinct (map tg_AccountID ts) \<and> set (ts_accounts st) = tg_AccountID ` set ts \<and>
     distinct (roles_of ts) \<and> set (ts_roles st) = set (roles_of ts) \<and>
     distinct (direct_of ts) \<and> set (ts_direct st) = set (direct_of ts) \<and>
     (0 < ts_required st \<longrightarrow> (\<exists>t \<in> set ts. tg_Required t))"

lemma roles_of_snoc: "roles_of (ts @ [t]) = roles_of ts @ (case tg_AssumeRole t of None \<Rightarrow> [] | Some r \<Rightarrow> [ar_RoleARN r])"
  by (simp add: roles_of_def List.map_filter_def split: option.split)

lemma direct_of_snoc: "direct_of (ts @ [t]) = direct_of ts @ (if tg_AssumeRole t = None then [tg_Source t] else [])"
  by (simp add: direct_of_def)

lemma validateAssumeRole_ok:
  assumes "validateAssumeRole env path t roles = Inr roles'"
  shows "(case tg_AssumeRole t of None \<Rightarrow> roles' = roles
          | Some r \<Rightarrow> roles' = ar_RoleARN r # roles \<and> ar_RoleARN r \<notin> set roles \<and>
                      roleARNPattern (ar_RoleARN r) = Some (tg_AccountID t))"
  using assms by (auto simp: validateAssumeRole_def split: option.splits if_splits)

lemma validate_target_inv:
  assumes "validate_target env parseURL parseIP v st t = Inr st'" and "targets_inv parseURL parseIP v ts st"
  shows "targets_inv parseURL parseIP v (ts @ [t]) st'"
proof -
  obtain roles where r: "validateAssumeRole env ''targets.credentials'' t (ts_roles st) = Inr roles"
    and d: "\<not> (tg_AssumeRole t = None \<and> tg_Source t \<in> set (ts_direct st))"
    and dom: "target_domains parseURL parseIP v t = None"
    and st': "st' = \<lparr> ts_names = tg_Name t # ts_names st, ts_accounts = tg_AccountID t # ts_accounts st, ts_roles = roles,
        ts_direct = (if tg_AssumeRole t = None then tg_Source t # ts_direct st else ts_direct st),
        ts_required = ts_required st + (if tg_Required t then 1 else 0) \<rparr>"
    and base: "targetNamePattern (tg_Name t)" "tg_Name t \<notin> set (ts_names st)" "accountIDPattern (tg_AccountID t)"
      "tg_AccountID t \<notin> set (ts_accounts st)" "map_of (aw_Sources (cf_AWS v)) (tg_Source t) \<noteq> None"
      "tg_Required t \<longrightarrow> tg_CostExplorerEnabled t"
    using assms(1) by (simp add: validate_target_def Let_def split: if_splits sum.splits option.splits)
  note ar = validateAssumeRole_ok [OF r]
  have ok: "target_ok parseURL parseIP v t"
    using base dom ar by (auto simp: target_ok_def split: option.splits)
  have inv: "targets_inv parseURL parseIP v ts st" by (rule assms(2))
  have rl: "distinct (roles_of (ts @ [t])) \<and> set roles = set (roles_of (ts @ [t]))"
    using ar inv by (auto simp: targets_inv_def roles_of_snoc split: option.splits)
  have dr: "distinct (direct_of (ts @ [t])) \<and> set (ts_direct st') = set (direct_of (ts @ [t]))"
    using d inv by (auto simp: targets_inv_def direct_of_snoc st')
  show ?thesis
    using inv ok rl dr base unfolding targets_inv_def by (auto simp: st' split: if_splits)
qed

lemma validate_targets_inv:
  assumes "range_err (validate_target env parseURL parseIP v) st ts = Inr st'" and "targets_inv parseURL parseIP v pre st"
  shows "targets_inv parseURL parseIP v (pre @ ts) st'"
  using assms
proof (induction ts arbitrary: pre st)
  case (Cons t ts)
  obtain s1 where s1: "validate_target env parseURL parseIP v st t = Inr s1"
    and run: "range_err (validate_target env parseURL parseIP v) s1 ts = Inr st'"
    using Cons.prems(1) by (auto split: sum.splits)
  show ?case using Cons.IH [OF run validate_target_inv [OF s1 Cons.prems(2)]] by simp
qed simp

lemma Validate_targets:
  assumes "Validate env parseURL parseIP v = None"
  obtains st where "targets_inv parseURL parseIP v (cf_Targets v) st" and "0 < ts_required st"
    and "set (ce_CostBases (cl_CostExplorer (cf_Collection v))) \<subseteq> {''unblended'', ''amortized'', ''net''}"
    and "distinct (ce_CostBases (cl_CostExplorer (cf_Collection v)))"
proof -
  let ?st0 = "\<lparr> ts_names = [], ts_accounts = [], ts_roles = [], ts_direct = [], ts_required = 0 \<rparr>"
  have "validateTargets env parseURL parseIP v = None" using assms by (simp add: Validate_def)
  then obtain st where run: "range_err (validate_target env parseURL parseIP v) ?st0 (cf_Targets v) = Inr st"
    and "0 < ts_required st" "set (ce_CostBases (cl_CostExplorer (cf_Collection v))) \<subseteq> {''unblended'', ''amortized'', ''net''}"
    "distinct (ce_CostBases (cl_CostExplorer (cf_Collection v)))"
    by (auto simp: validateTargets_def validateUniqueStrings_None Let_def list_all_iff split: sum.splits)
  moreover have "targets_inv parseURL parseIP v ([] @ cf_Targets v) st"
    by (rule validate_targets_inv [OF run]) (simp add: targets_inv_def roles_of_def direct_of_def List.map_filter_def)
  ultimately show thesis using that [of st] by simp
qed


text \<open>A small valid configuration: the defaults, one default-chain source, one required target.\<close>

definition sample_target :: TargetConfig where
  "sample_target =
     \<lparr> tg_Name = ''payer'', tg_AccountID = ''123456789012'', tg_Required = True, tg_Source = ''main'',
       tg_AssumeRole = Some \<lparr> ar_RoleARN = ''arn:aws:iam::123456789012:role/cost'', ar_ExternalIDEnv = ''EXT_ID'',
                              ar_SessionName = '''' \<rparr>,
       tg_CostExplorerEnabled = True,
       tg_Filters = \<lparr> flt_LinkedAccountIDs = [], flt_Services = [], flt_Regions = [] \<rparr>,
       tg_OrganizationsEnabled = True, tg_AccountIDs = [], tg_BudgetsEnabled = True, tg_BudgetNames = [''monthly''],
       tg_CommitmentsEnabled = True, tg_AnomaliesEnabled = True,
       tg_CUR = \<lparr> cu_Enabled = False, cu_Region = '''', cu_Database = '''', cu_Table = '''', cu_Workgroup = '''',
                  cu_OutputLocation = '''', cu_QueryTimeout = 0, cu_PollInterval = 0, cu_TagColumns = [] \<rparr>,
       tg_TagsEnabled = True, tg_TagKeys = [\<lparr> tk_Key = ''team'', tk_MaxValues = 20 \<rparr>] \<rparr>"

definition sample_config :: Config where
  "sample_config = Default\<lparr> cf_Targets := [sample_target],
     cf_AWS := default_aws\<lparr> aw_Sources := [(''main'', \<lparr> cr_Type = CredentialSourceDefaultChain, cr_Profile = '''',
       cr_AccessKeyIDEnv = '''', cr_SecretAccessKeyEnv = '''', cr_SessionTokenEnv = '''' \<rparr>)] \<rparr>,
     cf_Collection := default_collection\<lparr> cl_JitterRatio := F_Fin (1/2) \<rparr> \<rparr>"

definition sample_env :: "string \<Rightarrow> string option" where
  "sample_env name = (if name = ''EXT_ID'' then Some ''secret'' else None)"

lemma sample_config_valid: "Validate sample_env (\<lambda>_. None) (\<lambda>_. False) sample_config = None"
  by code_simp


end
