(* ===== verification/Client_Factory.thy ===== *)
theory Client_Factory
  imports Commitment_Reader Config_Validation "HOL-Library.Sublist"
begin

text \<open>
  \<open>internal/aws/clientfactory\<close>: credential sources, the clients of a target and the verifier that
  ties a target's credentials to its account. Values of the SDK (configurations, providers,
  clients) are the terms the program builds; what \<open>LoadDefaultConfig\<close> answers for a source is a
  parameter. The verifier is called from several goroutines, so its mutex-protected sections are
  the steps of an interleaved system; the answers of the credentials provider and of STS, the clock
  and the hash are unconstrained.
\<close>

section \<open>SDK values\<close>

text \<open>
  A limiter is identified by its owner: \<open>None\<close> for the one of the factory, otherwise the target it
  was made for.
\<close>

record Limiter =
  lm_owner :: "TargetID option"
  lm_requestsPerSecond :: float64
  lm_burst :: int

definition NewLimiter :: "TargetID option \<Rightarrow> float64 \<Rightarrow> int \<Rightarrow> Limiter" where
  "NewLimiter owner rate burst = \<lparr> lm_owner = owner, lm_requestsPerSecond = rate, lm_burst = burst \<rparr>"

record DualLimiter =
  dl_Global :: Limiter
  dl_Target :: Limiter

text \<open>\<open>awscommon.NewRetryer\<close>: the options given to the SDK's standard retryer.\<close>

record Retryer =
  ry_MaxAttempts :: int
  ry_MaxBackoff :: duration
  ry_Backoff :: jitterBackoff

definition NewRetryer :: "RetryConfig \<Rightarrow> Retryer" where
  "NewRetryer v = \<lparr> ry_MaxAttempts = rt_MaxAttempts v, ry_MaxBackoff = rt_MaxBackoff v,
                    ry_Backoff = \<lparr> jb_base = rt_BaseDelay v, jb_max = rt_MaxBackoff v \<rparr> \<rparr>"

record retryObserver =
  ro_Retryer :: Retryer
  ro_target :: TargetID
  ro_operation :: string
  ro_limiter :: DualLimiter

definition WrapRetryer :: "Retryer \<Rightarrow> TargetID \<Rightarrow> string \<Rightarrow> DualLimiter \<Rightarrow> retryObserver" where
  "WrapRetryer base target operation limiter =
     \<lparr> ro_Retryer = base, ro_target = target, ro_operation = operation, ro_limiter = limiter \<rparr>"

text \<open>
  Credentials providers, \<open>aws.Config\<close> and a service client. \<open>LoadedCredentials\<close> is whatever the
  SDK's own chain resolved to.
\<close>

datatype 'c provider =
    AnonymousCredentials
  | StaticCredentials string string string
  | LoadedCredentials 'c
  | CredentialsCache "'c provider"
  | AssumeRoleProvider "'c client" string string string
and 'c sdk_config = SDKConfig (sc_Region: string) (sc_HTTPTimeout: duration) (sc_Credentials: "'c provider") (sc_Retryer: Retryer)
and 'c client =
  Client (ct_config: "'c sdk_config") (ct_AppID: string) (ct_Retryer: "retryObserver option") (ct_BaseEndpoint: "string option")

definition with_credentials :: "'c provider \<Rightarrow> 'c sdk_config \<Rightarrow> 'c sdk_config" where
  "with_credentials p c = SDKConfig (sc_Region c) (sc_HTTPTimeout c) p (sc_Retryer c)"

definition with_region :: "string \<Rightarrow> 'c sdk_config \<Rightarrow> 'c sdk_config" where
  "with_region r c = SDKConfig r (sc_HTTPTimeout c) (sc_Credentials c) (sc_Retryer c)"

section \<open>New and ValidateSources\<close>

datatype load_option =
  WithRegion string | WithHTTPClient duration | WithRetryer Retryer | WithSharedConfigProfile string

record 'c Factory =
  fa_sources :: "(string, 'c sdk_config) gomap"
  fa_sourceErrors :: "(string, go_error) gomap"
  fa_config :: AWSConfig
  fa_global :: Limiter

definition commonOptions :: "AWSConfig \<Rightarrow> load_option list" where
  "commonOptions v =
     [WithRegion (aw_Region v), WithHTTPClient (aw_RequestTimeout v), WithRetryer (NewRetryer (aw_Retry v))]"

definition fallback :: "AWSConfig \<Rightarrow> 'c sdk_config" where
  "fallback v = SDKConfig (aw_Region v) (aw_RequestTimeout v) AnonymousCredentials (NewRetryer (aw_Retry v))"

definition Getenv :: "(string \<Rightarrow> string option) \<Rightarrow> string \<Rightarrow> string" where
  "Getenv env name = (case env name of None \<Rightarrow> '''' | Some v \<Rightarrow> v)"

text \<open>One iteration of the loop over the sources: the configuration stored, and the error if any.\<close>

definition load_source ::
  "(load_option list \<Rightarrow> go_error + 'c sdk_config) \<Rightarrow> (string \<Rightarrow> string option) \<Rightarrow> AWSConfig \<Rightarrow>
   CredentialSourceConfig \<Rightarrow> 'c sdk_config \<times> go_error option" where
  "load_source load env v source =
     (let loaded = (\<lambda>options. case load options of
                                Inl err \<Rightarrow> (fallback v, Some err)
                              | Inr base \<Rightarrow> (base, None))
      in if cr_Type source = CredentialSourceProfile
         then loaded (commonOptions v @ [WithSharedConfigProfile (cr_Profile source)])
         else if cr_Type source = CredentialSourceStaticEnv
         then (with_credentials
                 (CredentialsCache (StaticCredentials (Getenv env (cr_AccessKeyIDEnv source))
                    (Getenv env (cr_SecretAccessKeyEnv source)) (Getenv env (cr_SessionTokenEnv source)))) (fallback v), None)
         else if cr_Type source = CredentialSourceDefaultChain then loaded (commonOptions v)
         else (fallback v, Some (Sentinel ''unsupported credential source type'')))"

definition Factory_New ::
  "(string \<Rightarrow> load_option list \<Rightarrow> go_error + 'c sdk_config) \<Rightarrow> (string \<Rightarrow> string option) \<Rightarrow> AWSConfig \<Rightarrow> 'c Factory" where
  "Factory_New load env v =
     \<lparr> fa_sources = map (\<lambda>(name, source). (name, fst (load_source (load name) env v source))) (aw_Sources v),
       fa_sourceErrors = List.map_filter (\<lambda>(name, source). map_option (Pair name) (snd (load_source (load name) env v source)))
                           (aw_Sources v),
       fa_config = v,
       fa_global = NewLimiter None (rl_GlobalRequestsPerSecond (aw_RateLimit v)) (rl_GlobalBurst (aw_RateLimit v)) \<rparr>"

definition ValidateSources :: "'c Factory option \<Rightarrow> go_error option" where
  "ValidateSources factory =
     (case factory of
        None \<Rightarrow> Some (Sentinel ''invalid AWS client factory'')
      | Some f \<Rightarrow> first_error (map (\<lambda>(name, _). map_option (Wrapped ''load AWS credential source'') (map_of (fa_sourceErrors f) name))
                                   (aw_Sources (fa_config f))))"

section \<open>ForTarget\<close>

definition sessionName :: "TargetID \<Rightarrow> string \<Rightarrow> string" where
  "sessionName target configured =
     (if configured \<noteq> '''' then configured
      else let v = ''aws-cost-exporter-'' @ target in if length v > 64 then take 64 v else v)"

definition retry_operations :: "string list" where
  "retry_operations =
     [''AssumeRole'', ''GetCallerIdentity'', ''GetCostAndUsage'', ''GetCostForecast'', ''ListAccounts'', ''DescribeOrganization'',
      ''DescribeBudgets'', ''GetSavingsPlansUtilization'', ''GetSavingsPlansCoverage'', ''GetReservationUtilization'',
      ''GetReservationCoverage'', ''GetAnomalies'', ''StartQueryExecution'', ''GetQueryExecution'', ''GetQueryResults'',
      ''StopQueryExecution'']"

definition retryerFor :: "Retryer \<Rightarrow> TargetID \<Rightarrow> DualLimiter \<Rightarrow> string \<Rightarrow> retryObserver option" where
  "retryerFor base target limiter =
     map_of (map (\<lambda>op. (op, WrapRetryer base target op limiter)) retry_operations)"

definition base_endpoint :: "string \<Rightarrow> string option" where
  "base_endpoint configured = (let e = TrimSpace configured in if e = '''' then None else Some e)"

record 'c targetVerifier =
  tv_client :: "'c client option"
  tv_target :: TargetID
  tv_accountID :: string
  tv_credentials :: "'c provider option"
  tv_failureTTL :: duration
  tv_successTTL :: duration
  tv_verified :: bool
  tv_verifiedUntil :: "time"
  tv_verifiedFor :: string
  tv_inFlight :: "nat option"
  tv_lastErr :: "go_error option"
  tv_retryAfter :: "time"
  tv_failedFor :: string

datatype 'c Verifier = TargetVerifier "'c targetVerifier" | Unavailable go_error

record 'c Clients =
  cs_CostExplorer :: "'c client"
  cs_Athena :: "'c client"
  cs_Organizations :: "'c client"
  cs_Budgets :: "'c client"
  cs_Retryer :: "string \<Rightarrow> retryObserver option"
  cs_Verifier :: "'c Verifier"

definition zero_hash :: string where "zero_hash = replicate 32 (CHR 0x00)"

definition new_targetVerifier :: "'c client \<Rightarrow> TargetID \<Rightarrow> string \<Rightarrow> 'c provider \<Rightarrow> duration \<Rightarrow> 'c targetVerifier" where
  "new_targetVerifier c target account p timeout =
     \<lparr> tv_client = Some c, tv_target = target, tv_accountID = account, tv_credentials = Some p,
       tv_failureTTL = min timeout Minute, tv_successTTL = Hour, tv_verified = False, tv_verifiedUntil = 0,
       tv_verifiedFor = zero_hash, tv_inFlight = None, tv_lastErr = None, tv_retryAfter = 0, tv_failedFor = zero_hash \<rparr>"

text \<open>The configuration of the target's clients: the source's own credentials, or those of its role.\<close>

definition assume_role ::
  "(string \<Rightarrow> string option) \<Rightarrow> AWSConfig \<Rightarrow> 'c sdk_config \<Rightarrow> TargetID \<Rightarrow> DualLimiter \<Rightarrow> AssumeRoleConfig \<Rightarrow> 'c sdk_config" where
  "assume_role env v base target limiter role =
     (let stsClient = Client base '''' (retryerFor (sc_Retryer base) target limiter ''AssumeRole'') (base_endpoint (ep_STS (aw_Endpoints v)))
      in with_credentials
           (CredentialsCache (AssumeRoleProvider stsClient (ar_RoleARN role) (Getenv env (ar_ExternalIDEnv role))
              (sessionName target (ar_SessionName role)))) base)"

definition ForTarget ::
  "(string \<Rightarrow> string option) \<Rightarrow> 'c Factory option \<Rightarrow> TargetConfig \<Rightarrow> go_error + 'c Clients" where
  "ForTarget env factory target =
     (case factory of
        None \<Rightarrow> Inl (Sentinel ''invalid AWS client factory target'')
      | Some f \<Rightarrow>
          if tg_Name target = '''' then Inl (Sentinel ''invalid AWS client factory target'')
          else case map_of (fa_sources f) (tg_Source target) of
                 None \<Rightarrow> Inl (Sentinel ''target references unknown AWS credential source'')
               | Some base \<Rightarrow>
                   let v = fa_config f; targetID = tg_Name target;
                       sourceErr = map_of (fa_sourceErrors f) (tg_Source target);
                       limiter = \<lparr> dl_Global = fa_global f,
                                   dl_Target = NewLimiter (Some targetID) (rl_TargetRequestsPerSecond (aw_RateLimit v))
                                                 (rl_TargetBurst (aw_RateLimit v)) \<rparr>;
                       retryer = retryerFor (sc_Retryer base) targetID limiter;
                       sdk = (case (sourceErr, tg_AssumeRole target) of
                                (None, Some role) \<Rightarrow> assume_role env v base targetID limiter role
                              | _ \<Rightarrow> base);
                       identityClient = Client sdk '''' (retryer ''GetCallerIdentity'') (base_endpoint (ep_STS (aw_Endpoints v)));
                       athenaConfig = (if cu_Region (tg_CUR target) \<noteq> '''' then with_region (cu_Region (tg_CUR target)) sdk else sdk)
                   in Inr \<lparr> cs_CostExplorer = Client sdk ''aws-cost-exporter'' (retryer ''GetCostAndUsage'')
                                                (base_endpoint (ep_CostExplorer (aw_Endpoints v))),
                            cs_Athena = Client athenaConfig '''' (retryer ''StartQueryExecution'')
                                          (base_endpoint (ep_Athena (aw_Endpoints v))),
                            cs_Organizations = Client sdk ''aws-cost-exporter'' (retryer ''ListAccounts'')
                                                 (base_endpoint (ep_Organizations (aw_Endpoints v))),
                            cs_Budgets = Client sdk ''aws-cost-exporter'' (retryer ''DescribeBudgets'')
                                           (base_endpoint (ep_Budgets (aw_Endpoints v))),
                            cs_Retryer = retryer,
                            cs_Verifier = (case sourceErr of
                                             Some err \<Rightarrow> Unavailable err
                                           | None \<Rightarrow> TargetVerifier (new_targetVerifier identityClient targetID (tg_AccountID target)
                                                       (sc_Credentials sdk) (aw_RequestTimeout v))) \<rparr>)"

text \<open>\<open>observedSTS.AssumeRole\<close>.\<close>

definition observedSTS_AssumeRole ::
  "('w \<Rightarrow> time) \<Rightarrow> TargetID \<Rightarrow> ('i \<Rightarrow> ('w, 'o) action) \<Rightarrow> 'i \<Rightarrow> ('w api_state, 'o) action" where
  "observedSTS_AssumeRole clock target api = observed_call clock target ''AssumeRole'' api"

section \<open>Fingerprints\<close>

record Credentials =
  cv_AccessKeyID :: string
  cv_SecretAccessKey :: string
  cv_SessionToken :: string
  cv_Source :: string
  cv_CanExpire :: bool
  cv_Expires :: "time"

text \<open>The layout \<open>time.RFC3339Nano\<close> in UTC: the fraction loses its trailing zeros.\<close>

definition format_nanos :: "int \<Rightarrow> string" where
  "format_nanos n = (if n = 0 then '''' else ''.'' @ rev (dropWhile (\<lambda>c. c = CHR ''0'') (rev (zpad 9 n))))"

definition FormatRFC3339Nano :: "time \<Rightarrow> string" where
  "FormatRFC3339Nano t =
     (let s = t mod day_ns div Second
      in FormatDateOnly t @ ''T'' @ zpad 2 (s div 3600) @ '':'' @ zpad 2 (s div 60 mod 60) @ '':'' @ zpad 2 (s mod 60) @
         format_nanos (t mod Second) @ ''Z'')"

definition fingerprint_text :: "Credentials \<Rightarrow> string" where
  "fingerprint_text c =
     (let nul = [CHR 0x00]
      in cv_AccessKeyID c @ nul @ cv_SecretAccessKey c @ nul @ cv_SessionToken c @ nul @ cv_Source c @
         (if cv_CanExpire c then nul @ FormatRFC3339Nano (cv_Expires c) else ''''))"

definition credentialFingerprint :: "(string \<Rightarrow> string) \<Rightarrow> go_error + Credentials \<Rightarrow> go_error + string" where
  "credentialFingerprint sum256 resolved =
     (case resolved of
        Inl err \<Rightarrow> Inl (classify_error err)
      | Inr c \<Rightarrow>
          if cv_AccessKeyID c = '''' then Inl (classify_error (Sentinel ''AWS credentials are unavailable''))
          else Inr (sum256 (fingerprint_text c)))"

section \<open>The verifier as an interleaved system\<close>

text \<open>
  The first critical section of \<open>Verify\<close>, for a fingerprint and the two clock readings it makes,
  and the second one, which stores the outcome.
\<close>

datatype enter_result = Verified_Hit | Wait_For nat | Cached_Failure go_error | Begin_Call

definition verify_enter :: "time \<Rightarrow> time \<Rightarrow> string \<Rightarrow> nat \<Rightarrow> 'c targetVerifier \<Rightarrow> 'c targetVerifier \<times> enter_result" where
  "verify_enter now later fingerprint fresh v =
     (if tv_verified v \<and> tv_verifiedFor v = fingerprint \<and> (tv_successTTL v \<le> 0 \<or> now < tv_verifiedUntil v)
      then (v, Verified_Hit)
      else let v1 = v\<lparr> tv_verified := False \<rparr>
           in case tv_inFlight v1 of
                Some k \<Rightarrow> (v1, Wait_For k)
              | None \<Rightarrow>
                  (case tv_lastErr v1 of
                     Some err \<Rightarrow>
                       if tv_failedFor v1 = fingerprint \<and> later < tv_retryAfter v1 then (v1, Cached_Failure err)
                       else (v1\<lparr> tv_inFlight := Some fresh \<rparr>, Begin_Call)
                   | None \<Rightarrow> (v1\<lparr> tv_inFlight := Some fresh \<rparr>, Begin_Call)))"

definition verify_leave :: "time \<Rightarrow> string \<Rightarrow> go_error option \<Rightarrow> 'c targetVerifier \<Rightarrow> 'c targetVerifier" where
  "verify_leave now fingerprint err v =
     (case err of
        None \<Rightarrow> v\<lparr> tv_verified := True, tv_verifiedUntil := now + tv_successTTL v, tv_verifiedFor := fingerprint,
                   tv_lastErr := None \<rparr>
      | Some e \<Rightarrow> v\<lparr> tv_lastErr := Some e, tv_retryAfter := now + tv_failureTTL v, tv_failedFor := fingerprint \<rparr>)
     \<lparr> tv_inFlight := None \<rparr>"

text \<open>The two decisions of \<open>verify\<close>: on the answer of STS and on the credentials read after it.\<close>

definition check_identity :: "'c targetVerifier \<Rightarrow> go_error + string option \<Rightarrow> go_error option" where
  "check_identity v answer =
     (case answer of
        Inl err \<Rightarrow> Some (classify_error err)
      | Inr account \<Rightarrow> if account \<noteq> Some (tv_accountID v) then Some IdentityMismatchError else None)"

definition check_unchanged :: "(string \<Rightarrow> string) \<Rightarrow> string \<Rightarrow> go_error + Credentials \<Rightarrow> go_error option" where
  "check_unchanged sum256 expected resolved =
     (case credentialFingerprint sum256 resolved of
        Inl err \<Rightarrow> Some err
      | Inr fp \<Rightarrow> if fp \<noteq> expected then Some CredentialsChangedError else None)"

definition verifier_configured :: "'c targetVerifier \<Rightarrow> bool" where
  "verifier_configured v \<longleftrightarrow>
     tv_client v \<noteq> None \<and> tv_credentials v \<noteq> None \<and> tv_target v \<noteq> '''' \<and> tv_accountID v \<noteq> ''''"

text \<open>
  Where a caller is: at the head of the loop, before the first section, waiting for a channel,
  about to call STS, in the call, reading the credentials again, or before the second section.
\<close>

datatype verify_pc =
    V_Loop
  | V_Lock string
  | V_Wait nat
  | V_Begin string nat
  | V_Call string nat "time"
  | V_Recheck string nat
  | V_Store string nat "go_error option"

text \<open>What an observer sees, in order; the number is the caller.\<close>

datatype verify_event =
    Retrieved nat string
  | Called nat string "time"
  | Answered nat "string option"
  | Outcome nat string "go_error option" "time"
  | Returned nat "string option" "go_error option" "time"

record 'c vsystem =
  vs_now :: "time"
  vs_verifier :: "'c targetVerifier"
  vs_next :: nat
  vs_closed :: "nat list"
  vs_pc :: "nat \<Rightarrow> verify_pc"
  vs_events :: "aws_event list"
  vs_log :: "verify_event list"

datatype verify_choice =
    Clock_Tick "time"
  | Retrieve_Answer nat "go_error + Credentials"
  | Lock_Acquired nat "time"
  | Channel_Closed nat
  | Context_Done nat go_error
  | Call_Started nat
  | Identity_Answer nat "go_error + string option"
  | Lock_Again nat

definition vgoto :: "nat \<Rightarrow> verify_pc \<Rightarrow> 'c vsystem \<Rightarrow> 'c vsystem" where
  "vgoto c pc s = s\<lparr> vs_pc := (vs_pc s)(c := pc) \<rparr>"

definition vlog :: "verify_event \<Rightarrow> 'c vsystem \<Rightarrow> 'c vsystem" where
  "vlog e s = s\<lparr> vs_log := vs_log s @ [e] \<rparr>"

definition verify_return :: "nat \<Rightarrow> string option \<Rightarrow> go_error option \<Rightarrow> 'c vsystem \<Rightarrow> 'c vsystem" where
  "verify_return c fp err s = vgoto c V_Loop (vlog (Returned c fp err (vs_now s)) s)"

definition log_retrieved :: "(string \<Rightarrow> string) \<Rightarrow> nat \<Rightarrow> go_error + Credentials \<Rightarrow> 'c vsystem \<Rightarrow> 'c vsystem" where
  "log_retrieved sum256 c resolved s =
     (case credentialFingerprint sum256 resolved of Inl _ \<Rightarrow> s | Inr fp \<Rightarrow> vlog (Retrieved c fp) s)"

fun verify_step :: "(string \<Rightarrow> string) \<Rightarrow> verify_choice \<Rightarrow> 'c vsystem \<Rightarrow> 'c vsystem option" where
  "verify_step sum256 (Clock_Tick t) s = (if vs_now s \<le> t then Some (s\<lparr> vs_now := t \<rparr>) else None)"
| "verify_step sum256 (Retrieve_Answer c resolved) s =
     (case vs_pc s c of
        V_Loop \<Rightarrow> Some
          (if \<not> verifier_configured (vs_verifier s)
           then verify_return c None (Some (Sentinel ''invalid AWS target verifier'')) s
           else case credentialFingerprint sum256 resolved of
                  Inl err \<Rightarrow> verify_return c None (Some err) s
                | Inr fp \<Rightarrow> vgoto c (V_Lock fp) (log_retrieved sum256 c resolved s))
      | V_Recheck fp k \<Rightarrow> Some (vgoto c (V_Store fp k (check_unchanged sum256 fp resolved)) (log_retrieved sum256 c resolved s))
      | _ \<Rightarrow> None)"
| "verify_step sum256 (Lock_Acquired c later) s =
     (case vs_pc s c of
        V_Lock fp \<Rightarrow>
          if later < vs_now s then None
          else (case verify_enter (vs_now s) later fp (vs_next s) (vs_verifier s) of
                  (v, Verified_Hit) \<Rightarrow> Some (verify_return c (Some fp) None s)
                | (v, Wait_For k) \<Rightarrow> Some (vgoto c (V_Wait k) (s\<lparr> vs_verifier := v, vs_now := later \<rparr>))
                | (v, Cached_Failure err) \<Rightarrow> Some (verify_return c (Some fp) (Some err) (s\<lparr> vs_verifier := v, vs_now := later \<rparr>))
                | (v, Begin_Call) \<Rightarrow>
                    Some (vgoto c (V_Begin fp (vs_next s))
                      (s\<lparr> vs_verifier := v, vs_now := later, vs_next := Suc (vs_next s) \<rparr>)))
      | _ \<Rightarrow> None)"
| "verify_step sum256 (Channel_Closed c) s =
     (case vs_pc s c of V_Wait k \<Rightarrow> if k \<in> set (vs_closed s) then Some (vgoto c V_Loop s) else None | _ \<Rightarrow> None)"
| "verify_step sum256 (Context_Done c err) s =
     (case vs_pc s c of V_Wait k \<Rightarrow> Some (verify_return c None (Some (classify_error err)) s) | _ \<Rightarrow> None)"
| "verify_step sum256 (Call_Started c) s =
     (case vs_pc s c of
        V_Begin fp k \<Rightarrow> Some (vgoto c (V_Call fp k (vs_now s)) (vlog (Called c fp (vs_now s)) s))
      | _ \<Rightarrow> None)"
| "verify_step sum256 (Identity_Answer c answer) s =
     (case vs_pc s c of
        V_Call fp k started \<Rightarrow>
          let s1 = s\<lparr> vs_events := vs_events s @ ObserveCall True (tv_target (vs_verifier s)) ''GetCallerIdentity'' started (vs_now s)
                       (case answer of Inl err \<Rightarrow> Some err | Inr _ \<Rightarrow> None) \<rparr>
          in (case check_identity (vs_verifier s) answer of
                Some err \<Rightarrow> Some (vgoto c (V_Store fp k (Some err)) s1)
              | None \<Rightarrow> Some (vgoto c (V_Recheck fp k) (vlog (Answered c (projr answer)) s1)))
      | _ \<Rightarrow> None)"
| "verify_step sum256 (Lock_Again c) s =
     (case vs_pc s c of
        V_Store fp k err \<Rightarrow>
          Some (verify_return c (Some fp) err (vlog (Outcome c fp err (vs_now s))
            (s\<lparr> vs_verifier := verify_leave (vs_now s) fp err (vs_verifier s), vs_closed := k # vs_closed s \<rparr>)))
      | _ \<Rightarrow> None)"

definition verify_moves :: "(string \<Rightarrow> string) \<Rightarrow> 'c vsystem \<Rightarrow> 'c vsystem \<Rightarrow> bool" where
  "verify_moves sum256 s t \<longleftrightarrow> (\<exists>choice. verify_step sum256 choice s = Some t)"

definition verify_init :: "'c targetVerifier \<Rightarrow> 'c vsystem \<Rightarrow> bool" where
  "verify_init v s \<longleftrightarrow> vs_verifier s = v \<and> vs_next s = 0 \<and> vs_closed s = [] \<and> (\<forall>c. vs_pc s c = V_Loop) \<and> vs_log s = []"

section \<open>Single flight\<close>

text \<open>The channel a caller has made and not yet closed.\<close>

fun holds :: "verify_pc \<Rightarrow> nat option" where
  "holds (V_Begin fp k) = Some k"
| "holds (V_Call fp k t) = Some k"
| "holds (V_Recheck fp k) = Some k"
| "holds (V_Store fp k err) = Some k"
| "holds _ = None"

text \<open>\<open>inFlight\<close> is the channel of the only caller that holds one.\<close>

definition one_holder :: "(nat \<Rightarrow> nat option) \<Rightarrow> nat option \<Rightarrow> bool" where
  "one_holder held inflight \<longleftrightarrow>
     (case inflight of
        None \<Rightarrow> \<forall>c. held c = None
      | Some k \<Rightarrow> \<exists>h. held = (\<lambda>_. None)(h := Some k))"

definition flight_inv :: "'c vsystem \<Rightarrow> bool" where
  "flight_inv s \<longleftrightarrow>
     one_holder (\<lambda>c. holds (vs_pc s c)) (tv_inFlight (vs_verifier s)) \<and>
     (\<forall>c k. vs_pc s c = V_Wait k \<longrightarrow> k \<in> set (vs_closed s) \<or> tv_inFlight (vs_verifier s) = Some k)"

lemmas verify_simps = vgoto_def vlog_def verify_return_def log_retrieved_def

lemma holds_update: "(\<lambda>d. holds ((pcs(c := pc)) d)) = (\<lambda>d. holds (pcs d))(c := holds pc)"
  by auto

lemma flight_moved:
  assumes "vs_pc t = (vs_pc s)(c := pc)" and "one_holder ((\<lambda>d. holds (vs_pc s d))(c := holds pc)) (tv_inFlight (vs_verifier t))"
    and "\<And>d k. vs_pc t d = V_Wait k \<Longrightarrow> k \<in> set (vs_closed t) \<or> tv_inFlight (vs_verifier t) = Some k"
  shows "flight_inv t"
  using assms(2,3) unfolding flight_inv_def assms(1) holds_update by blast

text \<open>A step that moves one caller without touching the channel it holds keeps the invariant.\<close>

lemma flight_same:
  assumes "flight_inv s" and "holds pc = holds (vs_pc s c)" and "tv_inFlight (vs_verifier t) = tv_inFlight (vs_verifier s)"
    and "vs_pc t = (vs_pc s)(c := pc)" and "vs_closed t = vs_closed s"
    and "\<And>k. pc = V_Wait k \<Longrightarrow> tv_inFlight (vs_verifier s) = Some k"
  shows "flight_inv t"
proof -
  have "(\<lambda>d. holds (vs_pc t d)) = (\<lambda>d. holds (vs_pc s d))" using assms(2,4) by auto
  then show ?thesis using assms unfolding flight_inv_def by (auto split: if_splits)
qed

lemma one_holder_begin: "one_holder held None \<Longrightarrow> one_holder (held(c := Some k)) (Some k)"
  unfolding one_holder_def by (auto simp: fun_eq_iff)

lemma one_holder_end: "one_holder held (Some k) \<Longrightarrow> held c = Some j \<Longrightarrow> j = k \<and> one_holder (held(c := None)) None"
  unfolding one_holder_def by (auto split: if_splits)

lemma one_holder_unique: "one_holder held n \<Longrightarrow> held c \<noteq> None \<Longrightarrow> n = held c \<and> (held d \<noteq> None \<longrightarrow> d = c)"
  unfolding one_holder_def by (auto split: option.splits if_splits)

lemma verify_enter_fields:
  assumes "verify_enter now later fp fresh v = (v', r)"
  shows "tv_target v' = tv_target v \<and> tv_accountID v' = tv_accountID v \<and> tv_successTTL v' = tv_successTTL v \<and>
    tv_failureTTL v' = tv_failureTTL v \<and> tv_verifiedFor v' = tv_verifiedFor v \<and> tv_verifiedUntil v' = tv_verifiedUntil v \<and>
    tv_lastErr v' = tv_lastErr v \<and> tv_retryAfter v' = tv_retryAfter v \<and> tv_failedFor v' = tv_failedFor v \<and>
    (tv_verified v' \<longrightarrow> tv_verified v) \<and>
    tv_inFlight v' = (if r = Begin_Call then Some fresh else tv_inFlight v) \<and>
    (r = Begin_Call \<longrightarrow> tv_inFlight v = None \<and> (\<forall>err. tv_lastErr v = Some err \<longrightarrow> tv_failedFor v \<noteq> fp \<or> tv_retryAfter v \<le> later)) \<and>
    (r = Verified_Hit \<longrightarrow> tv_verified v \<and> tv_verifiedFor v = fp \<and> (tv_successTTL v \<le> 0 \<or> now < tv_verifiedUntil v)) \<and>
    (\<forall>k. r = Wait_For k \<longrightarrow> tv_inFlight v = Some k) \<and> (\<forall>err. r = Cached_Failure err \<longrightarrow> tv_lastErr v = Some err \<and> later < tv_retryAfter v)"
  using assms by (auto simp: verify_enter_def Let_def split: if_splits option.splits)

lemma verify_leave_fields [simp]:
  "tv_target (verify_leave now fp err v) = tv_target v" "tv_accountID (verify_leave now fp err v) = tv_accountID v"
  "tv_successTTL (verify_leave now fp err v) = tv_successTTL v" "tv_failureTTL (verify_leave now fp err v) = tv_failureTTL v"
  "tv_inFlight (verify_leave now fp err v) = None"
  by (simp_all add: verify_leave_def split: option.splits)

lemma flight_enter:
  assumes "flight_inv s" and "verify_step sum256 (Lock_Acquired c later) s = Some t"
  shows "flight_inv t"
proof -
  from assms(2) obtain fp v r where pc: "vs_pc s c = V_Lock fp" and e: "verify_enter (vs_now s) later fp (vs_next s) (vs_verifier s) = (v, r)"
    by (auto split: verify_pc.splits if_splits prod.splits)
  note f = verify_enter_fields [OF e]
  show ?thesis
  proof (cases "r = Begin_Call")
    case True
    then have t: "t = vgoto c (V_Begin fp (vs_next s)) (s\<lparr> vs_verifier := v, vs_now := later, vs_next := Suc (vs_next s) \<rparr>)"
      using assms(2) pc e by (auto split: if_splits)
    have "one_holder (\<lambda>d. holds (vs_pc s d)) None" using assms(1) f True by (simp add: flight_inv_def)
    from one_holder_begin [OF this, of c "vs_next s"] show ?thesis
      using assms(1) f True
      by (intro flight_moved [of t s c "V_Begin fp (vs_next s)"]) (auto simp: t flight_inv_def vgoto_def split: if_splits)
  next
    case False
    define pc' where "pc' = (case r of Wait_For k \<Rightarrow> V_Wait k | _ \<Rightarrow> V_Loop)"
    have m: "vs_pc t = (vs_pc s)(c := pc') \<and> tv_inFlight (vs_verifier t) = tv_inFlight (vs_verifier s) \<and> vs_closed t = vs_closed s"
      using False assms(2) pc e f by (cases r) (auto simp: verify_simps pc'_def split: if_splits)
    have h: "holds pc' = holds (vs_pc s c)" by (simp add: pc'_def pc split: enter_result.split)
    have w: "tv_inFlight (vs_verifier s) = Some k" if "pc' = V_Wait k" for k
    proof -
      have "r = Wait_For k" using that by (cases r) (simp_all add: pc'_def)
      then show ?thesis using f by blast
    qed
    show ?thesis by (rule flight_same [OF assms(1) h _ _ _ w]) (use m in blast)+
  qed
qed

lemma flight_step:
  assumes "flight_inv s" and "verify_step sum256 choice s = Some t"
  shows "flight_inv t"
proof (cases choice)
  case (Clock_Tick n)
  then have "t = s\<lparr> vs_now := n \<rparr>" using assms(2) by (simp split: if_splits)
  then show ?thesis using assms(1) by (simp add: flight_inv_def)
next
  case (Retrieve_Answer c r)
  then obtain pc where "vs_pc t = (vs_pc s)(c := pc)" "holds pc = holds (vs_pc s c)" "vs_verifier t = vs_verifier s"
    "vs_closed t = vs_closed s" "\<And>k. pc \<noteq> V_Wait k"
    using assms(2) by (auto simp: verify_simps split: verify_pc.splits if_splits sum.splits)
  with assms(1) show ?thesis by (auto intro!: flight_same [of s pc c])
next
  case (Lock_Acquired c later)
  with assms show ?thesis using flight_enter by blast
next
  case (Channel_Closed c)
  with assms show ?thesis by (auto intro!: flight_same [of s V_Loop c] simp: verify_simps split: verify_pc.splits if_splits)
next
  case (Context_Done c err)
  with assms show ?thesis by (auto intro!: flight_same [of s V_Loop c] simp: verify_simps split: verify_pc.splits if_splits)
next
  case (Call_Started c)
  with assms(2) obtain fp k where pc: "vs_pc s c = V_Begin fp k" "vs_pc t = (vs_pc s)(c := V_Call fp k (vs_now s))"
    "vs_verifier t = vs_verifier s" "vs_closed t = vs_closed s"
    by (auto simp: verify_simps split: verify_pc.splits)
  with assms(1) show ?thesis by (auto intro!: flight_same [of s "V_Call fp k (vs_now s)" c])
next
  case (Identity_Answer c r)
  with assms(2) obtain pc where "vs_pc t = (vs_pc s)(c := pc)" "holds pc = holds (vs_pc s c)" "vs_verifier t = vs_verifier s"
    "vs_closed t = vs_closed s" "\<And>k. pc \<noteq> V_Wait k"
    by (auto simp: verify_simps Let_def split: verify_pc.splits option.splits)
  with assms(1) show ?thesis by (auto intro!: flight_same [of s pc c])
next
  case (Lock_Again c)
  with assms(2) obtain fp k err where pc: "vs_pc s c = V_Store fp k err"
    and t: "vs_pc t = (vs_pc s)(c := V_Loop)" "tv_inFlight (vs_verifier t) = None" "vs_closed t = k # vs_closed s"
    by (auto simp: verify_simps split: verify_pc.splits)
  have h: "one_holder (\<lambda>d. holds (vs_pc s d)) (tv_inFlight (vs_verifier s))" using assms(1) by (simp add: flight_inv_def)
  then have k: "tv_inFlight (vs_verifier s) = Some k" using one_holder_unique [OF h, of c] pc by simp
  then show ?thesis
    using assms(1) one_holder_end [OF h [unfolded k], of c k] pc
    by (intro flight_moved [OF t(1)]) (auto simp: flight_inv_def t split: if_splits)
qed

section \<open>What a successful verification rests on\<close>

text \<open>The events a caller at a program point has already caused, in order.\<close>

fun owed :: "string \<Rightarrow> nat \<Rightarrow> verify_pc \<Rightarrow> verify_event list" where
  "owed acct c (V_Lock fp) = [Retrieved c fp]"
| "owed acct c (V_Begin fp k) = [Retrieved c fp]"
| "owed acct c (V_Call fp k t) = [Retrieved c fp]"
| "owed acct c (V_Recheck fp k) = [Retrieved c fp, Answered c (Some acct)]"
| "owed acct c (V_Store fp k None) = [Retrieved c fp, Answered c (Some acct), Retrieved c fp]"
| "owed acct c _ = []"

text \<open>
  A caller read credentials with a fingerprint, STS named the account, and the caller then read
  credentials with the same fingerprint again.
\<close>

definition proven :: "string \<Rightarrow> nat \<Rightarrow> string \<Rightarrow> verify_event list \<Rightarrow> bool" where
  "proven acct c fp evs \<longleftrightarrow> subseq [Retrieved c fp, Answered c (Some acct), Retrieved c fp] evs"

definition outcomes_inv :: "string \<Rightarrow> duration \<Rightarrow> time \<Rightarrow> verify_event list \<Rightarrow> bool" where
  "outcomes_inv acct ttl now evs \<longleftrightarrow>
     (\<forall>c fp t. Outcome c fp None t \<in> set evs \<longrightarrow> proven acct c fp evs \<and> t \<le> now) \<and>
     (\<forall>c fp t. Returned c fp None t \<in> set evs \<longrightarrow>
        (\<exists>h fp' t'. fp = Some fp' \<and> Outcome h fp' None t' \<in> set evs \<and> t' \<le> t \<and> t < t' + ttl))"

definition sound_inv :: "string \<Rightarrow> duration \<Rightarrow> 'c vsystem \<Rightarrow> bool" where
  "sound_inv acct ttl s \<longleftrightarrow>
     tv_accountID (vs_verifier s) = acct \<and> tv_successTTL (vs_verifier s) = ttl \<and>
     (\<forall>c. subseq (owed acct c (vs_pc s c)) (vs_log s)) \<and>
     (tv_verified (vs_verifier s) \<longrightarrow> (\<exists>h t. Outcome h (tv_verifiedFor (vs_verifier s)) None t \<in> set (vs_log s) \<and>
        tv_verifiedUntil (vs_verifier s) = t + ttl)) \<and>
     outcomes_inv acct ttl (vs_now s) (vs_log s)"

lemma subseq_more: "subseq xs ys \<Longrightarrow> subseq xs (ys @ zs)"
  by (rule list_emb_prefix)

lemma subseq_snoc: "subseq xs ys \<Longrightarrow> subseq (xs @ [e]) (ys @ [e])"
  by (rule list_emb_append_mono) simp_all

lemma proven_more: "proven acct c fp evs \<Longrightarrow> proven acct c fp (evs @ es)"
  unfolding proven_def by (rule subseq_more)

text \<open>Events that are neither successes nor successful returns extend the log freely.\<close>

fun plain_event :: "verify_event \<Rightarrow> bool" where
  "plain_event (Outcome c fp err t) = (err \<noteq> None)"
| "plain_event (Returned c fp err t) = (err \<noteq> None)"
| "plain_event _ = True"

lemma outcomes_more:
  assumes "outcomes_inv acct ttl now evs" and "now \<le> now'" and "list_all plain_event es"
  shows "outcomes_inv acct ttl now' (evs @ es)"
proof -
  have out: "Outcome c fp None t \<notin> set es" and ret: "Returned c fp' None t \<notin> set es" for c fp fp' t
    using assms(3) by (auto simp: list_all_iff)
  have "proven acct c fp (evs @ es) \<and> t \<le> now'" if "Outcome c fp None t \<in> set (evs @ es)" for c fp t
    using that assms(1,2) out proven_more [of acct c fp evs es] unfolding outcomes_inv_def by force
  moreover have "\<exists>h fp' t'. fp = Some fp' \<and> Outcome h fp' None t' \<in> set (evs @ es) \<and> t' \<le> t \<and> t < t' + ttl"
    if "Returned c fp None t \<in> set (evs @ es)" for c fp t
  proof -
    have "Returned c fp None t \<in> set evs" using that ret by simp
    with assms(1) obtain h fp' t' where "fp = Some fp'" "Outcome h fp' None t' \<in> set evs" "t' \<le> t" "t < t' + ttl"
      unfolding outcomes_inv_def by blast
    then show ?thesis by auto
  qed
  ultimately show ?thesis unfolding outcomes_inv_def by blast
qed

lemma sound_more:
  assumes "sound_inv acct ttl s" and "vs_pc t = (vs_pc s)(c := pc)" and "vs_log t = vs_log s @ es"
    and "subseq (owed acct c pc) (vs_log s @ es)" and "list_all plain_event es" and "vs_now s \<le> vs_now t"
    and "tv_accountID (vs_verifier t) = tv_accountID (vs_verifier s)" and "tv_successTTL (vs_verifier t) = tv_successTTL (vs_verifier s)"
    and "tv_verified (vs_verifier t) \<longrightarrow> tv_verified (vs_verifier s) \<and> tv_verifiedFor (vs_verifier t) = tv_verifiedFor (vs_verifier s) \<and>
      tv_verifiedUntil (vs_verifier t) = tv_verifiedUntil (vs_verifier s)"
  shows "sound_inv acct ttl t"
proof -
  have "outcomes_inv acct ttl (vs_now t) (vs_log t)"
    unfolding assms(3) by (rule outcomes_more [OF _ assms(6,5)]) (use assms(1) in \<open>simp add: sound_inv_def\<close>)
  moreover have "subseq (owed acct d (vs_pc t d)) (vs_log t)" for d
    using assms(1,4) unfolding assms(2,3) sound_inv_def by (cases "d = c") (auto intro: subseq_more)
  moreover have "\<exists>h u. Outcome h (tv_verifiedFor (vs_verifier t)) None u \<in> set (vs_log t) \<and> tv_verifiedUntil (vs_verifier t) = u + ttl"
    if "tv_verified (vs_verifier t)"
  proof -
    have v: "tv_verified (vs_verifier s)" "tv_verifiedFor (vs_verifier t) = tv_verifiedFor (vs_verifier s)"
      "tv_verifiedUntil (vs_verifier t) = tv_verifiedUntil (vs_verifier s)" using assms(9) that by blast+
    then show ?thesis using assms(1) unfolding sound_inv_def assms(3) v(2,3) by auto
  qed
  ultimately show ?thesis using assms(1,7,8) unfolding sound_inv_def by blast
qed

lemma check_identity_None: "check_identity v answer = None \<Longrightarrow> answer = Inr (Some (tv_accountID v))"
  by (auto simp: check_identity_def split: sum.splits if_splits)

lemma check_unchanged_None: "check_unchanged sum256 fp r = None \<Longrightarrow> credentialFingerprint sum256 r = Inr fp"
  by (auto simp: check_unchanged_def split: sum.splits if_splits)

lemma sound_hit:
  assumes "sound_inv acct ttl s" and "0 < ttl" and "verify_enter (vs_now s) later fp n (vs_verifier s) = (v, Verified_Hit)"
  shows "sound_inv acct ttl (verify_return c (Some fp) None s)"
proof -
  let ?e = "Returned c (Some fp) None (vs_now s)"
  obtain h t where o: "Outcome h fp None t \<in> set (vs_log s)" "vs_now s < t + ttl"
    using assms(1,2) verify_enter_fields [OF assms(3)] unfolding sound_inv_def by fastforce
  then have "t \<le> vs_now s" using assms(1) unfolding sound_inv_def outcomes_inv_def by blast
  have plain: "outcomes_inv acct ttl (vs_now s) (vs_log s @ [])"
    using assms(1) by (simp add: sound_inv_def)
  have "proven acct d g (vs_log s @ [?e]) \<and> u \<le> vs_now s" if "Outcome d g None u \<in> set (vs_log s @ [?e])" for d g u
    using that plain proven_more unfolding outcomes_inv_def by force
  moreover have "\<exists>h fp' t'. g = Some fp' \<and> Outcome h fp' None t' \<in> set (vs_log s @ [?e]) \<and> t' \<le> u \<and> u < t' + ttl"
    if "Returned d g None u \<in> set (vs_log s @ [?e])" for d g u
  proof (cases "Returned d g None u \<in> set (vs_log s)")
    case True
    then show ?thesis using plain unfolding outcomes_inv_def by fastforce
  next
    case False
    then have "g = Some fp" "u = vs_now s" using that by simp_all
    then show ?thesis using o \<open>t \<le> vs_now s\<close> by auto
  qed
  ultimately have "outcomes_inv acct ttl (vs_now s) (vs_log s @ [?e])" unfolding outcomes_inv_def by blast
  then show ?thesis
    using assms(1) unfolding sound_inv_def by (auto simp: verify_simps intro: subseq_more)
qed

lemma sound_leave:
  assumes "sound_inv acct ttl s" and "0 < ttl" and "vs_pc s c = V_Store fp k err"
  shows "sound_inv acct ttl (verify_return c (Some fp) err (vlog (Outcome c fp err (vs_now s))
    (s\<lparr> vs_verifier := verify_leave (vs_now s) fp err (vs_verifier s), vs_closed := k # vs_closed s \<rparr>)))" (is "sound_inv acct ttl ?t")
proof (cases err)
  case (Some e)
  show ?thesis
    by (rule sound_more [OF assms(1), where c = c and pc = V_Loop and es = "[Outcome c fp err (vs_now s), Returned c (Some fp) err (vs_now s)]"])
      (simp_all add: verify_simps Some verify_leave_def)
next
  case None
  let ?es = "[Outcome c fp None (vs_now s), Returned c (Some fp) None (vs_now s)]"
  have "subseq (owed acct c (vs_pc s c)) (vs_log s)" using assms(1) by (simp add: sound_inv_def)
  then have pr: "proven acct c fp (vs_log s @ ?es)" by (intro proven_more) (simp add: assms(3) None proven_def)
  have old: "outcomes_inv acct ttl (vs_now s) (vs_log s)" using assms(1) by (simp add: sound_inv_def)
  have "proven acct d g (vs_log s @ ?es) \<and> u \<le> vs_now s" if "Outcome d g None u \<in> set (vs_log s @ ?es)" for d g u
  proof (cases "Outcome d g None u \<in> set (vs_log s)")
    case True
    then show ?thesis using old proven_more unfolding outcomes_inv_def by blast
  next
    case False
    then show ?thesis using that pr by simp
  qed
  moreover have "\<exists>h fp' t'. g = Some fp' \<and> Outcome h fp' None t' \<in> set (vs_log s @ ?es) \<and> t' \<le> u \<and> u < t' + ttl"
    if "Returned d g None u \<in> set (vs_log s @ ?es)" for d g u
  proof (cases "Returned d g None u \<in> set (vs_log s)")
    case True
    then show ?thesis using old unfolding outcomes_inv_def by fastforce
  next
    case False
    then have "g = Some fp" "u = vs_now s" using that by simp_all
    then show ?thesis using assms(2) by (intro exI [of _ c] exI [of _ fp] exI [of _ "vs_now s"]) simp
  qed
  ultimately have "outcomes_inv acct ttl (vs_now s) (vs_log s @ ?es)" unfolding outcomes_inv_def by blast
  moreover have "subseq (owed acct d (vs_pc s d)) (vs_log s @ ?es)" for d
    using assms(1) by (intro subseq_more) (simp add: sound_inv_def)
  ultimately show ?thesis
    using assms(1) by (auto simp: sound_inv_def verify_simps None verify_leave_def)
qed

lemma sound_enter:
  assumes "sound_inv acct ttl s" and "0 < ttl" and "verify_step sum256 (Lock_Acquired c later) s = Some t"
  shows "sound_inv acct ttl t"
proof -
  from assms(3) obtain fp v r where pc: "vs_pc s c = V_Lock fp" and e: "verify_enter (vs_now s) later fp (vs_next s) (vs_verifier s) = (v, r)"
    and l: "vs_now s \<le> later"
    by (auto split: verify_pc.splits if_splits prod.splits)
  note f = verify_enter_fields [OF e]
  have o: "subseq [Retrieved c fp] (vs_log s)" using assms(1) pc by (metis owed.simps(1) sound_inv_def)
  show ?thesis
  proof (cases r)
    case Verified_Hit
    then show ?thesis using assms(3) pc e l sound_hit [OF assms(1,2), of later fp "vs_next s" v c] by simp
  next
    case (Wait_For k)
    then have "t = vgoto c (V_Wait k) (s\<lparr> vs_verifier := v, vs_now := later \<rparr>)" using assms(3) pc e l by simp
    then show ?thesis using f l by (intro sound_more [OF assms(1), where c = c and es = "[]"]) (auto simp: verify_simps)
  next
    case (Cached_Failure err)
    then have "t = verify_return c (Some fp) (Some err) (s\<lparr> vs_verifier := v, vs_now := later \<rparr>)" using assms(3) pc e l by simp
    then show ?thesis
      using f l by (intro sound_more [OF assms(1), where c = c and es = "[Returned c (Some fp) (Some err) later]"]) (auto simp: verify_simps)
  next
    case Begin_Call
    then have "t = vgoto c (V_Begin fp (vs_next s)) (s\<lparr> vs_verifier := v, vs_now := later, vs_next := Suc (vs_next s) \<rparr>)"
      using assms(3) pc e l by simp
    then show ?thesis using f l o by (intro sound_more [OF assms(1), where c = c and es = "[]"]) (auto simp: verify_simps)
  qed
qed

lemma sound_retrieve:
  assumes "sound_inv acct ttl s" and "verify_step sum256 (Retrieve_Answer c r) s = Some t"
  shows "sound_inv acct ttl t"
proof (cases "vs_pc s c")
  case V_Loop
  then show ?thesis
    using assms(2)
    by (auto simp: verify_simps split: if_splits sum.splits intro!: sound_more [OF assms(1), where c = c] list_emb_append2)
next
  case (V_Recheck fp k)
  have o: "subseq [Retrieved c fp, Answered c (Some acct)] (vs_log s)"
    using assms(1) V_Recheck by (metis owed.simps(4) sound_inv_def)
  define e where "e = check_unchanged sum256 fp r"
  define es where "es = (case credentialFingerprint sum256 r of Inl _ \<Rightarrow> [] | Inr g \<Rightarrow> [Retrieved c g])"
  have t: "t = (s\<lparr> vs_log := vs_log s @ es, vs_pc := (vs_pc s)(c := V_Store fp k e) \<rparr>)"
    using assms(2) V_Recheck by (simp add: verify_simps e_def es_def split: sum.splits)
  have "subseq (owed acct c (V_Store fp k e)) (vs_log s @ es)"
    using subseq_snoc [OF o, of "Retrieved c fp"] check_unchanged_None [of sum256 fp r] by (cases e) (auto simp: e_def es_def)
  then show ?thesis by (intro sound_more [OF assms(1), where c = c]) (auto simp: t es_def split: sum.splits)
qed (use assms(2) in simp_all)

lemma sound_answer:
  assumes "sound_inv acct ttl s" and "verify_step sum256 (Identity_Answer c r) s = Some t"
  shows "sound_inv acct ttl t"
proof -
  from assms(2) obtain fp k u where pc: "vs_pc s c = V_Call fp k u" by (auto split: verify_pc.splits)
  have o: "subseq [Retrieved c fp] (vs_log s)" using assms(1) pc by (metis owed.simps(3) sound_inv_def)
  show ?thesis
  proof (cases "check_identity (vs_verifier s) r")
    case None
    then have "r = Inr (Some acct)" using check_identity_None assms(1) unfolding sound_inv_def by blast
    then show ?thesis
      using subseq_snoc [OF o, of "Answered c (Some acct)"] assms(2) pc None
      by (intro sound_more [OF assms(1), where c = c and es = "[Answered c (Some acct)]"]) (auto simp: verify_simps Let_def)
  next
    case (Some err)
    then show ?thesis
      using assms(2) pc
      by (intro sound_more [OF assms(1), where c = c and es = "[]"]) (auto simp: verify_simps Let_def)
  qed
qed

lemma sound_step:
  assumes "sound_inv acct ttl s" and "0 < ttl" and "verify_step sum256 choice s = Some t"
  shows "sound_inv acct ttl t"
proof (cases choice)
  case (Clock_Tick n)
  then have "t = s\<lparr> vs_now := n \<rparr>" "vs_now s \<le> n" using assms(3) by (simp_all split: if_splits)
  then show ?thesis using assms(1) outcomes_more [of acct ttl "vs_now s" "vs_log s" n "[]"] by (simp add: sound_inv_def)
next
  case (Retrieve_Answer c r)
  with assms show ?thesis using sound_retrieve by blast
next
  case (Lock_Acquired c later)
  with assms show ?thesis using sound_enter by blast
next
  case (Channel_Closed c)
  with assms(3) show ?thesis
    by (auto simp: verify_simps split: verify_pc.splits if_splits intro!: sound_more [OF assms(1), where c = c and es = "[]"])
next
  case (Context_Done c err)
  with assms(3) show ?thesis
    by (auto simp: verify_simps split: verify_pc.splits if_splits intro!: sound_more [OF assms(1), where c = c])
next
  case (Call_Started c)
  with assms(3) obtain fp k where pc: "vs_pc s c = V_Begin fp k"
    and t: "t = vgoto c (V_Call fp k (vs_now s)) (vlog (Called c fp (vs_now s)) s)" by (auto split: verify_pc.splits)
  have "subseq [Retrieved c fp] (vs_log s)" using assms(1) pc by (metis owed.simps(2) sound_inv_def)
  then show ?thesis
    by (intro sound_more [OF assms(1), where c = c and es = "[Called c fp (vs_now s)]"]) (auto simp: t verify_simps intro: subseq_more)
next
  case (Identity_Answer c r)
  with assms show ?thesis using sound_answer by blast
next
  case (Lock_Again c)
  with assms(3) show ?thesis using sound_leave [OF assms(1,2)] by (auto split: verify_pc.splits)
qed

section \<open>Failures are not hammered\<close>

text \<open>The failure in force after a log: the last outcome, when it is an error.\<close>

fun failure_after :: "(string \<times> time) option \<Rightarrow> verify_event \<Rightarrow> (string \<times> time) option" where
  "failure_after f (Outcome c fp err t) = (if err = None then None else Some (fp, t))"
| "failure_after f _ = f"

definition last_failure :: "verify_event list \<Rightarrow> (string \<times> time) option" where
  "last_failure evs = foldl failure_after None evs"

text \<open>A call for a fingerprint at a time respects the failure in force.\<close>

definition call_allowed :: "duration \<Rightarrow> (string \<times> time) option \<Rightarrow> string \<Rightarrow> time \<Rightarrow> bool" where
  "call_allowed ttl f fp t = (case f of None \<Rightarrow> True | Some (fp', t') \<Rightarrow> fp' = fp \<longrightarrow> t' + ttl \<le> t)"

fun event_allowed :: "duration \<Rightarrow> (string \<times> time) option \<Rightarrow> verify_event \<Rightarrow> bool" where
  "event_allowed ttl f (Called c fp t) = call_allowed ttl f fp t"
| "event_allowed ttl f _ = True"

fun calls_spaced :: "duration \<Rightarrow> (string \<times> time) option \<Rightarrow> verify_event list \<Rightarrow> bool" where
  "calls_spaced ttl f [] = True"
| "calls_spaced ttl f (e # es) \<longleftrightarrow> event_allowed ttl f e \<and> calls_spaced ttl (failure_after f e) es"

lemma calls_spaced_append:
  "calls_spaced ttl f (xs @ ys) \<longleftrightarrow> calls_spaced ttl f xs \<and> calls_spaced ttl (foldl failure_after f xs) ys"
  by (induction xs arbitrary: f) auto

lemma last_failure_append: "last_failure (xs @ ys) = foldl failure_after (last_failure xs) ys"
  by (simp add: last_failure_def)

definition failure_kept :: "duration \<Rightarrow> 'c targetVerifier \<Rightarrow> (string \<times> time) option \<Rightarrow> bool" where
  "failure_kept ttl v f =
     (case f of None \<Rightarrow> tv_lastErr v = None
      | Some (fp, t) \<Rightarrow> tv_lastErr v \<noteq> None \<and> tv_failedFor v = fp \<and> tv_retryAfter v = t + ttl)"

definition spacing_inv :: "duration \<Rightarrow> 'c vsystem \<Rightarrow> bool" where
  "spacing_inv ttl s \<longleftrightarrow>
     tv_failureTTL (vs_verifier s) = ttl \<and> calls_spaced ttl None (vs_log s) \<and>
     failure_kept ttl (vs_verifier s) (last_failure (vs_log s)) \<and>
     (\<forall>c fp k. vs_pc s c = V_Begin fp k \<longrightarrow> call_allowed ttl (last_failure (vs_log s)) fp (vs_now s))"

text \<open>Events that are neither calls nor outcomes do not matter for the spacing.\<close>

fun quiet :: "verify_event \<Rightarrow> bool" where
  "quiet (Called c fp t) = False"
| "quiet (Outcome c fp err t) = False"
| "quiet _ = True"

lemma quiet_events: "list_all quiet es \<Longrightarrow> foldl failure_after f es = f \<and> calls_spaced ttl f es"
proof (induction es arbitrary: f)
  case (Cons e es)
  then show ?case by (cases e) auto
qed simp

lemma call_allowed_later: "call_allowed ttl f fp t \<Longrightarrow> t \<le> u \<Longrightarrow> call_allowed ttl f fp u"
  by (auto simp: call_allowed_def split: option.splits)

lemma spacing_quiet:
  assumes "spacing_inv ttl s" and "vs_log t = vs_log s @ es" and "list_all quiet es" and "vs_now s \<le> vs_now t"
    and "vs_pc t = (vs_pc s)(c := pc)" and "\<And>fp k. pc = V_Begin fp k \<Longrightarrow> call_allowed ttl (last_failure (vs_log s)) fp (vs_now t)"
    and "tv_failureTTL (vs_verifier t) = tv_failureTTL (vs_verifier s)" and "tv_lastErr (vs_verifier t) = tv_lastErr (vs_verifier s)"
    and "tv_failedFor (vs_verifier t) = tv_failedFor (vs_verifier s)" and "tv_retryAfter (vs_verifier t) = tv_retryAfter (vs_verifier s)"
  shows "spacing_inv ttl t"
proof -
  have f: "last_failure (vs_log t) = last_failure (vs_log s)"
    using quiet_events [OF assms(3)] by (simp add: assms(2) last_failure_append)
  have "calls_spaced ttl None (vs_log t)"
    using assms(1) quiet_events [OF assms(3)] by (simp add: assms(2) calls_spaced_append spacing_inv_def)
  moreover have "call_allowed ttl (last_failure (vs_log s)) fp (vs_now t)" if "vs_pc t d = V_Begin fp k" for d fp k
    using that assms(1,4-6) call_allowed_later unfolding spacing_inv_def by (metis (no_types, lifting) fun_upd_apply)
  moreover have "failure_kept ttl (vs_verifier t) g = failure_kept ttl (vs_verifier s) g" for g
    by (simp only: failure_kept_def assms(8-10))
  ultimately show ?thesis
    using assms(1,7) unfolding spacing_inv_def f by simp
qed

lemma spacing_begin:
  assumes "spacing_inv ttl s" and "vs_pc s c = V_Begin fp k"
  shows "spacing_inv ttl (vgoto c (V_Call fp k (vs_now s)) (vlog (Called c fp (vs_now s)) s))"
proof -
  have "call_allowed ttl (last_failure (vs_log s)) fp (vs_now s)" using assms unfolding spacing_inv_def by blast
  then show ?thesis
    using assms(1) by (auto simp: spacing_inv_def verify_simps calls_spaced_append last_failure_append last_failure_def split: if_splits)
qed

lemma spacing_leave:
  assumes "spacing_inv ttl s" and "flight_inv s" and "vs_pc s c = V_Store fp k err"
  shows "spacing_inv ttl (verify_return c (Some fp) err (vlog (Outcome c fp err (vs_now s))
    (s\<lparr> vs_verifier := verify_leave (vs_now s) fp err (vs_verifier s), vs_closed := k # vs_closed s \<rparr>)))"
proof -
  have h: "one_holder (\<lambda>d. holds (vs_pc s d)) (tv_inFlight (vs_verifier s))" using assms(2) by (simp add: flight_inv_def)
  have nobody: "vs_pc s d \<noteq> V_Begin g j" for d g j
    using one_holder_unique [OF h, of c d] assms(3) by (cases "d = c") force+
  show ?thesis
    using assms(1) nobody
    by (cases err) (auto simp: spacing_inv_def verify_simps calls_spaced_append last_failure_append failure_kept_def verify_leave_def)
qed

lemma spacing_enter:
  assumes "spacing_inv ttl s" and "verify_step sum256 (Lock_Acquired c later) s = Some t"
  shows "spacing_inv ttl t"
proof -
  from assms(2) obtain fp v r where pc: "vs_pc s c = V_Lock fp" and e: "verify_enter (vs_now s) later fp (vs_next s) (vs_verifier s) = (v, r)"
    and l: "vs_now s \<le> later"
    by (auto split: verify_pc.splits if_splits prod.splits)
  note f = verify_enter_fields [OF e]
  have k: "failure_kept ttl (vs_verifier s) (last_failure (vs_log s))" using assms(1) by (simp add: spacing_inv_def)
  show ?thesis
  proof (cases r)
    case Verified_Hit
    then have "t = verify_return c (Some fp) None s" using assms(2) pc e l by simp
    then show ?thesis
      by (intro spacing_quiet [OF assms(1), where c = c and es = "[Returned c (Some fp) None (vs_now s)]"]) (auto simp: verify_simps)
  next
    case (Wait_For j)
    then have "t = vgoto c (V_Wait j) (s\<lparr> vs_verifier := v, vs_now := later \<rparr>)" using assms(2) pc e l by simp
    then show ?thesis using f l by (intro spacing_quiet [OF assms(1), where c = c and es = "[]"]) (auto simp: verify_simps)
  next
    case (Cached_Failure err)
    then have "t = verify_return c (Some fp) (Some err) (s\<lparr> vs_verifier := v, vs_now := later \<rparr>)" using assms(2) pc e l by simp
    then show ?thesis
      using f l by (intro spacing_quiet [OF assms(1), where c = c and es = "[Returned c (Some fp) (Some err) later]"]) (auto simp: verify_simps)
  next
    case Begin_Call
    then have t: "t = vgoto c (V_Begin fp (vs_next s)) (s\<lparr> vs_verifier := v, vs_now := later, vs_next := Suc (vs_next s) \<rparr>)"
      using assms(2) pc e l by simp
    have "call_allowed ttl (last_failure (vs_log s)) fp later"
      using f k Begin_Call by (auto simp: call_allowed_def failure_kept_def split: option.splits)
    then show ?thesis using f l by (intro spacing_quiet [OF assms(1), where c = c and es = "[]"]) (auto simp: t verify_simps)
  qed
qed

lemma spacing_step:
  assumes "spacing_inv ttl s" and "flight_inv s" and "verify_step sum256 choice s = Some t"
  shows "spacing_inv ttl t"
proof (cases choice)
  case (Clock_Tick n)
  then have "t = s\<lparr> vs_now := n \<rparr>" "vs_now s \<le> n" using assms(3) by (simp_all split: if_splits)
  moreover have "call_allowed ttl (last_failure (vs_log s)) fp n" if "vs_pc s c = V_Begin fp k" "vs_now s \<le> n" for c fp k
    using that assms(1) call_allowed_later unfolding spacing_inv_def by blast
  ultimately show ?thesis using assms(1) unfolding spacing_inv_def by simp
next
  case (Retrieve_Answer c r)
  then obtain es pc where "vs_log t = vs_log s @ es" "list_all quiet es" "vs_pc t = (vs_pc s)(c := pc)" "\<And>fp k. pc \<noteq> V_Begin fp k"
    "vs_verifier t = vs_verifier s" "vs_now t = vs_now s"
    using assms(3) by (auto simp: verify_simps split: verify_pc.splits if_splits sum.splits)
  then show ?thesis by (intro spacing_quiet [OF assms(1), where c = c and pc = pc]) auto
next
  case (Lock_Acquired c later)
  with assms show ?thesis using spacing_enter by blast
next
  case (Channel_Closed c)
  with assms(3) show ?thesis
    by (auto simp: verify_simps split: verify_pc.splits if_splits intro!: spacing_quiet [OF assms(1), where c = c and es = "[]"])
next
  case (Context_Done c err)
  with assms(3) show ?thesis
    by (auto simp: verify_simps split: verify_pc.splits if_splits intro!: spacing_quiet [OF assms(1), where c = c])
next
  case (Call_Started c)
  with assms(1,3) show ?thesis using spacing_begin by (auto split: verify_pc.splits)
next
  case (Identity_Answer c r)
  then obtain es pc where "vs_log t = vs_log s @ es" "list_all quiet es" "vs_pc t = (vs_pc s)(c := pc)" "\<And>fp k. pc \<noteq> V_Begin fp k"
    "vs_verifier t = vs_verifier s" "vs_now t = vs_now s"
    using assms(3) by (auto simp: verify_simps Let_def split: verify_pc.splits option.splits)
  then show ?thesis by (intro spacing_quiet [OF assms(1), where c = c and pc = pc]) auto
next
  case (Lock_Again c)
  with assms(3) show ?thesis using spacing_leave [OF assms(1,2)] by (auto split: verify_pc.splits)
qed

section \<open>Theorems\<close>

lemma verify_init_inv:
  assumes "verify_init v s"
  shows "tv_inFlight v = None \<Longrightarrow> flight_inv s" and "\<not> tv_verified v \<Longrightarrow> sound_inv (tv_accountID v) (tv_successTTL v) s"
    and "tv_lastErr v = None \<Longrightarrow> spacing_inv (tv_failureTTL v) s"
  using assms
  by (simp_all add: verify_init_def flight_inv_def one_holder_def sound_inv_def outcomes_inv_def spacing_inv_def failure_kept_def
      last_failure_def)

interpretation verifier_soundness: invariant_system "verify_init v" "verify_moves sum256"
  "\<lambda>s. 0 < tv_successTTL v \<and> \<not> tv_verified v \<longrightarrow> sound_inv (tv_accountID v) (tv_successTTL v) s" for v :: "'c targetVerifier" and sum256
  by unfold_locales (use verify_init_inv(2) sound_step in \<open>unfold verify_moves_def, blast+\<close>)

interpretation verifier_spacing: invariant_system "verify_init v" "verify_moves sum256"
  "\<lambda>s. tv_inFlight v = None \<and> tv_lastErr v = None \<longrightarrow> flight_inv s \<and> spacing_inv (tv_failureTTL v) s" for v :: "'c targetVerifier" and sum256
  by unfold_locales (use verify_init_inv(1,3) flight_step spacing_step in \<open>unfold verify_moves_def, blast+\<close>)

lemma ForTarget_verifier:
  assumes "ForTarget env factory target = Inr clients" and "cs_Verifier clients = TargetVerifier v"
  obtains c p timeout where "v = new_targetVerifier c (tg_Name target) (tg_AccountID target) p timeout"
  using assms by (auto simp: ForTarget_def Let_def split: option.splits if_splits)

text \<open>
  C7. A verified target really is the configured account. Whatever the interleaving of concurrent
  callers, whatever STS and the credentials provider answer and whenever credentials rotate,
  \<open>Verify\<close> returns no error only for a fingerprint that a caller has proved less than an hour
  before: it read credentials with that fingerprint, STS then answered the account id of the
  target's configuration, and credentials read after the answer still had the same fingerprint.
\<close>

theorem verifier_sound:
  assumes "ForTarget env factory target = Inr clients" and "cs_Verifier clients = TargetVerifier v"
    and "reach (verify_init v) (verify_moves sum256) s" and "Returned c fp None t \<in> set (vs_log s)"
  shows "\<exists>h g t0. fp = Some g \<and> proven (tg_AccountID target) h g (vs_log s) \<and>
    Outcome h g None t0 \<in> set (vs_log s) \<and> t0 \<le> t \<and> t < t0 + Hour"
proof -
  obtain cl p timeout where v: "v = new_targetVerifier cl (tg_Name target) (tg_AccountID target) p timeout"
    using ForTarget_verifier [OF assms(1,2)] .
  have "outcomes_inv (tg_AccountID target) Hour (vs_now s) (vs_log s)"
    using verifier_soundness.reachable_inv [OF assms(3)] by (simp add: v new_targetVerifier_def sound_inv_def Hour_def)
  with assms(4) show ?thesis unfolding outcomes_inv_def by blast
qed


section \<open>The clients of a validated target\<close>

lemma map_of_keyed: "map_of (map (\<lambda>(k, x). (k, f k x)) xs) k = map_option (f k) (map_of xs k)"
  by (induction xs) auto

lemma range_err_each: "range_err f s xs = Inr s' \<Longrightarrow> x \<in> set xs \<Longrightarrow> \<exists>s1 s2. f s1 x = Inr s2"
  by (induction xs arbitrary: s) (auto split: sum.splits)

lemma validated_role:
  assumes "Validate env parseURL parseIP v = None" and "t \<in> set (cf_Targets v)" and "tg_AssumeRole t = Some role"
  shows "env_set env (ar_ExternalIDEnv role) \<and> (ar_SessionName role = '''' \<or> sessionNamePattern (ar_SessionName role))"
proof -
  have "validateTargets env parseURL parseIP v = None" using assms(1) by (simp add: Validate_def)
  then obtain s1 s2 where "validate_target env parseURL parseIP v s1 t = Inr s2"
    using range_err_each [OF _ assms(2)] by (fastforce simp: validateTargets_def split: sum.splits)
  then obtain roles where "validateAssumeRole env ''targets.credentials'' t (ts_roles s1) = Inr roles"
    by (auto simp: validate_target_def Let_def split: if_splits sum.splits)
  then show ?thesis using assms(3) by (auto simp: validateAssumeRole_def split: option.splits if_splits)
qed

lemma derived_session_name:
  assumes "targetNamePattern target"
  shows "sessionNamePattern (sessionName target '''')"
proof -
  obtain c rest where t: "target = c # rest" "is_lower c" "length rest \<le> 31"
    "list_all (\<lambda>c. is_lower c \<or> is_digit c \<or> c \<in> set ''_-'') rest"
    using assms by (auto simp: targetNamePattern_def split: list.splits)
  then have "list_all (word_char ''+=,.@_-'') target" by (auto simp: list_all_iff word_char_def)
  moreover have "list_all (word_char ''+=,.@_-'') ''aws-cost-exporter-''" by code_simp
  ultimately show ?thesis using t(1,3) by (simp add: sessionName_def sessionNamePattern_def Let_def list_all_append)
qed

definition session_of :: "TargetConfig \<Rightarrow> AssumeRoleConfig \<Rightarrow> string" where
  "session_of t role = sessionName (tg_Name t) (ar_SessionName role)"

text \<open>Every request of a client waits on the shared limiter first and on the target's own one.\<close>

definition throttled_for :: "'c Factory \<Rightarrow> TargetID \<Rightarrow> 'c client \<Rightarrow> bool" where
  "throttled_for f target c \<longleftrightarrow>
     (case ct_Retryer c of
        None \<Rightarrow> False
      | Some r \<Rightarrow> ro_target r = target \<and> dl_Global (ro_limiter r) = fa_global f \<and>
                  lm_owner (dl_Target (ro_limiter r)) = Some target)"


text \<open>
  Equal fingerprint texts mean equal keys, secrets, tokens and sources, as long as these do not
  contain the separator, so a rotation changes the hashed text.
\<close>

lemma split_at_nul:
  assumes "a @ CHR 0x00 # x = b @ CHR 0x00 # y" and "CHR 0x00 \<notin> set a" and "CHR 0x00 \<notin> set b"
  shows "a = b \<and> x = y"
  using assms by (auto simp: append_eq_append_conv2 Cons_eq_append_conv append_eq_Cons_conv)

lemma fingerprint_text_separates:
  assumes "fingerprint_text c = fingerprint_text d"
    and "\<forall>x \<in> {cv_AccessKeyID c, cv_SecretAccessKey c, cv_SessionToken c, cv_Source c,
                cv_AccessKeyID d, cv_SecretAccessKey d, cv_SessionToken d, cv_Source d}. CHR 0x00 \<notin> set x"
    and "cv_CanExpire c = cv_CanExpire d"
  shows "cv_AccessKeyID c = cv_AccessKeyID d \<and> cv_SecretAccessKey c = cv_SecretAccessKey d \<and>
    cv_SessionToken c = cv_SessionToken d \<and> cv_Source c = cv_Source d"
proof -
  have nul: "CHR 0x00 \<notin> set (cv_AccessKeyID c)" "CHR 0x00 \<notin> set (cv_SecretAccessKey c)" "CHR 0x00 \<notin> set (cv_SessionToken c)"
    "CHR 0x00 \<notin> set (cv_Source c)" "CHR 0x00 \<notin> set (cv_AccessKeyID d)" "CHR 0x00 \<notin> set (cv_SecretAccessKey d)"
    "CHR 0x00 \<notin> set (cv_SessionToken d)" "CHR 0x00 \<notin> set (cv_Source d)" using assms(2) by simp_all
  from assms(1) show ?thesis
    using assms(3) nul
    by (auto simp: fingerprint_text_def Let_def split: if_splits dest!: split_at_nul)
qed

section \<open>Witnesses\<close>

fun verify_run :: "(string \<Rightarrow> string) \<Rightarrow> verify_choice list \<Rightarrow> 'c vsystem \<Rightarrow> 'c vsystem option" where
  "verify_run sum256 [] s = Some s"
| "verify_run sum256 (ch # chs) s = (case verify_step sum256 ch s of None \<Rightarrow> None | Some t \<Rightarrow> verify_run sum256 chs t)"

lemma verify_run_reach:
  "reach init (verify_moves sum256) s \<Longrightarrow> verify_run sum256 chs s = Some t \<Longrightarrow> reach init (verify_moves sum256) t"
proof (induction chs arbitrary: s)
  case (Cons ch chs)
  from Cons.prems(2) obtain u where u: "verify_step sum256 ch s = Some u" and "verify_run sum256 chs u = Some t"
    by (auto split: option.splits)
  moreover have "verify_moves sum256 s u" using u unfolding verify_moves_def by blast
  ultimately show ?case using Cons.IH reach_step [OF Cons.prems(1)] by blast
qed simp

definition sample_factory :: "unit Factory" where
  "sample_factory = Factory_New
     (\<lambda>_ _. Inr (SDKConfig ''us-east-1'' (30 * Second) (LoadedCredentials ()) (NewRetryer (aw_Retry default_aws)))) sample_env
     (cf_AWS sample_config)"

definition sample_clients :: "unit Clients" where
  "sample_clients = projr (ForTarget sample_env (Some sample_factory) sample_target)"

definition sample_verifier :: "unit targetVerifier" where
  "sample_verifier = (case cs_Verifier sample_clients of TargetVerifier v \<Rightarrow> v | Unavailable err \<Rightarrow> undefined)"

definition sample_vsystem :: "unit vsystem" where
  "sample_vsystem = \<lparr> vs_now = 1000, vs_verifier = sample_verifier, vs_next = 0, vs_closed = [], vs_pc = (\<lambda>_. V_Loop),
                      vs_events = [], vs_log = [] \<rparr>"

definition sample_credentials :: Credentials where
  "sample_credentials = \<lparr> cv_AccessKeyID = ''AK'', cv_SecretAccessKey = ''SK'', cv_SessionToken = '''', cv_Source = ''test'',
                          cv_CanExpire = False, cv_Expires = 0 \<rparr>"

text \<open>Two callers; the second waits for the first, and then finds its success.\<close>

definition sample_verification :: "verify_choice list" where
  "sample_verification =
     [Retrieve_Answer 0 (Inr sample_credentials), Retrieve_Answer 1 (Inr sample_credentials), Lock_Acquired 0 1000,
      Lock_Acquired 1 1001, Call_Started 0, Clock_Tick 2000, Identity_Answer 0 (Inr (Some ''123456789012'')),
      Retrieve_Answer 0 (Inr sample_credentials), Lock_Again 0, Channel_Closed 1, Retrieve_Answer 1 (Inr sample_credentials),
      Lock_Acquired 1 2000]"

definition sample_fp :: string where "sample_fp = fingerprint_text sample_credentials"

lemma sample_for_target: "ForTarget sample_env (Some sample_factory) sample_target = Inr sample_clients"
  by (simp add: sample_clients_def ForTarget_def sample_factory_def Factory_New_def sample_config_def sample_target_def Let_def)

lemma sample_clients_verifier: "cs_Verifier sample_clients = TargetVerifier sample_verifier"
  by (simp add: sample_verifier_def sample_clients_def ForTarget_def sample_factory_def Factory_New_def sample_config_def
      sample_target_def Let_def List.map_filter_def load_source_def CredentialSourceDefaultChain_def CredentialSourceProfile_def
      CredentialSourceStaticEnv_def)

lemma sample_verified:
  "\<exists>s. reach (verify_init sample_verifier) (verify_moves (\<lambda>x. x)) s \<and>
       vs_log s = [Retrieved 0 sample_fp, Retrieved 1 sample_fp, Called 0 sample_fp 1001, Answered 0 (Some ''123456789012''),
         Retrieved 0 sample_fp, Outcome 0 sample_fp None 2000, Returned 0 (Some sample_fp) None 2000, Retrieved 1 sample_fp,
         Returned 1 (Some sample_fp) None 2000]"
proof -
  have "map_option vs_log (verify_run (\<lambda>x. x) sample_verification sample_vsystem) =
      Some [Retrieved 0 sample_fp, Retrieved 1 sample_fp, Called 0 sample_fp 1001, Answered 0 (Some ''123456789012''),
         Retrieved 0 sample_fp, Outcome 0 sample_fp None 2000, Returned 0 (Some sample_fp) None 2000, Retrieved 1 sample_fp,
         Returned 1 (Some sample_fp) None 2000]" by code_simp
  moreover have "verify_init sample_verifier sample_vsystem" by (simp add: verify_init_def sample_vsystem_def)
  ultimately show ?thesis using verify_run_reach [OF reach_init] by blast
qed

theorem verifier_sound_witness:
  "\<exists>s. Returned 1 (Some sample_fp) None 2000 \<in> set (vs_log (s :: unit vsystem)) \<and> (\<exists>h. proven ''123456789012'' h sample_fp (vs_log s))"
proof -
  obtain s where r: "reach (verify_init sample_verifier) (verify_moves (\<lambda>x. x)) s"
    and l: "Returned 1 (Some sample_fp) None 2000 \<in> set (vs_log s)" using sample_verified by force
  have "tg_AccountID sample_target = ''123456789012''" by (simp add: sample_target_def)
  with verifier_sound [OF sample_for_target sample_clients_verifier r l] l show ?thesis by auto
qed



end
