(* ===== verification/Account_Readers.thy ===== *)
theory Account_Readers
  imports Commitment_Reader Memory_Store
begin

text \<open>
  \<open>internal/aws/budgets/reader.go\<close> and \<open>internal/aws/organizations/reader.go\<close>: the two allowlisted,
  all-or-nothing readers. As before an SDK operation is an action on a world and a pointer field is an option.
\<close>

section \<open>budgets/reader.go\<close>

definition Budgets_ErrInvalidConfig :: go_error where
  "Budgets_ErrInvalidConfig = Sentinel ''invalid Budgets adapter configuration''"
definition Budgets_ErrInvalidResponse :: go_error where
  "Budgets_ErrInvalidResponse = Sentinel ''invalid Budgets response''"
definition Budgets_ErrPageLimit :: go_error where
  "Budgets_ErrPageLimit = Sentinel ''budgets page limit exceeded''"

record Spend =
  sp_Amount :: "string option"
  sp_Unit :: "string option"

record SDKBudget =
  sb_BudgetName :: "string option"
  sb_BudgetType :: string
  sb_TimeUnit :: string
  sb_BudgetLimit :: "Spend option"
  sb_ActualSpend :: "Spend option"
  sb_ForecastedSpend :: "Spend option"

text \<open>\<open>CalculatedSpend\<close> being nil is both of its fields being nil.\<close>

record DescribeBudgetsInput =
  db_AccountId :: string
  db_MaxResults :: int
  db_NextToken :: "string option"

record DescribeBudgetsOutput =
  bo_Budgets :: "SDKBudget list"
  bo_NextToken :: "string option"

record BudgetsReader =
  br_target :: TargetID
  br_accountID :: string
  br_maxPages :: int
  br_allowlist :: "string list"

definition allow_name :: "string list \<Rightarrow> string \<Rightarrow> go_error + string list" where
  "allow_name allowlist name =
     (if name = '''' then Inl Budgets_ErrInvalidConfig else Inr (List.insert name allowlist))"

definition BudgetsReader_New ::
  "TargetID \<Rightarrow> string \<Rightarrow> 'api option \<Rightarrow> int \<Rightarrow> string list \<Rightarrow> 'retryer option \<Rightarrow> go_error + BudgetsReader" where
  "BudgetsReader_New target account api maxPages names retryer =
     (if target = '''' \<or> length account \<noteq> 12 \<or> api = None \<or> maxPages \<le> 0 \<or> names = [] \<or> retryer = None
      then Inl Budgets_ErrInvalidConfig
      else case range_err allow_name [] names of
             Inl err \<Rightarrow> Inl err
           | Inr allowlist \<Rightarrow>
               if length allowlist \<noteq> length names then Inl Budgets_ErrInvalidConfig
               else Inr \<lparr> br_target = target, br_accountID = account, br_maxPages = maxPages, br_allowlist = allowlist \<rparr>)"

definition knownBudgetType :: "string \<Rightarrow> bool" where
  "knownBudgetType v \<longleftrightarrow> v = ''COST''"

definition knownTimeUnit :: "string \<Rightarrow> bool" where
  "knownTimeUnit v \<longleftrightarrow> v \<in> set [''DAILY'', ''MONTHLY'', ''QUARTERLY'', ''ANNUALLY'', ''CUSTOM'']"

definition parseSpend :: "Spend option \<Rightarrow> go_error + Money" where
  "parseSpend v =
     (case v of
        None \<Rightarrow> Inl (Wrapped ''spend missing'' Budgets_ErrInvalidResponse)
      | Some s \<Rightarrow>
          (case ParseMoney (ToString (sp_Amount s)) (ToString (sp_Unit s)) of
             Inl err \<Rightarrow> Inl (Wrapped ''invalid spend'' Budgets_ErrInvalidResponse)
           | Inr money \<Rightarrow> Inr money))"

text \<open>One optional spend of a budget: absent, or parsed in the unit of the limit.\<close>

definition matching_spend :: "Money \<Rightarrow> Spend option \<Rightarrow> go_error + Money option" where
  "matching_spend limit v =
     (case v of
        None \<Rightarrow> Inr None
      | Some s \<Rightarrow>
          (case parseSpend (Some s) of
             Inl err \<Rightarrow> Inl err
           | Inr money \<Rightarrow>
               if currency money \<noteq> currency limit then Inl (Wrapped ''budget units differ'' Budgets_ErrInvalidResponse)
               else Inr (Some money)))"

definition mapBudget :: "TargetID \<Rightarrow> SDKBudget \<Rightarrow> go_error + Budget" where
  "mapBudget target v =
     (if sb_BudgetLimit v = None then Inl (Wrapped ''budget limit missing'' Budgets_ErrInvalidResponse)
      else case parseSpend (sb_BudgetLimit v) of
        Inl err \<Rightarrow> Inl err
      | Inr limit \<Rightarrow>
          if ToString (sb_BudgetName v) = '''' \<or> sb_BudgetType v = '''' \<or> sb_TimeUnit v = ''''
          then Inl (Wrapped ''required budget metadata missing'' Budgets_ErrInvalidResponse)
          else if \<not> knownBudgetType (sb_BudgetType v) \<or> \<not> knownTimeUnit (sb_TimeUnit v)
          then Inl (Wrapped ''unknown budget enum'' Budgets_ErrInvalidResponse)
          else (case matching_spend limit (sb_ActualSpend v) of
                  Inl err \<Rightarrow> Inl err
                | Inr actual \<Rightarrow>
                    (case matching_spend limit (sb_ForecastedSpend v) of
                       Inl err \<Rightarrow> Inl err
                     | Inr forecasted \<Rightarrow>
                         Inr \<lparr> b_Target = target, b_Name = ToString (sb_BudgetName v), b_Type = sb_BudgetType v,
                               b_TimeUnit = sb_TimeUnit v, b_Limit = limit,
                               b_Actual = (case actual of None \<Rightarrow> zero_money | Some m \<Rightarrow> m),
                               b_Forecasted = (case forecasted of None \<Rightarrow> zero_money | Some m \<Rightarrow> m),
                               b_HasActual = (actual \<noteq> None), b_HasForecasted = (forecasted \<noteq> None) \<rparr>)))"

text \<open>The loop over a page: the names found so far and the mapped budgets.\<close>

definition select_budget ::
  "BudgetsReader \<Rightarrow> string list \<times> Budget list \<Rightarrow> SDKBudget \<Rightarrow> go_error + string list \<times> Budget list" where
  "select_budget reader = (\<lambda>(found, vals) v.
     (let name = ToString (sb_BudgetName v)
      in if name \<notin> set (br_allowlist reader) then Inr (found, vals)
         else if name \<in> set found then Inl (Wrapped ''duplicate allowlisted budget'' Budgets_ErrInvalidResponse)
         else case mapBudget (br_target reader) v of
                Inl err \<Rightarrow> Inl err
              | Inr mapped \<Rightarrow> Inr (name # found, vals @ [mapped])))"

fun budget_pages ::
  "('w \<Rightarrow> time) \<Rightarrow> ('w \<Rightarrow> go_error option) \<Rightarrow> (DescribeBudgetsInput \<Rightarrow> ('w, DescribeBudgetsOutput option) action) \<Rightarrow>
   BudgetsReader \<Rightarrow> nat \<Rightarrow> DescribeBudgetsInput \<Rightarrow> string list \<Rightarrow> string list \<times> Budget list \<Rightarrow>
   ('w api_state, string list \<times> Budget list) action" where
  "budget_pages clock ctx_err api reader 0 request seen acc s = (s, Inl Budgets_ErrPageLimit)"
| "budget_pages clock ctx_err api reader (Suc n) request seen acc s =
     (case ctx_err (fst s) of
        Some err \<Rightarrow> (s, Inl err)
      | None \<Rightarrow>
          (case observed_call clock (br_target reader) ''DescribeBudgets'' api request s of
             (s1, Inl err) \<Rightarrow> (s1, Inl (classify_error err))
           | (s1, Inr None) \<Rightarrow> (s1, Inl (Wrapped ''nil page'' Budgets_ErrInvalidResponse))
           | (s1, Inr (Some out)) \<Rightarrow>
               let s2 = observe_page (br_target reader) ''DescribeBudgets'' s1
               in case range_err (select_budget reader) acc (bo_Budgets out) of
                    Inl err \<Rightarrow> (s2, Inl err)
                  | Inr acc' \<Rightarrow>
                      let token = ToString (bo_NextToken out)
                      in if token = '''' then (s2, Inr acc')
                         else if token \<in> set seen then (s2, Inl (Wrapped ''duplicate page token'' Budgets_ErrInvalidResponse))
                         else budget_pages clock ctx_err api reader n (request\<lparr> db_NextToken := Some token \<rparr>) (token # seen) acc' s2))"

definition budgets_request :: "BudgetsReader \<Rightarrow> DescribeBudgetsInput" where
  "budgets_request reader = \<lparr> db_AccountId = br_accountID reader, db_MaxResults = 100, db_NextToken = None \<rparr>"

definition ReadBudgets ::
  "('w \<Rightarrow> time) \<Rightarrow> ('w \<Rightarrow> go_error option) \<Rightarrow> (DescribeBudgetsInput \<Rightarrow> ('w, DescribeBudgetsOutput option) action) \<Rightarrow>
   BudgetsReader \<Rightarrow> ('w api_state, Budget list) action" where
  "ReadBudgets clock ctx_err api reader s =
     (case budget_pages clock ctx_err api reader (nat (br_maxPages reader)) (budgets_request reader) [] ([], []) s of
        (s1, Inl err) \<Rightarrow> (s1, Inl err)
      | (s1, Inr (found, vals)) \<Rightarrow>
          if length found \<noteq> length (br_allowlist reader)
          then (s1, Inl (Wrapped ''allowlisted budget missing'' Budgets_ErrInvalidResponse))
          else (s1, Inr (Budget_Sort vals)))"

section \<open>organizations/reader.go\<close>

definition Organizations_ErrInvalidConfig :: go_error where
  "Organizations_ErrInvalidConfig = Sentinel ''invalid Organizations adapter configuration''"
definition Organizations_ErrInvalidResponse :: go_error where
  "Organizations_ErrInvalidResponse = Sentinel ''invalid Organizations response''"
definition Organizations_ErrPageLimit :: go_error where
  "Organizations_ErrPageLimit = Sentinel ''organizations page limit exceeded''"
definition Organizations_ErrSeriesLimit :: go_error where
  "Organizations_ErrSeriesLimit = Sentinel ''organizations account limit exceeded''"

record SDKAccount =
  sa_Id :: "string option"
  sa_Name :: "string option"
  sa_State :: string
  sa_Status :: string

record ListAccountsOutput =
  la_Accounts :: "SDKAccount list"
  la_NextToken :: "string option"

record OrganizationsReader =
  or_target :: TargetID
  or_maxPages :: int
  or_allowlist :: "string list"
  or_seriesLimit :: int

definition allow_account :: "string list \<Rightarrow> string \<Rightarrow> go_error + string list" where
  "allow_account allowlist v =
     (if \<not> accountID v \<or> v \<in> set allowlist then Inl Organizations_ErrInvalidConfig else Inr (v # allowlist))"

text \<open>The policy is the record of the store with the same two fields.\<close>

definition OrganizationsReader_New ::
  "TargetID \<Rightarrow> 'api option \<Rightarrow> int \<Rightarrow> OrganizationPolicy \<Rightarrow> 'retryer option \<Rightarrow> go_error + OrganizationsReader" where
  "OrganizationsReader_New target api maxPages policy retryer =
     (if target = '''' \<or> api = None \<or> maxPages \<le> 0 \<or> SeriesLimit policy \<le> 0 \<or>
         int (length (AccountIDs policy)) > SeriesLimit policy \<or> retryer = None
      then Inl Organizations_ErrInvalidConfig
      else case range_err allow_account [] (AccountIDs policy) of
             Inl err \<Rightarrow> Inl err
           | Inr allowlist \<Rightarrow>
               Inr \<lparr> or_target = target, or_maxPages = maxPages, or_allowlist = allowlist, or_seriesLimit = SeriesLimit policy \<rparr>)"

definition accountStatus :: "string \<Rightarrow> string \<Rightarrow> string" where
  "accountStatus st status =
     (if st \<noteq> '''' \<and> st \<in> set [''PENDING_ACTIVATION'', ''ACTIVE'', ''SUSPENDED'', ''PENDING_CLOSURE'', ''CLOSED''] then st
      else if status \<in> set [''ACTIVE'', ''SUSPENDED'', ''PENDING_CLOSURE''] then status else ''UNKNOWN'')"

definition select_org_account ::
  "OrganizationsReader \<Rightarrow> string list \<times> Account list \<Rightarrow> SDKAccount \<Rightarrow> go_error + string list \<times> Account list" where
  "select_org_account reader = (\<lambda>(seen, vals) v.
     (let aid = ToString (sa_Id v); name = ToString (sa_Name v)
      in if \<not> accountID aid \<or> name = '''' then Inl (Wrapped ''malformed account'' Organizations_ErrInvalidResponse)
         else if aid \<in> set seen then Inl (Wrapped ''duplicate account'' Organizations_ErrInvalidResponse)
         else if or_allowlist reader \<noteq> [] \<and> aid \<notin> set (or_allowlist reader) then Inr (aid # seen, vals)
         else if int (length vals) \<ge> or_seriesLimit reader then Inl Organizations_ErrSeriesLimit
         else Inr (aid # seen, vals @ [\<lparr> a_Target = or_target reader, a_AccountID = aid, a_Name = name,
                                          a_Status = accountStatus (sa_State v) (sa_Status v) \<rparr>])))"

fun account_pages ::
  "('w \<Rightarrow> time) \<Rightarrow> ('w \<Rightarrow> go_error option) \<Rightarrow> (string option \<Rightarrow> ('w, ListAccountsOutput option) action) \<Rightarrow>
   OrganizationsReader \<Rightarrow> nat \<Rightarrow> string option \<Rightarrow> string list \<Rightarrow> string list \<times> Account list \<Rightarrow>
   ('w api_state, string list \<times> Account list) action" where
  "account_pages clock ctx_err api reader 0 request seen acc s = (s, Inl Organizations_ErrPageLimit)"
| "account_pages clock ctx_err api reader (Suc n) request seen acc s =
     (case ctx_err (fst s) of
        Some err \<Rightarrow> (s, Inl err)
      | None \<Rightarrow>
          (case observed_call clock (or_target reader) ''ListAccounts'' api request s of
             (s1, Inl err) \<Rightarrow> (s1, Inl (classify_error err))
           | (s1, Inr None) \<Rightarrow> (s1, Inl (Wrapped ''nil page'' Organizations_ErrInvalidResponse))
           | (s1, Inr (Some out)) \<Rightarrow>
               let s2 = observe_page (or_target reader) ''ListAccounts'' s1
               in case range_err (select_org_account reader) acc (la_Accounts out) of
                    Inl err \<Rightarrow> (s2, Inl err)
                  | Inr acc' \<Rightarrow>
                      let token = ToString (la_NextToken out)
                      in if token = '''' then (s2, Inr acc')
                         else if token \<in> set seen then (s2, Inl (Wrapped ''duplicate page token'' Organizations_ErrInvalidResponse))
                         else account_pages clock ctx_err api reader n (Some token) (token # seen) acc' s2))"

text \<open>The description call yields whether an organization was returned.\<close>

definition ReadAccounts ::
  "('w \<Rightarrow> time) \<Rightarrow> ('w \<Rightarrow> go_error option) \<Rightarrow> (unit \<Rightarrow> ('w, unit option) action) \<Rightarrow>
   (string option \<Rightarrow> ('w, ListAccountsOutput option) action) \<Rightarrow> OrganizationsReader \<Rightarrow> ('w api_state, Account list) action" where
  "ReadAccounts clock ctx_err describe api reader s =
     (case observed_call clock (or_target reader) ''DescribeOrganization'' describe () s of
        (s1, Inl err) \<Rightarrow> (s1, Inl (classify_error err))
      | (s1, Inr None) \<Rightarrow> (s1, Inl (Wrapped ''missing organization'' Organizations_ErrInvalidResponse))
      | (s1, Inr (Some _)) \<Rightarrow>
          (case account_pages clock ctx_err api reader (nat (or_maxPages reader)) None [] ([], []) s1 of
             (s2, Inl err) \<Rightarrow> (s2, Inl err)
           | (s2, Inr (seen, vals)) \<Rightarrow> (s2, Inr (Account_Sort vals))))"

section \<open>Paginated readers\<close>

text \<open>
  The contract the two page loops share: a loop that succeeds has read a page, folded its items into the
  accumulator, and either stopped at a page without a token or gone on with a token it had not
  seen. Everything about chains of pages follows from it.
\<close>

locale paged_reader =
  fixes pages :: "nat \<Rightarrow> 'i \<Rightarrow> string list \<Rightarrow> 'acc \<Rightarrow> ('w api_state, 'acc) action"
    and api :: "'i \<Rightarrow> ('w, 'o option) action" and items_of :: "'o \<Rightarrow> 'item list" and token_of :: "'o \<Rightarrow> string option"
    and set_token :: "string option \<Rightarrow> 'i \<Rightarrow> 'i" and select :: "'acc \<Rightarrow> 'item \<Rightarrow> go_error + 'acc"
  assumes exhausted: "pages 0 request seen acc s \<noteq> (s', Inr r)"
    and page_read: "pages (Suc n) request seen acc s = (s', Inr r) \<Longrightarrow>
      \<exists>s1 out acc'. api request (fst s) = (fst s1, Inr (Some out)) \<and> range_err select acc (items_of out) = Inr acc' \<and>
        (if ToString (token_of out) = '''' then s' = s1 \<and> r = acc'
         else pages n (set_token (token_of out) request) (ToString (token_of out) # seen) acc' s1 = (s', Inr r))"
begin

lemma read_all:
  "pages n request seen acc s = (s', Inr r) \<Longrightarrow>
   \<exists>outs. call_chain api token_of set_token request (fst s) outs (fst s') \<and> length outs \<le> n \<and>
     range_err select acc (concat (map items_of outs)) = Inr r"
proof (induction n arbitrary: request seen acc s)
  case 0
  then show ?case using exhausted by blast
next
  case (Suc n)
  obtain s1 out acc' where out: "api request (fst s) = (fst s1, Inr (Some out))" "range_err select acc (items_of out) = Inr acc'"
    and rest: "if ToString (token_of out) = '''' then s' = s1 \<and> r = acc'
         else pages n (set_token (token_of out) request) (ToString (token_of out) # seen) acc' s1 = (s', Inr r)"
    using page_read [OF Suc.prems] by blast
  show ?case
  proof (cases "ToString (token_of out) = ''''")
    case True
    then show ?thesis
      using out rest chain_last [where api = api and token_of = token_of and set_token = set_token, OF out(1) True]
      by (intro exI [of _ "[out]"]) auto
  next
    case False
    with rest have "pages n (set_token (token_of out) request) (ToString (token_of out) # seen) acc' s1 = (s', Inr r)" by simp
    from Suc.IH [OF this] obtain outs where outs:
      "call_chain api token_of set_token (set_token (token_of out) request) (fst s1) outs (fst s')" "length outs \<le> n"
      "range_err select acc' (concat (map items_of outs)) = Inr r" by blast
    then show ?thesis
      using chain_next [where api = api and token_of = token_of and set_token = set_token, OF out(1) False outs(1)] out(2)
      by (intro exI [of _ "out # outs"]) (auto simp: range_err_append)
  qed
qed

end

lemma ToString_Some: "ToString x \<noteq> '''' \<Longrightarrow> Some (ToString x) = x"
  by (cases x) (auto simp: ToString_def)

lemma observed_call_fst:
  "observed_call clock target operation api input s = (s1, r) \<Longrightarrow> api input (fst s) = (fst s1, r)"
  using observed_call_world [of clock target operation api input "fst s" "snd s"] by (metis prod.collapse)

interpretation budget_reader: paged_reader "budget_pages clock ctx_err api reader" api bo_Budgets bo_NextToken
  "\<lambda>t i. i\<lparr> db_NextToken := t \<rparr>" "select_budget reader"
  for clock ctx_err api reader
proof
  show "budget_pages clock ctx_err api reader 0 request seen acc s \<noteq> (s', Inr r)" for request seen acc s s' r by simp
  fix n request seen acc s s' r
  assume run: "budget_pages clock ctx_err api reader (Suc n) request seen acc s = (s', Inr r)"
  then obtain s1 out where call: "observed_call clock (br_target reader) ''DescribeBudgets'' api request s = (s1, Inr (Some out))"
    by (auto split: option.splits prod.splits sum.splits)
  have ctx: "ctx_err (fst s) = None" using run by (auto split: option.splits)
  obtain acc' where acc': "range_err (select_budget reader) acc (bo_Budgets out) = Inr acc'"
    using run call ctx by (auto simp: Let_def split: sum.splits)
  show "\<exists>s1 out acc'. api request (fst s) = (fst s1, Inr (Some out)) \<and> range_err (select_budget reader) acc (bo_Budgets out) = Inr acc' \<and>
      (if ToString (bo_NextToken out) = '''' then s' = s1 \<and> r = acc'
       else budget_pages clock ctx_err api reader n (request\<lparr> db_NextToken := bo_NextToken out \<rparr>) (ToString (bo_NextToken out) # seen) acc' s1 = (s', Inr r))"
    using run call ctx acc' observed_call_fst [OF call] ToString_Some [of "bo_NextToken out"]
    by (intro exI [of _ "observe_page (br_target reader) ''DescribeBudgets'' s1"] exI [of _ out] exI [of _ acc'])
      (auto simp: Let_def split: if_splits)
qed

interpretation account_reader: paged_reader "account_pages clock ctx_err api reader" api la_Accounts la_NextToken
  "\<lambda>t i. t" "select_org_account reader"
  for clock ctx_err api reader
proof
  show "account_pages clock ctx_err api reader 0 request seen acc s \<noteq> (s', Inr r)" for request seen acc s s' r by simp
  fix n request seen acc s s' r
  assume run: "account_pages clock ctx_err api reader (Suc n) request seen acc s = (s', Inr r)"
  then obtain s1 out where call: "observed_call clock (or_target reader) ''ListAccounts'' api request s = (s1, Inr (Some out))"
    by (auto split: option.splits prod.splits sum.splits)
  have ctx: "ctx_err (fst s) = None" using run by (auto split: option.splits)
  obtain acc' where acc': "range_err (select_org_account reader) acc (la_Accounts out) = Inr acc'"
    using run call ctx by (auto simp: Let_def split: sum.splits)
  show "\<exists>s1 out acc'. api request (fst s) = (fst s1, Inr (Some out)) \<and> range_err (select_org_account reader) acc (la_Accounts out) = Inr acc' \<and>
      (if ToString (la_NextToken out) = '''' then s' = s1 \<and> r = acc'
       else account_pages clock ctx_err api reader n (la_NextToken out) (ToString (la_NextToken out) # seen) acc' s1 = (s', Inr r))"
    using run call ctx acc' observed_call_fst [OF call] ToString_Some [of "la_NextToken out"]
    by (intro exI [of _ "observe_page (or_target reader) ''ListAccounts'' s1"] exI [of _ out] exI [of _ acc'])
      (auto simp: Let_def split: if_splits)
qed

section \<open>Budgets\<close>

text \<open>A mapped budget: the record of the target, in one currency.\<close>

definition budget_ok :: "TargetID \<Rightarrow> Budget \<Rightarrow> bool" where
  "budget_ok target b \<longleftrightarrow>
     b_Target b = target \<and> money_wf (b_Limit b) \<and> b_Type b = ''COST'' \<and> knownTimeUnit (b_TimeUnit b) \<and>
     (b_HasActual b \<longrightarrow> money_wf (b_Actual b) \<and> currency (b_Actual b) = currency (b_Limit b)) \<and>
     (b_HasForecasted b \<longrightarrow> money_wf (b_Forecasted b) \<and> currency (b_Forecasted b) = currency (b_Limit b))"

lemma parseSpend_wf: "parseSpend v = Inr m \<Longrightarrow> money_wf m"
  by (auto simp: parseSpend_def dest: ParseMoney_wf split: option.splits sum.splits)

lemma matching_spend_ok: "matching_spend limit v = Inr (Some m) \<Longrightarrow> money_wf m \<and> currency m = currency limit"
  by (auto simp: matching_spend_def dest: parseSpend_wf split: option.splits sum.splits if_splits)

lemma mapBudget_ok:
  assumes "mapBudget target v = Inr b"
  shows "budget_ok target b" and "b_Name b = ToString (sb_BudgetName v)"
  using assms
  by (auto simp: mapBudget_def budget_ok_def knownBudgetType_def dest!: parseSpend_wf matching_spend_ok
      split: if_splits sum.splits option.splits)

definition budgets_found :: "BudgetsReader \<Rightarrow> SDKBudget list \<Rightarrow> string list \<times> Budget list \<Rightarrow> bool" where
  "budgets_found reader items acc \<longleftrightarrow>
     rev (map b_Name (snd acc)) = fst acc \<and> distinct (fst acc) \<and> set (fst acc) \<subseteq> set (br_allowlist reader) \<and>
     set (fst acc) = {name \<in> set (br_allowlist reader). name \<in> (ToString \<circ> sb_BudgetName) ` set items} \<and>
     (\<forall>b \<in> set (snd acc). budget_ok (br_target reader) b \<and> (\<exists>v \<in> set items. mapBudget (br_target reader) v = Inr b))"

lemma select_budget_found:
  assumes "select_budget reader acc v = Inr acc'" and "budgets_found reader items acc"
  shows "budgets_found reader (items @ [v]) acc'"
proof (cases "ToString (sb_BudgetName v) \<in> set (br_allowlist reader)")
  case False
  with assms have "acc' = acc" by (auto simp: select_budget_def Let_def split: prod.splits)
  with False assms(2) show ?thesis by (auto simp: budgets_found_def)
next
  case True
  then obtain b where b: "mapBudget (br_target reader) v = Inr b" and new: "ToString (sb_BudgetName v) \<notin> set (fst acc)"
    and acc': "acc' = (ToString (sb_BudgetName v) # fst acc, snd acc @ [b])"
    using assms(1) by (auto simp: select_budget_def Let_def split: prod.splits if_splits sum.splits)
  show ?thesis
    using assms(2) True new b mapBudget_ok [OF b] unfolding acc' by (auto simp: budgets_found_def)
qed

lemma select_budgets_found:
  "range_err (select_budget reader) ([], []) items = Inr acc \<Longrightarrow> budgets_found reader items acc"
proof (induction items arbitrary: acc rule: rev_induct)
  case Nil
  then show ?case by (auto simp: budgets_found_def)
next
  case (snoc v items)
  then obtain mid where "range_err (select_budget reader) ([], []) items = Inr mid" "select_budget reader mid v = Inr acc"
    by (auto simp: range_err_append split: sum.splits)
  then show ?case using snoc.IH select_budget_found by blast
qed

lemma allow_names:
  assumes "range_err allow_name acc names = Inr allow"
  shows "set allow = set acc \<union> set names \<and> (distinct acc \<longrightarrow> distinct allow)"
  using assms
proof (induction names arbitrary: acc)
  case (Cons name names)
  then have "range_err allow_name (List.insert name acc) names = Inr allow"
    by (simp add: allow_name_def [of acc name] split: if_splits)
  from Cons.IH [OF this] show ?case by auto
qed simp

text \<open>
  C30. Reading budgets is all or nothing. A successful read has followed an unbroken chain of pages within the page limit and
  returns exactly one budget for every allowlisted name, each the image of a listed budget of that
  name, owned by the target, of type cost, with every spend in the currency of its limit; it never
  returns a budget outside the allowlist.
\<close>

theorem budgets_all_or_nothing:
  assumes "BudgetsReader_New target account (Some api) maxPages names (Some retryer) = Inr reader"
    and "ReadBudgets clock ctx_err api reader s = (s', Inr vals)"
  shows "\<exists>outs. call_chain api bo_NextToken (\<lambda>t i. i\<lparr> db_NextToken := t \<rparr>) (budgets_request reader) (fst s) outs (fst s') \<and>
    int (length outs) \<le> maxPages \<and> set (map b_Name vals) = set names \<and> distinct (map b_Name vals) \<and>
    length vals = length names \<and>
    (\<forall>b \<in> set vals. budget_ok target b \<and> (\<exists>v \<in> set (concat (map bo_Budgets outs)). mapBudget target v = Inr b))"
proof -
  obtain allow where allow: "range_err allow_name [] names = Inr allow" "length allow = length names"
    and reader: "reader = \<lparr> br_target = target, br_accountID = account, br_maxPages = maxPages, br_allowlist = allow \<rparr>" "0 < maxPages"
    using assms(1) by (auto simp: BudgetsReader_New_def split: if_splits sum.splits)
  obtain acc where run: "budget_pages clock ctx_err api reader (nat maxPages) (budgets_request reader) [] ([], []) s = (s', Inr acc)"
    and all: "length (fst acc) = length allow" and vals: "vals = Budget_Sort (snd acc)"
    using assms(2) by (auto simp: ReadBudgets_def reader split: prod.splits sum.splits if_splits)
  obtain outs where outs: "call_chain api bo_NextToken (\<lambda>t i. i\<lparr> db_NextToken := t \<rparr>) (budgets_request reader) (fst s) outs (fst s')"
    "length outs \<le> nat maxPages" "range_err (select_budget reader) ([], []) (concat (map bo_Budgets outs)) = Inr acc"
    using budget_reader.read_all [OF run] by blast
  have found: "budgets_found reader (concat (map bo_Budgets outs)) acc" using select_budgets_found [OF outs(3)] .
  have "distinct allow" and set_allow: "set allow = set names" using allow_names [OF allow(1)] by simp_all
  have "card (set (fst acc)) = length allow" "set (fst acc) \<subseteq> set allow"
    using found all distinct_card [of "fst acc"] unfolding budgets_found_def by (simp_all add: reader)
  then have "set (fst acc) = set allow"
    using \<open>distinct allow\<close> by (intro card_subset_eq) (simp_all add: distinct_card)
  moreover have names: "set (map b_Name (snd acc)) = set (fst acc)" "distinct (map b_Name (snd acc))" "length (snd acc) = length (fst acc)"
    using found unfolding budgets_found_def by (metis set_rev, metis distinct_rev, metis length_map length_rev)
  moreover have "int (length outs) \<le> maxPages" using outs(2) reader(2) by linarith
  ultimately show ?thesis
    using outs(1) found all allow(2) set_allow
    by (intro exI [of _ outs]) (auto simp: vals Budget_Sort_def budgets_found_def reader)
qed

section \<open>Accounts\<close>

definition selected_id :: "OrganizationsReader \<Rightarrow> string \<Rightarrow> bool" where
  "selected_id reader aid \<longleftrightarrow> or_allowlist reader = [] \<or> aid \<in> set (or_allowlist reader)"

definition accounts_found :: "OrganizationsReader \<Rightarrow> SDKAccount list \<Rightarrow> string list \<times> Account list \<Rightarrow> bool" where
  "accounts_found reader items acc \<longleftrightarrow>
     fst acc = rev (map (ToString \<circ> sa_Id) items) \<and> distinct (fst acc) \<and> list_all accountID (fst acc) \<and>
     map a_AccountID (snd acc) = filter (selected_id reader) (map (ToString \<circ> sa_Id) items) \<and>
     (int (length (snd acc)) \<le> or_seriesLimit reader \<or> snd acc = []) \<and>
     (\<forall>a \<in> set (snd acc). a_Target a = or_target reader \<and> a_Name a \<noteq> '''')"

lemma select_accounts_found:
  "range_err (select_org_account reader) ([], []) items = Inr acc \<Longrightarrow> accounts_found reader items acc"
proof (induction items arbitrary: acc rule: rev_induct)
  case Nil
  then show ?case by (auto simp: accounts_found_def)
next
  case (snoc v items)
  then obtain mid where mid: "range_err (select_org_account reader) ([], []) items = Inr mid" "select_org_account reader mid v = Inr acc"
    by (auto simp: range_err_append split: sum.splits)
  then have "accounts_found reader items mid" using snoc.IH by blast
  with mid(2) show ?case
    by (auto simp: accounts_found_def select_org_account_def selected_id_def Let_def split: prod.splits if_splits)
qed

lemma allow_accounts:
  "range_err allow_account acc ids = Inr allow \<Longrightarrow> set allow = set acc \<union> set ids"
proof (induction ids arbitrary: acc)
  case (Cons i ids)
  then have "range_err allow_account (i # acc) ids = Inr allow" by (simp add: allow_account_def [of acc i] split: if_splits)
  from Cons.IH [OF this] show ?case by auto
qed simp

text \<open>
  C31. Reading organization accounts is all or nothing. A successful read has followed an unbroken chain of pages within
  the page limit in which no account appears twice and every id has twelve digits. With an allowlist it returns
  exactly the listed accounts that are allowlisted, without one exactly the listed accounts, at
  most the series limit of them, sorted, named, and owned by the target.
\<close>

theorem accounts_all_or_nothing:
  assumes "OrganizationsReader_New target (Some api) maxPages policy (Some retryer) = Inr reader"
    and "ReadAccounts clock ctx_err describe api reader s = (s', Inr vals)"
  shows "\<exists>outs w. call_chain api la_NextToken (\<lambda>t i. t) None w outs (fst s') \<and> int (length outs) \<le> maxPages \<and>
    (let listed = map (ToString \<circ> sa_Id) (concat (map la_Accounts outs))
     in distinct listed \<and> list_all accountID listed \<and> distinct (map a_AccountID vals) \<and>
        set (map a_AccountID vals) = {i \<in> set listed. AccountIDs policy = [] \<or> i \<in> set (AccountIDs policy)}) \<and>
    int (length vals) \<le> SeriesLimit policy \<and> sorted (map (\<lambda>a. (a_Target a, a_AccountID a)) vals) \<and>
    (\<forall>a \<in> set vals. a_Target a = target \<and> a_Name a \<noteq> '''')"
proof -
  obtain allow where allow: "range_err allow_account [] (AccountIDs policy) = Inr allow" "0 < SeriesLimit policy" "0 < maxPages"
    and reader: "reader = \<lparr> or_target = target, or_maxPages = maxPages, or_allowlist = allow, or_seriesLimit = SeriesLimit policy \<rparr>"
    using assms(1) by (auto simp: OrganizationsReader_New_def split: if_splits sum.splits)
  obtain s1 acc where run: "account_pages clock ctx_err api reader (nat maxPages) None [] ([], []) s1 = (s', Inr acc)"
    and vals: "vals = Account_Sort (snd acc)"
    using assms(2) by (auto simp: ReadAccounts_def reader split: prod.splits sum.splits option.splits)
  obtain outs where outs: "call_chain api la_NextToken (\<lambda>t i. t) None (fst s1) outs (fst s')"
    "length outs \<le> nat maxPages" "range_err (select_org_account reader) ([], []) (concat (map la_Accounts outs)) = Inr acc"
    using account_reader.read_all [OF run] by blast
  have found: "accounts_found reader (concat (map la_Accounts outs)) acc" using select_accounts_found [OF outs(3)] .
  have sel: "selected_id reader i \<longleftrightarrow> AccountIDs policy = [] \<or> i \<in> set (AccountIDs policy)" for i
    using allow_accounts [OF allow(1)] by (auto simp: selected_id_def reader)
  have d: "distinct (map (ToString \<circ> sa_Id) (concat (map la_Accounts outs)))"
    "list_all accountID (map (ToString \<circ> sa_Id) (concat (map la_Accounts outs)))"
    using found unfolding accounts_found_def by (metis distinct_rev, metis list_all_rev)
  have ids: "map a_AccountID (snd acc) = filter (selected_id reader) (map (ToString \<circ> sa_Id) (concat (map la_Accounts outs)))"
    using found unfolding accounts_found_def by blast
  have vset: "set (map a_AccountID vals) = set (map a_AccountID (snd acc))" "distinct (map a_AccountID vals) = distinct (map a_AccountID (snd acc))"
    by (simp_all add: vals Account_Sort_def)
  have "set (map a_AccountID vals) = {i \<in> set (map (ToString \<circ> sa_Id) (concat (map la_Accounts outs))).
      AccountIDs policy = [] \<or> i \<in> set (AccountIDs policy)}"
    unfolding vset ids by (auto simp: sel)
  moreover have "distinct (map a_AccountID vals)" unfolding vset ids using d(1) by (rule distinct_filter)
  moreover have "sorted (map (\<lambda>a. (a_Target a, a_AccountID a)) vals)"
    unfolding vals Account_Sort_def by (rule account_order.sorted_slice)
  moreover have "int (length vals) \<le> SeriesLimit policy" "\<forall>a \<in> set vals. a_Target a = target \<and> a_Name a \<noteq> ''''"
    using found allow(2) by (auto simp: accounts_found_def vals Account_Sort_def reader)
  ultimately show ?thesis
    using outs(1,2) allow(3) d by (intro exI [of _ outs] exI [of _ "fst s1"]) (simp add: Let_def nat_le_iff le_nat_iff)
qed

section \<open>Witnesses\<close>

definition sample_budget_page :: "DescribeBudgetsInput \<Rightarrow> (unit, DescribeBudgetsOutput option) action" where
  "sample_budget_page input w =
     (w, Inr (Some \<lparr> bo_Budgets = [\<lparr> sb_BudgetName = Some (if db_NextToken input = None then ''other'' else ''team''),
         sb_BudgetType = ''COST'', sb_TimeUnit = ''MONTHLY'', sb_BudgetLimit = Some \<lparr> sp_Amount = Some ''10'', sp_Unit = Some ''USD'' \<rparr>,
         sb_ActualSpend = Some \<lparr> sp_Amount = Some ''4'', sp_Unit = Some ''USD'' \<rparr>, sb_ForecastedSpend = None \<rparr>],
       bo_NextToken = (if db_NextToken input = None then Some ''next'' else None) \<rparr>))"

definition sample_budgets_reader :: BudgetsReader where
  "sample_budgets_reader = \<lparr> br_target = ''a'', br_accountID = ''111111111111'', br_maxPages = 3, br_allowlist = [''team''] \<rparr>"

theorem budgets_all_or_nothing_witness:
  "\<exists>s' vals. ReadBudgets (\<lambda>_. 0) (\<lambda>_. None) sample_budget_page sample_budgets_reader ((), []) = (s', Inr vals) \<and>
     set (map b_Name vals) = {''team''} \<and> length vals = 1"
proof -
  have "read_ok (ReadBudgets (\<lambda>_. 0) (\<lambda>_. None) sample_budget_page sample_budgets_reader ((), []))" by code_simp
  then obtain s' vals where run: "ReadBudgets (\<lambda>_. 0) (\<lambda>_. None) sample_budget_page sample_budgets_reader ((), []) = (s', Inr vals)"
    by (rule read_okE)
  have "BudgetsReader_New ''a'' ''111111111111'' (Some sample_budget_page) 3 [''team''] (Some ()) = Inr sample_budgets_reader"
    by (simp add: BudgetsReader_New_def allow_name_def sample_budgets_reader_def)
  from budgets_all_or_nothing [OF this run]
  have "set (map b_Name vals) = set [''team''] \<and> length vals = length [''team'']" by blast
  then have "set (map b_Name vals) = {''team''} \<and> length vals = 1" by simp
  with run show ?thesis by blast
qed

definition sample_account_page :: "string option \<Rightarrow> (unit, ListAccountsOutput option) action" where
  "sample_account_page token w =
     (w, Inr (Some \<lparr> la_Accounts = [\<lparr> sa_Id = Some (if token = None then ''111111111111'' else ''222222222222''), sa_Name = Some ''n'',
         sa_State = '''', sa_Status = ''ACTIVE'' \<rparr>], la_NextToken = (if token = None then Some ''next'' else None) \<rparr>))"

definition sample_org_reader :: OrganizationsReader where
  "sample_org_reader = \<lparr> or_target = ''a'', or_maxPages = 3, or_allowlist = [''111111111111''], or_seriesLimit = 5 \<rparr>"

theorem accounts_all_or_nothing_witness:
  "\<exists>s' vals. ReadAccounts (\<lambda>_. 0) (\<lambda>_. None) (\<lambda>_ w. (w, Inr (Some ()))) sample_account_page sample_org_reader ((), []) = (s', Inr vals) \<and>
     set (map a_AccountID vals) \<subseteq> {''111111111111''} \<and> int (length vals) \<le> 5"
proof -
  have "read_ok (ReadAccounts (\<lambda>_. 0) (\<lambda>_. None) (\<lambda>_ w. (w, Inr (Some ()))) sample_account_page sample_org_reader ((), []))" by code_simp
  then obtain s' vals where run: "ReadAccounts (\<lambda>_. 0) (\<lambda>_. None) (\<lambda>_ w. (w, Inr (Some ()))) sample_account_page sample_org_reader
      ((), []) = (s', Inr vals)" by (rule read_okE)
  have "accountID ''111111111111''" by code_simp
  then have "OrganizationsReader_New ''a'' (Some sample_account_page) 3 sample_policy (Some ()) = Inr sample_org_reader"
    by (simp add: OrganizationsReader_New_def allow_account_def sample_policy_def sample_org_reader_def)
  from accounts_all_or_nothing [OF this run]
  obtain outs :: "ListAccountsOutput list" where
    "set (map a_AccountID vals) = {i \<in> set (map (ToString \<circ> sa_Id) (concat (map la_Accounts outs))).
       AccountIDs sample_policy = [] \<or> i \<in> set (AccountIDs sample_policy)}"
    "int (length vals) \<le> SeriesLimit sample_policy" unfolding Let_def by (elim exE conjE)
  then have "set (map a_AccountID vals) \<subseteq> {''111111111111''} \<and> int (length vals) \<le> 5" by (auto simp: sample_policy_def)
  with run show ?thesis by blast
qed

end
