(* ===== verification/Athena_Reader.thy ===== *)
theory Athena_Reader
  imports Account_Readers Config_Validation
begin

text \<open>
  \<open>internal/aws/athena\<close>: the fixed-schema CUR 2.0 provider. Athena's operations are actions on a world; the clock, the parent
  context's error and the wait of the polling \<open>select\<close> are functions of the world too. Where a theorem
  needs that time passes, the clock laws are named hypotheses. The polling loop has no static
  bound, so it runs on fuel and \<open>None\<close> means that the fuel ran out.
\<close>

section \<open>execution.go\<close>

datatype QueryState = QueryQueued | QueryRunning | QuerySucceeded | QueryFailed | QueryCancelled | QueryUnknown

definition mapQueryState :: "string \<Rightarrow> QueryState" where
  "mapQueryState v =
     (if v = ''QUEUED'' then QueryQueued else if v = ''RUNNING'' then QueryRunning
      else if v = ''SUCCEEDED'' then QuerySucceeded else if v = ''FAILED'' then QueryFailed
      else if v = ''CANCELLED'' then QueryCancelled else QueryUnknown)"

section \<open>The query text\<close>

definition sq :: char where "sq = CHR 0x27"
definition dq :: char where "dq = CHR 0x22"

text \<open>A text between single quotes.\<close>

definition squoted :: "string \<Rightarrow> string" where
  "squoted s = sq # s @ [sq]"

definition double_char :: "char \<Rightarrow> string \<Rightarrow> string" where
  "double_char q s = concat (map (\<lambda>c. if c = q then [q, q] else [c]) s)"

definition quoteIdentifier :: "string \<Rightarrow> string" where
  "quoteIdentifier v = dq # double_char dq v @ [dq]"

definition basisExpression :: "string \<Rightarrow> string option" where
  "basisExpression v =
     (if v = BasisUnblended then Some ''COALESCE(line_item_unblended_cost, 0)''
      else if v = BasisAmortized then Some
        (''CASE line_item_line_item_type WHEN '' @ squoted ''SavingsPlanCoveredUsage''
         @ '' THEN COALESCE(savings_plan_savings_plan_effective_cost, 0) WHEN '' @ squoted ''DiscountedUsage''
         @ '' THEN COALESCE(reservation_effective_cost, 0) WHEN '' @ squoted ''SavingsPlanRecurringFee''
         @ '' THEN COALESCE(savings_plan_total_commitment_to_date, 0) - COALESCE(savings_plan_used_commitment, 0) WHEN ''
         @ squoted ''SavingsPlanNegation'' @ '' THEN 0 WHEN '' @ squoted ''SavingsPlanUpfrontFee'' @ '' THEN 0 WHEN '' @ squoted ''RIFee''
         @ '' THEN COALESCE(reservation_unused_amortized_upfront_fee_for_billing_period, 0) + COALESCE(reservation_unused_recurring_fee, 0) WHEN ''
         @ squoted ''Fee'' @ '' THEN CASE WHEN NULLIF(reservation_reservation_a_r_n, '' @ squoted ''''
         @ '') IS NOT NULL THEN 0 ELSE COALESCE(line_item_unblended_cost, 0) END ELSE COALESCE(line_item_unblended_cost, 0) END'')
      else if v = BasisNet then Some ''COALESCE(line_item_net_unblended_cost, line_item_unblended_cost, 0)''
      else None)"

text \<open>The windows of the query: name, first day, day after the last.\<close>

definition query_windows :: "time \<Rightarrow> (string \<times> string \<times> string) list" where
  "query_windows reference =
     (let day = DayContaining reference; month = MonthContaining reference
      in [(WindowDaily, FormatDateOnly (p_start day), FormatDateOnly (p_end day)),
          (WindowMonthToDate, FormatDateOnly (p_start month), FormatDateOnly (p_end day))])"

definition amount_row :: "string \<Rightarrow> string \<Rightarrow> string \<times> string \<times> string \<Rightarrow> string" where
  "amount_row basis expression = (\<lambda>(name, s, e).
     ''ROW('' @ squoted name @ '', '' @ squoted basis @ '', '' @
     ''CASE WHEN line_item_usage_start_date >= DATE '' @ squoted s @ '' AND line_item_usage_start_date < DATE '' @ squoted e
     @ '' THEN '' @ expression @ '' END'' @ '')'')"

definition amount_rows :: "time \<Rightarrow> string list \<Rightarrow> string list" where
  "amount_rows reference bases =
     concat (map (\<lambda>basis. case basisExpression basis of
        None \<Rightarrow> [] | Some expression \<Rightarrow> map (amount_row basis expression) (query_windows reference)) bases)"

definition cur_tag_row :: "CURTagColumn \<Rightarrow> string" where
  "cur_tag_row tag =
     ''ROW('' @ squoted (double_char sq (tc_Key tag)) @ '', COALESCE(NULLIF('' @ quoteIdentifier (tc_Column tag) @ '', '' @ squoted ''''
     @ ''), '' @ squoted ''__untagged__'' @ ''))''"

definition where_clause :: "time \<Rightarrow> string" where
  "where_clause reference =
     '' WHERE line_item_usage_start_date >= DATE '' @ squoted (FormatDateOnly (p_start (MonthContaining reference)))
     @ '' AND line_item_usage_start_date < DATE '' @ squoted (FormatDateOnly (p_end (DayContaining reference)))"

definition buildQuery :: "TargetCURConfig \<Rightarrow> time \<Rightarrow> string list \<Rightarrow> bool \<Rightarrow> string" where
  "buildQuery v reference bases tags =
     (let table = quoteIdentifier (cu_Database v) @ ''.'' @ quoteIdentifier (cu_Table v); rows = amount_rows reference bases;
          select = ''SELECT expanded.window, line_item_currency_code AS currency, expanded.cost_basis, SUM(expanded.amount) AS amount''
      in if rows = [] then ''''
         else if tags
         then (let tagRows = map cur_tag_row (cu_TagColumns v)
               in if tagRows = [] then ''''
                  else select @ '', tag_values.tag_key, tag_values.tag_value'' @ '' FROM '' @ table @ '' CROSS JOIN UNNEST(ARRAY[''
                    @ Join rows '', '' @ '']) AS expanded(window, cost_basis, amount) CROSS JOIN UNNEST(ARRAY['' @ Join tagRows '', ''
                    @ '']) AS tag_values(tag_key, tag_value)'' @ where_clause reference
                    @ '' AND expanded.amount IS NOT NULL GROUP BY expanded.window, line_item_currency_code, expanded.cost_basis, tag_values.tag_key, tag_values.tag_value ORDER BY expanded.window, currency, expanded.cost_basis, tag_values.tag_key, tag_values.tag_value'')
         else select @ '' FROM '' @ table @ '' CROSS JOIN UNNEST(ARRAY['' @ Join rows '', ''
                @ '']) AS expanded(window, cost_basis, amount)'' @ where_clause reference
                @ '' AND expanded.amount IS NOT NULL GROUP BY expanded.window, line_item_currency_code, expanded.cost_basis ORDER BY expanded.window, currency, expanded.cost_basis'')"

section \<open>The reader\<close>

definition costColumns :: "string list" where
  "costColumns = [''window'', ''currency'', ''cost_basis'', ''amount'']"
definition tagColumns :: "string list" where
  "tagColumns = [''window'', ''currency'', ''cost_basis'', ''amount'', ''tag_key'', ''tag_value'']"

record AthenaReader =
  at_target :: TargetID
  at_config :: TargetCURConfig
  at_maxPages :: int
  at_maxRows :: int

definition AthenaReader_New :: "TargetID \<Rightarrow> 'api option \<Rightarrow> TargetCURConfig \<Rightarrow> int \<Rightarrow> int \<Rightarrow> go_error + AthenaReader" where
  "AthenaReader_New target api v maxPages maxRows =
     (if api = None then Inl (Sentinel ''athena API must not be nil'')
      else if maxPages \<le> 0 \<or> maxRows \<le> 0 then Inl (Sentinel ''athena bounds must be positive'')
      else if cu_QueryTimeout v \<le> 0 \<or> cu_PollInterval v \<le> 0 \<or> cu_PollInterval v \<ge> cu_QueryTimeout v
      then Inl (Sentinel ''athena query timing must be positive and poll interval must be less than timeout'')
      else Inr \<lparr> at_target = target, at_config = v, at_maxPages = maxPages, at_maxRows = maxRows \<rparr>)"

record StartQueryInput =
  sq_QueryString :: string
  sq_WorkGroup :: string
  sq_Database :: string
  sq_OutputLocation :: string

record ColumnInfo =
  cn_Name :: "string option"
  cn_Type :: "string option"

record QueryResultsInput =
  qr_QueryExecutionId :: string
  qr_NextToken :: "string option"
  qr_MaxResults :: int

record QueryResults =
  qo_Metadata :: "ColumnInfo list option"
  qo_Rows :: "string option list list"
  qo_NextToken :: "string option"

text \<open>
  An output is \<open>None\<close> when it, or a pointer the code requires on the way to the field, is nil: the execution id, the
  status, the result set.
\<close>

record 'w AthenaAPI =
  StartQueryExecution :: "StartQueryInput \<Rightarrow> ('w, string option) action"
  GetQueryExecution :: "string \<Rightarrow> ('w, string option) action"
  GetQueryResults :: "QueryResultsInput \<Rightarrow> ('w, QueryResults option) action"
  StopQueryExecution :: "string \<Rightarrow> ('w, unit) action"

text \<open>
  The environment: the clock, the error of the caller's context, and the wait for a duration under
  the query context of a deadline, which returns whether the timer branch was taken.
\<close>

record 'w query_env =
  qe_clock :: "'w \<Rightarrow> time"
  qe_ctx_err :: "'w \<Rightarrow> go_error option"
  qe_wait :: "duration \<Rightarrow> time \<Rightarrow> 'w \<Rightarrow> 'w \<times> bool"

definition query_err :: "'w query_env \<Rightarrow> time \<Rightarrow> 'w \<Rightarrow> go_error option" where
  "query_err env deadline w =
     (case qe_ctx_err env w of
        Some e \<Rightarrow> Some e
      | None \<Rightarrow> if deadline \<le> qe_clock env w then Some CtxDeadline else None)"

definition stopPendingQuery ::
  "'w query_env \<Rightarrow> 'w AthenaAPI \<Rightarrow> AthenaReader \<Rightarrow> string \<Rightarrow> go_error \<Rightarrow> 'w api_state \<Rightarrow> 'w api_state \<times> go_error" where
  "stopPendingQuery env api reader qid cause s =
     (case observed_call (qe_clock env) (at_target reader) ''StopQueryExecution'' (StopQueryExecution api) qid s of
        (s1, _) \<Rightarrow> (s1, if errors_As classified_error cause \<noteq> None then cause else classify_error cause))"

definition validate_column :: "string \<Rightarrow> ColumnInfo \<Rightarrow> bool" where
  "validate_column expected column \<longleftrightarrow>
     ToString (cn_Name column) = expected \<and>
     (let dataType = ToLower (ToString (cn_Type column))
      in if expected = ''amount''
         then dataType \<in> set [''decimal'', ''double'', ''float'', ''real'', ''bigint'', ''integer'', ''smallint'', ''tinyint'']
         else dataType = ''varchar'')"

definition validateResultMetadata :: "ColumnInfo list option \<Rightarrow> string list \<Rightarrow> go_error option" where
  "validateResultMetadata metadata expected =
     (case metadata of
        None \<Rightarrow> Some (Sentinel ''athena query returned unexpected result metadata'')
      | Some columns \<Rightarrow>
          if length columns \<noteq> length expected then Some (Sentinel ''athena query returned unexpected result metadata'')
          else if list_all (\<lambda>(e, c). validate_column e c) (zip expected columns) then None
          else Some (Sentinel ''athena query returned unexpected result column''))"

definition decodeRow :: "string option list \<Rightarrow> nat \<Rightarrow> go_error + string list" where
  "decodeRow row columns =
     (if length row \<noteq> columns then Inl (Sentinel ''athena result row has unexpected column count'')
      else Inr (map ToString row))"

definition equalColumns :: "string list \<Rightarrow> string list \<Rightarrow> bool" where
  "equalColumns l r \<longleftrightarrow> length l = length r \<and> list_all (\<lambda>(a, b). a = b) (zip l r)"

definition add_row :: "AthenaReader \<Rightarrow> string list \<Rightarrow> string list list \<Rightarrow> string option list \<Rightarrow> go_error + string list list" where
  "add_row reader expected rows row =
     (case decodeRow row (length expected) of
        Inl err \<Rightarrow> Inl err
      | Inr vals \<Rightarrow>
          if equalColumns vals expected then Inl (Sentinel ''athena query repeated its header'')
          else if int (length (rows @ [vals])) > at_maxRows reader then Inl (Sentinel ''athena result row limit exceeded'')
          else Inr (rows @ [vals]))"

text \<open>The header of the first page is checked and dropped.\<close>

definition page_rows :: "bool \<Rightarrow> string list \<Rightarrow> string option list list \<Rightarrow> go_error + string option list list" where
  "page_rows page0 expected rows =
     (if \<not> page0 then Inr rows
      else case rows of
             [] \<Rightarrow> Inl (Sentinel ''athena query returned no header row'')
           | header # rest \<Rightarrow>
               (case decodeRow header (length expected) of
                  Inl err \<Rightarrow> Inl (Sentinel ''athena query returned an unexpected header'')
                | Inr h \<Rightarrow>
                    if \<not> equalColumns h expected then Inl (Sentinel ''athena query returned an unexpected header'')
                    else Inr rest))"

fun result_pages ::
  "'w query_env \<Rightarrow> 'w AthenaAPI \<Rightarrow> AthenaReader \<Rightarrow> string list \<Rightarrow> nat \<Rightarrow> bool \<Rightarrow> QueryResultsInput \<Rightarrow> string list \<Rightarrow>
   string list list \<Rightarrow> ('w api_state, string list list) action" where
  "result_pages env api reader expected 0 page0 input seen rows s = (s, Inl (Sentinel ''athena result page limit exceeded''))"
| "result_pages env api reader expected (Suc n) page0 input seen rows s =
     (case observed_call (qe_clock env) (at_target reader) ''GetQueryResults'' (GetQueryResults api) input s of
        (s1, Inl err) \<Rightarrow> (s1, Inl (classify_error err))
      | (s1, Inr None) \<Rightarrow> (s1, Inl (Sentinel ''athena query returned no result set''))
      | (s1, Inr (Some out)) \<Rightarrow>
          (case validateResultMetadata (qo_Metadata out) expected of
             Some err \<Rightarrow> (s1, Inl err)
           | None \<Rightarrow>
               let s2 = observe_page (at_target reader) ''GetQueryResults'' s1
               in case page_rows page0 expected (qo_Rows out) of
                    Inl err \<Rightarrow> (s2, Inl err)
                  | Inr pageRows \<Rightarrow>
                      (case range_err (add_row reader expected) rows pageRows of
                         Inl err \<Rightarrow> (s2, Inl err)
                       | Inr rows' \<Rightarrow>
                           let token = ToString (qo_NextToken out)
                           in if token = '''' then (s2, Inr rows')
                              else if token \<in> set seen then (s2, Inl (Sentinel ''athena result repeated pagination token''))
                              else result_pages env api reader expected n False (input\<lparr> qr_NextToken := qo_NextToken out \<rparr>)
                                     (token # seen) rows' s2)))"

definition results_input :: "string \<Rightarrow> QueryResultsInput" where
  "results_input qid = \<lparr> qr_QueryExecutionId = qid, qr_NextToken = None, qr_MaxResults = 1000 \<rparr>"

definition Athena_results ::
  "'w query_env \<Rightarrow> 'w AthenaAPI \<Rightarrow> AthenaReader \<Rightarrow> string list \<Rightarrow> string \<Rightarrow> ('w api_state, string list list) action" where
  "Athena_results env api reader expected qid =
     result_pages env api reader expected (nat (at_maxPages reader)) True (results_input qid) [] []"

text \<open>The polling loop, one round of fuel per \<open>GetQueryExecution\<close>.\<close>

fun poll ::
  "nat \<Rightarrow> 'w query_env \<Rightarrow> 'w AthenaAPI \<Rightarrow> AthenaReader \<Rightarrow> time \<Rightarrow> string list \<Rightarrow> string \<Rightarrow> 'w api_state \<Rightarrow>
   ('w api_state \<times> (go_error + string list list)) option" where
  "poll 0 env api reader deadline expected qid s = None"
| "poll (Suc fuel) env api reader deadline expected qid s =
     (let stop = (\<lambda>cause s. case stopPendingQuery env api reader qid cause s of (s', err) \<Rightarrow> Some (s', Inl err))
      in case query_err env deadline (fst s) of
           Some err \<Rightarrow> stop err s
         | None \<Rightarrow>
             (case observed_call (qe_clock env) (at_target reader) ''GetQueryExecution'' (GetQueryExecution api) qid s of
                (s1, Inl callErr) \<Rightarrow>
                  (case query_err env deadline (fst s1) of
                     Some err \<Rightarrow> stop err s1
                   | None \<Rightarrow> stop (classify_error callErr) s1)
              | (s1, Inr None) \<Rightarrow> stop (Sentinel ''athena query returned no status'') s1
              | (s1, Inr (Some st)) \<Rightarrow>
                  (case mapQueryState st of
                     QuerySucceeded \<Rightarrow> Some (Athena_results env api reader expected qid s1)
                   | QueryFailed \<Rightarrow> Some (s1, Inl (Sentinel ''athena query did not succeed: failed''))
                   | QueryCancelled \<Rightarrow> Some (s1, Inl (Sentinel ''athena query did not succeed: cancelled''))
                   | QueryUnknown \<Rightarrow> stop (Sentinel ''athena query returned an unsupported state'') s1
                   | _ \<Rightarrow>
                       (case qe_wait env (cu_PollInterval (at_config reader)) deadline (fst s1) of
                          (w2, True) \<Rightarrow> poll fuel env api reader deadline expected qid (w2, snd s1)
                        | (w2, False) \<Rightarrow>
                            stop (case query_err env deadline w2 of Some err \<Rightarrow> err | None \<Rightarrow> CtxDeadline) (w2, snd s1)))))"

definition start_input :: "AthenaReader \<Rightarrow> time \<Rightarrow> string list \<Rightarrow> bool \<Rightarrow> StartQueryInput" where
  "start_input reader reference bases tags =
     \<lparr> sq_QueryString = buildQuery (at_config reader) reference bases tags, sq_WorkGroup = cu_Workgroup (at_config reader),
       sq_Database = cu_Database (at_config reader), sq_OutputLocation = cu_OutputLocation (at_config reader) \<rparr>"

definition Athena_query ::
  "nat \<Rightarrow> 'w query_env \<Rightarrow> 'w AthenaAPI \<Rightarrow> AthenaReader \<Rightarrow> time \<Rightarrow> string list \<Rightarrow> bool \<Rightarrow> 'w api_state \<Rightarrow>
   ('w api_state \<times> (go_error + string list list)) option" where
  "Athena_query fuel env api reader reference bases tags s =
     (let query = buildQuery (at_config reader) reference bases tags;
          deadline = qe_clock env (fst s) + cu_QueryTimeout (at_config reader);
          expected = (if tags then tagColumns else costColumns)
      in if query = '''' then Some (s, Inl (Sentinel ''athena query has no supported cost basis''))
         else case observed_call (qe_clock env) (at_target reader) ''StartQueryExecution'' (StartQueryExecution api)
                     (start_input reader reference bases tags) s of
                (s1, Inl err) \<Rightarrow> Some (s1, Inl (classify_error err))
              | (s1, Inr start) \<Rightarrow>
                  if ToString start = '''' then Some (s1, Inl (Sentinel ''athena query returned no execution id''))
                  else poll fuel env api reader deadline expected (ToString start) s1)"

section \<open>Mapping the rows\<close>

definition mustTotalDimension :: Dimension where
  "mustTotalDimension = (case NewDimension DimensionTotal '''' of Inl _ \<Rightarrow> \<lparr> kind = '''', dvalue = '''' \<rparr> | Inr d \<Rightarrow> d)"

text \<open>The checks both mappings make, in order: amount, currency, basis.\<close>

definition row_money :: "string list \<Rightarrow> go_error + Money" where
  "row_money row =
     (case ParseFloat (row ! 3) of
        Inl e \<Rightarrow> Inl (Sentinel (num_error_text e))
      | Inr a \<Rightarrow>
          (case NewMoney a (row ! 1) of
             Inl err \<Rightarrow> Inl err
           | Inr money \<Rightarrow>
               if \<not> Basis_Valid (row ! 2) then Inl (Sentinel ''unsupported CUR cost basis'') else Inr money))"

definition map_cost_row :: "TargetID \<Rightarrow> time \<Rightarrow> Cost list \<Rightarrow> string list \<Rightarrow> go_error + Cost list" where
  "map_cost_row target reference vals row =
     (if length row \<noteq> length costColumns then Inl (Sentinel ''athena cost row has unexpected column count'')
      else case row_money row of
             Inl err \<Rightarrow> Inl err
           | Inr money \<Rightarrow>
               if row ! 0 \<noteq> WindowMonthToDate \<and> row ! 0 \<noteq> WindowDaily then Inl (Sentinel ''unsupported CUR window'')
               else Inr (vals @ [\<lparr> c_Target = target, c_Provider = ProviderCURAthena, c_Basis = row ! 2, c_Window = row ! 0,
                      c_Period = (if row ! 0 = WindowMonthToDate then MonthContaining reference else DayContaining reference),
                      c_Dimension = mustTotalDimension, c_Amount = money \<rparr>]))"

definition mapCosts :: "TargetID \<Rightarrow> time \<Rightarrow> string list list \<Rightarrow> go_error + Cost list" where
  "mapCosts target reference rows = range_err (map_cost_row target reference) [] rows"

definition map_tag_row :: "TargetID \<Rightarrow> TagCost list \<Rightarrow> string list \<Rightarrow> go_error + TagCost list" where
  "map_tag_row target vals row =
     (if length row \<noteq> length tagColumns then Inl (Sentinel ''athena tag row has unexpected column count'')
      else case row_money row of
             Inl err \<Rightarrow> Inl err
           | Inr money \<Rightarrow>
               if row ! 0 \<noteq> WindowDaily \<and> row ! 0 \<noteq> WindowMonthToDate then Inl (Sentinel ''unsupported CUR window'')
               else Inr (vals @ [\<lparr> t_Target = target, t_Provider = ProviderCURAthena, t_Basis = row ! 2, t_Window = row ! 0,
                      t_TagKey = row ! 4, t_TagValue = row ! 5, t_Amount = money \<rparr>]))"

definition mapTagCosts :: "TargetID \<Rightarrow> time \<Rightarrow> string list list \<Rightarrow> go_error + TagCost list" where
  "mapTagCosts target reference rows = range_err (map_tag_row target) [] rows"

definition QueryCosts ::
  "nat \<Rightarrow> 'w query_env \<Rightarrow> 'w AthenaAPI \<Rightarrow> AthenaReader \<Rightarrow> time \<Rightarrow> string list \<Rightarrow> 'w api_state \<Rightarrow>
   ('w api_state \<times> (go_error + Cost list)) option" where
  "QueryCosts fuel env api reader reference bases s =
     (case Athena_query fuel env api reader reference bases False s of
        None \<Rightarrow> None
      | Some (s', Inl err) \<Rightarrow> Some (s', Inl err)
      | Some (s', Inr rows) \<Rightarrow> Some (s', mapCosts (at_target reader) reference rows))"

definition QueryTagCosts ::
  "nat \<Rightarrow> 'w query_env \<Rightarrow> 'w AthenaAPI \<Rightarrow> AthenaReader \<Rightarrow> time \<Rightarrow> string list \<Rightarrow> 'w api_state \<Rightarrow>
   ('w api_state \<times> (go_error + TagCost list)) option" where
  "QueryTagCosts fuel env api reader reference bases s =
     (case Athena_query fuel env api reader reference bases True s of
        None \<Rightarrow> None
      | Some (s', Inl err) \<Rightarrow> Some (s', Inl err)
      | Some (s', Inr rows) \<Rightarrow> Some (s', mapTagCosts (at_target reader) reference rows))"

section \<open>The polling loop ends\<close>

text \<open>
  What the loop relies on: a call does not turn the clock back, and a timer fires no earlier than its
  duration.
\<close>

definition clock_laws :: "'w query_env \<Rightarrow> 'w AthenaAPI \<Rightarrow> bool" where
  "clock_laws env api \<longleftrightarrow>
     (\<forall>input w. qe_clock env w \<le> qe_clock env (fst (StartQueryExecution api input w))) \<and>
     (\<forall>qid w. qe_clock env w \<le> qe_clock env (fst (GetQueryExecution api qid w))) \<and>
     (\<forall>d deadline w w'. qe_wait env d deadline w = (w', True) \<longrightarrow> qe_clock env w + d \<le> qe_clock env w')"

declare poll.simps(2) [simp del]

lemma query_err_deadline: "deadline \<le> qe_clock env w \<Longrightarrow> query_err env deadline w \<noteq> None"
  by (auto simp: query_err_def split: option.splits)

lemma poll_returns:
  assumes "clock_laws env api" and "0 < cu_PollInterval (at_config reader)"
    and "deadline - qe_clock env (fst s) \<le> int n * cu_PollInterval (at_config reader)"
  shows "poll (Suc n) env api reader deadline expected qid s \<noteq> None"
  using assms(3)
proof (induction n arbitrary: s)
  case 0
  then have "query_err env deadline (fst s) \<noteq> None" by (intro query_err_deadline) simp
  then show ?case by (auto simp: poll.simps(2) Let_def split: prod.splits)
next
  case (Suc n)
  obtain s1 r where call: "observed_call (qe_clock env) (at_target reader) ''GetQueryExecution'' (GetQueryExecution api) qid s = (s1, r)"
    by fastforce
  then have api: "GetQueryExecution api qid (fst s) = (fst s1, r)" by (rule observed_call_fst)
  have mono: "qe_clock env (fst s) \<le> qe_clock env (fst s1)"
    using assms(1) api unfolding clock_laws_def by (metis fst_conv)
  obtain w2 fired where wait: "qe_wait env (cu_PollInterval (at_config reader)) deadline (fst s1) = (w2, fired)" by fastforce
  have next_round: "poll (Suc n) env api reader deadline expected qid (w2, snd s1) \<noteq> None" if "fired"
  proof (rule Suc.IH)
    have "qe_clock env (fst s1) + cu_PollInterval (at_config reader) \<le> qe_clock env w2"
      using assms(1) wait that by (simp add: clock_laws_def)
    then show "deadline - qe_clock env (fst (w2, snd s1)) \<le> int n * cu_PollInterval (at_config reader)"
      using Suc.prems mono by (simp add: algebra_simps)
  qed
  show ?case
    unfolding poll.simps(2) [of "Suc n"] Let_def call wait
    using wait next_round
    by (auto simp del: not_None_eq split: option.splits prod.splits sum.splits QueryState.splits bool.splits)
qed

text \<open>
  C25. A CUR query always returns. For every sequence of answers of Athena, as long as calls do not turn the clock back and
  timers do not fire early, the query ends with rows or an error after at most one more round than there are poll
  intervals in the query timeout, plus one.
\<close>

theorem athena_query_returns:
  assumes "AthenaReader_New target (Some api) v maxPages maxRows = Inr reader" and "clock_laws env api"
    and "cu_QueryTimeout v div cu_PollInterval v + 2 \<le> int fuel"
  shows "\<exists>s' r. Athena_query fuel env api reader reference bases tags s = Some (s', r)"
proof -
  have cfg: "at_config reader = v" "0 < cu_PollInterval v" "0 < cu_QueryTimeout v"
    using assms(1) by (auto simp: AthenaReader_New_def split: if_splits)
  obtain n where n: "fuel = Suc n" "cu_QueryTimeout v div cu_PollInterval v + 1 \<le> int n"
    using assms(3) pos_imp_zdiv_nonneg_iff [OF cfg(2), of "cu_QueryTimeout v"] cfg(3) by (cases fuel) auto
  have "cu_QueryTimeout v \<le> (cu_QueryTimeout v div cu_PollInterval v + 1) * cu_PollInterval v"
    using cfg(2) by (metis div_mult_mod_eq add_left_mono distrib_right mult_1 order_less_imp_le pos_mod_bound)
  also have "\<dots> \<le> int n * cu_PollInterval v" using n(2) cfg(2) by (intro mult_right_mono) auto
  finally have rounds: "cu_QueryTimeout v \<le> int n * cu_PollInterval v" .
  have poll: "poll fuel env api reader (qe_clock env (fst s) + cu_QueryTimeout v) expected qid s1 \<noteq> None"
    if "observed_call (qe_clock env) (at_target reader) ''StartQueryExecution'' (StartQueryExecution api) input s = (s1, r)"
    for s1 r input expected qid
  proof -
    have "qe_clock env (fst s) \<le> qe_clock env (fst s1)"
      using assms(2) observed_call_fst [OF that] unfolding clock_laws_def by (metis fst_conv)
    then show ?thesis
      unfolding n(1) using rounds assms(2) cfg by (intro poll_returns) auto
  qed
  then have "Athena_query fuel env api reader reference bases tags s \<noteq> None"
    by (auto simp: Athena_query_def Let_def cfg(1) simp del: not_None_eq split: prod.splits sum.splits)
  then show ?thesis by auto
qed

section \<open>Abandoned queries are stopped\<close>

definition terminal_answer :: "'w AthenaAPI \<Rightarrow> string \<Rightarrow> bool" where
  "terminal_answer api qid \<longleftrightarrow>
     (\<exists>w w1 st. GetQueryExecution api qid w = (w1, Inr (Some st)) \<and>
        mapQueryState st \<in> {QuerySucceeded, QueryFailed, QueryCancelled})"

definition stop_requested :: "TargetID \<Rightarrow> aws_event list \<Rightarrow> bool" where
  "stop_requested target evs \<longleftrightarrow>
     (\<exists>before status d. evs = before @ [ObserveRequest target ''StopQueryExecution'' status d])"

lemma stopPendingQuery_stops:
  "stopPendingQuery env api reader qid cause s = (s', err) \<Longrightarrow>
   stop_requested (at_target reader) (snd s') \<and> errors_As classified_error err \<noteq> None"
  by (cases s) (auto simp: stopPendingQuery_def observed_call_def ObserveCall_def stop_requested_def classify_error_simp errors_As_def
      split: prod.splits if_splits)

lemma poll_stops:
  assumes "poll fuel env api reader deadline expected qid s = Some (s', r)"
  shows "terminal_answer api qid \<or>
    stop_requested (at_target reader) (snd s') \<and> (\<exists>err. r = Inl err \<and> errors_As classified_error err \<noteq> None)"
  using assms
proof (induction fuel arbitrary: s)
  case (Suc fuel)
  obtain s1 a where call: "observed_call (qe_clock env) (at_target reader) ''GetQueryExecution'' (GetQueryExecution api) qid s = (s1, a)"
    by fastforce
  then have api: "GetQueryExecution api qid (fst s) = (fst s1, a)" by (rule observed_call_fst)
  have ended: "terminal_answer api qid" if "a = Inr (Some st)" "mapQueryState st \<in> {QuerySucceeded, QueryFailed, QueryCancelled}" for st
    using api that unfolding terminal_answer_def by blast
  have stop: "stop_requested (at_target reader) (snd s') \<and> (\<exists>err. r = Inl err \<and> errors_As classified_error err \<noteq> None)"
    if "(case stopPendingQuery env api reader qid cause t of (s', err) \<Rightarrow> Some (s', Inl err)) = Some (s', r)" for cause t
    using that stopPendingQuery_stops [of env api reader qid cause t] by (auto split: prod.splits)
  note run = Suc.prems [unfolded poll.simps(2) Let_def call]
  show ?case
  proof (cases "query_err env deadline (fst s)")
    case (Some err)
    with run show ?thesis by (auto dest: stop)
  next
    case None
    note run = run [unfolded None option.case prod.case]
    show ?thesis
    proof (cases a)
      case (Inl err)
      with run show ?thesis by (cases "query_err env deadline (fst s1)") (auto dest: stop)
    next
      case (Inr st)
      show ?thesis
      proof (cases st)
        case None
        with Inr run show ?thesis by (auto dest: stop)
      next
        case (Some q)
        note run = run [unfolded Inr Some sum.case option.case]
        obtain w2 fired where wait: "qe_wait env (cu_PollInterval (at_config reader)) deadline (fst s1) = (w2, fired)" by fastforce
        have waiting: ?thesis if "(case (w2, fired) of (w2, True) \<Rightarrow> poll fuel env api reader deadline expected qid (w2, snd s1)
            | (w2, False) \<Rightarrow> (case stopPendingQuery env api reader qid (case query_err env deadline w2 of Some err \<Rightarrow> err | None \<Rightarrow> CtxDeadline)
                (w2, snd s1) of (s', err) \<Rightarrow> Some (s', Inl err))) = Some (s', r)"
          using that Suc.IH by (cases fired) (auto dest: stop)
        show ?thesis
          using run ended [of q] waiting Inr Some by (cases "mapQueryState q") (auto simp: wait dest: stop)
      qed
    qed
  qed
qed simp


section \<open>Quoting\<close>

text \<open>How SQL reads a quoted identifier or literal: up to the first quote that is not doubled.\<close>

fun read_body :: "char \<Rightarrow> string \<Rightarrow> (string \<times> string) option" where
  "read_body q [] = None"
| "read_body q [c] = (if c = q then Some ([], []) else None)"
| "read_body q (c # d # s) =
     (if c \<noteq> q then map_option (\<lambda>(v, r). (c # v, r)) (read_body q (d # s))
      else if d = q then map_option (\<lambda>(v, r). (q # v, r)) (read_body q s)
      else Some ([], d # s))"

fun read_quoted :: "char \<Rightarrow> string \<Rightarrow> (string \<times> string) option" where
  "read_quoted q [] = None"
| "read_quoted q (c # s) = (if c = q then read_body q s else None)"

lemma read_body_doubled:
  assumes "rest = [] \<or> hd rest \<noteq> q"
  shows "read_body q (double_char q v @ q # rest) = Some (v, rest)"
proof (induction v)
  case Nil
  show ?case using assms by (cases rest) (auto simp: double_char_def)
next
  case (Cons c v)
  show ?case
  proof (cases "c = q")
    case True
    then show ?thesis using Cons by (simp add: double_char_def)
  next
    case False
    have "read_body q (c # xs) = map_option (\<lambda>(v, r). (c # v, r)) (read_body q xs)" if "xs \<noteq> []" for xs
      using that False by (cases xs) auto
    then show ?thesis using Cons False by (simp add: double_char_def)
  qed
qed

lemma read_identifier: "rest = [] \<or> hd rest \<noteq> dq \<Longrightarrow> read_quoted dq (quoteIdentifier v @ rest) = Some (v, rest)"
  using read_body_doubled [of rest dq v] by (simp add: quoteIdentifier_def)

lemma read_literal: "rest = [] \<or> hd rest \<noteq> sq \<Longrightarrow> read_quoted sq (squoted (double_char sq v) @ rest) = Some (v, rest)"
  using read_body_doubled [of rest sq v] by (simp add: squoted_def)

definition query_prefix :: "bool \<Rightarrow> string" where
  "query_prefix tags =
     ''SELECT expanded.window, line_item_currency_code AS currency, expanded.cost_basis, SUM(expanded.amount) AS amount''
     @ (if tags then '', tag_values.tag_key, tag_values.tag_value'' else '''') @ '' FROM ''"

lemma buildQuery_shape:
  assumes "buildQuery v reference bases tags \<noteq> ''''"
  shows "\<exists>post. buildQuery v reference bases tags =
    query_prefix tags @ quoteIdentifier (cu_Database v) @ ''.'' @ quoteIdentifier (cu_Table v) @ '' '' @ post"
  using assms by (auto simp: buildQuery_def Let_def query_prefix_def split: if_splits)


section \<open>Rows\<close>

lemma equalColumns_eq [simp]: "equalColumns l r \<longleftrightarrow> l = r"
  by (auto simp: equalColumns_def list_all_iff list_eq_iff_zip_eq)

lemma add_rows:
  assumes "range_err (add_row reader expected) rows rs = Inr rows'"
  shows "rows' = rows @ map (map ToString) rs \<and> (\<forall>r \<in> set rs. length r = length expected \<and> map ToString r \<noteq> expected) \<and>
    (rs \<noteq> [] \<longrightarrow> int (length rows') \<le> at_maxRows reader)"
  using assms
proof (induction rs arbitrary: rows)
  case (Cons r rs)
  then obtain mid where mid: "add_row reader expected rows r = Inr mid" "range_err (add_row reader expected) mid rs = Inr rows'"
    by (auto split: sum.splits)
  then have "mid = rows @ [map ToString r]" "length r = length expected" "map ToString r \<noteq> expected" "int (length mid) \<le> at_maxRows reader"
    by (auto simp: add_row_def decodeRow_def split: if_splits)
  with Cons.IH [OF mid(2)] show ?case by (cases rs) auto
qed simp

lemma page_rows_header:
  "page_rows True expected rows = Inr rest \<Longrightarrow> \<exists>h. rows = h # rest \<and> map ToString h = expected"
  by (auto simp: page_rows_def decodeRow_def split: list.splits sum.splits if_splits)

lemma result_pages_chain:
  assumes "result_pages env api reader expected n page0 input seen rows s = (s', Inr rows')"
    and "int (length rows) \<le> at_maxRows reader"
  shows "\<exists>outs data. call_chain (GetQueryResults api) qo_NextToken (\<lambda>t i. i\<lparr> qr_NextToken := t \<rparr>) input (fst s) outs (fst s') \<and>
    length outs \<le> n \<and>
    (if page0 then \<exists>h. concat (map qo_Rows outs) = h # data \<and> map ToString h = expected else concat (map qo_Rows outs) = data) \<and>
    rows' = rows @ map (map ToString) data \<and> int (length rows') \<le> at_maxRows reader \<and>
    (\<forall>r \<in> set data. length r = length expected \<and> map ToString r \<noteq> expected)"
  using assms
proof (induction n arbitrary: page0 input seen rows s)
  case (Suc n)
  obtain s1 out where call: "observed_call (qe_clock env) (at_target reader) ''GetQueryResults'' (GetQueryResults api) input s = (s1, Inr (Some out))"
    using Suc.prems(1) by (auto split: prod.splits sum.splits option.splits)
  have api: "GetQueryResults api input (fst s) = (fst s1, Inr (Some out))" using observed_call_fst [OF call] .
  let ?s2 = "observe_page (at_target reader) ''GetQueryResults'' s1"
  have meta: "validateResultMetadata (qo_Metadata out) expected = None" using Suc.prems(1) call by (auto split: option.splits)
  obtain prows where prows: "page_rows page0 expected (qo_Rows out) = Inr prows"
    using Suc.prems(1) call meta by (auto simp: Let_def split: sum.splits)
  obtain mid where mid: "range_err (add_row reader expected) rows prows = Inr mid"
    using Suc.prems(1) call meta prows by (auto simp: Let_def split: sum.splits)
  note added = add_rows [OF mid]
  have mid_len: "int (length mid) \<le> at_maxRows reader" using added Suc.prems(2) by (cases prows) auto
  have page: "if page0 then \<exists>h. qo_Rows out = h # prows \<and> map ToString h = expected else qo_Rows out = prows"
    using prows page_rows_header by (auto simp: page_rows_def)
  show ?case
  proof (cases "ToString (qo_NextToken out) = ''''")
    case True
    then have "s' = ?s2" "rows' = mid" using Suc.prems(1) call meta prows mid by (auto simp: Let_def)
    then show ?thesis
      using chain_last [where api = "GetQueryResults api" and token_of = qo_NextToken, OF api True] added mid_len page
      by (intro exI [of _ "[out]"] exI [of _ prows]) auto
  next
    case False
    then have rest: "result_pages env api reader expected n False (input\<lparr> qr_NextToken := qo_NextToken out \<rparr>)
        (ToString (qo_NextToken out) # seen) mid ?s2 = (s', Inr rows')"
      using Suc.prems(1) call meta prows mid by (auto simp: Let_def split: if_splits)
    obtain outs data where outs: "call_chain (GetQueryResults api) qo_NextToken (\<lambda>t i. i\<lparr> qr_NextToken := t \<rparr>)
        (input\<lparr> qr_NextToken := qo_NextToken out \<rparr>) (fst s1) outs (fst s')" "length outs \<le> n" "concat (map qo_Rows outs) = data"
      "rows' = mid @ map (map ToString) data" "int (length rows') \<le> at_maxRows reader"
      "\<forall>r \<in> set data. length r = length expected \<and> map ToString r \<noteq> expected"
      using Suc.IH [OF rest mid_len] by auto
    then show ?thesis
      using chain_next [where api = "GetQueryResults api" and token_of = qo_NextToken and
          set_token = "\<lambda>t i. i\<lparr> qr_NextToken := t \<rparr>", OF api False outs(1)] added page
      by (intro exI [of _ "out # outs"] exI [of _ "prows @ data"]) auto
  qed
qed simp

lemma poll_results:
  assumes "poll fuel env api reader deadline expected qid s = Some (s', Inr rows)"
  shows "\<exists>s1. Athena_results env api reader expected qid s1 = (s', Inr rows)"
  using assms
proof (induction fuel arbitrary: s)
  case (Suc fuel)
  then show ?case
    by (auto simp: poll.simps(2) Let_def split: option.splits prod.splits sum.splits QueryState.splits bool.splits)
qed simp

text \<open>
  C27. Query results are complete and exact. Rows are returned only after an unbroken chain of result pages within the page limit; the very
  first row is the expected header and is dropped, every other row is returned once, in order, with the expected number of columns,
  none of them repeats the header, and there are at most the row limit of them.
\<close>

theorem athena_rows_exact:
  assumes "AthenaReader_New target (Some api) v maxPages maxRows = Inr reader"
    and "Athena_query fuel env api reader reference bases tags s = Some (s', Inr rows)"
  shows "\<exists>qid w outs h data. call_chain (GetQueryResults api) qo_NextToken (\<lambda>t i. i\<lparr> qr_NextToken := t \<rparr>) (results_input qid) w outs (fst s') \<and>
    int (length outs) \<le> maxPages \<and> concat (map qo_Rows outs) = h # data \<and>
    map ToString h = (if tags then tagColumns else costColumns) \<and> rows = map (map ToString) data \<and>
    int (length rows) \<le> maxRows \<and>
    (\<forall>row \<in> set rows. length row = length (if tags then tagColumns else costColumns) \<and> row \<noteq> (if tags then tagColumns else costColumns))"
proof -
  have cfg: "at_maxPages reader = maxPages" "at_maxRows reader = maxRows" "0 < maxPages" "0 < maxRows"
    using assms(1) by (auto simp: AthenaReader_New_def split: if_splits)
  define e where "e = (if tags then tagColumns else costColumns)"
  obtain s1 qid deadline where "poll fuel env api reader deadline e qid s1 = Some (s', Inr rows)"
    using assms(2) by (auto simp: Athena_query_def Let_def e_def split: if_splits prod.splits sum.splits)
  then obtain s2 where "Athena_results env api reader e qid s2 = (s', Inr rows)" using poll_results by blast
  then have "result_pages env api reader e (nat maxPages) True (results_input qid) [] [] s2 = (s', Inr rows)"
    by (simp add: Athena_results_def cfg)
  from result_pages_chain [OF this] obtain outs data where
    chain: "call_chain (GetQueryResults api) qo_NextToken (\<lambda>t i. i\<lparr> qr_NextToken := t \<rparr>) (results_input qid) (fst s2) outs (fst s')"
    and "length outs \<le> nat maxPages" "\<exists>h. concat (map qo_Rows outs) = h # data \<and> map ToString h = e"
    and rows: "rows = map (map ToString) data" "int (length rows) \<le> maxRows" "\<forall>r \<in> set data. length r = length e \<and> map ToString r \<noteq> e"
    using cfg by auto
  then obtain h where h: "concat (map qo_Rows outs) = h # data" "map ToString h = e" and n: "int (length outs) \<le> maxPages"
    using cfg(3) by auto
  have "\<forall>row \<in> set rows. length row = length e \<and> row \<noteq> e" using rows(1,3) by auto
  with chain h n rows(1,2) show ?thesis unfolding e_def [symmetric] by blast
qed

section \<open>The CUR collector over Athena\<close>

definition cur_cost_ok :: "TargetID \<Rightarrow> Cost \<Rightarrow> bool" where
  "cur_cost_ok target c \<longleftrightarrow>
     c_Target c = target \<and> c_Provider c = ProviderCURAthena \<and> Basis_Valid (c_Basis c) \<and>
     c_Window c \<in> {WindowDaily, WindowMonthToDate} \<and> dimension_wf (c_Dimension c) \<and> money_wf (c_Amount c)"

definition cur_tag_ok :: "TargetID \<Rightarrow> TagCost \<Rightarrow> bool" where
  "cur_tag_ok target t \<longleftrightarrow>
     t_Target t = target \<and> t_Provider t = ProviderCURAthena \<and> Basis_Valid (t_Basis t) \<and>
     t_Window t \<in> {WindowDaily, WindowMonthToDate} \<and> money_wf (t_Amount t)"

lemma row_money_ok: "row_money row = Inr m \<Longrightarrow> money_wf m \<and> Basis_Valid (row ! 2)"
  by (auto simp: row_money_def dest: NewMoney_wf split: sum.splits if_splits)

lemma total_dimension_wf: "dimension_wf mustTotalDimension"
  by code_simp

lemma mapCosts_ok: "mapCosts target reference rows = Inr cs \<Longrightarrow> \<forall>c \<in> set cs. cur_cost_ok target c"
  unfolding mapCosts_def
  by (erule range_err_invariant)
    (auto simp: map_cost_row_def cur_cost_ok_def total_dimension_wf dest!: row_money_ok split: if_splits sum.splits)

lemma mapTagCosts_ok: "mapTagCosts target reference rows = Inr ts \<Longrightarrow> \<forall>t \<in> set ts. cur_tag_ok target t"
  unfolding mapTagCosts_def
  by (erule range_err_invariant)
    (auto simp: map_tag_row_def cur_tag_ok_def dest!: row_money_ok split: if_splits sum.splits)

lemma LimitValues_ok:
  assumes "LimitValues observers vals limit overflow = (e, Inr ts)" and "\<forall>t \<in> set vals. cur_tag_ok target t"
  shows "\<forall>t \<in> set ts. cur_tag_ok target t"
proof (cases "int (length vals) \<le> limit")
  case True
  with assms show ?thesis by (simp add: LimitValues_def)
next
  case False
  let ?ranked = "slice_stable tag_ranked_less vals"
  obtain money where "0 \<le> limit - 1" and ts: "ts = take (nat (limit - 1)) ?ranked @ [(?ranked ! nat (limit - 1))\<lparr> t_TagValue := overflow, t_Amount := money \<rparr>]"
    and "money_wf money"
    using assms(1) False by (auto simp: LimitValues_def Let_def dest: NewMoney_wf split: if_splits sum.splits)
  moreover have "?ranked ! nat (limit - 1) \<in> set vals"
    using False \<open>0 \<le> limit - 1\<close> nth_mem [of "nat (limit - 1)" ?ranked] by simp
  ultimately show ?thesis
    using assms(2) in_set_takeD [of _ "nat (limit - 1)" ?ranked] by (auto simp: cur_tag_ok_def)
qed

lemma set_update_sub: "set (AList.update k v m) \<subseteq> insert (k, v) (set m)"
  by (induction m) auto

lemma group_tags_sub:
  assumes "range_err (group_tag limits) [] vals = Inr groups"
  shows "\<forall>(k, members) \<in> set groups. set members \<subseteq> set vals"
proof (rule range_err_invariant [OF assms])
  fix groups t groups'
  assume t: "t \<in> set vals" and inv: "\<forall>(k, members) \<in> set groups. set members \<subseteq> set vals" and "group_tag limits groups t = Inr groups'"
  then have g: "groups' = AList.update (tag_group_key t) (tag_group_of groups (tag_group_key t) @ [t]) groups"
    by (auto simp: group_tag_def split: if_splits)
  have "set (tag_group_of groups (tag_group_key t)) \<subseteq> set vals"
    using inv by (cases "map_of groups (tag_group_key t)") (auto simp: tag_group_of_def dest!: map_of_SomeD)
  moreover have "set groups' \<subseteq> insert (tag_group_key t, tag_group_of groups (tag_group_key t) @ [t]) (set groups)"
    unfolding g by (rule set_update_sub)
  ultimately show "\<forall>(k, members) \<in> set groups'. set members \<subseteq> set vals" using inv t by fastforce
qed simp

lemma limit_tag_groups_ok:
  assumes "limit_tag_groups observers limits overflow groups = (e, Inr ts)"
    and "\<forall>(k, members) \<in> set groups. \<forall>t \<in> set members. cur_tag_ok target t"
  shows "\<forall>t \<in> set ts. cur_tag_ok target t"
  using assms
proof (induction groups arbitrary: e ts)
  case (Cons g groups)
  obtain k members where g: "g = (k, members)" by (cases g)
  obtain e1 bounded e2 others where "LimitValues observers members (tag_limit_of limits (fst k)) overflow = (e1, Inr bounded)"
    "limit_tag_groups observers limits overflow groups = (e2, Inr others)" "ts = bounded @ others"
    using Cons.prems(1) g by (auto split: prod.splits sum.splits)
  then show ?case using Cons g LimitValues_ok by fastforce
qed simp

lemma limitTags_ok:
  assumes "limitTags col observers raw = (e, Inr ts)" and "\<forall>t \<in> set raw. cur_tag_ok target t"
  shows "\<forall>t \<in> set ts. cur_tag_ok target t"
proof -
  obtain groups result where g: "range_err (group_tag (tag_limits (cur_keys col))) [] raw = Inr groups"
    and l: "limit_tag_groups observers (tag_limits (cur_keys col)) (cur_overflow col) groups = (e, Inr result)" and ts: "ts = TagCost_Sort result"
    using assms(1) by (auto simp: limitTags_def Let_def split: sum.splits prod.splits)
  have "\<forall>(k, members) \<in> set groups. \<forall>t \<in> set members. cur_tag_ok target t"
    using group_tags_sub [OF g] assms(2) by fastforce
  from limit_tag_groups_ok [OF l this] show ?thesis by (simp add: ts TagCost_Sort_def)
qed

lemma CUR_Collect_reads:
  assumes "CUR_Collect col qc qt observers reference s = (s', Inr p)"
  shows "\<exists>w1 cs ts. qc reference (cur_bases col) (fst s) = (w1, Inr cs) \<and> cur_finish col cs ts = Inr p \<and>
    (ts = [] \<or> (\<exists>w2 raw e. qt reference (cur_bases col) w1 = (w2, Inr raw) \<and> limitTags col observers raw = (e, Inr ts)))"
  using assms by (cases s) (fastforce simp: CUR_Collect_def split: prod.splits sum.splits if_splits)

text \<open>A read that returned; the reader always does, given enough fuel.\<close>

definition returned :: "('s \<Rightarrow> ('s \<times> (go_error + 'a)) option) \<Rightarrow> ('s, 'a) action" where
  "returned f s = (case f s of None \<Rightarrow> (s, Inl (Sentinel ''no result'')) | Some r \<Rightarrow> r)"

text \<open>
  C28. What the CUR collector publishes is sound. Whatever Athena answers, a partial collected through the Athena reader consists of
  costs and tag costs of the target and the CUR provider, with valid bases and windows, total dimension and finite amounts: it is accepted as
  to ownership and identity and fully exportable, and it respects the limits of series and currencies.
\<close>

theorem cur_collection_sound:
  assumes "AthenaReader_New target (Some api) v maxPages maxRows = Inr reader"
    and "CUR_New target (Some ()) bases tags limit tagLimit maxCurrencies keys overflow = Inr col"
    and "CUR_Collect col (\<lambda>ref bs. returned (QueryCosts fuel env api reader ref bs))
      (\<lambda>ref bs. returned (QueryTagCosts fuel env api reader ref bs)) observers reference s = (s', Inr p)"
  shows "ValidatePartial p target = Inr () \<and> exportable p \<and> int (SeriesCount p) \<le> limit \<and>
    currencyCount (costs p) (tagCosts p) \<le> maxCurrencies \<and>
    (\<forall>c \<in> set (costs p). cur_cost_ok target c) \<and> (\<forall>t \<in> set (tagCosts p). cur_tag_ok target t)"
proof -
  have r: "at_target reader = target" and c: "cur_seriesLimit col = limit" "cur_maxCurrencies col = maxCurrencies"
    using assms(1,2) by (auto simp: AthenaReader_New_def CUR_New_def split: if_splits)
  have qc: "\<forall>c \<in> set cs. cur_cost_ok target c" if "returned (QueryCosts fuel env api reader ref bs) t = (t', Inr cs)" for t t' ref bs cs
    using that mapCosts_ok by (auto simp: returned_def QueryCosts_def r split: option.splits prod.splits sum.splits)
  have qt: "\<forall>t \<in> set ts. cur_tag_ok target t" if "returned (QueryTagCosts fuel env api reader ref bs) t = (t', Inr ts)" for t t' ref bs ts
    using that mapTagCosts_ok by (auto simp: returned_def QueryTagCosts_def r split: option.splits prod.splits sum.splits)
  obtain w1 cs ts where costs: "returned (QueryCosts fuel env api reader reference (cur_bases col)) (fst s) = (w1, Inr cs)"
    and f: "cur_finish col cs ts = Inr p"
    and tags: "ts = [] \<or> (\<exists>w2 raw e. returned (QueryTagCosts fuel env api reader reference (cur_bases col)) w1 = (w2, Inr raw) \<and>
      limitTags col observers raw = (e, Inr ts))"
    using CUR_Collect_reads [OF assms(3)] by blast
  have cs: "\<forall>c \<in> set cs. cur_cost_ok target c" using qc [OF costs] .
  have ts: "\<forall>t \<in> set ts. cur_tag_ok target t"
  proof (cases "ts = []")
    case False
    with tags obtain w2 raw e where "returned (QueryTagCosts fuel env api reader reference (cur_bases col)) w1 = (w2, Inr raw)"
      and l: "limitTags col observers raw = (e, Inr ts)" by blast
    then show ?thesis using limitTags_ok [OF l qt] by blast
  qed simp
  from f have p: "p = NewWithData cs [] [] [] [] [] ts" "currencyCount cs ts \<le> maxCurrencies" "int (length cs) + int (length ts) \<le> limit"
    by (auto simp: cur_finish_def c split: if_splits)
  have "currencyCount (costs p) (tagCosts p) = currencyCount cs ts"
    by (simp add: currencyCount_eq p(1) NewWithData_def sort_defs)
  then show ?thesis
    using cs ts p
    by (auto simp: ValidatePartial_ok belongs_to_def identities_valid_def exportable_def cur_cost_ok_def cur_tag_ok_def NewWithData_def
        sort_defs Provider_Valid_def SeriesCount_eq)
qed

section \<open>Witnesses\<close>

text \<open>
  Athena over a world that is the clock: the query runs until a given time, waiting takes exactly
  its duration, and the result is a header and one row.
\<close>

definition sample_query_env :: "int query_env" where
  "sample_query_env = \<lparr> qe_clock = (\<lambda>w. w), qe_ctx_err = (\<lambda>_. None), qe_wait = (\<lambda>d deadline w. (w + d, True)) \<rparr>"

definition sample_results :: "QueryResults" where
  "sample_results =
     \<lparr> qo_Metadata = Some (map (\<lambda>n. \<lparr> cn_Name = Some n, cn_Type = Some (if n = ''amount'' then ''double'' else ''varchar'') \<rparr>) costColumns),
       qo_Rows = [map Some costColumns, map Some [''daily'', ''USD'', ''unblended'', ''5'']], qo_NextToken = None \<rparr>"

definition sample_athena :: "int \<Rightarrow> int AthenaAPI" where
  "sample_athena finish =
     \<lparr> StartQueryExecution = (\<lambda>_ w. (w, Inr (Some ''q''))),
       GetQueryExecution = (\<lambda>_ w. (w, Inr (Some (if w < finish then ''RUNNING'' else ''SUCCEEDED'')))),
       GetQueryResults = (\<lambda>_ w. (w, Inr (Some sample_results))), StopQueryExecution = (\<lambda>_ w. (w, Inr ())) \<rparr>"

definition sample_cur_config :: TargetCURConfig where
  "sample_cur_config =
     \<lparr> cu_Enabled = True, cu_Region = ''us-east-1'', cu_Database = ''db'', cu_Table = ''cur'', cu_Workgroup = ''wg'',
       cu_OutputLocation = ''s3://bucket/'', cu_QueryTimeout = 100, cu_PollInterval = 10, cu_TagColumns = [] \<rparr>"

definition sample_athena_reader :: AthenaReader where
  "sample_athena_reader = \<lparr> at_target = ''a'', at_config = sample_cur_config, at_maxPages = 2, at_maxRows = 5 \<rparr>"

lemma sample_athena_new: "AthenaReader_New ''a'' (Some (sample_athena n)) sample_cur_config 2 5 = Inr sample_athena_reader"
  by (simp add: AthenaReader_New_def sample_cur_config_def sample_athena_reader_def)

lemma sample_clock_laws: "clock_laws sample_query_env (sample_athena n)"
  by (simp add: clock_laws_def sample_query_env_def sample_athena_def)

theorem athena_query_returns_witness:
  "\<exists>s' r. Athena_query 12 sample_query_env (sample_athena 1000) sample_athena_reader 0 [BasisUnblended] False (0, []) = Some (s', r)"
  by (rule athena_query_returns [OF sample_athena_new sample_clock_laws]) (simp add: sample_cur_config_def)

lemma sample_query_text: "buildQuery sample_cur_config 0 [BasisUnblended] False \<noteq> ''''"
  by (simp add: buildQuery_def amount_rows_def query_windows_def basisExpression_def Let_def)

lemma sample_query_polls:
  "Athena_query n sample_query_env (sample_athena m) sample_athena_reader 0 [BasisUnblended] False (0, []) =
     poll n sample_query_env (sample_athena m) sample_athena_reader 100 costColumns ''q''
       (0, [ObserveRequest ''a'' ''StartQueryExecution'' ''success'' 0])"
  using sample_query_text
  by (simp add: Athena_query_def Let_def observed_call_def ObserveCall_def sample_athena_def sample_query_env_def ToString_def
      sample_athena_reader_def RequestStatus_def Sub_def sample_cur_config_def)



lemma sample_query_run:
  "\<exists>s'. Athena_query 4 sample_query_env (sample_athena 5) sample_athena_reader 0 [BasisUnblended] False (0, []) =
     Some (s', Inr [[''daily'', ''USD'', ''unblended'', ''5'']])"
proof -
  have "case poll 4 sample_query_env (sample_athena 5) sample_athena_reader 100 costColumns ''q''
        (0, [ObserveRequest ''a'' ''StartQueryExecution'' ''success'' 0]) of
      None \<Rightarrow> False | Some (s', r) \<Rightarrow> r = Inr [[''daily'', ''USD'', ''unblended'', ''5'']]" by code_simp
  then show ?thesis unfolding sample_query_polls by (auto split: option.splits)
qed

theorem athena_rows_exact_witness:
  "\<exists>s' rows. Athena_query 4 sample_query_env (sample_athena 5) sample_athena_reader 0 [BasisUnblended] False (0, []) = Some (s', Inr rows) \<and>
     rows \<noteq> [] \<and> int (length rows) \<le> 5"
proof -
  obtain s' where run: "Athena_query 4 sample_query_env (sample_athena 5) sample_athena_reader 0 [BasisUnblended] False (0, []) =
     Some (s', Inr [[''daily'', ''USD'', ''unblended'', ''5'']])" using sample_query_run by blast
  from athena_rows_exact [OF sample_athena_new run]
  have "int (length [[''daily'', ''USD'', ''unblended'', ''5'']]) \<le> 5" by blast
  with run show ?thesis by blast
qed

theorem cur_collection_sound_witness:
  "\<exists>s' p. CUR_Collect sample_cur (\<lambda>ref bs. returned (QueryCosts 4 sample_query_env (sample_athena 5) sample_athena_reader ref bs))
      (\<lambda>ref bs. returned (QueryTagCosts 4 sample_query_env (sample_athena 5) sample_athena_reader ref bs)) ([] :: unit option list) 0 ((0, []), []) =
      (s', Inr p) \<and> costs p \<noteq> [] \<and> ValidatePartial p ''a'' = Inr () \<and> exportable p"
proof -
  obtain s1 where "Athena_query 4 sample_query_env (sample_athena 5) sample_athena_reader 0 [BasisUnblended] False (0, []) =
     Some (s1, Inr [[''daily'', ''USD'', ''unblended'', ''5'']])" using sample_query_run by blast
  moreover define c where "c = projr (mapCosts ''a'' 0 [[''daily'', ''USD'', ''unblended'', ''5'']])"
  moreover have "mapCosts ''a'' 0 [[''daily'', ''USD'', ''unblended'', ''5'']] = Inr c \<and> length c = 1 \<and> currencyCount c [] = 1"
    unfolding c_def by code_simp
  ultimately have run: "CUR_Collect sample_cur (\<lambda>ref bs. returned (QueryCosts 4 sample_query_env (sample_athena 5) sample_athena_reader ref bs))
      (\<lambda>ref bs. returned (QueryTagCosts 4 sample_query_env (sample_athena 5) sample_athena_reader ref bs)) ([] :: unit option list) 0 ((0, []), []) =
      ((s1, []), Inr (NewWithData c [] [] [] [] [] []))" and c: "length c = 1"
    by (simp_all add: CUR_Collect_def returned_def QueryCosts_def sample_cur_def cur_finish_def sample_athena_reader_def)
  have "costs (NewWithData c [] [] [] [] [] []) \<noteq> []" using c by (cases c) (auto simp: NewWithData_def)
  moreover have "CUR_New ''a'' (Some ()) [BasisUnblended] False 3 1 1 [] ''__other__'' = Inr sample_cur"
    by (simp add: CUR_New_def sample_cur_def)
  ultimately show ?thesis using cur_collection_sound [OF sample_athena_new _ run] run by blast
qed

end
