(* ===== verification/Cost_Metrics.thy ===== *)
theory Cost_Metrics
  imports Aggregate_Snapshot
begin

text \<open>
  \<open>internal/metrics/cost.go\<close>: the collector that turns the unified snapshot into constant
  metrics. A metric is the argument list of \<open>prometheus.MustNewConstMetric\<close>; that call panics
  when the number of label values differs from the description's, which is \<open>None\<close> here. The
  client library itself is not modelled beyond this documented check.
\<close>

section \<open>Descriptions\<close>

record Desc =
  fqName :: string
  helpText :: string
  variableLabels :: "string list"

definition NewDesc :: "string \<Rightarrow> string \<Rightarrow> string list \<Rightarrow> Desc" where
  "NewDesc name h labels = \<lparr> fqName = name, helpText = h, variableLabels = labels \<rparr>"

record Metric =
  mt_desc :: Desc
  mt_value :: float64
  mt_labels :: "string list"

definition MustNewConstMetric :: "Desc \<Rightarrow> float64 \<Rightarrow> string list \<Rightarrow> Metric option" where
  "MustNewConstMetric desc v labels =
     (if length labels = length (variableLabels desc)
      then Some \<lparr> mt_desc = desc, mt_value = v, mt_labels = labels \<rparr> else None)"

definition costDesc :: "string \<Rightarrow> string \<Rightarrow> string \<Rightarrow> Desc" where
  "costDesc name h dimension =
     NewDesc (''aws_cost_'' @ name) h
       ([''target'', ''provider'', ''cost_basis'', ''currency''] @ (if dimension \<noteq> '''' then [dimension] else []))"

definition tagCostDesc :: "string \<Rightarrow> string \<Rightarrow> Desc" where
  "tagCostDesc name h =
     NewDesc (''aws_cost_tag_'' @ name) h
       [''target'', ''provider'', ''cost_basis'', ''currency'', ''tag_key'', ''tag_value'']"

definition commitmentDesc :: "string \<Rightarrow> string \<Rightarrow> bool \<Rightarrow> Desc" where
  "commitmentDesc name h cur =
     NewDesc (''aws_commitment_'' @ name) h
       ([''target'', ''commitment_type'', ''time_unit''] @ (if cur then [''currency''] else []))"

definition budgetDesc :: "string \<Rightarrow> string \<Rightarrow> Desc" where
  "budgetDesc name h =
     NewDesc (''aws_budget_'' @ name) h [''target'', ''budget_name'', ''currency'', ''budget_type'', ''time_unit'']"

definition boolValue :: "bool \<Rightarrow> float64" where
  "boolValue v = (if v then F_Fin 1 else F_Fin 0)"

section \<open>The collector\<close>

record CostCollector =
  cc_costs :: "(string \<times> string \<times> Desc) list"
  cc_indexed :: "(string \<times> string, Desc) gomap"
  cc_forecasts :: "Desc list"
  cc_accountInfo :: Desc
  cc_budgets :: "Desc list"
  cc_tagCosts :: "Desc list"
  cc_commitments :: "Desc list"
  cc_anomalies :: "Desc list"

definition ErrNilSnapshotReader :: go_error where
  "ErrNilSnapshotReader = Sentinel ''metrics snapshot reader must not be nil''"

definition cost_definitions :: "(string \<times> string \<times> Desc) list" where
  "cost_definitions =
     [(WindowDaily, DimensionTotal, costDesc ''daily_amount'' ''Current UTC billing day accumulated cost.'' ''''),
      (WindowMonthToDate, DimensionTotal,
         costDesc ''month_to_date_amount'' ''Current UTC month-to-date accumulated cost.'' ''''),
      (WindowDaily, DimensionService,
         costDesc ''service_daily_amount'' ''Current UTC billing day cost by AWS service.'' ''aws_service''),
      (WindowMonthToDate, DimensionService,
         costDesc ''service_month_to_date_amount'' ''Current UTC month-to-date cost by AWS service.'' ''aws_service''),
      (WindowDaily, DimensionRegion,
         costDesc ''region_daily_amount'' ''Current UTC billing day cost by AWS region.'' ''aws_region''),
      (WindowMonthToDate, DimensionRegion,
         costDesc ''region_month_to_date_amount'' ''Current UTC month-to-date cost by AWS region.'' ''aws_region''),
      (WindowDaily, DimensionAccount,
         costDesc ''account_daily_amount'' ''Current UTC billing day cost by linked account.'' ''linked_account_id''),
      (WindowMonthToDate, DimensionAccount,
         costDesc ''account_month_to_date_amount'' ''Current UTC month-to-date cost by linked account.''
           ''linked_account_id'')]"

definition cost_collector :: CostCollector where
  "cost_collector =
     \<lparr> cc_costs = cost_definitions,
       cc_indexed = foldl (\<lambda>m (window, kd, desc). AList.update (window, kd) desc m) [] cost_definitions,
       cc_forecasts =
         [costDesc ''month_forecast_mean_amount''
            ''Forecast mean for the remaining current UTC month, including today.'' '''',
          costDesc ''month_forecast_lower_bound_amount''
            ''Forecast lower bound for the remaining current UTC month, including today.'' '''',
          costDesc ''month_forecast_upper_bound_amount''
            ''Forecast upper bound for the remaining current UTC month, including today.'' ''''],
       cc_accountInfo =
         NewDesc ''aws_cost_account_info''
           ''Non-sensitive AWS Organizations metadata for an exported linked account.''
           [''target'', ''linked_account_id'', ''account_name'', ''account_status''],
       cc_budgets =
         [budgetDesc ''limit_amount'' ''Configured AWS Budget limit.'',
          budgetDesc ''actual_amount'' ''AWS Budget calculated actual spend.'',
          budgetDesc ''forecasted_amount'' ''AWS Budget calculated forecasted spend.''],
       cc_tagCosts =
         [tagCostDesc ''daily_amount'' ''Current UTC billing day cost by allowlisted tag.'',
          tagCostDesc ''month_to_date_amount'' ''Current UTC month-to-date cost by allowlisted tag.''],
       cc_commitments =
         [commitmentDesc ''utilization_ratio'' ''Commitment utilization as a ratio from 0 to 1.'' False,
          commitmentDesc ''coverage_ratio'' ''Commitment coverage as a ratio from 0 to 1.'' False,
          commitmentDesc ''unused_hours'' ''Unused commitment hours.'' False,
          commitmentDesc ''covered_spend_amount'' ''Spend covered by the commitment.'' True,
          commitmentDesc ''on_demand_cost_amount'' ''Equivalent on-demand cost.'' True,
          commitmentDesc ''net_savings_amount'' ''Net savings from the commitment.'' True],
       cc_anomalies =
         [NewDesc ''aws_cost_anomaly_active'' ''Whether a cost anomaly is currently active.'' [''target''],
          NewDesc ''aws_cost_anomaly_count'' ''Cost anomalies in the configured lookback window.'' [''target''],
          NewDesc ''aws_cost_anomaly_impact_amount'' ''Cumulative impact of cost anomalies.'' [''target'', ''currency''],
          NewDesc ''aws_cost_anomaly_last_detected_timestamp_seconds'' ''Latest anomaly detection end timestamp.''
            [''target'']] \<rparr>"

definition NewCostCollector :: "'reader option \<Rightarrow> go_error + CostCollector" where
  "NewCostCollector store = (case store of None \<Rightarrow> Inl ErrNilSnapshotReader | Some _ \<Rightarrow> Inr cost_collector)"

definition Describe :: "CostCollector \<Rightarrow> Desc list" where
  "Describe cc =
     map (\<lambda>(_, _, desc). desc) (cc_costs cc) @ cc_forecasts cc @ [cc_accountInfo cc] @ cc_budgets cc
     @ cc_tagCosts cc @ cc_commitments cc @ cc_anomalies cc"

section \<open>Collection\<close>

text \<open>What each visitor sends to the output channel, in order.\<close>

definition collectCost :: "CostCollector \<Rightarrow> Cost \<Rightarrow> Metric option list" where
  "collectCost cc c =
     (case map_of (cc_indexed cc) (c_Window c, kind (c_Dimension c)) of
        None \<Rightarrow> []
      | Some desc \<Rightarrow>
          let labels = [c_Target c, c_Provider c, c_Basis c, currency (c_Amount c)]
                       @ (if kind (c_Dimension c) \<noteq> DimensionTotal then [dvalue (c_Dimension c)] else [])
          in [MustNewConstMetric desc (amount (c_Amount c)) labels])"

definition collectForecast :: "CostCollector \<Rightarrow> Forecast \<Rightarrow> Metric option list" where
  "collectForecast cc f =
     map (\<lambda>(desc, money). MustNewConstMetric desc (amount money)
            [f_Target f, f_Provider f, f_Basis f, currency money])
       (zip (cc_forecasts cc) [f_Mean f, f_LowerBound f, f_UpperBound f])"

definition collectAccount :: "CostCollector \<Rightarrow> Account \<Rightarrow> Metric option list" where
  "collectAccount cc a =
     [MustNewConstMetric (cc_accountInfo cc) (F_Fin 1) [a_Target a, a_AccountID a, a_Name a, a_Status a]]"

definition collectBudget :: "CostCollector \<Rightarrow> Budget \<Rightarrow> Metric option list" where
  "collectBudget cc b =
     (let labels = [b_Target b, b_Name b, currency (b_Limit b), b_Type b, b_TimeUnit b]
      in MustNewConstMetric (cc_budgets cc ! 0) (amount (b_Limit b)) labels
         # (if b_HasActual b
            then [MustNewConstMetric (cc_budgets cc ! 1) (amount (b_Actual b)) (labels[2 := currency (b_Actual b)])]
            else [])
         @ (if b_HasForecasted b
            then [MustNewConstMetric (cc_budgets cc ! 2) (amount (b_Forecasted b))
                    (labels[2 := currency (b_Forecasted b)])]
            else []))"

definition collectTagCost :: "CostCollector \<Rightarrow> TagCost \<Rightarrow> Metric option list" where
  "collectTagCost cc t =
     (let index = (if t_Window t = WindowMonthToDate then 1 else 0)
      in [MustNewConstMetric (cc_tagCosts cc ! index) (amount (t_Amount t))
            [t_Target t, t_Provider t, t_Basis t, currency (t_Amount t), t_TagKey t, t_TagValue t]])"

definition collectCommitment :: "CostCollector \<Rightarrow> Commitment \<Rightarrow> Metric option list" where
  "collectCommitment cc m =
     (let base = [m_Target m, m_Type m, m_TimeUnit m]
      in (if m_HasUtilization m then [MustNewConstMetric (cc_commitments cc ! 0) (m_UtilizationRatio m) base] else [])
         @ (if m_HasCoverage m then [MustNewConstMetric (cc_commitments cc ! 1) (m_CoverageRatio m) base] else [])
         @ (if m_HasUnusedHours m then [MustNewConstMetric (cc_commitments cc ! 2) (m_UnusedHours m) base] else [])
         @ (if m_HasCoveredSpend m
            then [MustNewConstMetric (cc_commitments cc ! 3) (amount (m_CoveredSpend m))
                    (base @ [currency (m_CoveredSpend m)])] else [])
         @ (if m_HasOnDemandCost m
            then [MustNewConstMetric (cc_commitments cc ! 4) (amount (m_OnDemandCost m))
                    (base @ [currency (m_OnDemandCost m)])] else [])
         @ (if m_HasNetSavings m
            then [MustNewConstMetric (cc_commitments cc ! 5) (amount (m_NetSavings m))
                    (base @ [currency (m_NetSavings m)])] else []))"

definition collectAnomaly :: "CostCollector \<Rightarrow> Anomaly \<Rightarrow> Metric option list" where
  "collectAnomaly cc a =
     [MustNewConstMetric (cc_anomalies cc ! 0) (boolValue (n_Active a)) [n_Target a],
      MustNewConstMetric (cc_anomalies cc ! 1) (f64_of_int (n_Count a)) [n_Target a]]
     @ (if n_HasImpact a
        then [MustNewConstMetric (cc_anomalies cc ! 2) (amount (n_Impact a)) [n_Target a, currency (n_Impact a)]]
        else [])
     @ (if \<not> IsZero (n_LastDetected a)
        then [MustNewConstMetric (cc_anomalies cc ! 3) (f64_of_int (Unix (n_LastDetected a))) [n_Target a]]
        else [])"

definition collect_calls :: "CostCollector \<Rightarrow> Snapshot \<Rightarrow> Metric option list" where
  "collect_calls cc s =
     concat (map (collectCost cc) (costs s)) @ concat (map (collectForecast cc) (forecasts s))
     @ concat (map (collectAccount cc) (accounts s)) @ concat (map (collectBudget cc) (budgets s))
     @ concat (map (collectTagCost cc) (tagCosts s)) @ concat (map (collectCommitment cc) (commitments s))
     @ concat (map (collectAnomaly cc) (anomalies s))"

text \<open>A panic in any call aborts the collection.\<close>

definition Collect :: "CostCollector \<Rightarrow> Snapshot \<Rightarrow> Metric list option" where
  "Collect cc s = those (collect_calls cc s)"

section \<open>No panic, and one metric per counted series\<close>

lemma those_all_some: "(\<forall>x \<in> set xs. x \<noteq> None) \<Longrightarrow> those xs = Some (map the xs)"
  by (induction xs) auto

lemma indexed_definitions:
  "cc_indexed cost_collector = map (\<lambda>(w, k, d). ((w, k), d)) cost_definitions"
  by (simp add: cost_collector_def cost_definitions_def dimension_kinds WindowDaily_def WindowMonthToDate_def)

lemma cc_costs_definitions: "cc_costs cost_collector = cost_definitions"
  by (simp add: cost_collector_def)

lemmas desc_defs = costDesc_def tagCostDesc_def commitmentDesc_def budgetDesc_def NewDesc_def

lemma collector_simps [simp]:
  "cc_forecasts cost_collector =
     [costDesc ''month_forecast_mean_amount''
        ''Forecast mean for the remaining current UTC month, including today.'' '''',
      costDesc ''month_forecast_lower_bound_amount''
        ''Forecast lower bound for the remaining current UTC month, including today.'' '''',
      costDesc ''month_forecast_upper_bound_amount''
        ''Forecast upper bound for the remaining current UTC month, including today.'' '''']"
  "length (variableLabels (cc_accountInfo cost_collector)) = 4"
  "map (\<lambda>d. length (variableLabels d)) (cc_budgets cost_collector) = [5, 5, 5]"
  "map (\<lambda>d. length (variableLabels d)) (cc_tagCosts cost_collector) = [6, 6]"
  "map (\<lambda>d. length (variableLabels d)) (cc_commitments cost_collector) = [3, 3, 3, 4, 4, 4]"
  "map (\<lambda>d. length (variableLabels d)) (cc_anomalies cost_collector) = [1, 1, 2, 1]"
  by (simp_all add: cost_collector_def desc_defs)

lemma nth_label_count:
  "map (\<lambda>d. length (variableLabels d)) ds = ns \<Longrightarrow> i < length ns \<Longrightarrow> length (variableLabels (ds ! i)) = ns ! i"
  by auto

lemmas label_counts [simp] =
  nth_label_count [OF collector_simps(3)] nth_label_count [OF collector_simps(4)]
  nth_label_count [OF collector_simps(5)] nth_label_count [OF collector_simps(6)]

lemma MustNewConstMetric_Some [simp]:
  "MustNewConstMetric d v ls \<noteq> None \<longleftrightarrow> length ls = length (variableLabels d)"
  by (simp add: MustNewConstMetric_def)

lemma indexed_labels:
  assumes "map_of (cc_indexed cost_collector) (w, k) = Some d"
  shows "length (variableLabels d) = (if k = DimensionTotal then 4 else 5)"
  using map_of_SomeD [OF assms]
  by (auto simp: indexed_definitions cost_definitions_def desc_defs dimension_kinds)

lemma calls_succeed: "\<forall>x \<in> set (collect_calls cost_collector s). x \<noteq> None"
proof -
  have "x \<noteq> None" if "x \<in> set (collectCost cost_collector c)" for c x
  proof (cases "map_of (cc_indexed cost_collector) (c_Window c, kind (c_Dimension c))")
    case (Some d)
    with that indexed_labels [OF Some] show ?thesis
      by (simp add: collectCost_def MustNewConstMetric_def split: if_splits)
  qed (use that in \<open>simp add: collectCost_def\<close>)
  moreover have "x \<noteq> None" if "x \<in> set (collectForecast cost_collector f)" for f x
    using that by (auto simp: collectForecast_def desc_defs MustNewConstMetric_def)
  moreover have "x \<noteq> None" if "x \<in> set (collectAccount cost_collector a)" for a x
    using that by (auto simp: collectAccount_def MustNewConstMetric_def)
  moreover have "x \<noteq> None" if "x \<in> set (collectBudget cost_collector b)" for b x
    using that by (auto simp: collectBudget_def Let_def MustNewConstMetric_def split: if_splits)
  moreover have "x \<noteq> None" if "x \<in> set (collectTagCost cost_collector t)" for t x
    using that by (auto simp: collectTagCost_def Let_def MustNewConstMetric_def)
  moreover have "x \<noteq> None" if "x \<in> set (collectCommitment cost_collector m)" for m x
    using that by (auto simp: collectCommitment_def Let_def MustNewConstMetric_def split: if_splits)
  moreover have "x \<noteq> None" if "x \<in> set (collectAnomaly cost_collector n)" for n x
    using that by (auto simp: collectAnomaly_def MustNewConstMetric_def split: if_splits)
  ultimately show ?thesis unfolding collect_calls_def by auto
qed

lemma Collect_Some: "Collect cost_collector s = Some (map the (collect_calls cost_collector s))"
  unfolding Collect_def by (rule those_all_some [OF calls_succeed])

text \<open>The identity of a series: its metric name and label values.\<close>

definition series_id :: "Metric option \<Rightarrow> string \<times> string list" where
  "series_id m = (fqName (mt_desc (the m)), mt_labels (the m))"

definition cost_name :: "string \<Rightarrow> string \<Rightarrow> string" where
  "cost_name w k =
     ''aws_cost_'' @ (if k = DimensionTotal then '''' else k @ ''_'')
     @ (if w = WindowDaily then ''daily_amount'' else ''month_to_date_amount'')"

lemma indexed_exportable:
  assumes "w \<in> {WindowDaily, WindowMonthToDate}"
    and "k \<in> {DimensionTotal, DimensionService, DimensionRegion, DimensionAccount}"
  shows "\<exists>d. map_of (cc_indexed cost_collector) (w, k) = Some d \<and> fqName d = cost_name w k"
  using assms
  by (auto simp: indexed_definitions cost_definitions_def cost_name_def dimension_kinds WindowDaily_def
      WindowMonthToDate_def desc_defs)

lemma dimension_wf_kind:
  "dimension_wf d \<Longrightarrow> kind d \<in> {DimensionTotal, DimensionService, DimensionRegion, DimensionAccount}"
  by (auto simp: dimension_wf_def)

lemma collectCost_series:
  assumes "c_Window c \<in> {WindowDaily, WindowMonthToDate}" and "dimension_wf (c_Dimension c)"
  shows "map series_id (collectCost cost_collector c) =
    [(cost_name (c_Window c) (kind (c_Dimension c)),
      [c_Target c, c_Provider c, c_Basis c, currency (c_Amount c)]
      @ (if kind (c_Dimension c) \<noteq> DimensionTotal then [dvalue (c_Dimension c)] else []))]"
proof -
  obtain d where d: "map_of (cc_indexed cost_collector) (c_Window c, kind (c_Dimension c)) = Some d"
    "fqName d = cost_name (c_Window c) (kind (c_Dimension c))"
    using indexed_exportable [OF assms(1) dimension_wf_kind [OF assms(2)]] by blast
  then show ?thesis
    using indexed_labels [OF d(1)]
    by (simp add: collectCost_def series_id_def MustNewConstMetric_def)
qed

lemma length_calls:
  assumes "exportable s"
  shows "length (collect_calls cost_collector s) = SeriesCount s"
proof -
  have c: "length (collectCost cost_collector c) = 1" if "c \<in> set (costs s)" for c
  proof -
    have "length (map series_id (collectCost cost_collector c)) = 1"
      using assms that by (subst collectCost_series) (auto simp: exportable_def)
    then show ?thesis by simp
  qed
  have sums: "length (concat (map f xs)) = sum_list (map g xs)"
    if "\<And>x. x \<in> set xs \<Longrightarrow> length (f x) = g x" for f :: "'x \<Rightarrow> Metric option list" and g xs
    using that by (induction xs) simp_all
  have "length (concat (map (collectCost cost_collector) (costs s))) = length (costs s)"
    using sums [of "costs s" _ "\<lambda>_. 1"] c by (simp add: sum_list_triv)
  moreover have "length (concat (map (collectForecast cost_collector) (forecasts s))) = 3 * length (forecasts s)"
    using sums [of "forecasts s" "collectForecast cost_collector" "\<lambda>_. 3"]
    by (simp add: collectForecast_def sum_list_triv)
  moreover have "length (concat (map (collectAccount cost_collector) (accounts s))) = length (accounts s)"
    using sums [of "accounts s" "collectAccount cost_collector" "\<lambda>_. 1"] by (simp add: collectAccount_def sum_list_triv)
  moreover have "length (concat (map (collectTagCost cost_collector) (tagCosts s))) = length (tagCosts s)"
    using sums [of "tagCosts s" "collectTagCost cost_collector" "\<lambda>_. 1"] by (simp add: collectTagCost_def sum_list_triv)
  moreover have "length (concat (map (collectBudget cost_collector) (budgets s))) = sum_list (map (count_budget 0) (budgets s))"
    by (rule sums) (simp add: collectBudget_def count_budget_def Let_def)
  moreover have "length (concat (map (collectCommitment cost_collector) (commitments s))) =
      sum_list (map (count_commitment 0) (commitments s))"
    by (rule sums) (simp add: collectCommitment_def count_commitment_def Let_def)
  moreover have "length (concat (map (collectAnomaly cost_collector) (anomalies s))) =
      sum_list (map (count_anomaly 0) (anomalies s))"
    by (rule sums) (simp add: collectAnomaly_def count_anomaly_def)
  ultimately show ?thesis by (simp add: collect_calls_def SeriesCount_eq)
qed

section \<open>Distinct series\<close>

text \<open>Back from the identity of a series to the uniqueness key it was checked under.\<close>

definition cost_back :: "string \<times> string list \<Rightarrow> string" where
  "cost_back = (\<lambda>(n, ls).
     let w = (if \<exists>k \<in> {DimensionTotal, DimensionService, DimensionRegion, DimensionAccount}. n = cost_name WindowDaily k
              then WindowDaily else WindowMonthToDate);
         k = (if length ls = 4 then DimensionTotal
              else if n = cost_name w DimensionService then DimensionService
              else if n = cost_name w DimensionRegion then DimensionRegion else DimensionAccount)
     in Join [''cost'', ls ! 0, ls ! 1, ls ! 2, w, k, if length ls = 4 then '''' else ls ! 4, ls ! 3] ''|'')"

lemma cost_back:
  assumes "c_Window c \<in> {WindowDaily, WindowMonthToDate}" and "dimension_wf (c_Dimension c)"
  shows "map cost_back (map series_id (collectCost cost_collector c)) = [cost_unique_key c]"
proof -
  let ?k = "kind (c_Dimension c)" and ?w = "c_Window c"
  have value_ok: "?k = DimensionTotal \<Longrightarrow> dvalue (c_Dimension c) = ''''"
    using assms(2) by (auto simp: dimension_wf_def dimension_kinds)
  have kinds: "?k = DimensionTotal \<or> ?k = DimensionService \<or> ?k = DimensionRegion \<or> ?k = DimensionAccount"
    using dimension_wf_kind [OF assms(2)] by blast
  have w: "(if \<exists>k \<in> {DimensionTotal, DimensionService, DimensionRegion, DimensionAccount}.
      cost_name ?w ?k = cost_name WindowDaily k then WindowDaily else WindowMonthToDate) = ?w"
    using assms(1) kinds
    by (elim insertE disjE; simp add: cost_name_def dimension_kinds WindowDaily_def WindowMonthToDate_def)
  have k: "cost_name ?w ?k = cost_name ?w DimensionService \<longleftrightarrow> ?k = DimensionService"
    "cost_name ?w ?k = cost_name ?w DimensionRegion \<longleftrightarrow> ?k = DimensionRegion"
    using kinds by (auto simp: cost_name_def dimension_kinds)
  show ?thesis
    unfolding collectCost_series [OF assms]
    using value_ok kinds
    by (simp only: cost_back_def list.map prod.case Let_def w k cost_unique_key_def)
       (elim disjE; simp add: dimension_kinds del: Join.simps)
qed

definition forecast_back :: "string \<times> string list \<Rightarrow> string \<times> string" where
  "forecast_back = (\<lambda>(n, ls). (n, Join [''forecast'', ls ! 0, ls ! 1, ls ! 2, ls ! 3] ''|''))"

definition account_back :: "string \<times> string list \<Rightarrow> string" where
  "account_back = (\<lambda>(n, ls). Join [''account'', ls ! 0, ls ! 1, ls ! 2, ls ! 3] ''|'')"

definition budget_back :: "string \<times> string list \<Rightarrow> string" where
  "budget_back = (\<lambda>(n, ls).
     Join [''budget'', ls ! 0, ls ! 1, ls ! 3, ls ! 4, ''''] ''|''
     @ (if n = ''aws_budget_limit_amount'' then ''limit|''
        else if n = ''aws_budget_actual_amount'' then ''actual|'' else ''forecasted|'') @ ls ! 2)"

definition tag_back :: "string \<times> string list \<Rightarrow> string" where
  "tag_back = (\<lambda>(n, ls).
     Join [''tag'', ls ! 0, ls ! 1, ls ! 2,
           if n = ''aws_cost_tag_daily_amount'' then WindowDaily else WindowMonthToDate,
           ls ! 4, ls ! 5, ls ! 3] ''|'')"

definition commitment_back :: "string \<times> string list \<Rightarrow> string" where
  "commitment_back = (\<lambda>(n, ls).
     Join [''commitment'', ls ! 0, ls ! 1, ls ! 2, ''''] ''|''
     @ (if n = ''aws_commitment_utilization_ratio'' then ''utilization''
        else if n = ''aws_commitment_coverage_ratio'' then ''coverage''
        else if n = ''aws_commitment_unused_hours'' then ''unused_hours''
        else if n = ''aws_commitment_covered_spend_amount'' then ''covered_spend|'' @ ls ! 3
        else if n = ''aws_commitment_on_demand_cost_amount'' then ''on_demand_cost|'' @ ls ! 3
        else ''net_savings|'' @ ls ! 3))"

definition anomaly_back :: "string \<times> string list \<Rightarrow> string" where
  "anomaly_back = (\<lambda>(n, ls).
     Join [''anomaly'', ls ! 0, ''''] ''|''
     @ (if n = ''aws_cost_anomaly_active'' then ''active''
        else if n = ''aws_cost_anomaly_count'' then ''count''
        else if n = ''aws_cost_anomaly_impact_amount'' then ''impact|'' @ ls ! 1 else ''last_detected''))"

lemma forecast_back:
  assumes "currency (f_LowerBound f) = currency (f_Mean f)" and "currency (f_UpperBound f) = currency (f_Mean f)"
  shows "map forecast_back (map series_id (collectForecast cost_collector f)) =
    map (\<lambda>n. (n, forecast_unique_key f))
      [''aws_cost_month_forecast_mean_amount'', ''aws_cost_month_forecast_lower_bound_amount'',
       ''aws_cost_month_forecast_upper_bound_amount'']"
  using assms
  by (simp add: collectForecast_def series_id_def MustNewConstMetric_def desc_defs forecast_back_def
      forecast_unique_key_def del: Join.simps)

lemma account_back:
  "map account_back (map series_id (collectAccount cost_collector a)) = [account_unique_key a]"
  by (simp add: collectAccount_def series_id_def MustNewConstMetric_def account_back_def account_unique_key_def
      del: Join.simps)

lemma budget_back:
  "map budget_back (map series_id (collectBudget cost_collector b)) = budget_unique_keys b"
  by (simp add: collectBudget_def Let_def series_id_def MustNewConstMetric_def budget_back_def budget_unique_keys_def
      cost_collector_def desc_defs del: Join.simps)

lemma tag_back:
  assumes "t_Window t \<in> {WindowDaily, WindowMonthToDate}"
  shows "map tag_back (map series_id (collectTagCost cost_collector t)) = [tag_unique_key t]"
  using assms
  by (auto simp: collectTagCost_def Let_def series_id_def MustNewConstMetric_def tag_back_def tag_unique_key_def
      cost_collector_def desc_defs WindowDaily_def WindowMonthToDate_def simp del: Join.simps)

lemma commitment_back:
  "map commitment_back (map series_id (collectCommitment cost_collector m)) = commitment_unique_keys m"
  by (simp add: collectCommitment_def Let_def series_id_def MustNewConstMetric_def commitment_back_def
      commitment_unique_keys_def cost_collector_def desc_defs del: Join.simps)

lemma anomaly_back_ids:
  "map anomaly_back (map series_id (collectAnomaly cost_collector a)) =
     (let prefix = Join [''anomaly'', n_Target a, ''''] ''|''
      in [prefix @ ''active'', prefix @ ''count''] @ (if n_HasImpact a then [prefix @ ''impact|'' @ currency (n_Impact a)] else []) @
         (if \<not> IsZero (n_LastDetected a) then [prefix @ ''last_detected''] else []))"
  by (simp add: collectAnomaly_def series_id_def MustNewConstMetric_def anomaly_back_def cost_collector_def desc_defs Let_def
      del: Join.simps)

lemma anomaly_back:
  "set (map anomaly_back (map series_id (collectAnomaly cost_collector a))) \<subseteq> set (anomaly_unique_keys a)"
  "distinct (anomaly_unique_keys a) \<Longrightarrow>
   distinct (map anomaly_back (map series_id (collectAnomaly cost_collector a)))"
  unfolding anomaly_back_ids anomaly_unique_keys_def Let_def by (auto simp del: Join.simps append_Cons)

lemma distinct_back: "distinct (map g xs) \<Longrightarrow> distinct xs"
  by (simp add: distinct_map)

lemma map_concat_map: "map g (map h (concat (map f xs))) = concat (map (\<lambda>x. map g (map h (f x))) xs)"
  by (induction xs) simp_all

lemma distinct_concat_sub:
  assumes "distinct (concat (map ks xs))"
    and "\<And>x. set (js x) \<subseteq> set (ks x)" and "\<And>x. distinct (ks x) \<Longrightarrow> distinct (js x)"
  shows "distinct (concat (map js xs))"
  using assms(1)
proof (induction xs)
  case (Cons x xs)
  have "set (concat (map js xs)) \<subseteq> set (concat (map ks xs))" using assms(2) by fastforce
  with Cons assms(2,3) [of x] show ?case by auto
qed simp

lemma distinct_names_times:
  assumes "distinct names" and "distinct (map k xs)"
  shows "distinct (concat (map (\<lambda>x. map (\<lambda>n. (n, k x)) names) xs))"
  using assms(2)
proof (induction xs)
  case (Cons x xs)
  have "distinct (map (\<lambda>n. (n, k x)) names)" using assms(1) by (simp add: distinct_map inj_on_def)
  moreover have "set (map (\<lambda>n. (n, k x)) names) \<inter> set (concat (map (\<lambda>x. map (\<lambda>n. (n, k x)) names) xs)) = {}"
    using Cons.prems by force
  ultimately show ?case using Cons by (simp del: set_map)
qed simp

lemma distinct_families:
  assumes "list_all2 (\<lambda>xs ns. distinct xs \<and> fst ` set xs \<subseteq> set ns) xss nss" and "distinct (concat nss)"
  shows "distinct (concat xss)"
  using assms
proof (induction rule: list_all2_induct)
  case (Cons xs xss ns nss)
  have "fst ` set (concat xss) \<subseteq> set (concat nss)"
    using Cons.hyps(2) by (induction rule: list_all2_induct) auto
  moreover have "set ns \<inter> set (concat nss) = {}" using Cons.prems by simp
  ultimately have "set xs \<inter> set (concat xss) = {}" using Cons.hyps(1) by blast
  then show ?case using Cons by simp
qed simp

definition family_names :: "string list list" where
  "family_names =
     [map (\<lambda>(_, _, d). fqName d) cost_definitions, map fqName (cc_forecasts cost_collector),
      [fqName (cc_accountInfo cost_collector)], map fqName (cc_budgets cost_collector),
      map fqName (cc_tagCosts cost_collector), map fqName (cc_commitments cost_collector),
      map fqName (cc_anomalies cost_collector)]"

lemma family_names_distinct: "distinct (concat family_names)"
  by code_simp

definition family_series :: "Snapshot \<Rightarrow> (string \<times> string list) list list" where
  "family_series s =
     [map series_id (concat (map (collectCost cost_collector) (costs s))),
      map series_id (concat (map (collectForecast cost_collector) (forecasts s))),
      map series_id (concat (map (collectAccount cost_collector) (accounts s))),
      map series_id (concat (map (collectBudget cost_collector) (budgets s))),
      map series_id (concat (map (collectTagCost cost_collector) (tagCosts s))),
      map series_id (concat (map (collectCommitment cost_collector) (commitments s))),
      map series_id (concat (map (collectAnomaly cost_collector) (anomalies s)))]"

lemma collect_calls_series: "map series_id (collect_calls cost_collector s) = concat (family_series s)"
  by (simp add: collect_calls_def family_series_def)

lemma nth_name: "i < length ds \<Longrightarrow> fqName (ds ! i) \<in> set (map fqName ds)"
  by simp

lemma collector_lengths [simp]:
  "length (cc_budgets cost_collector) = 3" "length (cc_tagCosts cost_collector) = 2"
  "length (cc_commitments cost_collector) = 6" "length (cc_anomalies cost_collector) = 4"
  "cc_budgets cost_collector \<noteq> []" "cc_tagCosts cost_collector \<noteq> []"
  "cc_commitments cost_collector \<noteq> []" "cc_anomalies cost_collector \<noteq> []"
  by (simp_all add: cost_collector_def)

lemma family_series_names:
  "list_all2 (\<lambda>xs ns. fst ` set xs \<subseteq> set ns) (family_series s) family_names"
proof -
  have "fst (series_id x) \<in> set (family_names ! 0)" if "x \<in> set (collectCost cost_collector c)" for x c
  proof (cases "map_of (cc_indexed cost_collector) (c_Window c, kind (c_Dimension c))")
    case (Some d)
    have "fqName d \<in> set (family_names ! 0)"
      using map_of_SomeD [OF Some] by (force simp: indexed_definitions family_names_def)
    with that Some indexed_labels [OF Some] show ?thesis
      by (auto simp: collectCost_def series_id_def MustNewConstMetric_def split: if_splits)
  qed (use that in \<open>simp add: collectCost_def\<close>)
  moreover have "fst (series_id x) \<in> set (family_names ! 1)" if "x \<in> set (collectForecast cost_collector f)" for x f
    using that by (auto simp: collectForecast_def series_id_def MustNewConstMetric_def family_names_def desc_defs)
  moreover have "fst (series_id x) \<in> set (family_names ! 2)" if "x \<in> set (collectAccount cost_collector a)" for x a
    using that by (auto simp: collectAccount_def series_id_def MustNewConstMetric_def family_names_def)
  moreover have "fst (series_id x) \<in> set (family_names ! 3)" if "x \<in> set (collectBudget cost_collector b)" for x b
    using that by (auto simp: collectBudget_def series_id_def MustNewConstMetric_def family_names_def Let_def split: if_splits)
  moreover have "fst (series_id x) \<in> set (family_names ! 4)" if "x \<in> set (collectTagCost cost_collector t)" for x t
    using that by (auto simp: collectTagCost_def series_id_def MustNewConstMetric_def family_names_def Let_def)
  moreover have "fst (series_id x) \<in> set (family_names ! 5)" if "x \<in> set (collectCommitment cost_collector m)" for x m
    using that by (auto simp: collectCommitment_def series_id_def MustNewConstMetric_def family_names_def Let_def split: if_splits)
  moreover have "fst (series_id x) \<in> set (family_names ! 6)" if "x \<in> set (collectAnomaly cost_collector n)" for x n
    using that by (auto simp: collectAnomaly_def series_id_def MustNewConstMetric_def family_names_def split: if_splits)
  moreover have "family_names = [family_names ! 0, family_names ! 1, family_names ! 2, family_names ! 3,
      family_names ! 4, family_names ! 5, family_names ! 6]" by (simp add: family_names_def)
  ultimately show ?thesis
    unfolding family_series_def
    by (elim ssubst) (auto simp: image_subset_iff)
qed

text \<open>A family whose samples name distinct keys has distinct series.\<close>

lemma distinct_by_keys: "map back xs = keys \<Longrightarrow> distinct keys \<Longrightarrow> distinct xs"
  by (metis distinct_back)

lemma forecast_series_distinct:
  assumes "exportable s" and "distinct (map forecast_unique_key (forecasts s))"
  shows "distinct (family_series s ! 1)"
proof (rule distinct_by_keys)
  let ?names = "[''aws_cost_month_forecast_mean_amount'', ''aws_cost_month_forecast_lower_bound_amount'',
     ''aws_cost_month_forecast_upper_bound_amount'']"
  show "map forecast_back (family_series s ! 1) = concat (map (\<lambda>f. map (\<lambda>n. (n, forecast_unique_key f)) ?names) (forecasts s))"
    using assms(1) unfolding family_series_def exportable_def
    by (simp add: map_concat_map forecast_back cong: map_cong del: map_map list.map(2))
  show "distinct (concat (map (\<lambda>f. map (\<lambda>n. (n, forecast_unique_key f)) ?names) (forecasts s)))"
    by (rule distinct_names_times) (use assms(2) in simp_all)
qed

lemma anomaly_series_distinct:
  assumes "distinct (concat (map anomaly_unique_keys (anomalies s)))"
  shows "distinct (family_series s ! 6)"
proof -
  have "distinct (concat (map (\<lambda>a. map anomaly_back (map series_id (collectAnomaly cost_collector a))) (anomalies s)))"
    by (rule distinct_concat_sub [where ks = anomaly_unique_keys]) (use assms anomaly_back in simp_all)
  then have "distinct (map anomaly_back (family_series s ! 6))"
    unfolding family_series_def by (simp add: map_concat_map del: map_map)
  then show ?thesis by (rule distinct_back)
qed

lemma family_series_distinct:
  assumes "exportable s" and "distinct (unique_keys s)"
  shows "list_all distinct (family_series s)"
proof -
  note k = assms(2) [unfolded unique_keys_def distinct_append]
  have "map cost_back (family_series s ! 0) = map cost_unique_key (costs s)"
    using assms(1) unfolding family_series_def exportable_def
    by (simp add: map_concat_map cost_back cong: map_cong del: map_map)
  then have 0: "distinct (family_series s ! 0)" by (rule distinct_by_keys) (use k in blast)
  have "map account_back (family_series s ! 2) = map account_unique_key (accounts s)"
    unfolding family_series_def by (simp add: map_concat_map account_back del: map_map)
  then have 2: "distinct (family_series s ! 2)" by (rule distinct_by_keys) (use k in blast)
  have "map budget_back (family_series s ! 3) = concat (map budget_unique_keys (budgets s))"
    unfolding family_series_def by (simp add: map_concat_map budget_back del: map_map)
  then have 3: "distinct (family_series s ! 3)" by (rule distinct_by_keys) (use k in blast)
  have "map tag_back (family_series s ! 4) = map tag_unique_key (tagCosts s)"
    using assms(1) unfolding family_series_def exportable_def
    by (simp add: map_concat_map tag_back cong: map_cong del: map_map)
  then have 4: "distinct (family_series s ! 4)" by (rule distinct_by_keys) (use k in blast)
  have "map commitment_back (family_series s ! 5) = concat (map commitment_unique_keys (commitments s))"
    unfolding family_series_def by (simp add: map_concat_map commitment_back del: map_map)
  then have 5: "distinct (family_series s ! 5)" by (rule distinct_by_keys) (use k in blast)
  have 1: "distinct (family_series s ! 1)" by (rule forecast_series_distinct [OF assms(1)]) (use k in blast)
  have "distinct (family_series s ! 6)" by (rule anomaly_series_distinct) (use k in blast)
  with 0 1 2 3 4 5 show ?thesis by (simp add: family_series_def)
qed

lemma Collect_series:
  "Collect cost_collector s = Some ms \<Longrightarrow>
   map (\<lambda>m. (fqName (mt_desc m), mt_labels m)) ms = map series_id (collect_calls cost_collector s)"
  by (auto simp: Collect_Some series_id_def)

section \<open>Properties\<close>

text \<open>
  C15. A scrape never panics, whatever snapshot is published: every metric is built with as many
  label values as its description declares, and uses a description that \<open>Describe\<close> announced.
\<close>

theorem collect_never_panics:
  "\<exists>ms. Collect cost_collector s = Some ms \<and>
        list_all (\<lambda>m. mt_desc m \<in> set (Describe cost_collector) \<and>
                      length (mt_labels m) = length (variableLabels (mt_desc m))) ms"
proof -
  let ?ok = "\<lambda>x. mt_desc (the x) \<in> set (Describe cost_collector) \<and>
                 length (mt_labels (the x)) = length (variableLabels (mt_desc (the x)))"
  have must: "?ok (MustNewConstMetric d v ls)"
    if "length ls = length (variableLabels d)" and "d \<in> set (Describe cost_collector)" for d v ls
    using that by (simp add: MustNewConstMetric_def)
  have nth: "i < length ds \<Longrightarrow> set ds \<subseteq> set (Describe cost_collector) \<Longrightarrow> ds ! i \<in> set (Describe cost_collector)" for i ds
    by auto
  have desc: "set (cc_budgets cost_collector) \<subseteq> set (Describe cost_collector)"
    "set (cc_tagCosts cost_collector) \<subseteq> set (Describe cost_collector)"
    "set (cc_commitments cost_collector) \<subseteq> set (Describe cost_collector)"
    "set (cc_anomalies cost_collector) \<subseteq> set (Describe cost_collector)"
    "set (cc_forecasts cost_collector) \<subseteq> set (Describe cost_collector)"
    "cc_accountInfo cost_collector \<in> set (Describe cost_collector)"
    by (auto simp: Describe_def simp del: collector_simps)
  have "?ok x" if "x \<in> set (collectCost cost_collector c)" for c x
  proof (cases "map_of (cc_indexed cost_collector) (c_Window c, kind (c_Dimension c))")
    case (Some d)
    have "d \<in> set (Describe cost_collector)"
      using map_of_SomeD [OF Some] by (force simp: indexed_definitions Describe_def cc_costs_definitions)
    with that indexed_labels [OF Some] Some show ?thesis
      by (auto simp: collectCost_def intro!: must split: if_splits)
  qed (use that in \<open>simp add: collectCost_def\<close>)
  moreover have "?ok x" if "x \<in> set (collectForecast cost_collector f)" for f x
    using that desc(5) by (auto simp: collectForecast_def desc_defs intro!: must)
  moreover have "?ok x" if "x \<in> set (collectAccount cost_collector a)" for a x
    using that desc(6) by (auto simp: collectAccount_def intro!: must)
  moreover have "?ok x" if "x \<in> set (collectBudget cost_collector b)" for b x
    using that desc(1) by (auto simp: collectBudget_def Let_def intro!: must nth split: if_splits)
  moreover have "?ok x" if "x \<in> set (collectTagCost cost_collector t)" for t x
    using that desc(2) by (auto simp: collectTagCost_def Let_def intro!: must nth)
  moreover have "?ok x" if "x \<in> set (collectCommitment cost_collector m)" for m x
    using that desc(3) by (auto simp: collectCommitment_def Let_def intro!: must nth split: if_splits)
  moreover have "?ok x" if "x \<in> set (collectAnomaly cost_collector n)" for n x
    using that desc(4) by (auto simp: collectAnomaly_def intro!: must nth split: if_splits)
  ultimately have "\<forall>x \<in> set (collect_calls cost_collector s). ?ok x" unfolding collect_calls_def by auto
  then show ?thesis by (simp add: Collect_Some list_all_iff)
qed

text \<open>
  The series count of a snapshot is the number of metrics a scrape of it emits, for every
  snapshot whose costs use a known window and a constructed dimension.
\<close>

theorem series_count_exact:
  assumes "exportable s"
  shows "\<exists>ms. Collect cost_collector s = Some ms \<and> length ms = SeriesCount s"
  by (simp add: Collect_Some length_calls [OF assms])

text \<open>
  C14. A snapshot that passes the uniqueness check never produces a duplicate time series: no two
  metrics of a scrape share their name and label values, and the announced metric names are
  pairwise distinct.
\<close>

theorem scrape_series_distinct:
  assumes "exportable s" and "ValidateUnique s = Inr ()" and "Collect cost_collector s = Some ms"
  shows "distinct (map (\<lambda>m. (fqName (mt_desc m), mt_labels m)) ms) \<and>
    distinct (map fqName (Describe cost_collector))"
proof -
  have d: "list_all distinct (family_series s)"
    using assms(1,2) by (intro family_series_distinct) (simp_all add: ValidateUnique_ok)
  have "list_all2 (\<lambda>xs ns. distinct xs \<and> fst ` set xs \<subseteq> set ns) (family_series s) family_names"
    using d family_series_names [of s] by (auto simp: list_all2_conv_all_nth list_all_length)
  then have "distinct (concat (family_series s))" using family_names_distinct by (rule distinct_families)
  moreover have "map fqName (Describe cost_collector) = concat family_names"
    by (simp add: Describe_def family_names_def) (simp add: cost_collector_def split_beta)
  ultimately show ?thesis
    using Collect_series [OF assms(3)] collect_calls_series family_names_distinct by simp
qed

definition sample_scrape :: Snapshot where
  "sample_scrape = New [sample_cost ''b'', sample_cost ''a''] [] [] []"

lemma sample_scrape_ok: "exportable sample_scrape" "ValidateUnique sample_scrape = Inr ()"
proof -
  have "dimension_wf \<lparr> kind = DimensionTotal, dvalue = '''' \<rparr>"
    by (simp add: dimension_wf_def trimmed_def no_prefix_def space_runes_def HasPrefix_def)
  then show "exportable sample_scrape"
    by (simp add: sample_scrape_def New_def exportable_def sample_cost_def TagCost_Sort_def)
qed code_simp

theorem series_count_exact_witness:
  "\<exists>ms. Collect cost_collector sample_scrape = Some ms \<and> length ms = 2"
proof -
  have "SeriesCount sample_scrape = 2" by code_simp
  with series_count_exact [OF sample_scrape_ok(1)] show ?thesis by simp
qed

theorem scrape_series_distinct_witness:
  "distinct (map (\<lambda>m. (fqName (mt_desc m), mt_labels m)) (the (Collect cost_collector sample_scrape))) \<and>
   Collect cost_collector sample_scrape \<noteq> None"
  using scrape_series_distinct [OF sample_scrape_ok, of "the (Collect cost_collector sample_scrape)"]
  by (simp add: Collect_Some)

end
