(* ===== verification/Exporter_Metrics.thy ===== *)
theory Exporter_Metrics
  imports Scheduler Cost_Metrics
begin

text \<open>
  \<open>internal/metrics/exporter.go\<close>: the exporter's own health metrics. Gauges are built from the
  cache statuses at every scrape; counters and histograms are vectors of the Prometheus client
  library. The state the exporter adds to those vectors is the log of its calls on them (which
  vector, which label values, which operation); how the library accumulates and renders the log
  is the argument \<open>render\<close>. \<open>WithLabelValues\<close> panics on a wrong number of label values, which is
  \<open>None\<close> here, as for constant metrics.
\<close>

section \<open>version.go\<close>

record Info =
  i_Version :: string
  i_Revision :: string
  i_BuildDate :: string
  i_GoVersion :: string

text \<open>The link-time variables and \<open>runtime.Version()\<close> are arguments.\<close>

definition version_Current :: "string \<Rightarrow> string \<Rightarrow> string \<Rightarrow> string \<Rightarrow> Info" where
  "version_Current version revision buildDate goVersion =
     \<lparr> i_Version = version, i_Revision = revision, i_BuildDate = buildDate, i_GoVersion = goVersion \<rparr>"

definition Info_String :: "Info \<Rightarrow> string" where
  "Info_String info =
     ''aws-cost-exporter version='' @ i_Version info @ '' revision='' @ i_Revision info
     @ '' build_date='' @ i_BuildDate info @ '' go_version='' @ i_GoVersion info"

section \<open>Vectors and their log\<close>

datatype vec_kind = VK_Counter | VK_Histogram "float64 list"

record MetricVec =
  vec_desc :: Desc
  vec_kind :: vec_kind

datatype vec_op = Vec_Inc | Vec_Add float64 | Vec_Observe float64

record vec_call =
  vc_vec :: MetricVec
  vc_labels :: "string list"
  vc_op :: vec_op

definition selfDesc :: "string \<Rightarrow> string \<Rightarrow> string list \<Rightarrow> Desc" where
  "selfDesc name h labels = NewDesc (''aws_cost_exporter_'' @ name) h labels"

definition exporter_counter :: "string \<Rightarrow> string \<Rightarrow> string list \<Rightarrow> MetricVec" where
  "exporter_counter name h labels = \<lparr> vec_desc = selfDesc name h labels, vec_kind = VK_Counter \<rparr>"

definition exporter_histogram :: "string \<Rightarrow> string \<Rightarrow> string list \<Rightarrow> float64 list \<Rightarrow> MetricVec" where
  "exporter_histogram name h labels buckets =
     \<lparr> vec_desc = selfDesc name h labels, vec_kind = VK_Histogram buckets \<rparr>"

definition WithLabelValues :: "MetricVec \<Rightarrow> string list \<Rightarrow> vec_op \<Rightarrow> vec_call list \<Rightarrow> vec_call list option" where
  "WithLabelValues v labels operation calls =
     (if length labels = length (variableLabels (vec_desc v))
      then Some (calls @ [\<lparr> vc_vec = v, vc_labels = labels, vc_op = operation \<rparr>]) else None)"

section \<open>The exporter\<close>

record Exporter =
  ex_ids :: "CollectorID list"
  ex_known :: "CollectorID list"
  ex_build :: Info
  ex_up :: Desc
  ex_success :: Desc
  ex_attempt :: Desc
  ex_age :: Desc
  ex_series :: Desc
  ex_buildInfo :: Desc
  ex_refresh :: MetricVec
  ex_requests :: MetricVec
  ex_retries :: MetricVec
  ex_skipped :: MetricVec
  ex_overflow :: MetricVec
  ex_pagination :: MetricVec
  ex_cachePublishErrors :: MetricVec
  ex_shutdownTimeouts :: MetricVec
  ex_refreshDuration :: MetricVec
  ex_requestDuration :: MetricVec
  ex_log :: "vec_call list"

definition ErrInvalidExporter :: go_error where
  "ErrInvalidExporter = Sentinel ''invalid exporter metrics configuration''"

definition add_known :: "CollectorID list \<Rightarrow> CollectorID \<Rightarrow> go_error + CollectorID list" where
  "add_known known cid =
     (if \<not> CollectorID_Valid cid \<or> cid \<in> set known then Inl ErrInvalidExporter else Inr (known @ [cid]))"

definition collector_id_less :: "CollectorID \<Rightarrow> CollectorID \<Rightarrow> bool" where
  "collector_id_less l r =
     (if id_Target l \<noteq> id_Target r then id_Target l < id_Target r else id_Name l < id_Name r)"

text \<open>The descriptions the constructor builds, over the sorted ids.\<close>

definition exporter_of :: "Info \<Rightarrow> CollectorID list \<Rightarrow> CollectorID list \<Rightarrow> Exporter" where
  "exporter_of build ids known =
     (let targetCollector = [''target'', ''collector'']
      in \<lparr> ex_ids = ids, ex_known = known, ex_build = build,
           ex_up = selfDesc ''collector_up'' ''Whether the target collector's latest attempt succeeded.'' targetCollector,
           ex_success = selfDesc ''last_success_timestamp_seconds''
             ''Target collector's latest success Unix timestamp.'' targetCollector,
           ex_attempt = selfDesc ''last_attempt_timestamp_seconds''
             ''Target collector's latest attempt Unix timestamp.'' targetCollector,
           ex_age = selfDesc ''cache_age_seconds'' ''Seconds since the target collector last succeeded.'' targetCollector,
           ex_series = selfDesc ''snapshot_series'' ''Current business series owned by the target collector.'' targetCollector,
           ex_buildInfo = selfDesc ''build_info'' ''Build metadata for aws-cost-exporter.''
             [''version'', ''revision'', ''go_version''],
           ex_refresh = exporter_counter ''refresh_total'' ''Target collector refresh attempts.''
             [''target'', ''collector'', ''status''],
           ex_requests = exporter_counter ''aws_api_requests_total'' ''Logical AWS SDK operations.''
             [''target'', ''operation'', ''status''],
           ex_retries = exporter_counter ''aws_api_retries_total'' ''Authorized AWS SDK retry attempts.''
             [''target'', ''operation'', ''reason''],
           ex_skipped = exporter_counter ''scheduler_skipped_runs_total'' ''Scheduler runs skipped before execution.''
             [''target'', ''collector'', ''reason''],
           ex_overflow = exporter_counter ''dimension_overflow_values_total''
             ''Dimension values processed into overflow during collection attempts.'' [''target'', ''dimension''],
           ex_pagination = exporter_counter ''pagination_pages_total'' ''AWS API pagination pages read successfully.''
             [''target'', ''operation''],
           ex_cachePublishErrors = exporter_counter ''cache_publish_errors_total''
             ''Cache publish or failure-record errors.'' [''target'', ''collector'', ''operation''],
           ex_shutdownTimeouts = exporter_counter ''scheduler_shutdown_timeouts_total''
             ''Scheduler shutdown waits that exceeded server.shutdown_timeout.'' [],
           ex_refreshDuration = exporter_histogram ''refresh_duration_seconds'' ''Target collector refresh duration.''
             [''target'', ''collector''] (map f64_of_int [1, 5, 10, 30, 60, 120, 300]),
           ex_requestDuration = exporter_histogram ''aws_api_request_duration_seconds''
             ''Logical AWS SDK operation duration, including rate-limit waits and retries.''
             [''target'', ''operation''] (map f64_of_rat [1/10, 1/2, 1, 2, 5, 10, 30, 60]),
           ex_log = [] \<rparr>)"

definition NewExporter ::
  "'reader option \<Rightarrow> 'clock option \<Rightarrow> Info \<Rightarrow> CollectorID list \<Rightarrow> go_error + Exporter" where
  "NewExporter reader clock build ids =
     (if reader = None \<or> clock = None \<or> ids = [] then Inl ErrInvalidExporter
      else case range_err add_known [] ids of
             Inl err \<Rightarrow> Inl err
           | Inr known \<Rightarrow> Inr (exporter_of build (slice_stable collector_id_less ids) known))"

definition exporter_events :: "Exporter \<Rightarrow> MetricVec list" where
  "exporter_events ex =
     [ex_refresh ex, ex_requests ex, ex_retries ex, ex_skipped ex, ex_overflow ex, ex_pagination ex,
      ex_cachePublishErrors ex, ex_shutdownTimeouts ex, ex_refreshDuration ex, ex_requestDuration ex]"

text \<open>A vector describes itself by its one description.\<close>

definition Exporter_Describe :: "Exporter \<Rightarrow> Desc list" where
  "Exporter_Describe ex =
     [ex_up ex, ex_success ex, ex_attempt ex, ex_age ex, ex_series ex, ex_buildInfo ex] @ map vec_desc (exporter_events ex)"

definition boolFloat :: "bool \<Rightarrow> float64" where
  "boolFloat v = (if v then F_Fin 1 else F_Fin 0)"

text \<open>\<open>Duration.Seconds\<close>: whole seconds plus the rest over \<open>1e9\<close>.\<close>

definition Duration_Seconds :: "duration \<Rightarrow> float64" where
  "Duration_Seconds d =
     f64_add (f64_of_int (quo d Second)) (f64_div (f64_of_int (d - quo d Second * Second)) (F_Fin 1000000000))"

definition exporter_seconds :: "duration \<Rightarrow> float64" where
  "exporter_seconds d = f64_max (F_Fin 0) (Duration_Seconds d)"

definition collect_status :: "Exporter \<Rightarrow> SnapshotView \<Rightarrow> time \<Rightarrow> CollectorID \<Rightarrow> Metric option list" where
  "collect_status ex view now cid =
     (let status = status_of (v_Collectors view) cid; labels = [id_Target cid, id_Name cid]
      in [MustNewConstMetric (ex_up ex) (boolFloat (Up status)) labels,
          MustNewConstMetric (ex_series ex) (f64_of_int (Series status)) labels]
         @ (if \<not> IsZero (LastAttempt status)
            then [MustNewConstMetric (ex_attempt ex) (f64_of_int (Unix (LastAttempt status))) labels] else [])
         @ (if \<not> IsZero (LastSuccess status)
            then [MustNewConstMetric (ex_success ex) (f64_of_int (Unix (LastSuccess status))) labels,
                  MustNewConstMetric (ex_age ex)
                    (f64_max (F_Fin 0) (Duration_Seconds (Sub now (LastSuccess status)))) labels] else []))"

definition Exporter_Collect ::
  "(MetricVec \<Rightarrow> vec_call list \<Rightarrow> Metric list) \<Rightarrow> Exporter \<Rightarrow> SnapshotView \<Rightarrow> time \<Rightarrow> Metric list option" where
  "Exporter_Collect render ex view now =
     map_option (\<lambda>ms. ms @ concat (map (\<lambda>v. render v (filter (\<lambda>c. vc_vec c = v) (ex_log ex))) (exporter_events ex)))
       (those (concat (map (collect_status ex view now) (ex_ids ex))
          @ [MustNewConstMetric (ex_buildInfo ex) (F_Fin 1)
               [i_Version (ex_build ex), i_Revision (ex_build ex), i_GoVersion (ex_build ex)]]))"

section \<open>Observations\<close>

definition boundedDefault :: "string \<Rightarrow> string \<Rightarrow> string list \<Rightarrow> string" where
  "boundedDefault v fallback allowed = (if list_ex (\<lambda>candidate. v = candidate) allowed then v else fallback)"

definition bounded_label :: "string \<Rightarrow> string list \<Rightarrow> string" where
  "bounded_label v allowed = boundedDefault v ''unknown'' allowed"

definition known_operations :: "string list" where
  "known_operations =
     [''AssumeRole'', ''GetCallerIdentity'', ''GetCostAndUsage'', ''GetCostForecast'', ''ListAccounts'',
      ''DescribeOrganization'', ''DescribeBudgets'', ''GetSavingsPlansUtilization'', ''GetSavingsPlansCoverage'',
      ''GetReservationUtilization'', ''GetReservationCoverage'', ''GetAnomalies'', ''StartQueryExecution'',
      ''GetQueryExecution'', ''GetQueryResults'', ''StopQueryExecution'']"

definition boundedOperation :: "string \<Rightarrow> string" where
  "boundedOperation v = bounded_label v known_operations"

definition isKnown :: "Exporter \<Rightarrow> CollectorID \<Rightarrow> bool" where
  "isKnown ex cid \<longleftrightarrow> cid \<in> set (ex_known ex)"

definition on_vec :: "MetricVec \<Rightarrow> string list \<Rightarrow> vec_op \<Rightarrow> Exporter \<Rightarrow> Exporter option" where
  "on_vec v labels operation ex = map_option (\<lambda>calls. ex\<lparr> ex_log := calls \<rparr>) (WithLabelValues v labels operation (ex_log ex))"

definition Exporter_ObserveRefresh :: "CollectorID \<Rightarrow> string \<Rightarrow> duration \<Rightarrow> Exporter \<Rightarrow> Exporter option" where
  "Exporter_ObserveRefresh cid status d ex =
     (if \<not> isKnown ex cid then Some ex
      else Option.bind
             (on_vec (ex_refresh ex) [id_Target cid, id_Name cid, bounded_label status [''success'', ''error'', ''canceled'']] Vec_Inc ex)
             (on_vec (ex_refreshDuration ex) [id_Target cid, id_Name cid] (Vec_Observe (exporter_seconds d))))"

definition Exporter_ObserveRequest :: "TargetID \<Rightarrow> string \<Rightarrow> string \<Rightarrow> duration \<Rightarrow> Exporter \<Rightarrow> Exporter option" where
  "Exporter_ObserveRequest target operation status d ex =
     (let operation = boundedOperation operation
      in Option.bind
           (on_vec (ex_requests ex)
              [target, operation, bounded_label status [''success'', ''error'', ''canceled'', ''throttle'']] Vec_Inc ex)
           (on_vec (ex_requestDuration ex) [target, operation] (Vec_Observe (exporter_seconds d))))"

definition Exporter_ObserveRetry :: "TargetID \<Rightarrow> string \<Rightarrow> string \<Rightarrow> Exporter \<Rightarrow> Exporter option" where
  "Exporter_ObserveRetry target operation reason ex =
     on_vec (ex_retries ex)
       [target, boundedOperation operation, boundedDefault reason ''other'' [''throttle'', ''timeout'', ''other'']] Vec_Inc ex"

definition Exporter_ObserveSkipped :: "CollectorID \<Rightarrow> string \<Rightarrow> Exporter \<Rightarrow> Exporter option" where
  "Exporter_ObserveSkipped cid reason ex =
     (if isKnown ex cid
      then on_vec (ex_skipped ex) [id_Target cid, id_Name cid, bounded_label reason [''single_flight'']] Vec_Inc ex
      else Some ex)"

definition Exporter_ObserveOverflow :: "TargetID \<Rightarrow> string \<Rightarrow> int \<Rightarrow> Exporter \<Rightarrow> Exporter option" where
  "Exporter_ObserveOverflow target dimension n ex =
     (if n > 0
      then on_vec (ex_overflow ex) [target, bounded_label dimension [''service'', ''region'', ''account'', ''tag'']]
             (Vec_Add (f64_of_int n)) ex
      else Some ex)"

definition Exporter_ObservePaginationPage :: "TargetID \<Rightarrow> string \<Rightarrow> Exporter \<Rightarrow> Exporter option" where
  "Exporter_ObservePaginationPage target operation ex =
     on_vec (ex_pagination ex) [target, boundedOperation operation] Vec_Inc ex"

definition Exporter_ObserveCachePublishError :: "CollectorID \<Rightarrow> string \<Rightarrow> Exporter \<Rightarrow> Exporter option" where
  "Exporter_ObserveCachePublishError cid operation ex =
     (if isKnown ex cid
      then on_vec (ex_cachePublishErrors ex)
             [id_Target cid, id_Name cid, bounded_label operation [''publish'', ''record_failure'']] Vec_Inc ex
      else Some ex)"

definition ObserveSchedulerShutdownTimeout :: "Exporter \<Rightarrow> Exporter option" where
  "ObserveSchedulerShutdownTimeout ex = on_vec (ex_shutdownTimeouts ex) [] Vec_Inc ex"

section \<open>The event series are bounded\<close>

datatype observation =
    ObRefresh CollectorID string duration
  | ObRequest TargetID string string duration
  | ObRetry TargetID string string
  | ObSkipped CollectorID string
  | ObOverflow TargetID string int
  | ObPage TargetID string
  | ObCacheError CollectorID string
  | ObShutdownTimeout

fun observe :: "observation \<Rightarrow> Exporter \<Rightarrow> Exporter option" where
  "observe (ObRefresh cid status d) ex = Exporter_ObserveRefresh cid status d ex"
| "observe (ObRequest target operation status d) ex = Exporter_ObserveRequest target operation status d ex"
| "observe (ObRetry target operation reason) ex = Exporter_ObserveRetry target operation reason ex"
| "observe (ObSkipped cid reason) ex = Exporter_ObserveSkipped cid reason ex"
| "observe (ObOverflow target dimension n) ex = Exporter_ObserveOverflow target dimension n ex"
| "observe (ObPage target operation) ex = Exporter_ObservePaginationPage target operation ex"
| "observe (ObCacheError cid operation) ex = Exporter_ObserveCachePublishError cid operation ex"
| "observe ObShutdownTimeout ex = ObserveSchedulerShutdownTimeout ex"

fun observe_all :: "observation list \<Rightarrow> Exporter \<Rightarrow> Exporter option" where
  "observe_all [] ex = Some ex"
| "observe_all (ob # obs) ex = (case observe ob ex of None \<Rightarrow> None | Some ex' \<Rightarrow> observe_all obs ex')"

text \<open>The target an observation names without checking it against the configured collectors.\<close>

fun observed_target :: "observation \<Rightarrow> TargetID option" where
  "observed_target (ObRequest target _ _ _) = Some target"
| "observed_target (ObRetry target _ _) = Some target"
| "observed_target (ObOverflow target _ _) = Some target"
| "observed_target (ObPage target _) = Some target"
| "observed_target _ = None"

text \<open>Every child the vectors can ever have, for the collectors of the exporter and the targets \<open>ts\<close>.\<close>

definition collector_children :: "Exporter \<Rightarrow> CollectorID \<Rightarrow> (MetricVec \<times> string list) list" where
  "collector_children ex cid =
     (let l = [id_Target cid, id_Name cid]
      in map (\<lambda>s. (ex_refresh ex, l @ [s])) [''success'', ''error'', ''canceled'', ''unknown'']
         @ [(ex_refreshDuration ex, l)]
         @ map (\<lambda>s. (ex_skipped ex, l @ [s])) [''single_flight'', ''unknown'']
         @ map (\<lambda>s. (ex_cachePublishErrors ex, l @ [s])) [''publish'', ''record_failure'', ''unknown''])"

definition operation_children :: "Exporter \<Rightarrow> TargetID \<Rightarrow> string \<Rightarrow> (MetricVec \<times> string list) list" where
  "operation_children ex t operation =
     map (\<lambda>s. (ex_requests ex, [t, operation, s])) [''success'', ''error'', ''canceled'', ''throttle'', ''unknown'']
     @ [(ex_requestDuration ex, [t, operation])]
     @ map (\<lambda>s. (ex_retries ex, [t, operation, s])) [''throttle'', ''timeout'', ''other'']
     @ [(ex_pagination ex, [t, operation])]"

definition target_children :: "Exporter \<Rightarrow> TargetID \<Rightarrow> (MetricVec \<times> string list) list" where
  "target_children ex t =
     concat (map (operation_children ex t) (known_operations @ [''unknown'']))
     @ map (\<lambda>d. (ex_overflow ex, [t, d])) [''service'', ''region'', ''account'', ''tag'', ''unknown'']"

definition event_children :: "Exporter \<Rightarrow> TargetID list \<Rightarrow> (MetricVec \<times> string list) list" where
  "event_children ex ts =
     concat (map (collector_children ex) (ex_known ex)) @ concat (map (target_children ex) ts)
     @ [(ex_shutdownTimeouts ex, [])]"

definition child_of :: "vec_call \<Rightarrow> MetricVec \<times> string list" where
  "child_of c = (vc_vec c, vc_labels c)"

text \<open>A counter is never decreased and a histogram never observes a negative value.\<close>

fun op_monotone :: "vec_op \<Rightarrow> bool" where
  "op_monotone Vec_Inc = True"
| "op_monotone (Vec_Add v) = f64_lt (F_Fin 0) v"
| "op_monotone (Vec_Observe v) = f64_le (F_Fin 0) v"

text \<open>The label arities of a constructed exporter; the log is free.\<close>

definition arities :: "Exporter \<Rightarrow> bool" where
  "arities ex \<longleftrightarrow>
     map (\<lambda>d. length (variableLabels d))
       [ex_up ex, ex_success ex, ex_attempt ex, ex_age ex, ex_series ex, ex_buildInfo ex] = [2, 2, 2, 2, 2, 3] \<and>
     map (\<lambda>v. length (variableLabels (vec_desc v))) (exporter_events ex) = [3, 3, 3, 3, 2, 2, 3, 0, 2, 2]"

lemma exporter_of_arities: "arities (exporter_of build ids known)"
  by (simp add: arities_def exporter_of_def Let_def selfDesc_def NewDesc_def exporter_counter_def
      exporter_histogram_def exporter_events_def)

lemma arities_log [simp]: "arities (ex\<lparr> ex_log := l \<rparr>) = arities ex"
  by (simp add: arities_def exporter_events_def)

lemma event_children_log [simp]: "event_children (ex\<lparr> ex_log := l \<rparr>) ts = event_children ex ts"
  by (simp add: event_children_def collector_children_def operation_children_def target_children_def Let_def
      cong: map_cong)

lemma bounded_label_mem: "bounded_label v allowed \<in> insert ''unknown'' (set allowed)"
  by (auto simp: bounded_label_def boundedDefault_def list_ex_iff)

lemma boundedDefault_mem: "fallback \<in> set allowed \<Longrightarrow> boundedDefault v fallback allowed \<in> set allowed"
  by (auto simp: boundedDefault_def list_ex_iff)

lemma f64_of_int_pos:
  assumes "0 < n" shows "f64_lt (F_Fin 0) (f64_of_int n)"
proof -
  have "round64 1 \<le> round64 (of_int n)"
    using assms by (intro round64_mono) (simp add: of_int_1_le_iff [symmetric] del: of_int_1_le_iff)
  moreover have "round64 1 = 1"
    using round64_representable [OF representable_int [of 1]] by simp
  ultimately show ?thesis
    by (auto simp: f64_of_int_def f64_of_rat_def Let_def)
qed

lemma f64_of_rat_not_NaN [simp]: "\<not> IsNaN (f64_of_rat q)"
  by (simp add: f64_of_rat_def Let_def)

lemma f64_add_not_NaN: "\<not> IsNaN x \<Longrightarrow> f64_finite y \<Longrightarrow> \<not> IsNaN (f64_add x y)"
  by (cases x; cases y) (auto simp: f64_finite_def)

lemma quo_remainder:
  assumes "0 < b" shows "\<bar>d - quo d b * b\<bar> \<le> b"
proof -
  have "d - quo d b * b = sgn d * (\<bar>d\<bar> mod b)"
    using assms by (auto simp: quo_def sgn_if minus_div_mult_eq_mod [symmetric])
  moreover have "0 \<le> \<bar>d\<bar> mod b" and "\<bar>d\<bar> mod b < b" using assms by simp_all
  ultimately show ?thesis by (auto simp: sgn_if)
qed

lemma Duration_Seconds_not_NaN: "\<not> IsNaN (Duration_Seconds d)"
proof -
  have r: "\<bar>d - quo d Second * Second\<bar> \<le> Second"
    by (rule quo_remainder) (simp add: Second_def)
  then have "\<bar>d - quo d Second * Second\<bar> \<le> 2 ^ 53" by (simp add: Second_def)
  then have "f64_of_int (d - quo d Second * Second) = F_Fin (of_int (d - quo d Second * Second))"
    by (rule f64_of_int_exact)
  moreover have "f64_finite (f64_of_rat (of_int (d - quo d Second * Second) / 1000000000))" (is "f64_finite (f64_of_rat ?q)")
  proof -
    have "\<bar>?q\<bar> \<le> 1" using r by (simp add: Second_def abs_le_iff divide_le_eq_1 flip: of_int_minus)
    then have "\<exists>z. f64_of_rat ?q = F_Fin z \<and> -1 \<le> z \<and> z \<le> 1"
      using representable_int [of 1] representable_int [of "-1"] by (intro f64_of_rat_between) auto
    then show ?thesis by (auto simp: f64_finite_iff)
  qed
  ultimately show ?thesis
    unfolding Duration_Seconds_def f64_of_int_def by (intro f64_add_not_NaN) auto
qed

lemma exporter_seconds_nonneg: "f64_le (F_Fin 0) (exporter_seconds d)"
  using Duration_Seconds_not_NaN [of d] by (auto simp: exporter_seconds_def f64_max_def f64_le_def f64_eq_def)

lemma on_vec_Some:
  "length labels = length (variableLabels (vec_desc v)) \<Longrightarrow>
   on_vec v labels operation ex =
     Some (ex\<lparr> ex_log := ex_log ex @ [\<lparr> vc_vec = v, vc_labels = labels, vc_op = operation \<rparr>] \<rparr>)"
  by (simp add: on_vec_def WithLabelValues_def)

lemma arities_vecs:
  assumes "arities ex"
  shows "length (variableLabels (vec_desc (ex_refresh ex))) = 3" "length (variableLabels (vec_desc (ex_requests ex))) = 3"
    "length (variableLabels (vec_desc (ex_retries ex))) = 3" "length (variableLabels (vec_desc (ex_skipped ex))) = 3"
    "length (variableLabels (vec_desc (ex_overflow ex))) = 2" "length (variableLabels (vec_desc (ex_pagination ex))) = 2"
    "length (variableLabels (vec_desc (ex_cachePublishErrors ex))) = 3" "length (variableLabels (vec_desc (ex_shutdownTimeouts ex))) = 0"
    "length (variableLabels (vec_desc (ex_refreshDuration ex))) = 2" "length (variableLabels (vec_desc (ex_requestDuration ex))) = 2"
  using assms by (simp_all add: arities_def exporter_events_def)

text \<open>What an observation adds to the log.\<close>

definition adds :: "Exporter \<Rightarrow> TargetID list \<Rightarrow> Exporter option \<Rightarrow> bool" where
  "adds ex ts r \<longleftrightarrow>
     (\<exists>new. r = Some (ex\<lparr> ex_log := ex_log ex @ new \<rparr>) \<and>
        (\<forall>c \<in> set new. child_of c \<in> set (event_children ex ts) \<and> op_monotone (vc_op c)))"

lemma adds_nothing: "adds ex ts (Some ex)"
  unfolding adds_def by (rule exI [of _ "[]"]) simp

lemma adds_one:
  assumes "length labels = length (variableLabels (vec_desc v))" and "(v, labels) \<in> set (event_children ex ts)"
    and "op_monotone operation"
  shows "adds ex ts (on_vec v labels operation ex)"
  unfolding adds_def on_vec_Some [OF assms(1)]
  by (rule exI [of _ "[\<lparr> vc_vec = v, vc_labels = labels, vc_op = operation \<rparr>]"]) (use assms(2,3) in \<open>simp add: child_of_def\<close>)

lemma adds_two:
  assumes "adds ex ts r" and "\<And>l. adds (ex\<lparr> ex_log := l \<rparr>) ts (g (ex\<lparr> ex_log := l \<rparr>))"
  shows "adds ex ts (Option.bind r g)"
proof -
  obtain new where r: "r = Some (ex\<lparr> ex_log := ex_log ex @ new \<rparr>)"
    and new: "\<forall>c \<in> set new. child_of c \<in> set (event_children ex ts) \<and> op_monotone (vc_op c)"
    using assms(1) by (auto simp: adds_def)
  obtain more_calls where "g (ex\<lparr> ex_log := ex_log ex @ new \<rparr>) = Some (ex\<lparr> ex_log := ex_log ex @ (new @ more_calls) \<rparr>)"
    and "\<forall>c \<in> set more_calls. child_of c \<in> set (event_children ex ts) \<and> op_monotone (vc_op c)"
    using assms(2) [of "ex_log ex @ new"] by (auto simp: adds_def)
  then show ?thesis using r new unfolding adds_def by (intro exI [of _ "new @ more_calls"]) auto
qed

lemma collector_child:
  "isKnown ex cid \<Longrightarrow> p \<in> set (collector_children ex cid) \<Longrightarrow> p \<in> set (event_children ex ts)"
  by (auto simp: event_children_def isKnown_def)

lemma target_child: "t \<in> set ts \<Longrightarrow> p \<in> set (target_children ex t) \<Longrightarrow> p \<in> set (event_children ex ts)"
  by (auto simp: event_children_def)

lemma operation_child:
  "t \<in> set ts \<Longrightarrow> p \<in> set (operation_children ex t (boundedOperation operation)) \<Longrightarrow> p \<in> set (event_children ex ts)"
  using bounded_label_mem [of operation known_operations]
  by (intro target_child [of t]) (auto simp: target_children_def boundedOperation_def)

lemma known_collector_adds:
  assumes "arities ex"
  shows "adds ex ts (Exporter_ObserveRefresh cid status d ex)" and "adds ex ts (Exporter_ObserveSkipped cid reason ex)"
    and "adds ex ts (Exporter_ObserveCachePublishError cid operation ex)"
proof -
  have "adds ex ts (Exporter_ObserveRefresh cid status d ex)" if "isKnown ex cid"
    using that assms bounded_label_mem [of status "[''success'', ''error'', ''canceled'']"]
    by (auto simp: Exporter_ObserveRefresh_def arities_vecs exporter_seconds_nonneg collector_children_def
        intro!: adds_two adds_one collector_child [OF that])
  then show "adds ex ts (Exporter_ObserveRefresh cid status d ex)"
    using adds_nothing by (cases "isKnown ex cid") (auto simp: Exporter_ObserveRefresh_def)
  have "adds ex ts (Exporter_ObserveSkipped cid reason ex)" if "isKnown ex cid"
    using that assms bounded_label_mem [of reason "[''single_flight'']"]
    by (auto simp: Exporter_ObserveSkipped_def arities_vecs collector_children_def intro!: adds_one collector_child [OF that])
  then show "adds ex ts (Exporter_ObserveSkipped cid reason ex)"
    using adds_nothing by (cases "isKnown ex cid") (auto simp: Exporter_ObserveSkipped_def)
  have "adds ex ts (Exporter_ObserveCachePublishError cid operation ex)" if "isKnown ex cid"
    using that assms bounded_label_mem [of operation "[''publish'', ''record_failure'']"]
    by (auto simp: Exporter_ObserveCachePublishError_def arities_vecs collector_children_def
        intro!: adds_one collector_child [OF that])
  then show "adds ex ts (Exporter_ObserveCachePublishError cid operation ex)"
    using adds_nothing by (cases "isKnown ex cid") (auto simp: Exporter_ObserveCachePublishError_def)
qed

lemma observe_adds:
  assumes "arities ex" and "\<And>t. observed_target ob = Some t \<Longrightarrow> t \<in> set ts"
  shows "adds ex ts (observe ob ex)"
proof (cases ob)
  case (ObRequest t operation status d)
  then have t: "t \<in> set ts" using assms(2) by simp
  show ?thesis
    using ObRequest assms(1) bounded_label_mem [of status "[''success'', ''error'', ''canceled'', ''throttle'']"]
    by (auto simp: Exporter_ObserveRequest_def Let_def arities_vecs exporter_seconds_nonneg operation_children_def
        intro!: adds_two adds_one operation_child [OF t, of _ _ operation])
next
  case (ObRetry t operation reason)
  then have t: "t \<in> set ts" using assms(2) by simp
  show ?thesis
    using ObRetry assms(1) boundedDefault_mem [of "''other''" "[''throttle'', ''timeout'', ''other'']" reason]
    by (auto simp: Exporter_ObserveRetry_def arities_vecs operation_children_def
        intro!: adds_one operation_child [OF t, of _ _ operation])
next
  case (ObOverflow t dimension n)
  then have t: "t \<in> set ts" using assms(2) by simp
  show ?thesis
    using ObOverflow assms(1) bounded_label_mem [of dimension "[''service'', ''region'', ''account'', ''tag'']"]
    by (auto simp: Exporter_ObserveOverflow_def arities_vecs target_children_def f64_of_int_pos
        intro!: adds_one adds_nothing target_child [OF t])
next
  case (ObPage t operation)
  then have t: "t \<in> set ts" using assms(2) by simp
  show ?thesis
    using ObPage assms(1)
    by (auto simp: Exporter_ObservePaginationPage_def arities_vecs operation_children_def
        intro!: adds_one operation_child [OF t, of _ _ operation])
next
  case ObShutdownTimeout
  then show ?thesis
    using assms(1) by (auto simp: ObserveSchedulerShutdownTimeout_def arities_vecs event_children_def intro!: adds_one)
qed (use known_collector_adds [OF assms(1)] in auto)

lemma observe_all_adds:
  assumes "arities ex" and "\<forall>ob \<in> set obs. \<forall>t. observed_target ob = Some t \<longrightarrow> t \<in> set ts"
  shows "adds ex ts (observe_all obs ex)"
  using assms
proof (induction obs arbitrary: ex)
  case Nil
  show ?case by (simp add: adds_nothing)
next
  case (Cons ob obs)
  have "observe_all (ob # obs) ex = Option.bind (observe ob ex) (observe_all obs)"
    by (cases "observe ob ex") auto
  moreover have "adds ex ts (observe ob ex)" using Cons.prems by (intro observe_adds) auto
  ultimately show ?case using Cons by (auto intro!: adds_two)
qed

lemma length_event_children: "length (event_children ex ts) = 10 * length (ex_known ex) + 175 * length ts + 1"
proof -
  have c: "length (collector_children ex cid) = 10" for cid by (simp add: collector_children_def Let_def)
  have o: "length (operation_children ex t operation) = 10" for t operation by (simp add: operation_children_def)
  have t: "length (target_children ex t) = 175" for t
    by (simp add: target_children_def length_concat o_def o known_operations_def)
  have "length (concat (map f xs)) = n * length xs" if "\<And>x. length (f x) = n" for f :: "'z \<Rightarrow> 'y list" and xs n
    by (induction xs) (simp_all add: that)
  from this [of "collector_children ex", OF c] this [of "target_children ex", OF t]
  show ?thesis by (simp add: event_children_def)
qed

lemma add_known_all:
  "distinct acc \<Longrightarrow> range_err add_known acc ids =
     (if distinct (acc @ ids) \<and> (\<forall>i \<in> set ids. CollectorID_Valid i) then Inr (acc @ ids) else Inl ErrInvalidExporter)"
proof (induction ids arbitrary: acc)
  case (Cons i ids)
  then show ?case using Cons.IH [of "acc @ [i]"] by (auto simp: add_known_def)
qed simp

lemmas known_ids = add_known_all [of "[]", simplified]

lemma NewExporter_ok:
  assumes "NewExporter reader clock build ids = Inr ex"
  shows "ex = exporter_of build (slice_stable collector_id_less ids) ids" and "distinct ids"
    and "\<forall>i \<in> set ids. CollectorID_Valid i" and "arities ex"
  using assms known_ids exporter_of_arities by (auto simp: NewExporter_def split: if_splits sum.splits)


section \<open>What a scrape shows\<close>

interpretation collector_id_order: slice_order collector_id_less "\<lambda>i. (id_Target i, id_Name i)"
  by unfold_locales (auto simp: collector_id_less_def)

definition self_series :: "SnapshotView \<Rightarrow> CollectorID \<Rightarrow> (string \<times> float64) list" where
  "self_series view cid =
     (let status = status_of (v_Collectors view) cid
      in [(''collector_up'', boolFloat (Up status)), (''snapshot_series'', f64_of_int (Series status))]
         @ (if IsZero (LastAttempt status) then []
            else [(''last_attempt_timestamp_seconds'', f64_of_int (Unix (LastAttempt status)))])
         @ (if IsZero (LastSuccess status) then []
            else [(''last_success_timestamp_seconds'', f64_of_int (Unix (LastSuccess status)))]))"

text \<open>Name, labels and value of a sample.\<close>

definition sample_of :: "Metric \<Rightarrow> string \<times> string list \<times> float64" where
  "sample_of m = (fqName (mt_desc m), mt_labels m, mt_value m)"

definition expected_samples :: "SnapshotView \<Rightarrow> time \<Rightarrow> CollectorID \<Rightarrow> (string \<times> string list \<times> float64) list" where
  "expected_samples view now cid =
     map (\<lambda>(name, v). (''aws_cost_exporter_'' @ name, [id_Target cid, id_Name cid], v))
       (self_series view cid
        @ (if IsZero (LastSuccess (status_of (v_Collectors view) cid)) then []
           else [(''cache_age_seconds'', exporter_seconds (Sub now (LastSuccess (status_of (v_Collectors view) cid))))]))"

lemma arities_descs:
  assumes "arities ex"
  shows "length (variableLabels (ex_up ex)) = 2" "length (variableLabels (ex_success ex)) = 2"
    "length (variableLabels (ex_attempt ex)) = 2" "length (variableLabels (ex_age ex)) = 2"
    "length (variableLabels (ex_series ex)) = 2" "length (variableLabels (ex_buildInfo ex)) = 3"
  using assms by (simp_all add: arities_def)

lemma exporter_desc_names:
  "fqName (ex_up (exporter_of b ids k)) = ''aws_cost_exporter_collector_up''"
  "fqName (ex_success (exporter_of b ids k)) = ''aws_cost_exporter_last_success_timestamp_seconds''"
  "fqName (ex_attempt (exporter_of b ids k)) = ''aws_cost_exporter_last_attempt_timestamp_seconds''"
  "fqName (ex_age (exporter_of b ids k)) = ''aws_cost_exporter_cache_age_seconds''"
  "fqName (ex_series (exporter_of b ids k)) = ''aws_cost_exporter_snapshot_series''"
  "fqName (ex_buildInfo (exporter_of b ids k)) = ''aws_cost_exporter_build_info''"
  "ex_build (exporter_of b ids k) = b"
  by (simp_all add: exporter_of_def Let_def selfDesc_def NewDesc_def)

lemma collect_status_samples:
  fixes b ids k and view :: SnapshotView
  defines "ex \<equiv> exporter_of b ids k"
  shows "\<forall>m \<in> set (collect_status ex view now cid). m \<noteq> None"
    and "map (sample_of \<circ> the) (collect_status ex view now cid) = expected_samples view now cid"
proof -
  have ar: "arities ex" by (simp add: ex_def exporter_of_arities)
  show "\<forall>m \<in> set (collect_status ex view now cid). m \<noteq> None"
    using arities_descs [OF ar] by (auto simp: collect_status_def Let_def MustNewConstMetric_def split: if_splits)
  show "map (sample_of \<circ> the) (collect_status ex view now cid) = expected_samples view now cid"
    using arities_descs [OF ar]
    by (simp add: collect_status_def Let_def MustNewConstMetric_def sample_of_def expected_samples_def self_series_def
        exporter_desc_names ex_def exporter_seconds_def)
qed

lemma self_series_distinct: "distinct (map (\<lambda>(n, l, v). (n, l)) (expected_samples view now cid))"
  by (simp add: expected_samples_def self_series_def Let_def)

lemma expected_labels: "s \<in> set (expected_samples view now cid) \<Longrightarrow> fst (snd s) = [id_Target cid, id_Name cid]"
  by (auto simp: expected_samples_def)

lemma distinct_concat_keyed:
  assumes "distinct is" and "\<And>i. i \<in> set is \<Longrightarrow> distinct (map f (g i))"
    and "\<And>i x. i \<in> set is \<Longrightarrow> x \<in> set (g i) \<Longrightarrow> h (f x) = i"
  shows "distinct (map f (concat (map g is)))"
  using assms
proof (induction "is")
  case (Cons i "is")
  have "f x \<noteq> f y" if "x \<in> set (g i)" "y \<in> set (g j)" "j \<in> set is" for x y j
    using that Cons.prems(1) Cons.prems(3) [of i x] Cons.prems(3) [of j y] by auto
  then show ?case using Cons by fastforce
qed simp

text \<open>
  A scrape of the exporter's own metrics never panics and shows, for the configured collectors in
  target and name order, exactly: whether the last attempt succeeded, its series, the times of the
  last attempt and success when there were any, and a non-negative age of the cached data; then the
  build information; and no series twice.
\<close>

theorem exporter_scrape_exact:
  assumes "NewExporter reader clock build ids = Inr ex"
  shows "\<exists>ms. Exporter_Collect (\<lambda>_ _. []) ex view now = Some ms \<and>
    map sample_of ms =
      concat (map (expected_samples view now) (slice_stable collector_id_less ids))
      @ [(''aws_cost_exporter_build_info'', [i_Version build, i_Revision build, i_GoVersion build], F_Fin 1)] \<and>
    distinct (map (\<lambda>m. (fqName (mt_desc m), mt_labels m)) ms)"
proof -
  note ex = NewExporter_ok [OF assms]
  let ?ids = "slice_stable collector_id_less ids"
  let ?calls = "concat (map (collect_status ex view now) ?ids)
     @ [MustNewConstMetric (ex_buildInfo ex) (F_Fin 1) [i_Version (ex_build ex), i_Revision (ex_build ex), i_GoVersion (ex_build ex)]]"
  have fields: "ex_ids ex = ?ids" "ex_build ex = build" "ex_log ex = []"
    by (simp_all add: ex(1) exporter_of_def Let_def)
  have some: "\<forall>m \<in> set ?calls. m \<noteq> None"
    using collect_status_samples(1) arities_descs(6) [OF ex(4)] by (auto simp: ex(1) MustNewConstMetric_def)
  define ms where "ms = map the ?calls"
  have c: "Exporter_Collect (\<lambda>_ _. []) ex view now = Some ms"
    using those_all_some [OF some] by (simp add: Exporter_Collect_def fields ms_def concat_eq_Nil_conv)
  have "map (sample_of \<circ> the) (concat (map (collect_status ex view now) is)) = concat (map (expected_samples view now) is)"
    for "is" by (induction "is") (simp_all add: collect_status_samples(2) ex(1) del: comp_apply)
  then have samples: "map sample_of ms = concat (map (expected_samples view now) ?ids)
      @ [(''aws_cost_exporter_build_info'', [i_Version build, i_Revision build, i_GoVersion build], F_Fin 1)]"
    using arities_descs(6) [OF ex(4)]
    by (simp add: ms_def fields MustNewConstMetric_def sample_of_def exporter_desc_names ex(1))
  have "distinct (map (\<lambda>(n, l, v). (n, l)) (concat (map (expected_samples view now) ?ids)))"
  proof (rule distinct_concat_keyed [where h = "\<lambda>(n, l). \<lparr> id_Target = l ! 0, id_Name = l ! 1 \<rparr>"])
    show "distinct ?ids" using ex(2) distinct_map_slice_stable [of "\<lambda>x. x" collector_id_less ids] by simp
    show "distinct (map (\<lambda>(n, l, v). (n, l)) (expected_samples view now i))" for i by (rule self_series_distinct)
    show "(case (case x of (n, l, v) \<Rightarrow> (n, l)) of (n, l) \<Rightarrow> \<lparr> id_Target = l ! 0, id_Name = l ! 1 \<rparr>) = i"
      if "x \<in> set (expected_samples view now i)" for i x
      using expected_labels [OF that] by (cases x) simp
  qed
  moreover have "(''aws_cost_exporter_build_info'', l) \<notin>
      (\<lambda>(n, l, v). (n, l)) ` set (concat (map (expected_samples view now) ?ids))" for l
    by (auto simp: expected_samples_def self_series_def Let_def split: if_splits)
  ultimately have "distinct (map (\<lambda>(n, l, v). (n, l)) (map sample_of ms))"
    unfolding samples by simp
  moreover have "map (\<lambda>(n, l, v). (n, l)) (map sample_of ms) = map (\<lambda>m. (fqName (mt_desc m), mt_labels m)) ms"
    by (simp add: sample_of_def)
  ultimately have "distinct (map (\<lambda>m. (fqName (mt_desc m), mt_labels m)) ms)" by (simp only:)
  with c samples show ?thesis by blast
qed

section \<open>The scheduler as observed\<close>

text \<open>How the runner's events reach the exporter; log records do not.\<close>

fun sched_observation :: "sched_event \<Rightarrow> observation option" where
  "sched_observation (ObserveRefresh cid status d) = Some (ObRefresh cid status d)"
| "sched_observation (ObserveSkipped cid reason) = Some (ObSkipped cid reason)"
| "sched_observation (ObserveCachePublishError cid operation) = Some (ObCacheError cid operation)"
| "sched_observation _ = None"

definition sched_observations :: "sched_event list \<Rightarrow> observation list" where
  "sched_observations evs = List.map_filter sched_observation evs"

fun event_named :: "CollectorID set \<Rightarrow> sched_event \<Rightarrow> bool" where
  "event_named ids (ObserveRefresh cid status d) \<longleftrightarrow> cid \<in> ids \<and> status \<in> {''success'', ''error'', ''canceled''}"
| "event_named ids (ObserveSkipped cid reason) \<longleftrightarrow> cid \<in> ids \<and> reason = ''single_flight''"
| "event_named ids (ObserveCachePublishError cid operation) \<longleftrightarrow> cid \<in> ids \<and> operation \<in> {''publish'', ''record_failure''}"
| "event_named ids (LogCollectorFailure cid kd r) \<longleftrightarrow> cid \<in> ids"
| "event_named ids (LogCacheFailure cid operation err) \<longleftrightarrow> cid \<in> ids"

definition events_named :: "CollectorID set \<Rightarrow> 's sched \<Rightarrow> bool" where
  "events_named ids s \<longleftrightarrow> (\<forall>e \<in> set (sd_events s). event_named ids e)"

lemma events_named_upd [simp]:
  "events_named ids (goto_schedule cid pc s) = events_named ids s"
  "events_named ids (goto_worker cid wpc s) = events_named ids s"
  "events_named ids (clearRunning cid s) = events_named ids s"
  "events_named ids (s\<lparr> sd_queues := q \<rparr>) = events_named ids s"
  "events_named ids (s\<lparr> sd_running := r \<rparr>) = events_named ids s"
  "events_named ids (s\<lparr> sd_targets := tg \<rparr>) = events_named ids s"
  "events_named ids (s\<lparr> sd_semaphore := n \<rparr>) = events_named ids s"
  "events_named ids (s\<lparr> sd_store := st \<rparr>) = events_named ids s"
  "events_named ids (s\<lparr> sd_now := now \<rparr>) = events_named ids s"
  "events_named ids (s\<lparr> sd_canceled := b \<rparr>) = events_named ids s"
  by (simp_all add: events_named_def goto_schedule_def goto_worker_def clearRunning_def)

lemma events_named_emit [simp]:
  "events_named ids (emit enabled e s) \<longleftrightarrow> events_named ids s \<and> (enabled \<longrightarrow> event_named ids e)"
  by (auto simp: events_named_def emit_def)

lemma channel_events:
  "target_add cid s = Some t \<Longrightarrow> events_named ids t = events_named ids s"
  "target_take cid s = Some t \<Longrightarrow> events_named ids t = events_named ids s"
  "semaphore_add rn s = Some t \<Longrightarrow> events_named ids t = events_named ids s"
  "semaphore_take s = Some t \<Longrightarrow> events_named ids t = events_named ids s"
  "queue_send cid reference s = Some t \<Longrightarrow> events_named ids t = events_named ids s"
  by (auto simp: target_add_def target_take_def semaphore_add_def semaphore_take_def queue_send_def
      split: if_splits nat.splits)

lemma call_events:
  assumes "cid \<in> ids" and "events_named ids s"
  shows "events_named ids (fst (publish_result port rn cid result s))"
    and "events_named ids (record_failure port rn cid s)" and "events_named ids (decide port rn cid r err s)"
proof -
  show "events_named ids (fst (publish_result port rn cid result s))"
    using assms by (auto simp: publish_result_def observeCachePublishError_def split: sum.splits prod.splits option.splits)
  have f: "events_named ids (record_failure port rn cid u)" if "events_named ids u" for u
    using that assms(1) by (auto simp: record_failure_def observeCachePublishError_def split: prod.splits option.splits)
  show "events_named ids (record_failure port rn cid s)" using f assms(2) .
  show "events_named ids (decide port rn cid r err s)"
    using assms by (auto simp: decide_def Let_def logCollectorFailure_def intro!: f)
qed

lemma schedule_events:
  "schedule_step impl rn job cid b u1 u2 s = Some t \<Longrightarrow> cid \<in> ids \<Longrightarrow> events_named ids s \<Longrightarrow> events_named ids t"
  by (auto simp: schedule_step_def dispatch_def dispatch_claim_def channel_events
      split: schedule_pc.splits branch.splits if_splits prod.splits bool.splits)

lemma worker_events:
  assumes "worker_ready impl port rn cid result s = Some t" and "cid \<in> ids" and "events_named ids s"
  shows "events_named ids t"
  using assms(1) call_events(1) [OF assms(2,3)] call_events(3) [OF assms(2,3)] assms(2,3)
  by (auto simp: worker_ready_def channel_events refresh_status_def Let_def
      split: worker_pc.splits list.splits if_splits prod.splits; metis fst_conv)

lemma done_events: "worker_done cid s = Some t \<Longrightarrow> events_named ids s \<Longrightarrow> events_named ids t"
  by (auto simp: worker_done_def split: if_splits worker_pc.splits)

interpretation runner_events: invariant_system "runner_init rn good" "runner_moves impl port rn"
  "events_named (set (job_ids rn))"
  for rn good impl port
proof
  show "events_named (set (job_ids rn)) s" if "runner_init rn good s" for s
    using that by (auto simp: runner_init_def Run_start_def events_named_def)
  fix s t assume inv: "events_named (set (job_ids rn)) s" and "runner_moves impl port rn s t"
  then obtain c where c: "runner_step impl port rn c s = Some t" by (auto simp: runner_moves_def)
  show "events_named (set (job_ids rn)) t"
    using c inv
    by (cases c) (auto split: if_splits option.splits branch.splits intro: schedule_events [OF _ job_of_ids]
        worker_events [OF _ job_of_ids] done_events)
qed

text \<open>What each event of the runner is to add to the vectors, with its own labels.\<close>

fun sched_calls :: "Exporter \<Rightarrow> sched_event \<Rightarrow> vec_call list" where
  "sched_calls ex (ObserveRefresh cid status d) =
     [\<lparr> vc_vec = ex_refresh ex, vc_labels = [id_Target cid, id_Name cid, status], vc_op = Vec_Inc \<rparr>,
      \<lparr> vc_vec = ex_refreshDuration ex, vc_labels = [id_Target cid, id_Name cid], vc_op = Vec_Observe (exporter_seconds d) \<rparr>]"
| "sched_calls ex (ObserveSkipped cid reason) =
     [\<lparr> vc_vec = ex_skipped ex, vc_labels = [id_Target cid, id_Name cid, reason], vc_op = Vec_Inc \<rparr>]"
| "sched_calls ex (ObserveCachePublishError cid operation) =
     [\<lparr> vc_vec = ex_cachePublishErrors ex, vc_labels = [id_Target cid, id_Name cid, operation], vc_op = Vec_Inc \<rparr>]"
| "sched_calls ex _ = []"

lemma sched_calls_log [simp]: "sched_calls (ex\<lparr> ex_log := l \<rparr>) e = sched_calls ex e"
  by (cases e) simp_all

lemma observe_event:
  assumes "arities ex" and "event_named (set (ex_known ex)) e"
  shows "observe_all (sched_observations [e]) ex = Some (ex\<lparr> ex_log := ex_log ex @ sched_calls ex e \<rparr>)"
  using assms
  by (cases e) (auto simp: sched_observations_def List.map_filter_def Exporter_ObserveRefresh_def Exporter_ObserveSkipped_def
      Exporter_ObserveCachePublishError_def isKnown_def on_vec_Some arities_vecs bounded_label_def boundedDefault_def)

lemma observe_all_append:
  "observe_all (xs @ ys) ex = (case observe_all xs ex of None \<Rightarrow> None | Some ex' \<Rightarrow> observe_all ys ex')"
  by (induction xs arbitrary: ex) (auto split: option.splits)

lemma observe_events:
  assumes "arities ex" and "\<forall>e \<in> set evs. event_named (set (ex_known ex)) e"
  shows "observe_all (sched_observations evs) ex = Some (ex\<lparr> ex_log := ex_log ex @ concat (map (sched_calls ex) evs) \<rparr>)"
  using assms
proof (induction evs arbitrary: ex)
  case Nil
  then show ?case by (simp add: sched_observations_def List.map_filter_def)
next
  case (Cons e evs)
  have "sched_observations (e # evs) = sched_observations [e] @ sched_observations evs"
    by (simp add: sched_observations_def List.map_filter_def)
  moreover have "map (sched_calls (ex\<lparr> ex_log := l \<rparr>)) evs = map (sched_calls ex) evs" for l by simp
  ultimately show ?case
    using Cons observe_event [of ex e] by (simp add: observe_all_append)
qed

lemma event_named_mono: "event_named A e \<Longrightarrow> A \<subseteq> B \<Longrightarrow> event_named B e"
  by (cases e) auto

text \<open>
  C34. The runner's counters are exact. In every execution of the scheduler whose jobs the exporter
  knows, the exporter records every event once, in order, under the event's own labels: no
  observation panics, none is dropped as unknown, and no status, reason or operation is replaced
  by the fallback label.
\<close>

theorem scheduler_events_counted:
  assumes "runs impl port rn good s" and "NewExporter reader clock build ids = Inr ex"
    and "set (job_ids rn) \<subseteq> set ids"
  shows "observe_all (sched_observations (sd_events s)) ex =
    Some (ex\<lparr> ex_log := concat (map (sched_calls ex) (sd_events s)) \<rparr>)"
proof -
  note ex = NewExporter_ok [OF assms(2)]
  have known: "ex_known ex = ids" "ex_log ex = []" by (simp_all add: ex(1) exporter_of_def Let_def)
  have "\<forall>e \<in> set (sd_events s). event_named (set (ex_known ex)) e"
    using runner_events.reachable_inv [OF assms(1)] assms(3) unfolding events_named_def known
    by (blast intro: event_named_mono)
  from observe_events [OF ex(4) this] show ?thesis by (simp add: known)
qed

section \<open>Witnesses\<close>

definition sample_exporter :: Exporter where
  "sample_exporter = exporter_of (version_Current ''dev'' ''r1'' ''today'' ''go1'') [sample_id ''total''] [sample_id ''total'']"

lemma sample_exporter_new:
  "NewExporter (Some ()) (Some ()) (version_Current ''dev'' ''r1'' ''today'' ''go1'') [sample_id ''total''] = Inr sample_exporter"
proof -
  have "CollectorID_Valid (sample_id ''total'')" by code_simp
  then show ?thesis by (simp add: NewExporter_def add_known_def sample_exporter_def)
qed


theorem exporter_scrape_exact_witness:
  "\<exists>ms. Exporter_Collect (\<lambda>_ _. []) sample_exporter (Load 90 store1) 90 = Some ms \<and> length ms = 6"
proof -
  have "\<exists>ms. Exporter_Collect (\<lambda>_ _. []) sample_exporter (Load 90 store1) 90 = Some ms \<and>
    map sample_of ms = concat (map (expected_samples (Load 90 store1) 90) (slice_stable collector_id_less [sample_id ''total'']))
      @ [(''aws_cost_exporter_build_info'', [''dev'', ''r1'', ''go1''], F_Fin 1)]"
    using exporter_scrape_exact [OF sample_exporter_new, of "Load 90 store1" 90] by (auto simp: version_Current_def)
  then obtain ms where ms: "Exporter_Collect (\<lambda>_ _. []) sample_exporter (Load 90 store1) 90 = Some ms"
    "map sample_of ms = concat (map (expected_samples (Load 90 store1) 90) (slice_stable collector_id_less [sample_id ''total'']))
      @ [(''aws_cost_exporter_build_info'', [''dev'', ''r1'', ''go1''], F_Fin 1)]" by blast
  have "length ms = length (map sample_of ms)" by simp
  moreover have "LastAttempt (status_of (v_Collectors (Load 90 store1)) (sample_id ''total'')) = 5"
    "LastSuccess (status_of (v_Collectors (Load 90 store1)) (sample_id ''total'')) = 5" by code_simp+
  ultimately show ?thesis using ms by (simp add: expected_samples_def self_series_def Let_def IsZero_def)
qed

theorem scheduler_events_counted_witness:
  "\<exists>s. execute (\<lambda>_. 0) memory_port sample_runner [work_choice TakeReady] (sample_at 12) = Some s \<and>
     sd_events s = [ObserveRefresh (sample_id ''total'') ''success'' 0] \<and>
     observe_all (sched_observations (sd_events s)) sample_exporter =
       Some (sample_exporter\<lparr> ex_log := concat (map (sched_calls sample_exporter) (sd_events s)) \<rparr>)"
proof -
  have "case execute (\<lambda>_. 0) memory_port sample_runner [work_choice TakeReady] (sample_at 12) of
      None \<Rightarrow> False | Some s \<Rightarrow> sd_events s = [ObserveRefresh (sample_id ''total'') ''success'' 0]" by code_simp
  then obtain s where s: "execute (\<lambda>_. 0) memory_port sample_runner [work_choice TakeReady] (sample_at 12) = Some s"
    "sd_events s = [ObserveRefresh (sample_id ''total'') ''success'' 0]" by (auto split: option.splits)
  have "set (job_ids sample_runner) \<subseteq> set [sample_id ''total'']"
    by (simp add: sample_runner_def job_ids_def List.map_filter_def)
  from scheduler_events_counted [OF execute_runs [OF sample_runs s(1)] sample_exporter_new this] s show ?thesis by blast
qed

end
