(* ===== verification/Http_Server.thy ===== *)
theory Http_Server
  imports Config_Validation Exporter_Metrics
begin

text \<open>
  Package \<open>internal/httpserver\<close>: the routes, the readiness decision and the draining flag. A handler
  is a function from a request and the response written so far to the response; the handlers of
  the Prometheus library and of \<open>net/http/pprof\<close> are the arguments \<open>promhttp\<close> and \<open>pprof\<close>.
  Listening, connection handling and the timeouts of \<open>http.Server\<close> belong to the standard
  library's server and are carried as configuration only.
\<close>

section \<open>Requests and responses\<close>

record http_request =
  rq_Method :: string
  rq_Path :: string

record statusResponse =
  sr_Status :: string
  sr_Reason :: string

datatype 'b body = JSON_Status statusResponse | JSON_Info Info | Text string | Foreign 'b

record 'b http_response =
  rs_Code :: "int option"
  rs_Header :: "(string, string) gomap"
  rs_Body :: "'b body list"

type_synonym 'b handler = "http_request \<Rightarrow> 'b http_response \<Rightarrow> 'b http_response"

definition StatusOK :: int where "StatusOK = 200"
definition StatusNotFound :: int where "StatusNotFound = 404"
definition StatusMethodNotAllowed :: int where "StatusMethodNotAllowed = 405"
definition StatusServiceUnavailable :: int where "StatusServiceUnavailable = 503"

lemmas status_codes = StatusOK_def StatusNotFound_def StatusMethodNotAllowed_def StatusServiceUnavailable_def

definition new_response :: "'b http_response" where
  "new_response = \<lparr> rs_Code = None, rs_Header = [], rs_Body = [] \<rparr>"

definition Header_Set :: "string \<Rightarrow> string \<Rightarrow> 'b http_response \<Rightarrow> 'b http_response" where
  "Header_Set k v rs = rs\<lparr> rs_Header := AList.update k v (rs_Header rs) \<rparr>"

text \<open>Only the first call of \<open>WriteHeader\<close> counts.\<close>

definition WriteHeader :: "int \<Rightarrow> 'b http_response \<Rightarrow> 'b http_response" where
  "WriteHeader code rs = (if rs_Code rs = None then rs\<lparr> rs_Code := Some code \<rparr> else rs)"

definition Write_body :: "'b body \<Rightarrow> 'b http_response \<Rightarrow> 'b http_response" where
  "Write_body b rs = rs\<lparr> rs_Body := rs_Body rs @ [b] \<rparr>"

definition http_Error :: "string \<Rightarrow> int \<Rightarrow> 'b http_response \<Rightarrow> 'b http_response" where
  "http_Error message code rs =
     Write_body (Text message) (WriteHeader code
       (Header_Set ''X-Content-Type-Options'' ''nosniff'' (Header_Set ''Content-Type'' ''text/plain; charset=utf-8'' rs)))"

definition http_NotFound :: "'b handler" where
  "http_NotFound rq rs = http_Error ''404 page not found'' StatusNotFound rs"

definition writeJSON :: "http_request \<Rightarrow> int \<Rightarrow> 'b body \<Rightarrow> 'b http_response \<Rightarrow> 'b http_response" where
  "writeJSON rq code payload rs =
     (let rs' = WriteHeader code (Header_Set ''Content-Type'' ''application/json'' rs)
      in if rq_Method rq \<noteq> ''HEAD'' then Write_body payload rs' else rs')"

text \<open>
  \<open>getOnly\<close>; the wrapper \<open>headWriter\<close> discards what the handler writes to the body.
\<close>

definition headWriter :: "'b handler \<Rightarrow> 'b handler" where
  "headWriter handler rq rs = (handler rq rs)\<lparr> rs_Body := rs_Body rs \<rparr>"

definition getOnly :: "'b handler \<Rightarrow> 'b handler" where
  "getOnly handler rq rs =
     (if rq_Method rq \<noteq> ''GET'' \<and> rq_Method rq \<noteq> ''HEAD''
      then http_Error ''Method Not Allowed'' StatusMethodNotAllowed (Header_Set ''Allow'' ''GET, HEAD'' rs)
      else if rq_Method rq = ''HEAD'' then headWriter handler rq rs
      else handler rq rs)"

section \<open>Readiness\<close>

definition not_ready :: "string \<Rightarrow> int \<times> statusResponse" where
  "not_ready reason = (StatusServiceUnavailable, \<lparr> sr_Status = ''not_ready'', sr_Reason = reason \<rparr>)"

fun readiness :: "SnapshotView \<Rightarrow> CollectorID list \<Rightarrow> int \<times> statusResponse" where
  "readiness view [] = (StatusOK, \<lparr> sr_Status = ''ready'', sr_Reason = '''' \<rparr>)"
| "readiness view (cid # rest) =
     (case map_of (v_Collectors view) cid of
        None \<Rightarrow> not_ready ''missing''
      | Some status \<Rightarrow>
          if IsZero (LastSuccess status) then not_ready ''missing''
          else if Freshness status = FreshnessFresh \<or> Freshness status = FreshnessAging then readiness view rest
          else if Freshness status = FreshnessStale then not_ready ''stale''
          else not_ready ''missing'')"

section \<open>The server\<close>

definition HttpServer_ErrInvalidConfig :: go_error where
  "HttpServer_ErrInvalidConfig = Sentinel ''invalid HTTP server configuration''"

record HandlerOpts =
  ho_Timeout :: duration
  ho_MaxRequestsInFlight :: int
  ho_EnableOpenMetrics :: bool

datatype pprof_page = PprofIndex | PprofProfile | PprofSymbol | PprofTrace

text \<open>The configuration is kept by the closures of the handler.\<close>

record Server =
  hs_value :: ServerConfig
  hs_ids :: "CollectorID list"
  hs_build :: Info
  hs_opts :: HandlerOpts
  hs_shutdownTimeout :: duration
  hs_draining :: bool

definition add_required :: "CollectorID list \<Rightarrow> CollectorID \<Rightarrow> go_error + CollectorID list" where
  "add_required ids cid =
     (if \<not> CollectorID_Valid cid \<or> cid \<in> set ids then Inl HttpServer_ErrInvalidConfig else Inr (ids @ [cid]))"

definition HttpServer_New ::
  "ServerConfig \<Rightarrow> 'g option \<Rightarrow> 'r option \<Rightarrow> CollectorID list \<Rightarrow> Info \<Rightarrow> go_error + Server" where
  "HttpServer_New v gatherer reader required build =
     (if gatherer = None \<or> reader = None \<or> required = [] then Inl HttpServer_ErrInvalidConfig
      else if ValidateServer v \<noteq> None then Inl HttpServer_ErrInvalidConfig
      else case range_err add_required [] required of
             Inl err \<Rightarrow> Inl err
           | Inr ids \<Rightarrow>
               Inr \<lparr> hs_value = v, hs_ids = ids, hs_build = build,
                     hs_opts = \<lparr> ho_Timeout = quo (sv_WriteTimeout v) 2, ho_MaxRequestsInFlight = sv_MaxInFlight v,
                                 ho_EnableOpenMetrics = True \<rparr>,
                     hs_shutdownTimeout = sv_ShutdownTimeout v, hs_draining = False \<rparr>)"

definition servePprof :: "(pprof_page \<Rightarrow> 'b handler) \<Rightarrow> 'b handler" where
  "servePprof pprof rq =
     (if rq_Path rq = ''/debug/pprof/cmdline'' then http_NotFound rq
      else if rq_Path rq = ''/debug/pprof/profile'' then pprof PprofProfile rq
      else if rq_Path rq = ''/debug/pprof/symbol'' then pprof PprofSymbol rq
      else if rq_Path rq = ''/debug/pprof/trace'' then pprof PprofTrace rq
      else pprof PprofIndex rq)"

definition health :: "'b handler" where
  "health rq = writeJSON rq StatusOK (JSON_Status \<lparr> sr_Status = ''ok'', sr_Reason = '''' \<rparr>)"

definition ready :: "Server \<Rightarrow> SnapshotView \<Rightarrow> 'b handler" where
  "ready server view rq =
     (if hs_draining server
      then writeJSON rq StatusServiceUnavailable (JSON_Status \<lparr> sr_Status = ''not_ready'', sr_Reason = ''shutting_down'' \<rparr>)
      else let (code, payload) = readiness view (hs_ids server) in writeJSON rq code (JSON_Status payload))"

definition versionHandler :: "Server \<Rightarrow> 'b handler" where
  "versionHandler server rq = writeJSON rq StatusOK (JSON_Info (hs_build server))"

definition debugIndex :: "'b handler" where
  "debugIndex rq = writeJSON rq StatusOK (JSON_Status \<lparr> sr_Status = ''enabled'', sr_Reason = '''' \<rparr>)"

definition root ::
  "(HandlerOpts \<Rightarrow> 'b handler) \<Rightarrow> (pprof_page \<Rightarrow> 'b handler) \<Rightarrow> SnapshotView \<Rightarrow> Server \<Rightarrow> 'b handler" where
  "root promhttp pprof view server rq =
     (let path = rq_Path rq; v = hs_value server
      in if sv_DebugEnabled v \<and> path = ''/debug'' then getOnly debugIndex rq
         else if sv_DebugEnabled v \<and> (path = ''/debug/pprof'' \<or> HasPrefix path ''/debug/pprof/'')
         then getOnly (servePprof pprof) rq
         else if path = sv_MetricsPath v then getOnly (promhttp (hs_opts server)) rq
         else if path = ''/healthz'' then getOnly health rq
         else if path = ''/ready'' then getOnly (ready server view) rq
         else if path = ''/version'' then getOnly (versionHandler server) rq
         else http_NotFound rq)"

definition Server_Handler ::
  "(HandlerOpts \<Rightarrow> 'b handler) \<Rightarrow> (pprof_page \<Rightarrow> 'b handler) \<Rightarrow> SnapshotView \<Rightarrow> Server \<Rightarrow> 'b handler" where
  "Server_Handler promhttp pprof view server rq rs =
     root promhttp pprof view server rq (Header_Set ''X-Content-Type-Options'' ''nosniff'' rs)"

definition BeginShutdown :: "Server \<Rightarrow> Server" where
  "BeginShutdown server = server\<lparr> hs_draining := True \<rparr>"

definition ShutdownTimeout :: "Server \<Rightarrow> duration" where
  "ShutdownTimeout server = hs_shutdownTimeout server"

text \<open>One request against the server, from an empty response.\<close>

definition serve ::
  "(HandlerOpts \<Rightarrow> 'b handler) \<Rightarrow> (pprof_page \<Rightarrow> 'b handler) \<Rightarrow> SnapshotView \<Rightarrow> Server \<Rightarrow> string \<Rightarrow> string \<Rightarrow> 'b http_response" where
  "serve promhttp pprof view server verb path =
     Server_Handler promhttp pprof view server \<lparr> rq_Method = verb, rq_Path = path \<rparr> new_response"

section \<open>Readiness reflects the cache\<close>

definition current_success :: "Store \<Rightarrow> time \<Rightarrow> CollectorID \<Rightarrow> bool" where
  "current_success s now cid \<longleftrightarrow>
     (\<exists>p. part_of s cid = Some p) \<and>
     \<not> IsZero (LastSuccess (status_of (statuses (current s)) cid)) \<and>
     now - LastSuccess (status_of (statuses (current s)) cid) \<le> staleAfter s"

lemma add_required_all:
  "distinct acc \<Longrightarrow> range_err add_required acc ids =
     (if distinct (acc @ ids) \<and> (\<forall>i \<in> set ids. CollectorID_Valid i) then Inr (acc @ ids)
      else Inl HttpServer_ErrInvalidConfig)"
proof (induction ids arbitrary: acc)
  case (Cons i ids)
  then show ?case using Cons.IH [of "acc @ [i]"] by (auto simp: add_required_def)
qed simp

lemmas required_ids = add_required_all [of "[]", simplified]

lemma HttpServer_New_ok:
  assumes "HttpServer_New v gatherer reader required build = Inr server"
  shows "hs_value server = v" "hs_ids server = required" "\<not> hs_draining server" "ValidateServer v = None"
    "ho_MaxRequestsInFlight (hs_opts server) = sv_MaxInFlight v" "hs_build server = build"
  using assms by (auto simp: HttpServer_New_def required_ids split: if_splits)

lemma reserved_paths:
  assumes "ValidateServer v = None"
  shows "sv_MetricsPath v \<noteq> ''/healthz''" "sv_MetricsPath v \<noteq> ''/ready''" "sv_MetricsPath v \<noteq> ''/version''"
    and "sv_DebugEnabled v \<Longrightarrow> sv_MetricsPath v \<noteq> ''/debug'' \<and> sv_MetricsPath v \<noteq> ''/debug/pprof'' \<and>
           \<not> HasPrefix (sv_MetricsPath v) ''/debug/pprof/''"
  using assms by (auto simp: ValidateServer_def reservedMetricsPath_def)

lemma readiness_codes: "fst (readiness view ids) \<in> {StatusOK, StatusServiceUnavailable}"
  by (induction ids) (auto simp: not_ready_def split: option.splits)

lemma readiness_ok_iff:
  "fst (readiness view ids) = StatusOK \<longleftrightarrow>
     (\<forall>cid \<in> set ids. \<exists>status. map_of (v_Collectors view) cid = Some status \<and> \<not> IsZero (LastSuccess status) \<and>
        (Freshness status = FreshnessFresh \<or> Freshness status = FreshnessAging))"
  by (induction ids) (auto simp: not_ready_def status_codes split: option.splits)

lemma Load_status:
  "map_of (v_Collectors (Load now s)) cid =
     map_option (\<lambda>st. st\<lparr> Freshness := freshness s now (LastSuccess st) \<rparr>) (map_of (statuses (current s)) cid)"
  by (simp add: Load_def map_of_map)

lemma not_stale_iff:
  assumes "0 < freshnessTTL s \<and> freshnessTTL s \<le> staleAfter s" and "staleAfter s < 2 ^ 63 - 1" and "\<not> IsZero t"
  shows "freshness s now t = FreshnessFresh \<or> freshness s now t = FreshnessAging \<longleftrightarrow> now - t \<le> staleAfter s"
  using assms by (auto simp: freshness_def Let_def Sub_def freshness_names min_def max_def)

lemma readiness_current:
  assumes "reach store_init store_step s" and "staleAfter s < 2 ^ 63 - 1"
  shows "fst (readiness (Load now s) ids) = StatusOK \<longleftrightarrow> (\<forall>cid \<in> set ids. current_success s now cid)"
proof -
  have ttl: "0 < freshnessTTL s \<and> freshnessTTL s \<le> staleAfter s" using reachable_store(1) [OF assms(1)] by (simp add: config_wf_def)
  have "(\<exists>status. map_of (v_Collectors (Load now s)) cid = Some status \<and> \<not> IsZero (LastSuccess status) \<and>
        (Freshness status = FreshnessFresh \<or> Freshness status = FreshnessAging)) \<longleftrightarrow> current_success s now cid" for cid
  proof (cases "map_of (statuses (current s)) cid")
    case None
    then show ?thesis by (simp add: Load_status current_success_def status_of_def zero_status_def IsZero_def)
  next
    case (Some st)
    have "LastSuccess st = 0" if "part_of s cid = None"
      using reachable_store(5) [OF assms(1), of cid] that Some by (simp add: status_ok_def status_of_def)
    then have "part_of s cid \<noteq> None" if "\<not> IsZero (LastSuccess st)"
      using that by (auto simp: IsZero_def)
    then show ?thesis
      using Some not_stale_iff [OF ttl assms(2), of "LastSuccess st" now]
      by (auto simp: Load_status current_success_def status_of_def)
  qed
  then show ?thesis by (simp add: readiness_ok_iff)
qed

lemma serve_ready:
  assumes "ValidateServer (hs_value server) = None"
  shows "serve promhttp pprof view server ''GET'' ''/ready'' =
    ready server view \<lparr> rq_Method = ''GET'', rq_Path = ''/ready'' \<rparr> (Header_Set ''X-Content-Type-Options'' ''nosniff'' new_response)"
  using reserved_paths(2) [OF assms] by (auto simp: serve_def Server_Handler_def root_def Let_def getOnly_def HasPrefix_def)

lemma writeJSON_code [simp]: "rs_Code (writeJSON rq code b rs) = (if rs_Code rs = None then Some code else rs_Code rs)"
  by (simp add: writeJSON_def Let_def WriteHeader_def Write_body_def Header_Set_def)

lemma nosniff_code [simp]: "rs_Code (Header_Set k v rs) = rs_Code rs" "rs_Code new_response = None"
  by (simp_all add: Header_Set_def new_response_def)

text \<open>
  C35. The readiness endpoint is exact: for every reachable cache it answers 200 if and only if every
  required collector has a part in the cache whose success is at most the staleness bound old, and
  503 otherwise; once shutdown has begun it answers 503 whatever the cache holds.
\<close>

theorem readiness_reflects_cache:
  assumes "reach store_init store_step s" and "staleAfter s < 2 ^ 63 - 1"
    and "HttpServer_New v gatherer reader required build = Inr server"
  shows "rs_Code (serve promhttp pprof (Load now s) server ''GET'' ''/ready'') =
      Some (if \<forall>cid \<in> set required. current_success s now cid then StatusOK else StatusServiceUnavailable) \<and>
    rs_Code (serve promhttp pprof (Load now s) (BeginShutdown server) ''GET'' ''/ready'') = Some StatusServiceUnavailable"
proof -
  note new = HttpServer_New_ok [OF assms(3)]
  have "rs_Code (serve promhttp pprof (Load now s) server ''GET'' ''/ready'') = Some (fst (readiness (Load now s) required))"
    using new by (simp add: serve_ready ready_def Let_def split: prod.split)
  moreover have "rs_Code (serve promhttp pprof (Load now s) (BeginShutdown server) ''GET'' ''/ready'') = Some StatusServiceUnavailable"
    using new by (simp add: serve_ready ready_def BeginShutdown_def)
  ultimately show ?thesis
    using readiness_current [OF assms(1,2), of now required] readiness_codes [of "Load now s" required] by auto
qed

section \<open>Routing\<close>

lemma getOnly_other:
  "verb \<noteq> ''GET'' \<Longrightarrow> verb \<noteq> ''HEAD'' \<Longrightarrow> getOnly handler \<lparr> rq_Method = verb, rq_Path = p \<rparr> rs =
     http_Error ''Method Not Allowed'' StatusMethodNotAllowed (Header_Set ''Allow'' ''GET, HEAD'' rs)"
  by (simp add: getOnly_def)

lemma http_Error_code [simp]: "rs_Code rs = None \<Longrightarrow> rs_Code (http_Error m code rs) = Some code"
  by (simp add: http_Error_def Write_body_def WriteHeader_def Header_Set_def)

text \<open>
  C36. The routes are isolated. The configured metrics path always reaches the metrics handler, with the
  configured in-flight limit; without debug mode every path under \<open>/debug\<close> is 404; the command line
  page of pprof is 404 in debug mode as well; a method other than GET and HEAD runs no handler at all:
  its answer is 404 or 405 and depends neither on the cache nor on any handler; and a HEAD request on the three
  status endpoints has the code of GET and no body.
\<close>

theorem endpoints_isolated:
  assumes "HttpServer_New v gatherer reader required build = Inr server"
  shows "serve promhttp pprof view server ''GET'' (sv_MetricsPath v) =
      promhttp (hs_opts server) \<lparr> rq_Method = ''GET'', rq_Path = sv_MetricsPath v \<rparr>
        (Header_Set ''X-Content-Type-Options'' ''nosniff'' new_response) \<and>
    ho_MaxRequestsInFlight (hs_opts server) = sv_MaxInFlight v \<and>
    (\<not> sv_DebugEnabled v \<and> HasPrefix path ''/debug'' \<and> path \<noteq> sv_MetricsPath v \<longrightarrow>
       rs_Code (serve promhttp pprof view server verb path) = Some StatusNotFound) \<and>
    (sv_DebugEnabled v \<longrightarrow>
       rs_Code (serve promhttp pprof view server ''GET'' ''/debug/pprof/cmdline'') = Some StatusNotFound) \<and>
    (verb \<noteq> ''GET'' \<and> verb \<noteq> ''HEAD'' \<longrightarrow>
       serve promhttp pprof view server verb path = serve promhttp' pprof' view' server verb path \<and>
       rs_Code (serve promhttp pprof view server verb path) \<in> {Some StatusNotFound, Some StatusMethodNotAllowed}) \<and>
    (path \<in> {''/healthz'', ''/ready'', ''/version''} \<longrightarrow>
       rs_Code (serve promhttp pprof view server ''HEAD'' path) = rs_Code (serve promhttp pprof view server ''GET'' path) \<and>
       rs_Body (serve promhttp pprof view server ''HEAD'' path) = [])"
    (is "?metrics \<and> ?limit \<and> ?debug \<and> ?cmdline \<and> ?verbs \<and> ?head")
proof (intro conjI)
  note new = HttpServer_New_ok [OF assms]
  note paths = reserved_paths [OF new(4)]
  note route = serve_def Server_Handler_def root_def Let_def
  show ?metrics using paths new by (auto simp: route getOnly_def)
  show ?limit using new by simp
  show ?debug using new by (auto simp: route http_NotFound_def HasPrefix_def)
  show ?cmdline using new paths(4) by (auto simp: route getOnly_def servePprof_def http_NotFound_def HasPrefix_def)
  show ?verbs by (auto simp: route getOnly_other http_NotFound_def)
  show ?head
    using new paths
    by (auto simp: route getOnly_def headWriter_def health_def ready_def versionHandler_def HasPrefix_def new_response_def
        Header_Set_def split: prod.split)
qed

section \<open>Witnesses\<close>

definition sample_server :: Server where
  "sample_server = projr (HttpServer_New default_server (Some ()) (Some ()) [sample_id ''total'']
     (version_Current ''dev'' ''r1'' ''today'' ''go1''))"

lemma sample_server_new:
  "HttpServer_New default_server (Some ()) (Some ()) [sample_id ''total''] (version_Current ''dev'' ''r1'' ''today'' ''go1'')
     = Inr sample_server"
  by code_simp

theorem readiness_reflects_cache_witness:
  "current_success store1 9 (sample_id ''total'') \<and> \<not> current_success store1 90 (sample_id ''total'') \<and>
   rs_Code (serve (\<lambda>_ _ rs. rs) (\<lambda>_ _ rs. rs) (Load 9 store1) sample_server ''GET'' ''/ready'' :: unit http_response) = Some 200 \<and>
   rs_Code (serve (\<lambda>_ _ rs. rs) (\<lambda>_ _ rs. rs) (Load 90 store1) sample_server ''GET'' ''/ready'' :: unit http_response) = Some 503"
proof -
  have st: "LastSuccess (status_of (statuses (current store1)) (sample_id ''total'')) = 5"
    "staleAfter store1 = 20" "part_of store1 (sample_id ''total'') = Some (sample_part ''a'')" by code_simp+
  then have "staleAfter store1 < 2 ^ 63 - 1" by simp
  note exact = readiness_reflects_cache [OF store2_reach(1) this sample_server_new, of "\<lambda>_ _ rs :: unit http_response. rs" "\<lambda>_ _ rs. rs"]
  from exact [of 9] exact [of 90] st show ?thesis by (simp add: current_success_def IsZero_def status_codes)
qed

theorem endpoints_isolated_witness:
  "rs_Code (serve (\<lambda>_ _. WriteHeader 200) (\<lambda>_ _ rs. rs) (Load 9 store1) sample_server ''POST'' ''/debug/pprof''
     :: unit http_response) = Some 404"
proof -
  have "\<not> sv_DebugEnabled default_server" "''/debug/pprof'' \<noteq> sv_MetricsPath default_server" "HasPrefix ''/debug/pprof'' ''/debug''"
    by code_simp+
  with endpoints_isolated [OF sample_server_new, of "\<lambda>_ _. WriteHeader 200 :: unit http_response \<Rightarrow> _" "\<lambda>_ _ rs. rs" "Load 9 store1"
      "''/debug/pprof''" "''POST''" "\<lambda>_ _ rs. rs" "\<lambda>_ _ rs. rs" "Load 9 store1"]
  show ?thesis unfolding status_codes by blast
qed

end
