(* ===== verification/Logging.thy ===== *)
theory Logging
  imports Config_Validation
begin

text \<open>
  \<open>internal/logging\<close>: the logger's level, format and the redaction of attributes. The handlers of
  \<open>log/slog\<close> call \<open>ReplaceAttr\<close> for every attribute they write; a logger is the options it was
  built with.
\<close>

section \<open>Levels\<close>

text \<open>\<open>strconv.Atoi\<close> on the offset of a level: a sign and digits, within the range of \<open>int\<close>.\<close>

definition Atoi_offset :: "string \<Rightarrow> int option" where
  "Atoi_offset s =
     (case s of
        [] \<Rightarrow> None
      | sign # digits \<Rightarrow>
          if digits = [] \<or> \<not> list_all is_digit digits then None
          else let n = foldl (\<lambda>a c. 10 * a + (int (of_char c) - 48)) 0 digits;
                   r = (if sign = CHR ''-'' then - n else n)
               in if - (2 ^ 63) \<le> r \<and> r < 2 ^ 63 then Some r else None)"

text \<open>
  \<open>slog.Level.UnmarshalText\<close>: a name without regard to case and an optional signed offset. The
  four names are ASCII, so comparing lower-case forms of ASCII texts is comparing upper-case ones.
\<close>

definition level_names :: "(string \<times> int) list" where
  "level_names = [(''debug'', -4), (''info'', 0), (''warn'', 4), (''error'', 8)]"

definition UnmarshalLevel :: "string \<Rightarrow> go_error + int" where
  "UnmarshalLevel s =
     (let name = takeWhile (\<lambda>c. c \<noteq> CHR ''+'' \<and> c \<noteq> CHR ''-'') s; rest = dropWhile (\<lambda>c. c \<noteq> CHR ''+'' \<and> c \<noteq> CHR ''-'') s
      in case (if rest = [] then Some 0 else Atoi_offset rest) of
           None \<Rightarrow> Inl (Sentinel ''slog: level string: invalid offset'')
         | Some offset \<Rightarrow>
             (case map_of level_names (map lower_char name) of
                None \<Rightarrow> Inl (Sentinel ''slog: level string: unknown name'')
              | Some l \<Rightarrow> Inr (wrap64 (l + offset))))"

section \<open>logging.go\<close>

definition redactedValue :: string where "redactedValue = ''[REDACTED]''"

record 'v Attr =
  attr_Key :: string
  attr_Value :: "'v + string"

text \<open>The value is either one of the caller's, or a string the logger puts in its place.\<close>

definition sensitive_fragments :: "string list" where
  "sensitive_fragments =
     [''access_key'', ''authorization'', ''credential'', ''password'', ''private_key'', ''secret'', ''token'']"

definition isSensitiveKey :: "string \<Rightarrow> bool" where
  "isSensitiveKey key \<longleftrightarrow> list_ex (Contains (ToLower key)) sensitive_fragments"

definition redactAttribute :: "'v Attr \<Rightarrow> 'v Attr" where
  "redactAttribute attribute =
     (if isSensitiveKey (attr_Key attribute)
      then \<lparr> attr_Key = attr_Key attribute, attr_Value = Inr redactedValue \<rparr> else attribute)"

datatype log_handler = JSONHandler | TextHandler

record Logger =
  lo_Handler :: log_handler
  lo_AddSource :: bool
  lo_Level :: int

definition Logging_New :: "LogConfig \<Rightarrow> 'o option \<Rightarrow> go_error + Logger" where
  "Logging_New v output =
     (if output = None then Inl (Sentinel ''log output must not be nil'')
      else case UnmarshalLevel (TrimSpace (lg_Level v)) of
             Inl err \<Rightarrow> Inl (Wrapped ''log.level'' err)
           | Inr level \<Rightarrow>
               let format = ToLower (TrimSpace (lg_Format v))
               in if format = ''json'' then Inr \<lparr> lo_Handler = JSONHandler, lo_AddSource = lg_AddSource v, lo_Level = level \<rparr>
                  else if format = ''text'' then Inr \<lparr> lo_Handler = TextHandler, lo_AddSource = lg_AddSource v, lo_Level = level \<rparr>
                  else Inl (Sentinel ''log.format: unsupported format''))"

text \<open>What a handler writes of the attributes of a record.\<close>

definition written :: "'v Attr list \<Rightarrow> 'v Attr list" where
  "written attrs = map redactAttribute attrs"

lemma validated_logger:
  assumes "validateBase v = None"
  shows "\<exists>l. Logging_New (cf_Log v) (Some out) = Inr l"
proof -
  have "lg_Level (cf_Log v) \<in> set [''debug'', ''info'', ''warn'', ''error'']" "lg_Format (cf_Log v) \<in> set [''json'', ''text'']"
    using assms by (simp_all add: validateBase_def Let_def log_checks_def)
  moreover have "list_all (\<lambda>l. \<exists>n. UnmarshalLevel (TrimSpace l) = Inr n) [''debug'', ''info'', ''warn'', ''error'']"
  proof -
    have "map (\<lambda>l. UnmarshalLevel (TrimSpace l)) [''debug'', ''info'', ''warn'', ''error''] = [Inr (-4), Inr 0, Inr 4, Inr 8]"
      by code_simp
    then show ?thesis by simp
  qed
  moreover have "list_all (\<lambda>f. ToLower (TrimSpace f) = f) [''json'', ''text'']" by code_simp
  ultimately show ?thesis by (auto simp: Logging_New_def)
qed

lemma redaction_covers: "isSensitiveKey (pre @ fragment @ post)" if "fragment \<in> set sensitive_fragments"
  and "ToLower (pre @ fragment @ post) = ToLower pre @ fragment @ ToLower post"
  using that by (auto simp: isSensitiveKey_def list_ex_iff Contains_iff)

end
