(* ===== verification/Bootstrap.thy ===== *)
theory Bootstrap
  imports Client_Factory Athena_Reader Http_Server Logging
begin

text \<open>
  \<open>internal/app\<close>: the composition of the process. Construction is translated in full: which
  collector is built for which target, over which reader, with which limits, interval and
  verifier, and in which order the constructors can fail. A built collector is the value of its
  constructor with the readers it was given. \<open>RunServices\<close> is a function of what the environment
  does: which channel is ready first, when the scheduler returns, what the server answers.
\<close>

section \<open>Identities\<close>

definition cost_collector_flags :: "CollectorsConfig \<Rightarrow> (string \<times> bool) list" where
  "cost_collector_flags c =
     [(''total'', en_Total c), (''service'', en_Service c), (''region'', en_Region c), (''account'', en_Account c),
      (''forecast'', en_Forecast c)]"

definition enabled_ids :: "TargetID \<Rightarrow> (string \<times> bool) list \<Rightarrow> CollectorID list" where
  "enabled_ids target items = map (\<lambda>(name, _). \<lparr> id_Target = target, id_Name = name \<rparr>) (filter snd items)"

definition target_collector_ids :: "Config \<Rightarrow> TargetConfig \<Rightarrow> CollectorID list" where
  "target_collector_ids v t =
     (if tg_CostExplorerEnabled t
      then enabled_ids (tg_Name t) (cost_collector_flags (ce_Collectors (cl_CostExplorer (cf_Collection v))) @ [(''tags'', tg_TagsEnabled t)])
      else []) @
     enabled_ids (tg_Name t)
       [(''organizations'', tg_OrganizationsEnabled t), (''budgets'', tg_BudgetsEnabled t), (''commitments'', tg_CommitmentsEnabled t),
        (''anomalies'', tg_AnomaliesEnabled t), (''cur'', cu_Enabled (tg_CUR t))]"

definition configuredCollectorIDs :: "Config \<Rightarrow> CollectorID list" where
  "configuredCollectorIDs v = concat (map (target_collector_ids v) (cf_Targets v))"

definition organizationPolicies :: "Config \<Rightarrow> (TargetID, OrganizationPolicy) gomap" where
  "organizationPolicies v =
     foldl (\<lambda>m t. if tg_OrganizationsEnabled t
                  then AList.update (tg_Name t)
                         \<lparr> AccountIDs = tg_AccountIDs t, SeriesLimit = dc_SeriesLimit (cl_Organizations (cf_Collection v)) \<rparr> m
                  else m) [] (cf_Targets v)"

definition configuredCostBases :: "string list \<Rightarrow> string list" where
  "configuredCostBases vals = map (\<lambda>b. b) vals"

definition unfilteredGroupedCollectors :: "Config \<Rightarrow> TargetConfig \<Rightarrow> bool" where
  "unfilteredGroupedCollectors v t \<longleftrightarrow>
     (let c = ce_Collectors (cl_CostExplorer (cf_Collection v)); f = tg_Filters t
      in tg_CostExplorerEnabled t \<and> (en_Service c \<or> en_Region c \<or> en_Account c) \<and>
         flt_LinkedAccountIDs f = [] \<and> flt_Services f = [] \<and> flt_Regions f = [])"

section \<open>Collectors with their readers\<close>

definition ErrNilForecastAPI :: go_error where
  "ErrNilForecastAPI = Sentinel ''cost explorer forecast API must not be nil''"

definition NewForecastAdapter :: "'api option \<Rightarrow> go_error + 'api" where
  "NewForecastAdapter api = (case api of None \<Rightarrow> Inl ErrNilForecastAPI | Some a \<Rightarrow> Inr a)"

record filteredReader =
  fr_UsageAdapter :: UsageAdapter
  fr_ForecastAdapter :: InstrumentedClient
  fr_filters :: FiltersConfig
  fr_bases :: "string list"

datatype Collector =
    TotalC TotalCollector filteredReader
  | ServiceC GroupedCollector filteredReader
  | RegionC GroupedCollector filteredReader
  | AccountC GroupedCollector filteredReader
  | ForecastC ForecastCollector filteredReader
  | TagsC TagCollector filteredReader
  | OrganizationsC CollectorID OrganizationsReader
  | BudgetsC CollectorID BudgetsReader
  | CommitmentsC SeriesCollector CEReader
  | AnomaliesC SeriesCollector CEReader
  | CURC CURCollector AthenaReader

fun Collector_ID :: "Collector \<Rightarrow> CollectorID" where
  "Collector_ID (TotalC c r) = total_id c"
| "Collector_ID (ServiceC c r) = gc_id c"
| "Collector_ID (RegionC c r) = gc_id c"
| "Collector_ID (AccountC c r) = gc_id c"
| "Collector_ID (ForecastC c r) = fc_id c"
| "Collector_ID (TagsC c r) = \<lparr> id_Target = tg_target c, id_Name = ''tags'' \<rparr>"
| "Collector_ID (OrganizationsC c r) = c"
| "Collector_ID (BudgetsC c r) = c"
| "Collector_ID (CommitmentsC c r) = \<lparr> id_Target = sc_target c, id_Name = ''commitments'' \<rparr>"
| "Collector_ID (AnomaliesC c r) = \<lparr> id_Target = sc_target c, id_Name = ''anomalies'' \<rparr>"
| "Collector_ID (CURC c r) = \<lparr> id_Target = cur_target c, id_Name = ''cur'' \<rparr>"

text \<open>What the collectors of a target report of their overflow goes to the exporter under its target.\<close>

fun targetOverflowObserver_ObserveOverflow :: "TargetID overflow_event \<Rightarrow> Exporter \<Rightarrow> Exporter option" where
  "targetOverflowObserver_ObserveOverflow (ObserveOverflow target dimension n) telemetry = Exporter_ObserveOverflow target dimension n telemetry"

text \<open>\<open>verifiedCollector\<close>: identity is that of the collector; collection waits for the verifier.\<close>

record 'c verifiedCollector =
  vc_Collector :: Collector
  vc_verifier :: "'c Verifier"

definition verifiedCollector_Collect ::
  "('s \<Rightarrow> 's \<times> go_error option) \<Rightarrow> (time \<Rightarrow> ('s, Snapshot) action) \<Rightarrow> time \<Rightarrow> ('s, Snapshot) action" where
  "verifiedCollector_Collect verify collect reference s =
     (case verify s of
        (s1, Some err) \<Rightarrow> (s1, Inl err)
      | (s1, None) \<Rightarrow> collect reference s1)"

record 'c built_job =
  bj_Collector :: "'c verifiedCollector"
  bj_Interval :: duration
  bj_StartupRefresh :: bool

definition scheduler_job :: "'c built_job \<Rightarrow> Job" where
  "scheduler_job j = \<lparr> j_Collector = Some (Collector_ID (vc_Collector (bj_Collector j))), j_Interval = bj_Interval j,
                       j_StartupRefresh = bj_StartupRefresh j \<rparr>"

definition new_job :: "Config \<Rightarrow> 'c Clients \<Rightarrow> duration \<Rightarrow> Collector \<Rightarrow> 'c built_job" where
  "new_job v clients interval c =
     \<lparr> bj_Collector = \<lparr> vc_Collector = c, vc_verifier = cs_Verifier clients \<rparr>, bj_Interval = interval,
       bj_StartupRefresh = cl_StartupRefresh (cf_Collection v) \<rparr>"

section \<open>buildCostCollectors\<close>

definition wrap :: "('a \<Rightarrow> Collector) \<Rightarrow> go_error + 'a \<Rightarrow> go_error + Collector" where
  "wrap f r = bind_err r (\<lambda>c. Inr (f c))"

definition add_collector :: "Collector list \<Rightarrow> bool \<times> (go_error + Collector) \<Rightarrow> go_error + Collector list" where
  "add_collector result = (\<lambda>(enabled, build).
     if \<not> enabled then Inr result else bind_err build (\<lambda>c. Inr (result @ [c])))"

definition buildCostCollectors :: "TargetID \<Rightarrow> filteredReader \<Rightarrow> TargetConfig \<Rightarrow> Config \<Rightarrow> go_error + Collector list" where
  "buildCostCollectors target reader t v =
     (let settings = cl_CostExplorer (cf_Collection v); c = ce_Collectors settings;
          limit = dm_SeriesLimit (ce_Dimensions settings); label = dm_OverflowLabel (ce_Dimensions settings)
      in range_err add_collector []
           [(en_Total c, wrap (\<lambda>x. TotalC x reader) (Total_NewForTarget target (Some reader))),
            (en_Service c, wrap (\<lambda>x. ServiceC x reader) (Service_NewForTarget target (Some reader) limit label)),
            (en_Region c, wrap (\<lambda>x. RegionC x reader) (Region_NewForTarget target (Some reader) limit label)),
            (en_Account c, wrap (\<lambda>x. AccountC x reader)
               (Account_NewForTarget target (Some reader) (flt_LinkedAccountIDs (tg_Filters t)) limit label)),
            (en_Forecast c, wrap (\<lambda>x. ForecastC x reader) (Forecast_NewForTarget target (Some reader) (ce_PredictionInterval settings)))])"

section \<open>buildJobs\<close>

type_synonym 'c built = "'c built_job list \<times> CollectorID list"

text \<open>The Cost Explorer block: the cost collectors, and the tag collector over its own page limit.\<close>

definition build_tags :: "Config \<Rightarrow> TargetConfig \<Rightarrow> InstrumentedClient \<Rightarrow> go_error + Collector" where
  "build_tags v t instrumented =
     (let col = cf_Collection v; target = tg_Name t; bases = configuredCostBases (ce_CostBases (cl_CostExplorer col))
      in bind_err (NewUsageAdapterForTarget target (Some instrumented) (dc_MaxPages (cl_Tags col)) ''UnblendedCost'') (\<lambda>usage.
           let reader = \<lparr> fr_UsageAdapter = usage, fr_ForecastAdapter = instrumented, fr_filters = tg_Filters t, fr_bases = bases \<rparr>
           in wrap (\<lambda>c. TagsC c reader)
                (Tags_New target (Some reader) bases (tg_TagKeys t) (dc_SeriesLimit (cl_Tags col))
                   (dm_OverflowLabel (ce_Dimensions (cl_CostExplorer col))))))"

definition build_cost_explorer :: "Config \<Rightarrow> TargetConfig \<Rightarrow> 'c Clients \<Rightarrow> 'c built \<Rightarrow> go_error + 'c built" where
  "build_cost_explorer v t clients = (\<lambda>(jobs, required).
     let col = cf_Collection v; target = tg_Name t
     in bind_err (NewInstrumented target (Some (cs_CostExplorer clients))) (\<lambda>instrumented.
        bind_err (NewUsageAdapterForTarget target (Some instrumented) (ce_MaxPages (cl_CostExplorer col)) ''UnblendedCost'') (\<lambda>usage.
        bind_err (NewForecastAdapter (Some instrumented)) (\<lambda>forecastReader.
        let reader = \<lparr> fr_UsageAdapter = usage, fr_ForecastAdapter = forecastReader, fr_filters = tg_Filters t,
                       fr_bases = configuredCostBases (ce_CostBases (cl_CostExplorer col)) \<rparr>
        in bind_err (buildCostCollectors target reader t v) (\<lambda>cs.
           let jobs1 = jobs @ map (new_job v clients (cl_RefreshInterval col)) cs;
               required1 = (if tg_Required t then required @ map Collector_ID cs else required)
           in if \<not> tg_TagsEnabled t then Inr (jobs1, required1)
              else bind_err (build_tags v t instrumented) (\<lambda>c.
                Inr (jobs1 @ [new_job v clients (dc_RefreshInterval (cl_Tags col)) c], required1)))))))"

text \<open>An optional domain: a reader, a collector over it, and one job when it is enabled.\<close>

definition add_domain ::
  "Config \<Rightarrow> 'c Clients \<Rightarrow> bool \<Rightarrow> duration \<Rightarrow> go_error + Collector \<Rightarrow> 'c built \<Rightarrow> go_error + 'c built" where
  "add_domain v clients enabled interval build = (\<lambda>(jobs, required).
     if \<not> enabled then Inr (jobs, required)
     else bind_err build (\<lambda>c. Inr (jobs @ [new_job v clients interval c], required)))"

definition build_organizations :: "Config \<Rightarrow> TargetConfig \<Rightarrow> 'c Clients \<Rightarrow> go_error + Collector" where
  "build_organizations v t clients =
     (let d = cl_Organizations (cf_Collection v)
      in bind_err (OrganizationsReader_New (tg_Name t) (Some (cs_Organizations clients)) (dc_MaxPages d)
                     \<lparr> AccountIDs = tg_AccountIDs t, SeriesLimit = dc_SeriesLimit d \<rparr> (Some (cs_Retryer clients))) (\<lambda>reader.
           wrap (\<lambda>c. OrganizationsC c reader) (Organizations_New (tg_Name t) (Some reader))))"

definition build_budgets :: "Config \<Rightarrow> TargetConfig \<Rightarrow> 'c Clients \<Rightarrow> go_error + Collector" where
  "build_budgets v t clients =
     bind_err (BudgetsReader_New (tg_Name t) (tg_AccountID t) (Some (cs_Budgets clients)) (dc_MaxPages (cl_Budgets (cf_Collection v)))
                 (tg_BudgetNames t) (Some (cs_Retryer clients))) (\<lambda>reader.
       wrap (\<lambda>c. BudgetsC c reader) (Budgets_New (tg_Name t) (Some reader)))"

definition build_commitments :: "Config \<Rightarrow> TargetConfig \<Rightarrow> 'c Clients \<Rightarrow> go_error + Collector" where
  "build_commitments v t clients =
     bind_err (NewCommitmentReader (tg_Name t) (Some (cs_CostExplorer clients)) (dc_MaxPages (cl_Commitments (cf_Collection v)))) (\<lambda>reader.
       wrap (\<lambda>c. CommitmentsC c reader)
         (Commitments_New (tg_Name t) (Some reader) (dc_SeriesLimit (cl_Commitments (cf_Collection v)))))"

definition build_anomalies :: "Config \<Rightarrow> TargetConfig \<Rightarrow> 'c Clients \<Rightarrow> go_error + Collector" where
  "build_anomalies v t clients =
     bind_err (NewAnomalyReader (tg_Name t) (Some (cs_CostExplorer clients)) (dc_MaxPages (cl_Anomalies (cf_Collection v)))) (\<lambda>reader.
       wrap (\<lambda>c. AnomaliesC c reader)
         (Anomalies_New (tg_Name t) (Some reader) (dc_SeriesLimit (cl_Anomalies (cf_Collection v)))))"

definition build_cur :: "Config \<Rightarrow> TargetConfig \<Rightarrow> 'c Clients \<Rightarrow> go_error + Collector" where
  "build_cur v t clients =
     (let col = cf_Collection v
      in bind_err (AthenaReader_New (tg_Name t) (Some (cs_Athena clients)) (tg_CUR t) (dc_MaxPages (cl_CUR col)) (dc_MaxRows (cl_CUR col)))
           (\<lambda>reader. wrap (\<lambda>c. CURC c reader)
              (CUR_New (tg_Name t) (Some reader) (configuredCostBases (ce_CostBases (cl_CostExplorer col))) (tg_TagsEnabled t)
                 (dc_SeriesLimit (cl_CUR col)) (dc_SeriesLimit (cl_Tags col)) (dc_MaxCurrencies (cl_CUR col)) (tg_TagKeys t)
                 (dm_OverflowLabel (ce_Dimensions (cl_CostExplorer col))))))"

definition build_target ::
  "(string \<Rightarrow> string option) \<Rightarrow> 'c Factory option \<Rightarrow> Config \<Rightarrow> 'c built \<Rightarrow> TargetConfig \<Rightarrow> go_error + 'c built" where
  "build_target env factory v acc t =
     (case ForTarget env factory t of
        Inl err \<Rightarrow> Inl (Wrapped (''construct target '' @ tg_Name t @ '' AWS clients'') err)
      | Inr clients \<Rightarrow>
          let col = cf_Collection v
          in bind_err (if tg_CostExplorerEnabled t then build_cost_explorer v t clients acc else Inr acc) (\<lambda>acc1.
             bind_err (add_domain v clients (tg_OrganizationsEnabled t) (dc_RefreshInterval (cl_Organizations col))
                         (build_organizations v t clients) acc1) (\<lambda>acc2.
             bind_err (add_domain v clients (tg_BudgetsEnabled t) (dc_RefreshInterval (cl_Budgets col)) (build_budgets v t clients) acc2) (\<lambda>acc3.
             bind_err (add_domain v clients (tg_CommitmentsEnabled t) (dc_RefreshInterval (cl_Commitments col))
                         (build_commitments v t clients) acc3) (\<lambda>acc4.
             bind_err (add_domain v clients (tg_AnomaliesEnabled t) (dc_RefreshInterval (cl_Anomalies col))
                         (build_anomalies v t clients) acc4)
               (add_domain v clients (cu_Enabled (tg_CUR t)) (dc_RefreshInterval (cl_CUR col)) (build_cur v t clients)))))))"

definition buildJobs :: "(string \<Rightarrow> string option) \<Rightarrow> Config \<Rightarrow> 'c Factory option \<Rightarrow> go_error + 'c built" where
  "buildJobs env v factory = range_err (build_target env factory v) ([], []) (cf_Targets v)"

section \<open>Run: construction\<close>

text \<open>
  The Prometheus registry and the two library collectors are parameters: \<open>Register\<close> for the metric
  names already registered and those of the new collector, and the names the library collectors
  describe.
\<close>

record prometheus =
  pm_Register :: "string list \<Rightarrow> string list \<Rightarrow> go_error option"
  pm_GoCollector :: "string list"
  pm_ProcessCollector :: "string list"

definition register_collector :: "prometheus \<Rightarrow> string list \<Rightarrow> string list \<Rightarrow> go_error + string list" where
  "register_collector prom registered names =
     (case pm_Register prom registered names of Some err \<Rightarrow> Inl err | None \<Rightarrow> Inr (registered @ names))"

definition runner_config :: "Config \<Rightarrow> SchedulerConfig" where
  "runner_config v =
     (let col = cf_Collection v
      in \<lparr> sg_Interval = 0, sg_StartupRefresh = False, sg_JitterRatio = cl_JitterRatio col, sg_MaxConcurrency = cl_MaxConcurrency col,
           sg_Backoff = \<lparr> bc_MaxAttempts = bc_MaxAttempts (cl_FailureBackoff col), bc_Initial = bc_Initial (cl_FailureBackoff col),
                          bc_Max = bc_Max (cl_FailureBackoff col), bc_Multiplier = bc_Multiplier (cl_FailureBackoff col) \<rparr>,
           sg_Observer = True, sg_Logger = True \<rparr>)"

record 'c Process =
  pr_store :: Store
  pr_telemetry :: Exporter
  pr_jobs :: "'c built_job list"
  pr_registered :: "string list"
  pr_runner :: Runner
  pr_server :: Server

definition Run_construct ::
  "(string \<Rightarrow> string option) \<Rightarrow> (string \<Rightarrow> load_option list \<Rightarrow> go_error + 'c sdk_config) \<Rightarrow> prometheus \<Rightarrow> Info \<Rightarrow> Config \<Rightarrow>
   go_error + 'c Process" where
  "Run_construct env load prom build v =
     (let ids = configuredCollectorIDs v
      in if ids = [] then Inl (Sentinel ''no collectors enabled'')
         else
           bind_err (NewStore (Some ()) (cf_FreshnessTTL v) (cf_StaleAfter v) [Some (WithOrganizationPolicies (organizationPolicies v))]) (\<lambda>store.
           bind_err (NewExporter (Some store) (Some ()) build ids) (\<lambda>telemetry.
           bind_err (buildJobs env v (Some (Factory_New load env (cf_AWS v)))) (\<lambda>(jobs, required).
           bind_err (NewCostCollector (Some store)) (\<lambda>business.
           bind_err (range_err (register_collector prom) []
                       ([map fqName (Describe business), map fqName (Exporter_Describe telemetry)] @
                        (if cf_IncludeGoCollector v then [pm_GoCollector prom] else []) @
                        (if cf_IncludeProcessCollector v then [pm_ProcessCollector prom] else []))) (\<lambda>registered.
           bind_err (NewJobs (map scheduler_job jobs) (Some store) (Some ()) (runner_config v)) (\<lambda>runner.
           bind_err (HttpServer_New (cf_Server v) (Some registered) (Some store) required build) (\<lambda>server.
           Inr \<lparr> pr_store = store, pr_telemetry = telemetry, pr_jobs = jobs, pr_registered = registered, pr_runner = runner,
                 pr_server = server \<rparr>))))))))"

section \<open>RunServices\<close>

definition ErrServerClosed :: go_error where "ErrServerClosed = Sentinel ''http: Server closed''"

text \<open>
  The result of waiting for the scheduler, which returns after some time or never: it stopped, the
  timeout passed first, or the wait itself never ends. When both are due at the same time \<open>select\<close>
  may take either branch.
\<close>

datatype wait_result = Scheduler_Stopped | Scheduler_TimedOut

definition waitForScheduler :: "duration option \<Rightarrow> bool \<Rightarrow> duration \<Rightarrow> wait_result option" where
  "waitForScheduler finish tie timeout =
     (if timeout \<le> 0 then (case finish of None \<Rightarrow> None | Some _ \<Rightarrow> Some Scheduler_Stopped)
      else case finish of
             None \<Rightarrow> Some Scheduler_TimedOut
           | Some d \<Rightarrow> Some (if d < timeout \<or> d = timeout \<and> tie then Scheduler_Stopped else Scheduler_TimedOut))"

text \<open>What happens to the process, and what its parts answer.\<close>

datatype service_event = Readiness_Dropped | Work_Cancelled | Server_Shutdown | Timeout_Observed

datatype select_branch = Server_Returned "go_error option" | Context_Ended

record services =
  sv_branch :: select_branch
  sv_shutdownErr :: "go_error option"
  sv_serveErr :: "go_error option"
  sv_finish :: "duration option"
  sv_tie :: bool

definition wait_step ::
  "services \<Rightarrow> duration \<Rightarrow> Exporter \<times> service_event list \<Rightarrow> (Exporter \<times> service_event list) option" where
  "wait_step env timeout = (\<lambda>(telemetry, evs).
     (case waitForScheduler (sv_finish env) (sv_tie env) timeout of
        None \<Rightarrow> None
      | Some Scheduler_Stopped \<Rightarrow> Some (telemetry, evs)
      | Some Scheduler_TimedOut \<Rightarrow>
          map_option (\<lambda>telemetry'. (telemetry', evs @ [Timeout_Observed])) (ObserveSchedulerShutdownTimeout telemetry)))"

definition unless_closed :: "go_error option \<Rightarrow> go_error option" where
  "unless_closed err = (case err of None \<Rightarrow> None | Some e \<Rightarrow> if errors_Is e ErrServerClosed then None else Some e)"

text \<open>\<open>errors.Join\<close> of errors that may be nil is the list of the others; the empty list is nil.\<close>

definition errors_Join :: "go_error option list \<Rightarrow> go_error list" where
  "errors_Join errs = List.map_filter (\<lambda>e. e) errs"

definition RunServices ::
  "services \<Rightarrow> duration \<Rightarrow> Server \<Rightarrow> Exporter \<Rightarrow> (Server \<times> Exporter \<times> service_event list \<times> go_error list) option" where
  "RunServices env timeout server telemetry =
     (case sv_branch env of
        Server_Returned err \<Rightarrow>
          (case wait_step env timeout (telemetry, [Work_Cancelled]) of
             None \<Rightarrow> None
           | Some (telemetry', evs) \<Rightarrow> Some (server, telemetry', evs, errors_Join [unless_closed err]))
      | Context_Ended \<Rightarrow>
          let server' = BeginShutdown server
          in (case wait_step env timeout (telemetry, [Readiness_Dropped, Work_Cancelled, Server_Shutdown]) of
                None \<Rightarrow> None
              | Some (telemetry', evs) \<Rightarrow>
                  Some (server', telemetry', evs, errors_Join [sv_shutdownErr env, unless_closed (sv_serveErr env)])))"

section \<open>What validation gives the constructors\<close>

lemma validated_base:
  assumes "Validate env parseURL parseIP v = None"
  defines "col \<equiv> cf_Collection v" and "ce \<equiv> cl_CostExplorer (cf_Collection v)" and "timeout \<equiv> aw_RequestTimeout (cf_AWS v)"
  shows "0 < timeout" and "timeout < cl_RefreshInterval col" and "0 < ce_MaxPages ce"
    and "en_Forecast (ce_Collectors ce) \<Longrightarrow> 80 \<le> ce_PredictionInterval ce \<and> ce_PredictionInterval ce \<le> 99"
    and "0 < dm_SeriesLimit (ce_Dimensions ce)" and "TrimSpace (dm_OverflowLabel (ce_Dimensions ce)) \<noteq> ''''"
    and "\<exists>name on. (name, on) \<in> set (cost_collector_flags (ce_Collectors ce)) \<and> on"
    and "cl_RefreshInterval col \<le> cf_FreshnessTTL v" and "cf_FreshnessTTL v \<le> cf_StaleAfter v"
proof -
  have b: "validateBase v = None" using assms(1) by (simp add: Validate_def)
  then have c: "\<forall>c \<in> set (aws_checks (cf_AWS v)). \<not> vc_invalid c" "\<forall>c \<in> set (schedule_checks timeout col). \<not> vc_invalid c"
    "\<forall>c \<in> set (ce_checks ce). \<not> vc_invalid c"
    by (simp_all add: validateBase_def Let_def col_def ce_def timeout_def)
  from c(1) show "0 < timeout" by (simp add: aws_checks_def timeout_def)
  from c(2) show "timeout < cl_RefreshInterval col" by (simp add: schedule_checks_def)
  from c(3) show "0 < ce_MaxPages ce" "0 < dm_SeriesLimit (ce_Dimensions ce)"
    "en_Forecast (ce_Collectors ce) \<Longrightarrow> 80 \<le> ce_PredictionInterval ce \<and> ce_PredictionInterval ce \<le> 99"
    by (simp_all add: ce_checks_def Let_def)
  from c(3) show "TrimSpace (dm_OverflowLabel (ce_Dimensions ce)) \<noteq> ''''" by (auto simp: ce_checks_def Let_def)
  from c(3) have "en_Total (ce_Collectors ce) \<or> en_Service (ce_Collectors ce) \<or> en_Region (ce_Collectors ce) \<or>
      en_Account (ce_Collectors ce) \<or> en_Forecast (ce_Collectors ce)" by (simp add: ce_checks_def Let_def)
  then show "\<exists>name on. (name, on) \<in> set (cost_collector_flags (ce_Collectors ce)) \<and> on" by (auto simp: cost_collector_flags_def)
  from b show "cl_RefreshInterval col \<le> cf_FreshnessTTL v" "cf_FreshnessTTL v \<le> cf_StaleAfter v"
    by (simp_all add: validateBase_def Let_def col_def)
qed

text \<open>The interval, the pages and the series limit of an optional domain are positive.\<close>

definition domain_usable :: "'a DomainConfig_scheme \<Rightarrow> bool" where
  "domain_usable d \<longleftrightarrow> 0 < dc_RefreshInterval d \<and> 0 < dc_MaxPages d \<and> 0 < dc_SeriesLimit d"

lemma validated_domains:
  assumes "Validate env parseURL parseIP v = None"
  defines "col \<equiv> cf_Collection v"
  shows "domain_usable (cl_Organizations col)" and "domain_usable (cl_Budgets col)" and "domain_usable (cl_Commitments col)"
    and "domain_usable (cl_Anomalies col)" and "domain_usable (cl_Tags col)" and "domain_usable (cl_CUR col)"
    and "0 < dc_MaxRows (cl_CUR col)" and "0 < dc_MaxCurrencies (cl_CUR col)"
proof -
  have "validateBase v = None" using assms(1) by (simp add: Validate_def)
  then have d: "\<forall>c \<in> set (domain_checks (aw_RequestTimeout (cf_AWS v)) col). \<not> vc_invalid c" by (simp add: validateBase_def Let_def col_def)
  note t = validated_base(1) [OF assms(1)]
  from d t show "domain_usable (cl_Organizations col)" "domain_usable (cl_Budgets col)" "domain_usable (cl_Commitments col)"
    "domain_usable (cl_Anomalies col)" "domain_usable (cl_Tags col)" "domain_usable (cl_CUR col)"
    "0 < dc_MaxRows (cl_CUR col)" "0 < dc_MaxCurrencies (cl_CUR col)"
    by (simp_all add: domain_checks_def interval_check_def pages_check_def series_check_def domain_usable_def)
qed

lemma validated_runner:
  assumes "Validate env parseURL parseIP v = None" and "jobs_wf jobs"
  shows "runner_wf \<lparr> rn_jobs = jobs, rn_config = runner_config v \<rparr>"
proof -
  have "validateBase v = None" using assms(1) by (simp add: Validate_def)
  then have "\<forall>c \<in> set (schedule_checks (aw_RequestTimeout (cf_AWS v)) (cf_Collection v)). \<not> vc_invalid c"
    by (simp add: validateBase_def Let_def)
  then have "\<not> nonFinite (cl_JitterRatio (cf_Collection v))" "\<not> f64_lt (cl_JitterRatio (cf_Collection v)) (F_Fin 0)"
    "\<not> f64_lt (F_Fin (1/2)) (cl_JitterRatio (cf_Collection v))" "0 < cl_MaxConcurrency (cf_Collection v)"
    "1 \<le> bc_MaxAttempts (cl_FailureBackoff (cf_Collection v))" "bc_MaxAttempts (cl_FailureBackoff (cf_Collection v)) \<le> 10"
    "0 < bc_Initial (cl_FailureBackoff (cf_Collection v))"
    "bc_Initial (cl_FailureBackoff (cf_Collection v)) \<le> bc_Max (cl_FailureBackoff (cf_Collection v))"
    "\<not> nonFinite (bc_Multiplier (cl_FailureBackoff (cf_Collection v)))" "\<not> f64_le (bc_Multiplier (cl_FailureBackoff (cf_Collection v))) (F_Fin 1)"
    by (simp_all add: schedule_checks_def)
  with assms(2) show ?thesis
    using f64_ratio_ok [of "cl_JitterRatio (cf_Collection v)"] f64_mult_ok [of "bc_Multiplier (cl_FailureBackoff (cf_Collection v))"]
    by (simp add: runner_wf_def runner_config_def Let_def nonFinite_def)
qed

lemma name_char_not_space:
  assumes "r \<in> set space_runes"
  shows "r \<noteq> [] \<and> \<not> word_char ''_-'' (hd r) \<and> \<not> word_char ''_-'' (last r)"
proof -
  have "list_all (\<lambda>r. r \<noteq> [] \<and> \<not> word_char ''_-'' (hd r) \<and> \<not> word_char ''_-'' (last r)) space_runes" by code_simp
  with assms show ?thesis by (simp add: list_all_iff)
qed

lemma words_trimmed:
  assumes "\<forall>c \<in> set s. word_char ''_-'' c"
  shows "TrimSpace s = s"
proof -
  have "\<not> HasPrefix t r" if "r \<noteq> []" "\<not> word_char ''_-'' (hd r)" "set t \<subseteq> set s" for t r
    using that assms by (cases r) (auto simp: HasPrefix_iff)
  then show ?thesis
    using name_char_not_space by (auto simp: TrimSpace_id_iff trimmed_def no_prefix_def hd_rev)
qed

lemma target_name_id:
  assumes "targetNamePattern target" and "TrimSpace name = name" and "name \<noteq> ''''"
  shows "CollectorID_Valid \<lparr> id_Target = target, id_Name = name \<rparr>"
proof -
  have "\<forall>c \<in> set target. word_char ''_-'' c" "target \<noteq> ''''"
    using assms(1) by (auto simp: targetNamePattern_def word_char_def list_all_iff split: list.splits)
  with assms(2,3) show ?thesis by (simp add: CollectorID_Valid_def words_trimmed)
qed

definition collector_names :: "string list" where
  "collector_names = [''total'', ''service'', ''region'', ''account'', ''forecast'', ''tags'', ''organizations'', ''budgets'',
     ''commitments'', ''anomalies'', ''cur'']"

lemma collector_names_ok: "distinct collector_names" "\<forall>n \<in> set collector_names. TrimSpace n = n \<and> n \<noteq> ''''"
proof -
  have "list_all (\<lambda>n. TrimSpace n = n \<and> n \<noteq> '''') collector_names" by code_simp
  then show "\<forall>n \<in> set collector_names. TrimSpace n = n \<and> n \<noteq> ''''" by (simp add: list_all_iff)
qed (simp add: collector_names_def)

lemma target_ids_names:
  "\<exists>names. target_collector_ids v t = map (\<lambda>n. \<lparr> id_Target = tg_Name t, id_Name = n \<rparr>) names \<and> subseq names collector_names"
proof -
  let ?c = "ce_Collectors (cl_CostExplorer (cf_Collection v))"
  define items where "items = (if tg_CostExplorerEnabled t then cost_collector_flags ?c @ [(''tags'', tg_TagsEnabled t)] else []) @
    [(''organizations'', tg_OrganizationsEnabled t), (''budgets'', tg_BudgetsEnabled t), (''commitments'', tg_CommitmentsEnabled t),
     (''anomalies'', tg_AnomaliesEnabled t), (''cur'', cu_Enabled (tg_CUR t))]"
  have "target_collector_ids v t = map (\<lambda>n. \<lparr> id_Target = tg_Name t, id_Name = n \<rparr>) (map fst (filter snd items))"
    by (auto simp: target_collector_ids_def enabled_ids_def items_def)
  moreover have "subseq (map fst (filter snd items)) (map fst items)" by (intro subseq_map subseq_filter_left)
  moreover have "subseq (map fst items) collector_names"
  proof (cases "tg_CostExplorerEnabled t")
    case True
    then show ?thesis by (simp add: items_def cost_collector_flags_def collector_names_def)
  next
    case False
    then show ?thesis
      using list_emb_append2 [of "(=)" _ "drop 6 collector_names" "take 6 collector_names"]
      by (simp add: items_def collector_names_def)
  qed
  ultimately show ?thesis using subseq_order.trans by blast
qed

lemma target_ids_ok:
  assumes "targetNamePattern (tg_Name t)"
  shows "distinct (target_collector_ids v t)" and "\<forall>i \<in> set (target_collector_ids v t). id_Target i = tg_Name t \<and> CollectorID_Valid i"
proof -
  obtain names where n: "target_collector_ids v t = map (\<lambda>n. \<lparr> id_Target = tg_Name t, id_Name = n \<rparr>) names"
    and s: "subseq names collector_names" using target_ids_names by blast
  have "distinct names" using s collector_names_ok(1) subseqs_distinctD [of names collector_names] by simp
  then show "distinct (target_collector_ids v t)" by (simp add: n distinct_map inj_on_def)
  have "set names \<subseteq> set collector_names" using list_emb_set [OF s] by auto
  then show "\<forall>i \<in> set (target_collector_ids v t). id_Target i = tg_Name t \<and> CollectorID_Valid i"
    using collector_names_ok(2) target_name_id [OF assms] by (auto simp: n)
qed

section \<open>Every constructor accepts what validation accepts\<close>

lemma target_domains_ok:
  assumes "target_domains parseURL parseIP v t = None"
  shows "validateFilters ''targets.cost_explorer.filters'' (tg_Filters t) = None" and "validateOrganizations ''targets'' t v = None"
    and "validateBudgets ''targets'' t (dc_SeriesLimit (cl_Budgets (cf_Collection v))) = None"
    and "validateCUR parseURL parseIP ''targets'' t (aw_RequestTimeout (cf_AWS v)) (dc_RefreshInterval (cl_CUR (cf_Collection v))) = None"
    and "tg_TagsEnabled t \<Longrightarrow> tg_TagKeys t \<noteq> []"
  using assms by (simp_all add: target_domains_def Let_def validateTags_def)

lemma allow_names_all:
  "distinct (acc @ names) \<Longrightarrow> '''' \<notin> set names \<Longrightarrow> \<exists>r. range_err allow_name acc names = Inr r \<and> length r = length acc + length names"
proof (induction names arbitrary: acc)
  case (Cons n names)
  then have "allow_name acc n = Inr (n # acc)" by (auto simp: allow_name_def List.insert_def)
  moreover have "distinct ((n # acc) @ names)" using Cons.prems(1) by auto
  ultimately show ?case using Cons.IH [of "n # acc"] Cons.prems(2) by auto
qed simp

lemma allow_accounts_all:
  "distinct (acc @ ids) \<Longrightarrow> \<forall>i \<in> set ids. accountIDPattern i \<Longrightarrow> \<exists>r. range_err allow_account acc ids = Inr r"
proof (induction ids arbitrary: acc)
  case (Cons i ids)
  then have "allow_account acc i = Inr (i # acc)" by (simp add: allow_account_def accountID_def accountIDPattern_def)
  moreover have "distinct ((i # acc) @ ids)" using Cons.prems(1) by auto
  ultimately show ?case using Cons.IH [of "i # acc"] Cons.prems(2) by auto
qed simp

text \<open>What the constructors of one target's collectors ask for.\<close>

definition target_usable :: "Config \<Rightarrow> TargetConfig \<Rightarrow> bool" where
  "target_usable v t \<longleftrightarrow>
     (let col = cf_Collection v; ce = cl_CostExplorer col
      in targetNamePattern (tg_Name t) \<and> accountIDPattern (tg_AccountID t) \<and>
         0 < ce_MaxPages ce \<and> 0 < cl_RefreshInterval col \<and>
         (en_Forecast (ce_Collectors ce) \<longrightarrow> 80 \<le> ce_PredictionInterval ce \<and> ce_PredictionInterval ce \<le> 99) \<and>
         0 < dm_SeriesLimit (ce_Dimensions ce) \<and> TrimSpace (dm_OverflowLabel (ce_Dimensions ce)) \<noteq> '''' \<and>
         list_all validAccountID (flt_LinkedAccountIDs (tg_Filters t)) \<and>
         domain_usable (cl_Organizations col) \<and> domain_usable (cl_Budgets col) \<and> domain_usable (cl_Commitments col) \<and>
         domain_usable (cl_Anomalies col) \<and> domain_usable (cl_Tags col) \<and> domain_usable (cl_CUR col) \<and>
         0 < dc_MaxRows (cl_CUR col) \<and> 0 < dc_MaxCurrencies (cl_CUR col) \<and> (tg_TagsEnabled t \<longrightarrow> tg_TagKeys t \<noteq> []) \<and>
         (tg_OrganizationsEnabled t \<longrightarrow> int (length (tg_AccountIDs t)) \<le> dc_SeriesLimit (cl_Organizations col) \<and>
            distinct (tg_AccountIDs t) \<and> (\<forall>i \<in> set (tg_AccountIDs t). accountIDPattern i)) \<and>
         (tg_BudgetsEnabled t \<longrightarrow> tg_BudgetNames t \<noteq> [] \<and> distinct (tg_BudgetNames t) \<and> '''' \<notin> set (tg_BudgetNames t)) \<and>
         (cu_Enabled (tg_CUR t) \<longrightarrow> 0 < cu_PollInterval (tg_CUR t) \<and> cu_PollInterval (tg_CUR t) < cu_QueryTimeout (tg_CUR t)))"

lemma validated_usable:
  assumes "Validate env parseURL parseIP v = None" and "target_ok parseURL parseIP v t"
  shows "target_usable v t"
proof -
  have d: "target_domains parseURL parseIP v t = None" and n: "targetNamePattern (tg_Name t)" "accountIDPattern (tg_AccountID t)"
    using assms(2) by (simp_all add: target_ok_def)
  note dom = target_domains_ok [OF d]
  note base = validated_base [OF assms(1)]
  have "list_all validAccountID (flt_LinkedAccountIDs (tg_Filters t))"
    using dom(1) by (simp add: validateFilters_def validateUniqueStrings_None list_all_iff validAccountID_def accountIDPattern_def)
  moreover have "tg_OrganizationsEnabled t \<longrightarrow> int (length (tg_AccountIDs t)) \<le> dc_SeriesLimit (cl_Organizations (cf_Collection v)) \<and>
      distinct (tg_AccountIDs t) \<and> (\<forall>i \<in> set (tg_AccountIDs t). accountIDPattern i)"
    using dom(2) validated_domains(1) [OF assms(1)]
    by (auto simp: validateOrganizations_def Let_def validateUniqueStrings_None domain_usable_def split: if_splits)
  moreover have "tg_BudgetsEnabled t \<longrightarrow> tg_BudgetNames t \<noteq> [] \<and> distinct (tg_BudgetNames t) \<and> '''' \<notin> set (tg_BudgetNames t)"
    using dom(3) by (auto simp: validateBudgets_def validateUniqueStrings_None split: if_splits)
  moreover have "cu_Enabled (tg_CUR t) \<longrightarrow> 0 < cu_PollInterval (tg_CUR t) \<and> cu_PollInterval (tg_CUR t) < cu_QueryTimeout (tg_CUR t)"
    using dom(4) by (auto simp: validateCUR_def Let_def Millisecond_def)
  ultimately show ?thesis
    using n base(1-6) dom(5) validated_domains [OF assms(1)] unfolding target_usable_def Let_def by auto
qed

lemma bind_err_Inr: "bind_err r f = Inr y \<longleftrightarrow> (\<exists>x. r = Inr x \<and> f x = Inr y)"
  by (cases r) auto

lemma wrap_Inr [simp]: "wrap f (Inr x) = Inr (f x)"
  by (simp add: wrap_def)

definition collector_named :: "TargetID \<Rightarrow> string \<Rightarrow> go_error + Collector \<Rightarrow> bool" where
  "collector_named target name r \<longleftrightarrow> (\<exists>c. r = Inr c \<and> Collector_ID c = \<lparr> id_Target = target, id_Name = name \<rparr>)"

lemma built_organizations:
  assumes "target_usable v t" and "tg_OrganizationsEnabled t"
  shows "collector_named (tg_Name t) ''organizations'' (build_organizations v t clients)"
proof -
  obtain r where "range_err allow_account [] (tg_AccountIDs t) = Inr r"
    using allow_accounts_all [of "[]" "tg_AccountIDs t"] assms by (auto simp: target_usable_def Let_def)
  then show ?thesis
    using assms by (auto simp: collector_named_def build_organizations_def Let_def OrganizationsReader_New_def Organizations_New_def
        target_usable_def domain_usable_def targetNamePattern_def)
qed

lemma built_budgets:
  assumes "target_usable v t" and "tg_BudgetsEnabled t"
  shows "collector_named (tg_Name t) ''budgets'' (build_budgets v t clients)"
proof -
  obtain r where "range_err allow_name [] (tg_BudgetNames t) = Inr r" "length r = length (tg_BudgetNames t)"
    using allow_names_all [of "[]" "tg_BudgetNames t"] assms by (auto simp: target_usable_def Let_def)
  then show ?thesis
    using assms by (auto simp: collector_named_def build_budgets_def Let_def BudgetsReader_New_def Budgets_New_def
        target_usable_def domain_usable_def targetNamePattern_def accountIDPattern_def)
qed

lemma built_others:
  assumes "target_usable v t"
  shows "collector_named (tg_Name t) ''commitments'' (build_commitments v t clients)"
    and "collector_named (tg_Name t) ''anomalies'' (build_anomalies v t clients)"
    and "cu_Enabled (tg_CUR t) \<Longrightarrow> collector_named (tg_Name t) ''cur'' (build_cur v t clients)"
    and "tg_TagsEnabled t \<Longrightarrow> collector_named (tg_Name t) ''tags'' (build_tags v t instrumented)"
  using assms
  by (simp_all add: collector_named_def build_commitments_def build_anomalies_def build_cur_def build_tags_def Let_def
      NewCommitmentReader_def Commitments_New_def NewAnomalyReader_def Anomalies_New_def AthenaReader_New_def CUR_New_def
      NewUsageAdapterForTarget_def NewUsagePaginatorForTarget_def Tags_New_def target_usable_def domain_usable_def)

lemma add_collectors_named:
  assumes "list_all2 (\<lambda>(name, on) (on', r). on' = on \<and> (on \<longrightarrow> collector_named target name r)) items builds"
  shows "\<exists>cs. range_err add_collector acc builds = Inr (acc @ cs) \<and> map Collector_ID cs = enabled_ids target items"
  using assms
proof (induction arbitrary: acc rule: list_all2_induct)
  case (Cons x xs y ys)
  obtain name on r where x: "x = (name, on)" and y: "y = (on, r)" and r: "on \<longrightarrow> collector_named target name r"
    using Cons.hyps(1) by (cases x; cases y) auto
  show ?case
  proof (cases on)
    case True
    then obtain c where c: "r = Inr c" "Collector_ID c = \<lparr> id_Target = target, id_Name = name \<rparr>" using r by (auto simp: collector_named_def)
    with Cons.IH [of "acc @ [c]"] True show ?thesis by (force simp: x y add_collector_def enabled_ids_def)
  next
    case False
    with Cons.IH [of acc] show ?thesis by (auto simp: x y add_collector_def enabled_ids_def)
  qed
qed (simp add: enabled_ids_def)

lemma built_costs:
  assumes "target_usable v t"
  shows "\<exists>cs. buildCostCollectors (tg_Name t) reader t v = Inr cs \<and>
    map Collector_ID cs = enabled_ids (tg_Name t) (cost_collector_flags (ce_Collectors (cl_CostExplorer (cf_Collection v))))"
proof -
  have "CollectorID_Valid \<lparr> id_Target = tg_Name t, id_Name = ''total'' \<rparr>"
    using assms collector_names_ok(2) by (intro target_name_id) (auto simp: target_usable_def Let_def collector_names_def)
  then show ?thesis
    unfolding buildCostCollectors_def Let_def cost_collector_flags_def
    using assms
    by (intro add_collectors_named [where acc = "[]", simplified])
      (auto simp: collector_named_def Total_NewForTarget_def Service_NewForTarget_def Region_NewForTarget_def Account_NewForTarget_def
        Forecast_NewForTarget_def ValidateOverflowLabel_def target_usable_def Let_def)
qed

definition job_id :: "'c built_job \<Rightarrow> CollectorID" where
  "job_id j = Collector_ID (vc_Collector (bj_Collector j))"

text \<open>
  A stage of \<open>buildJobs\<close> succeeds, appends jobs with the given identities, each with a positive
  interval and the given verifier, and appends the given required identities.
\<close>

definition extends :: "'c Verifier \<Rightarrow> CollectorID list \<Rightarrow> CollectorID list \<Rightarrow> ('c built \<Rightarrow> go_error + 'c built) \<Rightarrow> bool" where
  "extends verifier ids required f \<longleftrightarrow>
     (\<forall>jobs req. \<exists>js. f (jobs, req) = Inr (jobs @ js, req @ required) \<and> map job_id js = ids \<and>
        (\<forall>j \<in> set js. vc_verifier (bj_Collector j) = verifier \<and> 0 < bj_Interval j))"

lemma extends_Inr: "extends verifier [] [] Inr"
  by (auto simp: extends_def)

lemma extends_bind:
  assumes "extends verifier ids1 req1 f" and "extends verifier ids2 req2 g"
  shows "extends verifier (ids1 @ ids2) (req1 @ req2) (\<lambda>acc. bind_err (f acc) g)"
  unfolding extends_def
proof (intro allI)
  fix jobs req
  obtain js where js: "f (jobs, req) = Inr (jobs @ js, req @ req1)" "map job_id js = ids1"
    "\<forall>j \<in> set js. vc_verifier (bj_Collector j) = verifier \<and> 0 < bj_Interval j" using assms(1) unfolding extends_def by blast
  obtain ks where ks: "g (jobs @ js, req @ req1) = Inr ((jobs @ js) @ ks, (req @ req1) @ req2)" "map job_id ks = ids2"
    "\<forall>j \<in> set ks. vc_verifier (bj_Collector j) = verifier \<and> 0 < bj_Interval j" using assms(2) unfolding extends_def by blast
  show "\<exists>ls. bind_err (f (jobs, req)) g = Inr (jobs @ ls, req @ req1 @ req2) \<and> map job_id ls = ids1 @ ids2 \<and>
      (\<forall>j \<in> set ls. vc_verifier (bj_Collector j) = verifier \<and> 0 < bj_Interval j)"
    using js ks by (intro exI [of _ "js @ ks"]) auto
qed

lemma new_job_simps [simp]:
  "job_id (new_job v clients interval c) = Collector_ID c" "vc_verifier (bj_Collector (new_job v clients interval c)) = cs_Verifier clients"
  "bj_Interval (new_job v clients interval c) = interval"
  by (simp_all add: job_id_def new_job_def)

lemma extends_domain:
  assumes "on \<Longrightarrow> collector_named target name build" and "0 < interval"
  shows "extends (cs_Verifier clients) (enabled_ids target [(name, on)]) [] (add_domain v clients on interval build)"
  using assms by (cases on) (auto simp: extends_def add_domain_def collector_named_def enabled_ids_def)

definition cost_ids :: "Config \<Rightarrow> TargetConfig \<Rightarrow> CollectorID list" where
  "cost_ids v t = enabled_ids (tg_Name t) (cost_collector_flags (ce_Collectors (cl_CostExplorer (cf_Collection v))))"

lemma extends_costs:
  fixes clients :: "'c Clients"
  assumes "target_usable v t"
  shows "extends (cs_Verifier clients) (cost_ids v t @ enabled_ids (tg_Name t) [(''tags'', tg_TagsEnabled t)])
    (if tg_Required t then cost_ids v t else []) (build_cost_explorer v t clients)"
  unfolding extends_def
proof (intro allI)
  fix jobs :: "'c built_job list" and req :: "CollectorID list"
  let ?col = "cf_Collection v" and ?ic = "\<lparr> ic_target = tg_Name t \<rparr>"
  have u: "0 < ce_MaxPages (cl_CostExplorer ?col)" "0 < cl_RefreshInterval ?col" "0 < dc_RefreshInterval (cl_Tags ?col)" "tg_Name t \<noteq> ''''"
    using assms by (auto simp: target_usable_def Let_def domain_usable_def targetNamePattern_def)
  define reader where "reader = \<lparr> fr_UsageAdapter = \<lparr> ua_paginator = \<lparr> pg_maxPages = ce_MaxPages (cl_CostExplorer ?col), pg_target = tg_Name t \<rparr>,
      ua_costMetric = ''UnblendedCost'' \<rparr>, fr_ForecastAdapter = ?ic, fr_filters = tg_Filters t,
      fr_bases = configuredCostBases (ce_CostBases (cl_CostExplorer ?col)) \<rparr>"
  obtain cs where cs: "buildCostCollectors (tg_Name t) reader t v = Inr cs" "map Collector_ID cs = cost_ids v t"
    using built_costs [OF assms] unfolding cost_ids_def by blast
  define js where "js = map (new_job v clients (cl_RefreshInterval ?col)) cs"
  have run: "build_cost_explorer v t clients (jobs, req) =
      (let required = (if tg_Required t then req @ cost_ids v t else req)
       in if \<not> tg_TagsEnabled t then Inr (jobs @ js, required)
          else bind_err (build_tags v t ?ic) (\<lambda>c. Inr ((jobs @ js) @ [new_job v clients (dc_RefreshInterval (cl_Tags ?col)) c], required)))"
    using u cs
    by (simp add: build_cost_explorer_def Let_def NewInstrumented_def NewUsageAdapterForTarget_def NewUsagePaginatorForTarget_def
        NewForecastAdapter_def reader_def [symmetric] js_def)
  have js: "map job_id js = cost_ids v t" "\<forall>j \<in> set js. vc_verifier (bj_Collector j) = cs_Verifier clients \<and> 0 < bj_Interval j"
    using cs(2) u(2) by (auto simp: js_def comp_def)
  show "\<exists>js. build_cost_explorer v t clients (jobs, req) = Inr (jobs @ js, req @ (if tg_Required t then cost_ids v t else [])) \<and>
      map job_id js = cost_ids v t @ enabled_ids (tg_Name t) [(''tags'', tg_TagsEnabled t)] \<and>
      (\<forall>j \<in> set js. vc_verifier (bj_Collector j) = cs_Verifier clients \<and> 0 < bj_Interval j)"
  proof (cases "tg_TagsEnabled t")
    case True
    then obtain c where "build_tags v t ?ic = Inr c" "Collector_ID c = \<lparr> id_Target = tg_Name t, id_Name = ''tags'' \<rparr>"
      using built_others(4) [OF assms True, of ?ic] by (auto simp: collector_named_def)
    then show ?thesis
      using True run js u(3)
      by (intro exI [of _ "js @ [new_job v clients (dc_RefreshInterval (cl_Tags ?col)) c]"]) (auto simp: enabled_ids_def Let_def)
  next
    case False
    then show ?thesis using run js by (intro exI [of _ js]) (auto simp: enabled_ids_def Let_def)
  qed
qed

definition required_of :: "Config \<Rightarrow> TargetConfig \<Rightarrow> CollectorID list" where
  "required_of v t = (if tg_CostExplorerEnabled t \<and> tg_Required t then cost_ids v t else [])"

lemma enabled_ids_append: "enabled_ids target (xs @ ys) = enabled_ids target xs @ enabled_ids target ys"
  by (simp add: enabled_ids_def)

lemma target_ids_split:
  "target_collector_ids v t =
     (if tg_CostExplorerEnabled t then cost_ids v t @ enabled_ids (tg_Name t) [(''tags'', tg_TagsEnabled t)] else []) @
     enabled_ids (tg_Name t) [(''organizations'', tg_OrganizationsEnabled t)] @ enabled_ids (tg_Name t) [(''budgets'', tg_BudgetsEnabled t)] @
     enabled_ids (tg_Name t) [(''commitments'', tg_CommitmentsEnabled t)] @ enabled_ids (tg_Name t) [(''anomalies'', tg_AnomaliesEnabled t)] @
     enabled_ids (tg_Name t) [(''cur'', cu_Enabled (tg_CUR t))]"
  by (simp add: target_collector_ids_def cost_ids_def enabled_ids_def)

lemma extends_target:
  assumes "target_usable v t" and "ForTarget env factory t = Inr clients"
  shows "extends (cs_Verifier clients) (target_collector_ids v t) (required_of v t) (\<lambda>acc. build_target env factory v acc t)"
proof -
  let ?col = "cf_Collection v" and ?V = "cs_Verifier clients"
  have pos: "0 < dc_RefreshInterval (cl_Organizations ?col)" "0 < dc_RefreshInterval (cl_Budgets ?col)" "0 < dc_RefreshInterval (cl_Commitments ?col)"
    "0 < dc_RefreshInterval (cl_Anomalies ?col)" "0 < dc_RefreshInterval (cl_CUR ?col)"
    using assms(1) by (auto simp: target_usable_def Let_def domain_usable_def)
  have costs: "extends ?V (if tg_CostExplorerEnabled t then cost_ids v t @ enabled_ids (tg_Name t) [(''tags'', tg_TagsEnabled t)] else [])
      (required_of v t) (\<lambda>acc. if tg_CostExplorerEnabled t then build_cost_explorer v t clients acc else Inr acc)"
    using extends_costs [OF assms(1), of clients] extends_Inr [of ?V] by (auto simp: required_of_def)
  have f: "(\<lambda>acc. build_target env factory v acc t) =
      (\<lambda>acc. bind_err (if tg_CostExplorerEnabled t then build_cost_explorer v t clients acc else Inr acc)
        (\<lambda>a. bind_err (add_domain v clients (tg_OrganizationsEnabled t) (dc_RefreshInterval (cl_Organizations ?col)) (build_organizations v t clients) a)
        (\<lambda>a. bind_err (add_domain v clients (tg_BudgetsEnabled t) (dc_RefreshInterval (cl_Budgets ?col)) (build_budgets v t clients) a)
        (\<lambda>a. bind_err (add_domain v clients (tg_CommitmentsEnabled t) (dc_RefreshInterval (cl_Commitments ?col)) (build_commitments v t clients) a)
        (\<lambda>a. bind_err (add_domain v clients (tg_AnomaliesEnabled t) (dc_RefreshInterval (cl_Anomalies ?col)) (build_anomalies v t clients) a)
          (add_domain v clients (cu_Enabled (tg_CUR t)) (dc_RefreshInterval (cl_CUR ?col)) (build_cur v t clients)))))))"
    using assms(2) by (simp add: build_target_def Let_def)
  have "required_of v t = required_of v t @ [] @ [] @ [] @ [] @ []" by simp
  then show ?thesis
    unfolding f target_ids_split
    by (elim ssubst, intro extends_bind costs extends_domain)
      (use pos built_organizations built_budgets built_others assms(1) in blast)+
qed

lemma ForTarget_ok:
  assumes "target_ok parseURL parseIP v t"
  shows "\<exists>cs. ForTarget env (Some (Factory_New load env (cf_AWS v))) t = Inr cs"
proof -
  have "tg_Name t \<noteq> ''''" using assms by (auto simp: target_ok_def targetNamePattern_def)
  moreover obtain base where "map_of (fa_sources (Factory_New load env (cf_AWS v))) (tg_Source t) = Some base"
    using assms by (auto simp: target_ok_def Factory_New_def map_of_keyed)
  ultimately show ?thesis by (simp add: ForTarget_def Let_def)
qed

text \<open>A job is guarded by the verifier of its own target.\<close>

definition guarded_job :: "(string \<Rightarrow> string option) \<Rightarrow> 'c Factory \<Rightarrow> TargetConfig list \<Rightarrow> 'c built_job \<Rightarrow> bool" where
  "guarded_job env f ts j \<longleftrightarrow>
     0 < bj_Interval j \<and>
     (\<exists>t \<in> set ts. \<exists>cs. id_Target (job_id j) = tg_Name t \<and> ForTarget env (Some f) t = Inr cs \<and> vc_verifier (bj_Collector j) = cs_Verifier cs)"

lemma build_targets_ok:
  assumes "\<forall>t \<in> set ts. target_usable v t \<and> (\<exists>cs. ForTarget env (Some f) t = Inr cs)"
  shows "\<exists>js. range_err (build_target env (Some f) v) (jobs, req) ts = Inr (jobs @ js, req @ concat (map (required_of v) ts)) \<and>
    map job_id js = concat (map (target_collector_ids v) ts) \<and> (\<forall>j \<in> set js. guarded_job env f ts j)"
  using assms
proof (induction ts arbitrary: jobs req)
  case (Cons t ts)
  obtain cs where u: "target_usable v t" and cs: "ForTarget env (Some f) t = Inr cs" using Cons.prems by auto
  obtain js where js: "build_target env (Some f) v (jobs, req) t = Inr (jobs @ js, req @ required_of v t)"
    "map job_id js = target_collector_ids v t" "\<forall>j \<in> set js. vc_verifier (bj_Collector j) = cs_Verifier cs \<and> 0 < bj_Interval j"
    using extends_target [OF u cs] unfolding extends_def by blast
  have "targetNamePattern (tg_Name t)" using u by (simp add: target_usable_def Let_def)
  then have "id_Target (job_id j) = tg_Name t" if "j \<in> set js" for j
    using that js(2) target_ids_ok(2) by (metis image_eqI list.set_map)
  then have g: "guarded_job env f (t # ts) j" if "j \<in> set js" for j using that js(3) cs by (auto simp: guarded_job_def)
  obtain ks where ks: "range_err (build_target env (Some f) v) (jobs @ js, req @ required_of v t) ts =
      Inr ((jobs @ js) @ ks, (req @ required_of v t) @ concat (map (required_of v) ts))"
    "map job_id ks = concat (map (target_collector_ids v) ts)" "\<forall>j \<in> set ks. guarded_job env f ts j"
    using Cons.IH Cons.prems by (metis list.set_intros(2))
  have "guarded_job env f (t # ts) j" if "j \<in> set ks" for j using that ks(3) by (auto simp: guarded_job_def)
  then show ?case using js ks(1,2) g by (intro exI [of _ "js @ ks"]) auto
qed simp

lemma configured_ids_ok:
  assumes "\<forall>t \<in> set ts. targetNamePattern (tg_Name t)" and "distinct (map tg_Name ts)"
  shows "distinct (concat (map (target_collector_ids v) ts)) \<and>
    (\<forall>i \<in> set (concat (map (target_collector_ids v) ts)). id_Target i \<in> tg_Name ` set ts \<and> CollectorID_Valid i)"
  using assms
proof (induction ts)
  case (Cons t ts)
  then have ih: "distinct (concat (map (target_collector_ids v) ts))"
    "\<forall>i \<in> set (concat (map (target_collector_ids v) ts)). id_Target i \<in> tg_Name ` set ts \<and> CollectorID_Valid i" by auto
  have t: "targetNamePattern (tg_Name t)" "tg_Name t \<notin> tg_Name ` set ts" using Cons.prems by auto
  have "set (target_collector_ids v t) \<inter> set (concat (map (target_collector_ids v) ts)) = {}"
    using target_ids_ok(2) [OF t(1)] ih(2) t(2) by fastforce
  then show ?case using target_ids_ok [OF t(1)] ih by (simp add: distinct_append) blast
qed simp

lemma policies_installed:
  assumes "\<forall>(target, policy) \<in> set ps. target \<noteq> '''' \<and> 0 < SeriesLimit policy"
  shows "\<exists>store'. range_err install_policy store ps = Inr store'"
  using assms by (induction ps arbitrary: store) (auto simp: install_policy_def)

lemma organization_policies_ok:
  assumes "\<forall>t \<in> set (cf_Targets v). tg_Name t \<noteq> ''''" and "0 < dc_SeriesLimit (cl_Organizations (cf_Collection v))"
  shows "\<forall>(target, policy) \<in> set (organizationPolicies v). target \<noteq> '''' \<and> 0 < SeriesLimit policy"
proof -
  let ?policy = "\<lambda>t. \<lparr> AccountIDs = tg_AccountIDs t, SeriesLimit = dc_SeriesLimit (cl_Organizations (cf_Collection v)) \<rparr>"
  let ?step = "\<lambda>m t. if tg_OrganizationsEnabled t then AList.update (tg_Name t) (?policy t) m else m"
  define ok where "ok = (\<lambda>(target :: string, policy :: OrganizationPolicy). target \<noteq> '''' \<and> 0 < SeriesLimit policy)"
  have step: "\<forall>p \<in> set (?step m t). ok p" if "ok (tg_Name t, ?policy t)" "\<forall>p \<in> set m. ok p" for m t
    using that set_update_sub [of "tg_Name t" "?policy t" m] by auto
  have "\<forall>p \<in> set (foldl ?step m ts). ok p" if "\<forall>t \<in> set ts. ok (tg_Name t, ?policy t)" "\<forall>p \<in> set m. ok p" for ts m
    using that
  proof (induction ts arbitrary: m)
    case (Cons t ts)
    have "ok (tg_Name t, ?policy t)" "\<forall>t \<in> set ts. ok (tg_Name t, ?policy t)" using Cons.prems(1) by simp_all
    then show ?case unfolding foldl.simps by (intro Cons.IH step Cons.prems(2))
  qed simp
  from this [of "cf_Targets v" "[]"] assms show ?thesis by (simp add: organizationPolicies_def ok_def)
qed

lemma store_constructed:
  assumes "0 < fresh" and "fresh \<le> stale" and "\<forall>(target, policy) \<in> set ps. target \<noteq> '''' \<and> 0 < SeriesLimit policy"
  shows "\<exists>store. NewStore (Some ()) fresh stale [Some (WithOrganizationPolicies ps)] = Inr store"
proof -
  define s0 where "s0 = \<lparr> freshnessTTL = fresh, staleAfter = stale, organizationPolicies = [], current = empty_state \<rparr>"
  obtain s1 where "range_err install_policy (s0\<lparr> organizationPolicies := [] \<rparr>) ps = Inr s1"
    using policies_installed [OF assms(3)] by blast
  then show ?thesis using assms(1,2) by (simp add: NewStore_def apply_option_def WithOrganizationPolicies_def s0_def)
qed

section \<open>Metric names\<close>

definition self_names :: "string list" where
  "self_names =
     [''collector_up'', ''last_success_timestamp_seconds'', ''last_attempt_timestamp_seconds'', ''cache_age_seconds'',
      ''snapshot_series'', ''build_info'', ''refresh_total'', ''aws_api_requests_total'', ''aws_api_retries_total'',
      ''scheduler_skipped_runs_total'', ''dimension_overflow_values_total'', ''pagination_pages_total'',
      ''cache_publish_errors_total'', ''scheduler_shutdown_timeouts_total'', ''refresh_duration_seconds'',
      ''aws_api_request_duration_seconds'']"

lemma exporter_names: "map fqName (Exporter_Describe (exporter_of b ids k)) = map ((@) ''aws_cost_exporter_'') self_names"
  by (simp add: Exporter_Describe_def exporter_events_def exporter_of_def Let_def selfDesc_def NewDesc_def exporter_counter_def exporter_histogram_def
      self_names_def)

lemma cost_names: "map fqName (Describe cost_collector) = concat family_names"
  by (simp add: Describe_def family_names_def) (simp add: cost_collector_def split_beta)

definition own_names :: "string list" where
  "own_names = map fqName (Describe cost_collector) @ map ((@) ''aws_cost_exporter_'') self_names"

lemma own_names_ok: "distinct own_names" "\<forall>n \<in> set own_names. HasPrefix n ''aws_''"
proof -
  let ?x = "''aws_cost_exporter_''" and ?e = "map ((@) ''aws_cost_exporter_'') self_names"
  have p: "list_all (\<lambda>n. HasPrefix n ''aws_'' \<and> \<not> HasPrefix n ?x) (concat family_names)" by code_simp
  have e: "\<forall>n \<in> set ?e. HasPrefix n ''aws_'' \<and> HasPrefix n ?x" by (auto simp: HasPrefix_iff)
  show "\<forall>n \<in> set own_names. HasPrefix n ''aws_''" using p e unfolding own_names_def cost_names set_append list_all_iff by blast
  have "distinct self_names" by (simp add: self_names_def)
  then have "distinct ?e" by (simp add: distinct_map inj_on_def)
  moreover have "set (concat family_names) \<inter> set ?e = {}" using p e unfolding list_all_iff by blast
  ultimately show "distinct own_names" unfolding own_names_def cost_names distinct_append using family_names_distinct by blast
qed

text \<open>
  What the registry and the library collectors document: registration succeeds when no metric name
  is described twice, and the names of the library collectors are different and not the program's.
\<close>

definition prometheus_laws :: "prometheus \<Rightarrow> bool" where
  "prometheus_laws prom \<longleftrightarrow>
     (\<forall>old new. distinct (old @ new) \<longrightarrow> pm_Register prom old new = None) \<and>
     distinct (pm_GoCollector prom @ pm_ProcessCollector prom) \<and>
     (\<forall>n \<in> set (pm_GoCollector prom @ pm_ProcessCollector prom). \<not> HasPrefix n ''aws_'')"

lemma registers_all:
  assumes "\<forall>old new. distinct (old @ new) \<longrightarrow> pm_Register prom old new = None" and "distinct (acc @ concat names)"
  shows "range_err (register_collector prom) acc names = Inr (acc @ concat names)"
  using assms(2)
proof (induction names arbitrary: acc)
  case (Cons ns names)
  then have "distinct (acc @ ns)" by auto
  then have "pm_Register prom acc ns = None" using assms(1) by blast
  then have "register_collector prom acc ns = Inr (acc @ ns)" by (simp add: register_collector_def)
  then show ?case using Cons.IH [of "acc @ ns"] Cons.prems by simp
qed simp

lemma registration_ok:
  fixes prom :: prometheus and g p :: bool
  assumes "prometheus_laws prom"
  defines "extra \<equiv> (if g then [pm_GoCollector prom] else []) @ (if p then [pm_ProcessCollector prom] else [])"
  shows "range_err (register_collector prom) []
    ([map fqName (Describe cost_collector), map fqName (Exporter_Describe (exporter_of b ids k))] @ extra) = Inr (own_names @ concat extra)"
proof -
  have names: "concat ([map fqName (Describe cost_collector), map fqName (Exporter_Describe (exporter_of b ids k))] @ extra) = own_names @ concat extra"
    by (simp add: own_names_def exporter_names)
  have "distinct (concat extra)" "\<forall>n \<in> set (concat extra). \<not> HasPrefix n ''aws_''"
    using assms(1) by (auto simp: extra_def prometheus_laws_def)
  then have "distinct (own_names @ concat extra)" using own_names_ok by auto
  then show ?thesis
    using registers_all [of prom "[]" "[map fqName (Describe cost_collector), map fqName (Exporter_Describe (exporter_of b ids k))] @ extra"]
      assms(1) unfolding names prometheus_laws_def append_Nil by blast
qed

end
