(* ===== verification/Lifecycle.thy ===== *)
theory Lifecycle
  imports Bootstrap
begin

text \<open>
  The life of the process, over the composition of \<open>Bootstrap\<close>: a configuration that validation
  accepts is one the process can be built from, and once it is told to stop it stops.
\<close>

section \<open>Startup\<close>

lemma required_subseq: "subseq (required_of v t) (target_collector_ids v t)"
  by (auto simp: required_of_def target_ids_split intro: subseq_rev_drop_many)

lemma required_all_subseq: "subseq (concat (map (required_of v) ts)) (concat (map (target_collector_ids v) ts))"
  by (induction ts) (simp_all add: list_emb_append_mono required_subseq)

lemma required_nonempty:
  assumes "Validate env parseURL parseIP v = None" and "t \<in> set (cf_Targets v)" and "tg_Required t" and "tg_CostExplorerEnabled t"
  shows "concat (map (required_of v) (cf_Targets v)) \<noteq> []"
proof -
  obtain name on where "(name, on) \<in> set (cost_collector_flags (ce_Collectors (cl_CostExplorer (cf_Collection v))))" "on"
    using validated_base(7) [OF assms(1)] by blast
  then have "cost_ids v t \<noteq> []" by (force simp: cost_ids_def enabled_ids_def filter_empty_conv)
  then show ?thesis using assms(2-4) by (auto simp: required_of_def)
qed

lemma jobs_built_wf:
  assumes "map job_id js = ids" and "ids \<noteq> []" and "distinct ids" and "\<forall>i \<in> set ids. CollectorID_Valid i"
    and "\<forall>j \<in> set js. 0 < bj_Interval j"
  shows "jobs_wf (map scheduler_job js)"
proof -
  have "List.map_filter j_Collector (map scheduler_job js) = map job_id js"
    by (simp add: List.map_filter_def scheduler_job_def job_id_def comp_def)
  moreover have "CollectorID_Valid (job_id j)" if "j \<in> set js" for j using that assms(1,4) by auto
  ultimately show ?thesis using assms by (auto simp: jobs_wf_def scheduler_job_def job_id_def)
qed

text \<open>
  What a validated configuration gives the assembly: the identities, the targets and the required
  collectors.
\<close>

lemma validated_assembly:
  assumes "Validate env parseURL parseIP v = None"
  shows "distinct (configuredCollectorIDs v)" and "\<forall>i \<in> set (configuredCollectorIDs v). CollectorID_Valid i"
    and "\<forall>t \<in> set (cf_Targets v). target_usable v t \<and> (\<exists>cs. ForTarget env (Some (Factory_New load env (cf_AWS v))) t = Inr cs)"
    and "\<forall>t \<in> set (cf_Targets v). tg_Name t \<noteq> ''''" and "concat (map (required_of v) (cf_Targets v)) \<noteq> []"
proof -
  obtain st where inv: "targets_inv parseURL parseIP v (cf_Targets v) st" and req: "0 < ts_required st"
    by (rule Validate_targets [OF assms])
  have ok: "\<forall>t \<in> set (cf_Targets v). target_ok parseURL parseIP v t" and "distinct (map tg_Name (cf_Targets v))"
    and r: "\<exists>t \<in> set (cf_Targets v). tg_Required t" using inv req by (simp_all add: targets_inv_def)
  moreover have n: "\<forall>t \<in> set (cf_Targets v). targetNamePattern (tg_Name t)" using ok by (simp add: target_ok_def)
  ultimately show "distinct (configuredCollectorIDs v)" "\<forall>i \<in> set (configuredCollectorIDs v). CollectorID_Valid i"
    using configured_ids_ok [of "cf_Targets v" v] by (simp_all add: configuredCollectorIDs_def)
  show "\<forall>t \<in> set (cf_Targets v). target_usable v t \<and> (\<exists>cs. ForTarget env (Some (Factory_New load env (cf_AWS v))) t = Inr cs)"
    using ok validated_usable [OF assms] ForTarget_ok by fast
  show "\<forall>t \<in> set (cf_Targets v). tg_Name t \<noteq> ''''" using n by (auto simp: targetNamePattern_def)
  from r obtain t where "t \<in> set (cf_Targets v)" "tg_Required t" by blast
  moreover from this ok have "tg_CostExplorerEnabled t" by (simp add: target_ok_def)
  ultimately show "concat (map (required_of v) (cf_Targets v)) \<noteq> []" using required_nonempty [OF assms] by blast
qed

lemma required_ids_ok:
  assumes "Validate env parseURL parseIP v = None"
  defines "required \<equiv> concat (map (required_of v) (cf_Targets v))"
  shows "distinct required" and "set required \<subseteq> set (configuredCollectorIDs v)" and "range_err add_required [] required = Inr required"
proof -
  have s: "subseq required (configuredCollectorIDs v)" by (simp add: required_def configuredCollectorIDs_def required_all_subseq)
  note ids = validated_assembly(1,2) [OF assms(1)]
  show d: "distinct required" using s ids(1) subseqs_distinctD [of required "configuredCollectorIDs v"] by simp
  show i: "set required \<subseteq> set (configuredCollectorIDs v)" using list_emb_set [OF s] by auto
  show "range_err add_required [] required = Inr required" using d i ids(2) by (auto simp: required_ids)
qed

lemma store_started:
  assumes "Validate env parseURL parseIP v = None"
  shows "\<exists>store. NewStore (Some ()) (cf_FreshnessTTL v) (cf_StaleAfter v) [Some (WithOrganizationPolicies (organizationPolicies v))] = Inr store"
proof (rule store_constructed)
  show "0 < cf_FreshnessTTL v" "cf_FreshnessTTL v \<le> cf_StaleAfter v" using validated_base [OF assms] by simp_all
  have "0 < dc_SeriesLimit (cl_Organizations (cf_Collection v))" using validated_domains(1) [OF assms] by (simp add: domain_usable_def)
  then show "\<forall>(target, policy) \<in> set (organizationPolicies v). target \<noteq> '''' \<and> 0 < SeriesLimit policy"
    using validated_assembly(4) [OF assms] by (intro organization_policies_ok) simp_all
qed

lemma telemetry_started:
  assumes "Validate env parseURL parseIP v = None"
  shows "NewExporter (Some store) (Some ()) build (configuredCollectorIDs v) =
    Inr (exporter_of build (slice_stable collector_id_less (configuredCollectorIDs v)) (configuredCollectorIDs v))"
proof -
  have "configuredCollectorIDs v \<noteq> []" using required_ids_ok(2) [OF assms] validated_assembly(5) [OF assms] by auto
  then show ?thesis using validated_assembly(1,2) [OF assms] by (simp add: NewExporter_def known_ids)
qed

lemma server_started:
  assumes "ValidateServer value = None" and "required \<noteq> []" and "range_err add_required [] required = Inr required"
  shows "\<exists>server. \<forall>registered :: string list. HttpServer_New value (Some registered) (Some store) required build = Inr server"
  using assms by (simp add: HttpServer_New_def)

lemma Run_constructs:
  assumes "Validate env parseURL parseIP v = None" and "prometheus_laws prom"
  obtains store js registered server where
    "Run_construct env load prom build v = Inr \<lparr> pr_store = store,
       pr_telemetry = exporter_of build (slice_stable collector_id_less (configuredCollectorIDs v)) (configuredCollectorIDs v),
       pr_jobs = js, pr_registered = registered,
       pr_runner = \<lparr> rn_jobs = map scheduler_job js, rn_config = runner_config v \<rparr>, pr_server = server \<rparr>"
    and "map job_id js = configuredCollectorIDs v" and "\<forall>j \<in> set js. guarded_job env (Factory_New load env (cf_AWS v)) (cf_Targets v) j"
    and "runner_wf \<lparr> rn_jobs = map scheduler_job js, rn_config = runner_config v \<rparr>"
    and "hs_ids server = concat (map (required_of v) (cf_Targets v))" and "\<not> hs_draining server"
proof -
  let ?f = "Factory_New load env (cf_AWS v)" and ?ids = "configuredCollectorIDs v" and ?req = "concat (map (required_of v) (cf_Targets v))"
  note ids = validated_assembly [OF assms(1)] and req = required_ids_ok [OF assms(1)]
  have ne: "?ids \<noteq> []" using ids(5) req(2) by auto
  obtain store where store: "NewStore (Some ()) (cf_FreshnessTTL v) (cf_StaleAfter v) [Some (WithOrganizationPolicies (organizationPolicies v))] = Inr store"
    using store_started [OF assms(1)] by blast
  have "\<forall>t \<in> set (cf_Targets v). target_usable v t \<and> (\<exists>cs. ForTarget env (Some ?f) t = Inr cs)" by (rule ids(3))
  from build_targets_ok [OF this, of "[]" "[]"] obtain js where js: "buildJobs env v (Some ?f) = Inr (js, ?req)"
    "map job_id js = ?ids" "\<forall>j \<in> set js. guarded_job env ?f (cf_Targets v) j"
    by (auto simp: buildJobs_def configuredCollectorIDs_def)
  have "jobs_wf (map scheduler_job js)" using js ids(1,2) ne by (intro jobs_built_wf) (auto simp: guarded_job_def)
  then have wf: "runner_wf \<lparr> rn_jobs = map scheduler_job js, rn_config = runner_config v \<rparr>" by (rule validated_runner [OF assms(1)])
  have "ValidateServer (cf_Server v) = None" using assms(1) by (simp add: Validate_def)
  from server_started [OF this ids(5) req(3), of store build] obtain server where
    server: "HttpServer_New (cf_Server v) (Some registered) (Some store) ?req build = Inr server" for registered :: "string list" by auto
  have run: "NewJobs (map scheduler_job js) (Some store) (Some ()) (runner_config v) = Inr \<lparr> rn_jobs = map scheduler_job js, rn_config = runner_config v \<rparr>"
    using wf by (simp add: NewJobs_accepts)
  note reg = registration_ok [OF assms(2), of _ _ _ "cf_IncludeGoCollector v" "cf_IncludeProcessCollector v"]
  have "Run_construct env load prom build v = Inr \<lparr> pr_store = store,
      pr_telemetry = exporter_of build (slice_stable collector_id_less ?ids) ?ids, pr_jobs = js,
      pr_registered = own_names @ concat ((if cf_IncludeGoCollector v then [pm_GoCollector prom] else []) @
        (if cf_IncludeProcessCollector v then [pm_ProcessCollector prom] else [])),
      pr_runner = \<lparr> rn_jobs = map scheduler_job js, rn_config = runner_config v \<rparr>, pr_server = server \<rparr>"
    unfolding Run_construct_def Let_def telemetry_started [OF assms(1)] NewCostCollector_def store js(1) bind_err.simps option.case
      prod.case reg run server using ne by simp
  then show thesis by (rule that [OF _ js(2,3) wf HttpServer_New_ok(2,3) [OF server]])
qed

text \<open>
  C8. A valid configuration starts. If validation accepts the configuration, and the metrics
  registry accepts collectors whose metric names are new, then construction succeeds: no
  constructor, of readers, collectors, store, exporter, scheduler or server, rejects what
  validation let through. The scheduler then runs exactly the configured collectors, each once,
  with a positive interval and guarded by the verifier of its own target, under a configuration
  for which the scheduler's guarantees hold; the readiness check waits for a non-empty set of
  them; and the server is not draining.
\<close>

theorem startup_succeeds:
  assumes "Validate env parseURL parseIP v = None" and "prometheus_laws prom"
  shows "\<exists>p. Run_construct env load prom build v = Inr p \<and>
    job_ids (pr_runner p) = configuredCollectorIDs v \<and> distinct (job_ids (pr_runner p)) \<and> runner_wf (pr_runner p) \<and>
    rn_jobs (pr_runner p) = map scheduler_job (pr_jobs p) \<and>
    (\<forall>j \<in> set (pr_jobs p). guarded_job env (Factory_New load env (cf_AWS v)) (cf_Targets v) j) \<and>
    hs_ids (pr_server p) \<noteq> [] \<and> set (hs_ids (pr_server p)) \<subseteq> set (job_ids (pr_runner p)) \<and> \<not> hs_draining (pr_server p)"
proof -
  have jid: "job_ids \<lparr> rn_jobs = map scheduler_job js, rn_config = c \<rparr> = map job_id js" for js :: "'a built_job list" and c
    by (simp add: job_ids_def List.map_filter_def scheduler_job_def comp_def job_id_def [abs_def])
  note ids = validated_assembly(1,5) [OF assms(1)] required_ids_ok(2) [OF assms(1)]
  show ?thesis by (rule Run_constructs [OF assms, of load build]) (use ids in \<open>simp add: jid\<close>)
qed

section \<open>Shutdown\<close>

text \<open>The scheduler did not stop within the timeout, or the timer was taken when both were due.\<close>

definition late :: "services \<Rightarrow> duration \<Rightarrow> bool" where
  "late env timeout = (case sv_finish env of None \<Rightarrow> True | Some d \<Rightarrow> timeout < d \<or> d = timeout \<and> \<not> sv_tie env)"

lemma wait_bounded:
  assumes "0 < timeout"
  shows "waitForScheduler (sv_finish env) (sv_tie env) timeout = Some (if late env timeout then Scheduler_TimedOut else Scheduler_Stopped)"
  using assms by (auto simp: waitForScheduler_def late_def split: option.splits)

definition timeout_call :: "Exporter \<Rightarrow> vec_call" where
  "timeout_call ex = \<lparr> vc_vec = ex_shutdownTimeouts ex, vc_labels = [], vc_op = Vec_Inc \<rparr>"

lemma wait_step_bounded:
  assumes "0 < timeout" and "arities ex"
  shows "wait_step env timeout (ex, evs) =
    Some (if late env timeout then (ex\<lparr> ex_log := ex_log ex @ [timeout_call ex] \<rparr>, evs @ [Timeout_Observed]) else (ex, evs))"
  using assms(1) arities_vecs(8) [OF assms(2)]
  by (simp add: wait_step_def wait_bounded ObserveSchedulerShutdownTimeout_def on_vec_def WithLabelValues_def timeout_call_def)

lemma errors_Join_empty: "errors_Join errs = [] \<longleftrightarrow> (\<forall>e \<in> set errs. e = None)"
  by (induction errs) (auto simp: errors_Join_def List.map_filter_def)

lemma constructed_parts:
  assumes "Run_construct env load prom build v = Inr p"
  shows "0 < sv_ShutdownTimeout (cf_Server v)" and "arities (pr_telemetry p)" and "\<not> hs_draining (pr_server p)"
proof -
  obtain store ids required registered where t: "NewExporter (Some (store :: Store)) (Some ()) build ids = Inr (pr_telemetry p)"
    and s: "HttpServer_New (cf_Server v) (Some (registered :: string list)) (Some store) required build = Inr (pr_server p)"
    using assms by (auto simp: Run_construct_def Let_def bind_err_Inr split: if_splits)
  show "arities (pr_telemetry p)" by (rule NewExporter_ok(4) [OF t])
  show "0 < sv_ShutdownTimeout (cf_Server v)" using HttpServer_New_ok(4) [OF s] by (simp add: ValidateServer_def)
  show "\<not> hs_draining (pr_server p)" by (rule HttpServer_New_ok(3) [OF s])
qed

lemma observed_arities:
  assumes "arities ex" and "observe_all obs ex = Some ex'"
  shows "arities ex'"
proof -
  have "adds ex (List.map_filter observed_target obs) (observe_all obs ex)"
    using assms(1) by (rule observe_all_adds) (auto simp: List.map_filter_def intro!: image_eqI)
  then show ?thesis using assms by (auto simp: adds_def)
qed


section \<open>Witnesses\<close>

definition sample_prometheus :: prometheus where
  "sample_prometheus =
     \<lparr> pm_Register = (\<lambda>old new. if distinct (old @ new) then None else Some (Sentinel ''duplicate metrics collector registration attempted'')),
       pm_GoCollector = [''go_goroutines'', ''go_threads''], pm_ProcessCollector = [''process_cpu_seconds_total''] \<rparr>"

definition sample_load :: "string \<Rightarrow> load_option list \<Rightarrow> go_error + unit sdk_config" where
  "sample_load = (\<lambda>_ _. Inr (SDKConfig ''us-east-1'' (30 * Second) (LoadedCredentials ()) (NewRetryer (aw_Retry default_aws))))"

definition sample_build :: Info where
  "sample_build = version_Current ''v1'' ''abc'' ''today'' ''go1''"

definition sample_services :: services where
  "sample_services = \<lparr> sv_branch = Context_Ended, sv_shutdownErr = None, sv_serveErr = Some ErrServerClosed, sv_finish = None, sv_tie = False \<rparr>"

lemma sample_prometheus_laws: "prometheus_laws sample_prometheus"
proof -
  have "list_all (\<lambda>n. \<not> HasPrefix n ''aws_'') (pm_GoCollector sample_prometheus @ pm_ProcessCollector sample_prometheus) \<and>
    distinct (pm_GoCollector sample_prometheus @ pm_ProcessCollector sample_prometheus)" by code_simp
  then show ?thesis by (auto simp: prometheus_laws_def list_all_iff sample_prometheus_def)
qed

lemma sample_constructed:
  obtains p where "Run_construct sample_env sample_load sample_prometheus sample_build sample_config = Inr p"
  by (rule Run_constructs [OF sample_config_valid sample_prometheus_laws, of sample_load sample_build])

theorem startup_succeeds_witness:
  "\<exists>p. Run_construct sample_env sample_load sample_prometheus sample_build sample_config = Inr p \<and>
     runner_wf (pr_runner p) \<and> \<lparr> id_Target = tg_Name sample_target, id_Name = ''total'' \<rparr> \<in> set (job_ids (pr_runner p)) \<and>
     hs_ids (pr_server p) \<noteq> []"
proof -
  have "\<lparr> id_Target = tg_Name sample_target, id_Name = ''total'' \<rparr> \<in> set (configuredCollectorIDs sample_config)"
    by (simp add: configuredCollectorIDs_def target_collector_ids_def enabled_ids_def cost_collector_flags_def sample_config_def
        sample_target_def Default_def default_collection_def)
  then show ?thesis
    using startup_succeeds [OF sample_config_valid sample_prometheus_laws, of sample_load sample_build] by fastforce
qed


end
