(* ===== verification/Loader.thy ===== *)
theory Loader
  imports Config_Validation
begin

text \<open>
  \<open>internal/config/loader.go\<close>. The configuration library is a parameter, one function for each of
  its operations the loader calls, over an opaque state. The reflected value of a configuration is
  the tree of its structs: the fields in the order and under the \<open>mapstructure\<close> tags of
  \<open>schema.go\<close>; a slice, a map or a duration is a value, not a struct.
\<close>

section \<open>The reflected configuration\<close>

datatype setting =
    S_String string
  | S_Int int
  | S_Duration duration
  | S_Bool bool
  | S_Float float64
  | S_Strings "string list"
  | S_Sources "(string, CredentialSourceConfig) gomap"
  | S_Targets "TargetConfig list"

datatype reflected = R_Struct "(string \<times> reflected) list" | R_Value setting

abbreviation "field_str tag x \<equiv> (tag, R_Value (S_String x))"
abbreviation "field_int tag x \<equiv> (tag, R_Value (S_Int x))"
abbreviation "field_dur tag x \<equiv> (tag, R_Value (S_Duration x))"
abbreviation "field_bool tag x \<equiv> (tag, R_Value (S_Bool x))"
abbreviation "field_float tag x \<equiv> (tag, R_Value (S_Float x))"

definition server_fields :: "ServerConfig \<Rightarrow> (string \<times> reflected) list" where
  "server_fields v =
     [field_str ''listen_address'' (sv_ListenAddress v), field_str ''metrics_path'' (sv_MetricsPath v),
      field_dur ''read_header_timeout'' (sv_ReadHeaderTimeout v), field_dur ''read_timeout'' (sv_ReadTimeout v),
      field_dur ''write_timeout'' (sv_WriteTimeout v), field_dur ''idle_timeout'' (sv_IdleTimeout v),
      field_dur ''shutdown_timeout'' (sv_ShutdownTimeout v), field_int ''max_in_flight'' (sv_MaxInFlight v),
      (''debug'', R_Struct [field_bool ''enabled'' (sv_DebugEnabled v)])]"

definition log_fields :: "LogConfig \<Rightarrow> (string \<times> reflected) list" where
  "log_fields v = [field_str ''level'' (lg_Level v), field_str ''format'' (lg_Format v), field_bool ''add_source'' (lg_AddSource v)]"

definition aws_fields :: "AWSConfig \<Rightarrow> (string \<times> reflected) list" where
  "aws_fields v =
     [field_str ''region'' (aw_Region v), (''credentials'', R_Struct [(''sources'', R_Value (S_Sources (aw_Sources v)))]),
      field_dur ''request_timeout'' (aw_RequestTimeout v),
      (''endpoints'', R_Struct
         [field_str ''sts'' (ep_STS (aw_Endpoints v)), field_str ''cost_explorer'' (ep_CostExplorer (aw_Endpoints v)),
          field_str ''organizations'' (ep_Organizations (aw_Endpoints v)), field_str ''budgets'' (ep_Budgets (aw_Endpoints v)),
          field_str ''athena'' (ep_Athena (aw_Endpoints v))]),
      (''retry'', R_Struct
         [field_int ''max_attempts'' (rt_MaxAttempts (aw_Retry v)), field_dur ''base_delay'' (rt_BaseDelay (aw_Retry v)),
          field_dur ''max_backoff'' (rt_MaxBackoff (aw_Retry v))]),
      (''rate_limit'', R_Struct
         [field_float ''global_requests_per_second'' (rl_GlobalRequestsPerSecond (aw_RateLimit v)),
          field_int ''global_burst'' (rl_GlobalBurst (aw_RateLimit v)),
          field_float ''target_requests_per_second'' (rl_TargetRequestsPerSecond (aw_RateLimit v)),
          field_int ''target_burst'' (rl_TargetBurst (aw_RateLimit v))])]"

definition domain_fields :: "'a DomainConfig_scheme \<Rightarrow> (string \<times> reflected) list" where
  "domain_fields v =
     [field_dur ''refresh_interval'' (dc_RefreshInterval v), field_int ''max_pages'' (dc_MaxPages v),
      field_int ''series_limit'' (dc_SeriesLimit v)]"

definition cur_fields :: "CollectionCURConfig \<Rightarrow> (string \<times> reflected) list" where
  "cur_fields v =
     [field_dur ''refresh_interval'' (dc_RefreshInterval v), field_int ''max_pages'' (dc_MaxPages v), field_int ''max_rows'' (dc_MaxRows v),
      field_int ''max_currencies'' (dc_MaxCurrencies v), field_int ''series_limit'' (dc_SeriesLimit v)]"

definition cost_explorer_fields :: "CollectionCostExplorerConfig \<Rightarrow> (string \<times> reflected) list" where
  "cost_explorer_fields v =
     [(''cost_bases'', R_Value (S_Strings (ce_CostBases v))), field_int ''max_pages'' (ce_MaxPages v),
      field_int ''prediction_interval'' (ce_PredictionInterval v),
      (''collectors'', R_Struct
         [field_bool ''total'' (en_Total (ce_Collectors v)), field_bool ''service'' (en_Service (ce_Collectors v)),
          field_bool ''region'' (en_Region (ce_Collectors v)), field_bool ''account'' (en_Account (ce_Collectors v)),
          field_bool ''forecast'' (en_Forecast (ce_Collectors v))]),
      (''dimensions'', R_Struct
         [field_int ''series_limit'' (dm_SeriesLimit (ce_Dimensions v)), field_str ''overflow'' (dm_Overflow (ce_Dimensions v)),
          field_str ''overflow_label'' (dm_OverflowLabel (ce_Dimensions v))])]"

definition collection_fields :: "CollectionConfig \<Rightarrow> (string \<times> reflected) list" where
  "collection_fields v =
     [field_dur ''refresh_interval'' (cl_RefreshInterval v), field_bool ''startup_refresh'' (cl_StartupRefresh v),
      field_float ''jitter_ratio'' (cl_JitterRatio v), field_int ''max_concurrency'' (cl_MaxConcurrency v),
      (''failure_backoff'', R_Struct
         [field_int ''max_attempts'' (bc_MaxAttempts (cl_FailureBackoff v)), field_dur ''initial'' (bc_Initial (cl_FailureBackoff v)),
          field_dur ''max'' (bc_Max (cl_FailureBackoff v)), field_float ''multiplier'' (bc_Multiplier (cl_FailureBackoff v))]),
      (''cost_explorer'', R_Struct (cost_explorer_fields (cl_CostExplorer v))),
      (''organizations'', R_Struct (domain_fields (cl_Organizations v))), (''budgets'', R_Struct (domain_fields (cl_Budgets v))),
      (''commitments'', R_Struct (domain_fields (cl_Commitments v))), (''anomalies'', R_Struct (domain_fields (cl_Anomalies v))),
      (''tags'', R_Struct (domain_fields (cl_Tags v))), (''cur'', R_Struct (cur_fields (cl_CUR v)))]"

definition config_fields :: "Config \<Rightarrow> (string \<times> reflected) list" where
  "config_fields v =
     [(''server'', R_Struct (server_fields (cf_Server v))), (''log'', R_Struct (log_fields (cf_Log v))),
      (''aws'', R_Struct (aws_fields (cf_AWS v))), (''targets'', R_Value (S_Targets (cf_Targets v))),
      (''collection'', R_Struct (collection_fields (cf_Collection v))),
      (''cache'', R_Struct [field_dur ''freshness_ttl'' (cf_FreshnessTTL v), field_dur ''stale_after'' (cf_StaleAfter v)]),
      (''telemetry'', R_Struct
         [field_bool ''include_go_collector'' (cf_IncludeGoCollector v), field_bool ''include_process_collector'' (cf_IncludeProcessCollector v)])]"

section \<open>registerDefaults\<close>

fun registerDefaults :: "(string \<Rightarrow> setting \<Rightarrow> 'v \<Rightarrow> 'v) \<Rightarrow> string \<Rightarrow> (string \<times> reflected) list \<Rightarrow> 'v \<Rightarrow> 'v" where
  "registerDefaults setDefault prefix [] source = source"
| "registerDefaults setDefault prefix ((tag, R_Struct fs) # rest) source =
     registerDefaults setDefault prefix rest
       (registerDefaults setDefault (if prefix \<noteq> '''' then prefix @ ''.'' @ tag else tag) fs source)"
| "registerDefaults setDefault prefix ((tag, R_Value x) # rest) source =
     registerDefaults setDefault prefix rest (setDefault (if prefix \<noteq> '''' then prefix @ ''.'' @ tag else tag) x source)"

section \<open>Load\<close>

record Options =
  op_Path :: string
  op_Overrides :: "(string, setting) gomap"

record 'v viper =
  vp_New :: 'v
  vp_SetConfigType :: "string \<Rightarrow> 'v \<Rightarrow> 'v"
  vp_SetEnvPrefix :: "string \<Rightarrow> 'v \<Rightarrow> 'v"
  vp_SetEnvKeyReplacer :: "(string \<Rightarrow> string) \<Rightarrow> 'v \<Rightarrow> 'v"
  vp_AutomaticEnv :: "'v \<Rightarrow> 'v"
  vp_SetDefault :: "string \<Rightarrow> setting \<Rightarrow> 'v \<Rightarrow> 'v"
  vp_SetConfigFile :: "string \<Rightarrow> 'v \<Rightarrow> 'v"
  vp_ReadInConfig :: "'v \<Rightarrow> go_error + 'v"
  vp_Set :: "string \<Rightarrow> setting \<Rightarrow> 'v \<Rightarrow> 'v"
  vp_UnmarshalExact :: "'v \<Rightarrow> go_error + Config"

text \<open>\<open>strings.NewReplacer(".", "__")\<close>.\<close>

definition env_replacer :: "string \<Rightarrow> string" where
  "env_replacer key = concat (map (\<lambda>c. if c = CHR ''.'' then ''__'' else [c]) key)"

definition new_source :: "'v viper \<Rightarrow> 'v" where
  "new_source vp =
     registerDefaults (vp_SetDefault vp) '''' (config_fields Default)
       (vp_AutomaticEnv vp (vp_SetEnvKeyReplacer vp env_replacer (vp_SetEnvPrefix vp ''AWS_COST_EXPORTER''
         (vp_SetConfigType vp ''yaml'' (vp_New vp)))))"

definition read_source :: "'v viper \<Rightarrow> string \<Rightarrow> 'v \<Rightarrow> go_error + 'v" where
  "read_source vp path source =
     (if path = '''' then Inr source
      else case vp_ReadInConfig vp (vp_SetConfigFile vp path source) of
             Inl err \<Rightarrow> Inl (Wrapped ''read config'' err)
           | Inr source' \<Rightarrow> Inr source')"

definition Config_Load ::
  "(string \<Rightarrow> string option) \<Rightarrow> url_parser \<Rightarrow> (string \<Rightarrow> bool) \<Rightarrow> 'v viper \<Rightarrow> Options \<Rightarrow> go_error + Config" where
  "Config_Load env parseURL parseIP vp options =
     (case read_source vp (op_Path options) (new_source vp) of
        Inl err \<Rightarrow> Inl err
      | Inr source \<Rightarrow>
          (case vp_UnmarshalExact vp (foldl (\<lambda>s (k, x). vp_Set vp k x s) source (op_Overrides options)) of
             Inl err \<Rightarrow> Inl (Wrapped ''decode config'' err)
           | Inr result \<Rightarrow>
               (case Validate env parseURL parseIP result of
                  Some err \<Rightarrow> Inl (Wrapped ''validate config'' err)
                | None \<Rightarrow> Inr result)))"

section \<open>What is registered\<close>

lemma Config_Load_ok:
  assumes "Config_Load env parseURL parseIP vp options = Inr v"
  shows "Validate env parseURL parseIP v = None"
  using assms by (auto simp: Config_Load_def split: sum.splits option.splits)

text \<open>The leaves of a tree of fields under their dotted keys.\<close>

fun leaf_settings :: "string \<Rightarrow> (string \<times> reflected) list \<Rightarrow> (string \<times> setting) list" where
  "leaf_settings prefix [] = []"
| "leaf_settings prefix ((tag, R_Struct fs) # rest) =
     leaf_settings (if prefix \<noteq> '''' then prefix @ ''.'' @ tag else tag) fs @ leaf_settings prefix rest"
| "leaf_settings prefix ((tag, R_Value x) # rest) = (if prefix \<noteq> '''' then prefix @ ''.'' @ tag else tag, x) # leaf_settings prefix rest"

text \<open>Registering calls \<open>SetDefault\<close> exactly once for each leaf, in order.\<close>

lemma registerDefaults_calls:
  "registerDefaults setDefault prefix rest source = foldl (\<lambda>s (k, x). setDefault k x s) source (leaf_settings prefix rest)"
  by (induction setDefault prefix rest source rule: registerDefaults.induct) simp_all

definition registered_settings :: "Config \<Rightarrow> (string \<times> setting) list" where
  "registered_settings v = registerDefaults (\<lambda>k x l. l @ [(k, x)]) '''' (config_fields v) []"

lemma registered_leaves: "registered_settings v = leaf_settings '''' (config_fields v)"
proof -
  have "foldl (\<lambda>l (k, x). l @ [(k, x)]) l xs = l @ xs" for l and xs :: "(string \<times> setting) list"
    by (induction xs arbitrary: l) auto
  then show ?thesis by (simp add: registered_settings_def registerDefaults_calls)
qed

lemmas fields_defs = config_fields_def server_fields_def log_fields_def aws_fields_def collection_fields_def cost_explorer_fields_def
  domain_fields_def cur_fields_def

definition setting_keys :: "string list" where
  "setting_keys = map fst (leaf_settings '''' (config_fields Default))"

lemma registered_keys: "map fst (registered_settings v) = setting_keys"
  by (simp add: registered_leaves setting_keys_def fields_defs)

section \<open>Every setting has an address of its own\<close>

lemma setting_keys_list: "setting_keys =
    [''server.listen_address'', ''server.metrics_path'', ''server.read_header_timeout'', ''server.read_timeout'',
     ''server.write_timeout'', ''server.idle_timeout'', ''server.shutdown_timeout'', ''server.max_in_flight'',
     ''server.debug.enabled'', ''log.level'', ''log.format'', ''log.add_source'', ''aws.region'', ''aws.credentials.sources'',
     ''aws.request_timeout'', ''aws.endpoints.sts'', ''aws.endpoints.cost_explorer'', ''aws.endpoints.organizations'',
     ''aws.endpoints.budgets'', ''aws.endpoints.athena'', ''aws.retry.max_attempts'', ''aws.retry.base_delay'',
     ''aws.retry.max_backoff'', ''aws.rate_limit.global_requests_per_second'', ''aws.rate_limit.global_burst'',
     ''aws.rate_limit.target_requests_per_second'', ''aws.rate_limit.target_burst'', ''targets'', ''collection.refresh_interval'',
     ''collection.startup_refresh'', ''collection.jitter_ratio'', ''collection.max_concurrency'',
     ''collection.failure_backoff.max_attempts'', ''collection.failure_backoff.initial'', ''collection.failure_backoff.max'',
     ''collection.failure_backoff.multiplier'', ''collection.cost_explorer.cost_bases'', ''collection.cost_explorer.max_pages'',
     ''collection.cost_explorer.prediction_interval'', ''collection.cost_explorer.collectors.total'',
     ''collection.cost_explorer.collectors.service'', ''collection.cost_explorer.collectors.region'',
     ''collection.cost_explorer.collectors.account'', ''collection.cost_explorer.collectors.forecast'',
     ''collection.cost_explorer.dimensions.series_limit'', ''collection.cost_explorer.dimensions.overflow'',
     ''collection.cost_explorer.dimensions.overflow_label'', ''collection.organizations.refresh_interval'',
     ''collection.organizations.max_pages'', ''collection.organizations.series_limit'', ''collection.budgets.refresh_interval'',
     ''collection.budgets.max_pages'', ''collection.budgets.series_limit'', ''collection.commitments.refresh_interval'',
     ''collection.commitments.max_pages'', ''collection.commitments.series_limit'', ''collection.anomalies.refresh_interval'',
     ''collection.anomalies.max_pages'', ''collection.anomalies.series_limit'', ''collection.tags.refresh_interval'',
     ''collection.tags.max_pages'', ''collection.tags.series_limit'', ''collection.cur.refresh_interval'',
     ''collection.cur.max_pages'', ''collection.cur.max_rows'', ''collection.cur.max_currencies'',
     ''collection.cur.series_limit'', ''cache.freshness_ttl'', ''cache.stale_after'', ''telemetry.include_go_collector'',
     ''telemetry.include_process_collector'']"
  by (simp add: setting_keys_def fields_defs)

text \<open>Reads the name the replacer gives a key back.\<close>

fun env_decode :: "string \<Rightarrow> string" where
  "env_decode (CHR ''_'' # CHR ''_'' # s) = CHR ''.'' # env_decode s"
| "env_decode (c # s) = c # env_decode s"
| "env_decode [] = []"

lemma setting_keys_distinct: "distinct setting_keys"
proof -
  have "distinct (map rev setting_keys)" unfolding setting_keys_list by simp
  then show ?thesis by (simp add: distinct_map)
qed

lemma setting_keys_decoded: "list_all (\<lambda>k. env_decode (env_replacer k) = k) setting_keys"
  unfolding setting_keys_list by code_simp



end
