(* ===== verification/Command.thy ===== *)
theory Command
  imports Lifecycle Loader
begin

text \<open>
  \<open>internal/app/command.go\<close> and the entry point. The command line library is a parameter: it either
  answers itself (a parse error, help or version) or calls \<open>RunE\<close> with the flags. The runtime is a
  parameter of \<open>execute\<close> in the source, too. Actions pass an opaque state, the outputs and
  whatever the runtime changes.
\<close>

section \<open>command.go\<close>

record flags =
  fl_path :: string
  fl_listenAddress :: "string option"
  fl_logLevel :: "string option"
  fl_checkConfig :: bool

text \<open>An option flag is present when it was changed on the command line.\<close>

definition overrides :: "flags \<Rightarrow> (string, setting) gomap" where
  "overrides f =
     (case fl_listenAddress f of Some a \<Rightarrow> [(''server.listen_address'', S_String a)] | None \<Rightarrow> []) @
     (case fl_logLevel f of Some l \<Rightarrow> [(''log.level'', S_String l)] | None \<Rightarrow> [])"

datatype cli = Cli_Answered "go_error option" | Cli_Run flags

record ('s, 'v, 'c, 'o) host =
  ho_env :: "string \<Rightarrow> string option"
  ho_parseURL :: url_parser
  ho_parseIP :: "string \<Rightarrow> bool"
  ho_viper :: "'v viper"
  ho_load :: "string \<Rightarrow> load_option list \<Rightarrow> go_error + 'c sdk_config"
  ho_cobra :: "string list \<Rightarrow> 's \<Rightarrow> 's \<times> cli"
  ho_Fprintln :: "string \<Rightarrow> 's \<Rightarrow> 's \<times> go_error option"
  ho_errorOutput :: "'o option"

definition load_config :: "('s, 'v, 'c, 'o) host \<Rightarrow> flags \<Rightarrow> go_error + Config" where
  "load_config h f = Config_Load (ho_env h) (ho_parseURL h) (ho_parseIP h) (ho_viper h) \<lparr> op_Path = fl_path f, op_Overrides = overrides f \<rparr>"

definition check_config :: "('s, 'v, 'c, 'o) host \<Rightarrow> Config \<Rightarrow> 's \<Rightarrow> 's \<times> go_error option" where
  "check_config h v s =
     (case ValidateSources (Some (Factory_New (ho_load h) (ho_env h) (cf_AWS v))) of
        Some err \<Rightarrow> (s, Some (Wrapped ''validate AWS credential sources'' err))
      | None \<Rightarrow> ho_Fprintln h ''configuration valid'' s)"

definition RunE ::
  "('s, 'v, 'c, 'o) host \<Rightarrow> (Config \<Rightarrow> Logger \<Rightarrow> 's \<Rightarrow> 's \<times> go_error option) \<Rightarrow> flags \<Rightarrow> 's \<Rightarrow> 's \<times> go_error option" where
  "RunE h runtime f s =
     (case load_config h f of
        Inl err \<Rightarrow> (s, Some err)
      | Inr v \<Rightarrow>
          (case Logging_New (cf_Log v) (ho_errorOutput h) of
             Inl err \<Rightarrow> (s, Some err)
           | Inr logger \<Rightarrow> if fl_checkConfig f then check_config h v s else runtime v logger s))"

definition execute ::
  "('s, 'v, 'c, 'o) host \<Rightarrow> (Config \<Rightarrow> Logger \<Rightarrow> 's \<Rightarrow> 's \<times> go_error option) \<Rightarrow> string list \<Rightarrow> 's \<Rightarrow> 's \<times> go_error option" where
  "execute h runtime args s =
     (case ho_cobra h args s of
        (s1, Cli_Answered err) \<Rightarrow> (s1, err)
      | (s1, Cli_Run f) \<Rightarrow> RunE h runtime f s1)"

section \<open>main.go\<close>

text \<open>The exit code, and whether a message goes to the standard error.\<close>

definition exit_code :: "go_error option \<Rightarrow> int" where
  "exit_code err = (case err of None \<Rightarrow> 0 | Some _ \<Rightarrow> 1)"

definition main_run ::
  "('s, 'v, 'c, 'o) host \<Rightarrow> (Config \<Rightarrow> Logger \<Rightarrow> 's \<Rightarrow> 's \<times> go_error option) \<Rightarrow> string list \<Rightarrow> 's \<Rightarrow> 's \<times> int" where
  "main_run h runtime args s = map_prod (\<lambda>s. s) exit_code (execute h runtime args s)"

section \<open>Credential sources\<close>

lemma sources_loaded:
  assumes "ValidateSources (Some f) = None" and "map_of (aw_Sources (fa_config f)) name \<noteq> None"
  shows "map_of (fa_sourceErrors f) name = None"
proof -
  obtain source where "(name, source) \<in> set (aw_Sources (fa_config f))" using assms(2) map_of_SomeD by fastforce
  with assms(1) show ?thesis by (fastforce simp: ValidateSources_def)
qed

lemma loaded_verifier:
  assumes "ForTarget env (Some f) t = Inr cs" and "map_of (fa_sourceErrors f) (tg_Source t) = None"
  shows "\<exists>tv. cs_Verifier cs = TargetVerifier tv"
  using assms by (auto simp: ForTarget_def Let_def split: if_splits option.splits)

section \<open>The command\<close>

lemma logger_constructed:
  assumes "Validate env parseURL parseIP v = None"
  shows "\<exists>l. Logging_New (cf_Log v) (Some out) = Inr l"
  using assms by (intro validated_logger) (simp add: Validate_def)

text \<open>
  C23. The configuration check is sound. When \<open>--check-config\<close> succeeds, the same command line
  without the flag loads a configuration from which the process can be constructed, provided the
  metrics registry accepts collectors whose names are new; and the verifier of every job is one
  that can succeed, because the credential source of every target has been loaded.
\<close>

theorem check_config_sound:
  assumes "execute h runtime args s = (s', None)" and "ho_cobra h args s = (s1, Cli_Run f)" and "fl_checkConfig f"
    and "prometheus_laws prom"
  shows "\<exists>v p. load_config h f = Inr v \<and> Run_construct (ho_env h) (ho_load h) prom build v = Inr p \<and>
    (\<forall>j \<in> set (pr_jobs p). \<exists>tv. vc_verifier (bj_Collector j) = TargetVerifier tv) \<and>
    ho_Fprintln h ''configuration valid'' s1 = (s', None)"
proof -
  obtain v where v: "load_config h f = Inr v" and c: "check_config h v s1 = (s', None)"
    using assms(1-3) by (auto simp: execute_def RunE_def split: sum.splits)
  then have ok: "Validate (ho_env h) (ho_parseURL h) (ho_parseIP h) v = None" by (auto simp: load_config_def intro: Config_Load_ok)
  let ?f = "Factory_New (ho_load h) (ho_env h) (cf_AWS v)"
  have src: "ValidateSources (Some ?f) = None" and out: "ho_Fprintln h ''configuration valid'' s1 = (s', None)"
    using c by (auto simp: check_config_def split: option.splits)
  obtain st where "targets_inv (ho_parseURL h) (ho_parseIP h) v (cf_Targets v) st" by (rule Validate_targets [OF ok])
  then have named: "\<forall>t \<in> set (cf_Targets v). map_of (aw_Sources (cf_AWS v)) (tg_Source t) \<noteq> None"
    by (simp add: targets_inv_def target_ok_def)
  have "\<exists>tv. vc_verifier (bj_Collector j) = TargetVerifier tv" if g: "guarded_job (ho_env h) ?f (cf_Targets v) j" for j
  proof -
    obtain t cs where t: "t \<in> set (cf_Targets v)" "ForTarget (ho_env h) (Some ?f) t = Inr cs" "vc_verifier (bj_Collector j) = cs_Verifier cs"
      using g by (auto simp: guarded_job_def)
    have "map_of (fa_sourceErrors ?f) (tg_Source t) = None" using sources_loaded [OF src] named t(1) by (simp add: Factory_New_def)
    with t(2,3) show ?thesis using loaded_verifier by metis
  qed
  then show ?thesis
    by (rule_tac Run_constructs [OF ok assms(4), of "ho_load h" build]) (use v out in simp)
qed

text \<open>
  The runtime starts validated only. Two runtimes that agree on the validated configurations,
  with the logger built for them, are not told apart by the command; a command line that loads a
  configuration hands exactly that one over, when there is an output for the log; with \<open>--check-config\<close> no runtime
  is started at all; and the exit code is 1 exactly when an error is returned.
\<close>

theorem runtime_starts_validated:
  assumes "\<forall>v l s. Validate (ho_env h) (ho_parseURL h) (ho_parseIP h) v = None \<and> Logging_New (cf_Log v) (ho_errorOutput h) = Inr l
    \<longrightarrow> runtime v l s = runtime' v l s"
  shows "execute h runtime args s = execute h runtime' args s \<and>
    (\<forall>s1 f. ho_cobra h args s = (s1, Cli_Run f) \<longrightarrow>
       (if fl_checkConfig f then \<forall>any. execute h runtime args s = execute h any args s
        else \<forall>v. load_config h f = Inr v \<and> ho_errorOutput h \<noteq> None \<longrightarrow> (\<exists>l. execute h runtime args s = runtime v l s1))) \<and>
    snd (main_run h runtime args s) = (if snd (execute h runtime args s) = None then 0 else 1)"
proof -
  have ok: "load_config h f = Inr v \<Longrightarrow> Validate (ho_env h) (ho_parseURL h) (ho_parseIP h) v = None" for f v
    by (auto simp: load_config_def intro: Config_Load_ok)
  have same: "execute h runtime args s = execute h runtime' args s"
    using assms ok by (auto simp: execute_def RunE_def split: prod.splits cli.splits sum.splits)
  have started: "\<exists>l. execute h runtime args s = runtime v l s1"
    if r: "ho_cobra h args s = (s1, Cli_Run f)" "load_config h f = Inr v" "\<not> fl_checkConfig f" "ho_errorOutput h = Some out" for s1 f v out
  proof -
    from logger_constructed [OF ok [OF r(2)], of out] obtain l where "Logging_New (cf_Log v) (Some out) = Inr l" ..
    with r show ?thesis by (auto simp: execute_def RunE_def)
  qed
  have checked: "execute h runtime args s = execute h any args s" if "ho_cobra h args s = (s1, Cli_Run f)" "fl_checkConfig f" for any s1 f
    using that by (auto simp: execute_def RunE_def split: sum.splits)
  have "snd (main_run h runtime args s) = (if snd (execute h runtime args s) = None then 0 else 1)"
    by (auto simp: main_run_def exit_code_def split: option.splits)
  then show ?thesis by (intro conjI allI impI same) (auto intro: started checked)
qed

section \<open>Witnesses\<close>

definition sample_viper :: "Config \<Rightarrow> (string \<times> setting) list viper" where
  "sample_viper v =
     \<lparr> vp_New = [], vp_SetConfigType = (\<lambda>_ s. s), vp_SetEnvPrefix = (\<lambda>_ s. s), vp_SetEnvKeyReplacer = (\<lambda>_ s. s), vp_AutomaticEnv = (\<lambda>s. s),
       vp_SetDefault = (\<lambda>k x s. s @ [(k, x)]), vp_SetConfigFile = (\<lambda>_ s. s), vp_ReadInConfig = Inr,
       vp_Set = (\<lambda>k x s. AList.update k x s), vp_UnmarshalExact = (\<lambda>_. Inr v) \<rparr>"

definition sample_host :: "bool \<Rightarrow> (string list, (string \<times> setting) list, unit, unit) host" where
  "sample_host check =
     \<lparr> ho_env = sample_env, ho_parseURL = (\<lambda>_. None), ho_parseIP = (\<lambda>_. False), ho_viper = sample_viper sample_config, ho_load = sample_load,
       ho_cobra = (\<lambda>args s. (s, Cli_Run \<lparr> fl_path = '''', fl_listenAddress = None, fl_logLevel = Some ''debug'', fl_checkConfig = check \<rparr>)),
       ho_Fprintln = (\<lambda>line s. (s @ [line], None)), ho_errorOutput = Some () \<rparr>"

lemma sample_host_parts:
  "ho_env (sample_host c) = sample_env" "ho_load (sample_host c) = sample_load" "ho_errorOutput (sample_host c) = Some ()"
  "ho_Fprintln (sample_host c) line out = (out @ [line], None)"
  "ho_cobra (sample_host c) args out =
     (out, Cli_Run \<lparr> fl_path = '''', fl_listenAddress = None, fl_logLevel = Some ''debug'', fl_checkConfig = c \<rparr>)"
  by (simp_all add: sample_host_def)

definition sample_runtime :: "Config \<Rightarrow> Logger \<Rightarrow> string list \<Rightarrow> string list \<times> go_error option" where
  "sample_runtime v l s = (s @ [sv_ListenAddress (cf_Server v)], None)"

lemma sample_loaded: "load_config (sample_host check) f = Inr sample_config"
  by (simp add: load_config_def Config_Load_def read_source_def sample_host_def sample_viper_def sample_config_valid)

lemma sample_check_runs: "execute (sample_host True) sample_runtime [] [] = ([''configuration valid''], None)"
proof -
  from logger_constructed [OF sample_config_valid, of "()"] obtain l where "Logging_New (cf_Log sample_config) (Some ()) = Inr l" ..
  moreover have "ValidateSources (Some (Factory_New sample_load sample_env (cf_AWS sample_config))) = None"
    by (simp add: ValidateSources_def Factory_New_def sample_config_def sample_load_def load_source_def List.map_filter_def
        CredentialSourceDefaultChain_def CredentialSourceProfile_def CredentialSourceStaticEnv_def)
  ultimately show ?thesis
    by (simp add: execute_def RunE_def sample_loaded check_config_def sample_host_parts)
qed

theorem check_config_sound_witness:
  "\<exists>p. Run_construct sample_env sample_load sample_prometheus sample_build sample_config = Inr p \<and>
     list_all (\<lambda>j. \<exists>tv. vc_verifier (bj_Collector j) = TargetVerifier tv) (pr_jobs p)"
  using check_config_sound [OF sample_check_runs _ _ sample_prometheus_laws, of "[]" _ sample_build] sample_loaded [of True]
  by (simp add: sample_host_parts list_all_iff)

theorem runtime_starts_validated_witness:
  "execute (sample_host False) sample_runtime [] [] = ([sv_ListenAddress (cf_Server sample_config)], None)"
  using runtime_starts_validated [of "sample_host False" sample_runtime sample_runtime "[]" "[]"] sample_loaded [of False]
  by (simp add: sample_host_parts) (simp add: sample_runtime_def)

end
