(* ===== verification/Program.thy ===== *)
theory Program
  imports Command
begin

text \<open>
  The whole program: \<open>Run\<close> of \<open>internal/app/bootstrap.go\<close>, the production runtime of the command,
  from construction over \<open>net.Listen\<close> and the start messages to \<open>RunServices\<close>, and the exit code of
  the process. What the network, the log output and the running services answer is a parameter.
\<close>

section \<open>Log records\<close>

text \<open>Levels of \<open>log/slog\<close>: info 0, warn 4. A handler drops records below its level and redacts attributes.\<close>

record log_record =
  lr_Level :: int
  lr_Message :: string
  lr_Attrs :: "string Attr list"

definition handle_record :: "Logger \<Rightarrow> log_record \<Rightarrow> log_record option" where
  "handle_record logger r = (if lr_Level r < lo_Level logger then None else Some (r\<lparr> lr_Attrs := written (lr_Attrs r) \<rparr>))"

definition text_attr :: "string \<Rightarrow> string \<Rightarrow> string Attr" where
  "text_attr key v = \<lparr> attr_Key = key, attr_Value = Inl v \<rparr>"

section \<open>Run\<close>

text \<open>
  What the process meets: the metrics registry, the build information, the network, the output of
  the log, and what happens between the start and the end of the services, namely the observations
  made by then and how scheduler and server end.
\<close>

record ('s, 'c) platform =
  pl_prometheus :: prometheus
  pl_build :: Info
  pl_Listen :: "string \<Rightarrow> 's \<Rightarrow> 's \<times> (go_error + string)"
  pl_write :: "log_record \<Rightarrow> 's \<Rightarrow> 's"
  pl_serve :: "'c Process \<Rightarrow> 's \<Rightarrow> 's \<times> observation list \<times> services"

definition start_records :: "Config \<Rightarrow> string \<Rightarrow> log_record list" where
  "start_records v address =
     \<lparr> lr_Level = 0, lr_Message = ''aws-cost-exporter started'',
       lr_Attrs = [text_attr ''address'' address, text_attr ''targets'' (itoa (length (cf_Targets v)))] \<rparr> #
     map (\<lambda>t. \<lparr> lr_Level = 4,
                 lr_Message = ''grouped collectors enabled without Cost Explorer filters; queries may return many billable pages'',
                 lr_Attrs = [text_attr ''target'' (tg_Name t)] \<rparr>)
       (filter (unfilteredGroupedCollectors v) (cf_Targets v))"

definition write_records :: "('s, 'c) platform \<Rightarrow> Logger \<Rightarrow> log_record list \<Rightarrow> 's \<Rightarrow> 's" where
  "write_records pl logger rs s =
     foldl (\<lambda>s r. case handle_record logger r of None \<Rightarrow> s | Some r' \<Rightarrow> pl_write pl r' s) s rs"

text \<open>Of a joined error the first is kept: its callers print it and test it for nil.\<close>

definition joined :: "go_error list \<Rightarrow> go_error option" where
  "joined errs = (case errs of [] \<Rightarrow> None | err # _ \<Rightarrow> Some err)"

text \<open>\<open>None\<close>: an observation panicked, or the services never ended.\<close>

definition Run ::
  "(string \<Rightarrow> string option) \<Rightarrow> (string \<Rightarrow> load_option list \<Rightarrow> go_error + 'c sdk_config) \<Rightarrow> ('s, 'c) platform \<Rightarrow>
   Config \<Rightarrow> Logger \<Rightarrow> 's \<Rightarrow> ('s \<times> go_error option) option" where
  "Run env load pl v logger s =
     (case Run_construct env load (pl_prometheus pl) (pl_build pl) v of
        Inl err \<Rightarrow> Some (s, Some err)
      | Inr p \<Rightarrow>
          (case pl_Listen pl (sv_ListenAddress (cf_Server v)) s of
             (s, Inl err) \<Rightarrow> Some (s, Some (Wrapped ''listen'' err))
           | (s, Inr address) \<Rightarrow>
               let (s, obs, services) = pl_serve pl p (write_records pl logger (start_records v address) s)
               in (case observe_all obs (pr_telemetry p) of
                     None \<Rightarrow> None
                   | Some telemetry \<Rightarrow>
                       map_option (\<lambda>(_, _, _, errs). (s, joined errs))
                         (RunServices services (sv_ShutdownTimeout (cf_Server v)) (pr_server p) telemetry))))"

text \<open>
  \<open>Execute\<close>: the command with this runtime. \<open>runtime\<close> is what \<open>execute\<close> is given; it answers what
  \<open>Run\<close> returns.
\<close>

definition production_runtime ::
  "('s, 'v, 'c, 'o) host \<Rightarrow> ('s, 'c) platform \<Rightarrow> (Config \<Rightarrow> Logger \<Rightarrow> 's \<Rightarrow> 's \<times> go_error option) \<Rightarrow> bool" where
  "production_runtime h pl runtime \<longleftrightarrow>
     (\<forall>v logger s r. Run (ho_env h) (ho_load h) pl v logger s = Some r \<longrightarrow> runtime v logger s = r)"

section \<open>The outcome of the program\<close>

definition clean_stop :: "services \<Rightarrow> bool" where
  "clean_stop sv =
     (case sv_branch sv of
        Server_Returned err \<Rightarrow> unless_closed err = None
      | Context_Ended \<Rightarrow> sv_shutdownErr sv = None \<and> unless_closed (sv_serveErr sv) = None)"

lemma observed_returns:
  assumes "arities ex"
  shows "\<exists>ex'. observe_all obs ex = Some ex' \<and> arities ex'"
proof -
  have "adds ex (List.map_filter observed_target obs) (observe_all obs ex)"
    using assms by (rule observe_all_adds) (auto simp: List.map_filter_def intro!: image_eqI)
  then obtain ex' where "observe_all obs ex = Some ex'" by (auto simp: adds_def)
  with observed_arities [OF assms this] show ?thesis by blast
qed

lemma services_return:
  assumes "Run_construct env load prom build v = Inr p"
  shows "\<exists>ex r. observe_all obs (pr_telemetry p) = Some ex \<and>
    RunServices sv (sv_ShutdownTimeout (cf_Server v)) (pr_server p) ex = Some r \<and> (joined (snd (snd (snd r))) = None \<longleftrightarrow> clean_stop sv)"
proof -
  note parts = constructed_parts [OF assms]
  obtain ex where ex: "observe_all obs (pr_telemetry p) = Some ex" and "arities ex" using observed_returns [OF parts(2)] by blast
  note step = wait_step_bounded [OF parts(1) this(2)]
  have nil: "joined errs = None \<longleftrightarrow> errs = []" for errs by (cases errs) (simp_all add: joined_def)
  have "\<exists>r. RunServices sv (sv_ShutdownTimeout (cf_Server v)) (pr_server p) ex = Some r \<and> (joined (snd (snd (snd r))) = None \<longleftrightarrow> clean_stop sv)"
    by (cases "sv_branch sv") (simp_all add: RunServices_def Let_def step clean_stop_def nil errors_Join_empty)
  with ex show ?thesis by auto
qed

lemma run_after_listen:
  assumes p: "Run_construct env load (pl_prometheus pl) (pl_build pl) v = Inr p"
    and "pl_Listen pl (sv_ListenAddress (cf_Server v)) s = (s1, Inr address)"
    and "pl_serve pl p (write_records pl logger (start_records v address) s1) = (s2, obs, sv)"
  shows "\<exists>err. Run env load pl v logger s = Some (s2, err) \<and> (err = None \<longleftrightarrow> clean_stop sv)"
  using services_return [OF p, of obs sv] assms by (auto simp: Run_def)

text \<open>
  C9. The outcome of the program. With a metrics registry that accepts new names, every command line
  that is not answered by the flag parser and does not only check the configuration ends in one of
  three ways. The configuration does not load: nothing is opened and the exit code is 1. It loads but
  the address cannot be listened on: exit code 1, nothing logged and no service started. Otherwise
  the process is constructed, listens on the configured address, logs the start and one warning for
  each target with unfiltered grouped collectors, in this order and after redaction, serves, and
  always ends; the exit code is 0 exactly when the services stopped cleanly.
\<close>

theorem program_outcome:
  assumes "prometheus_laws (pl_prometheus pl)" and "production_runtime h pl runtime"
    and "ho_cobra h args s = (s1, Cli_Run f)" and "\<not> fl_checkConfig f" and "ho_errorOutput h \<noteq> None"
  shows "case load_config h f of
      Inl _ \<Rightarrow> main_run h runtime args s = (s1, 1)
    | Inr v \<Rightarrow> \<exists>p logger.
        Run_construct (ho_env h) (ho_load h) (pl_prometheus pl) (pl_build pl) v = Inr p \<and>
        Logging_New (cf_Log v) (ho_errorOutput h) = Inr logger \<and>
        (case pl_Listen pl (sv_ListenAddress (cf_Server v)) s1 of
           (s2, Inl _) \<Rightarrow> main_run h runtime args s = (s2, 1)
         | (s2, Inr address) \<Rightarrow>
             (case pl_serve pl p (write_records pl logger (start_records v address) s2) of
                (s3, obs, sv) \<Rightarrow> main_run h runtime args s = (s3, if clean_stop sv then 0 else 1)))"
proof (cases "load_config h f")
  case (Inl err)
  then show ?thesis using assms(3) by (simp add: main_run_def execute_def RunE_def exit_code_def)
next
  case (Inr v)
  then have ok: "Validate (ho_env h) (ho_parseURL h) (ho_parseIP h) v = None" by (auto simp: load_config_def intro: Config_Load_ok)
  obtain p where p: "Run_construct (ho_env h) (ho_load h) (pl_prometheus pl) (pl_build pl) v = Inr p"
    by (rule Run_constructs [OF ok assms(1), of "ho_load h" "pl_build pl"])
  obtain out where out: "ho_errorOutput h = Some out" using assms(5) by auto
  from logger_constructed [OF ok, of out] obtain logger where logger: "Logging_New (cf_Log v) (ho_errorOutput h) = Inr logger"
    unfolding out ..
  have main: "main_run h runtime args s = (s', exit_code err)"
    if "Run (ho_env h) (ho_load h) pl v logger s1 = Some (s', err)" for s' err
    using that assms(2-4) Inr logger by (simp add: main_run_def execute_def RunE_def production_runtime_def)
  have refused: "main_run h runtime args s = (s2, 1)" if "pl_Listen pl (sv_ListenAddress (cf_Server v)) s1 = (s2, Inl err)" for s2 err
    using main [of s2 "Some (Wrapped ''listen'' err)"] that p by (simp add: Run_def exit_code_def)
  have served: "main_run h runtime args s = (s3, if clean_stop sv then 0 else 1)"
    if "pl_Listen pl (sv_ListenAddress (cf_Server v)) s1 = (s2, Inr address)"
      "pl_serve pl p (write_records pl logger (start_records v address) s2) = (s3, obs, sv)" for s2 address s3 obs sv
    using run_after_listen [OF p that] main by (auto simp: exit_code_def split: option.splits)
  show ?thesis
    unfolding Inr sum.case
    by (rule exI [of _ p], rule exI [of _ logger]) (use p logger refused served in \<open>auto split: prod.splits sum.splits\<close>)
qed

section \<open>Witness\<close>

definition sample_platform :: "(string list, unit) platform" where
  "sample_platform =
     \<lparr> pl_prometheus = sample_prometheus, pl_build = sample_build,
       pl_Listen = (\<lambda>address s. (s @ [address], Inr address)), pl_write = (\<lambda>r s. s @ [lr_Message r]),
       pl_serve = (\<lambda>p s. (s @ [''served''], [], sample_services)) \<rparr>"

definition sample_production :: "Config \<Rightarrow> Logger \<Rightarrow> string list \<Rightarrow> string list \<times> go_error option" where
  "sample_production v logger s = (case Run sample_env sample_load sample_platform v logger s of None \<Rightarrow> (s, None) | Some r \<Rightarrow> r)"

lemma sample_runtime_agrees: "production_runtime (sample_host False) sample_platform sample_production"
  by (simp add: production_runtime_def sample_production_def sample_host_parts)

theorem program_outcome_witness:
  "\<exists>out. main_run (sample_host False) sample_production [] [] = (out @ [''served''], 0) \<and>
     hd out = sv_ListenAddress (cf_Server sample_config)"
proof -
  have "ho_cobra (sample_host False) [] [] =
      ([], Cli_Run \<lparr> fl_path = '''', fl_listenAddress = None, fl_logLevel = Some ''debug'', fl_checkConfig = False \<rparr>)"
    by (simp add: sample_host_parts)
  from program_outcome [OF _ sample_runtime_agrees this] sample_prometheus_laws sample_loaded [of False]
  obtain logger where "main_run (sample_host False) sample_production [] [] =
      (write_records sample_platform logger (start_records sample_config (sv_ListenAddress (cf_Server sample_config)))
         [sv_ListenAddress (cf_Server sample_config)] @ [''served''], 0)"
    by (auto simp: sample_host_parts sample_platform_def sample_services_def clean_stop_def unless_closed_def ErrServerClosed_def errors_Is_def)
  moreover have "\<exists>more. write_records sample_platform logger rs s = s @ more" for rs s
  proof (induction rs arbitrary: s)
    case (Cons r rs)
    obtain x where "write_records sample_platform logger (r # rs) s = write_records sample_platform logger rs (s @ x)"
      by (cases "handle_record logger r") (auto simp: write_records_def sample_platform_def intro: that [of "[]"])
    with Cons.IH [of "s @ x"] show ?case by auto
  qed (simp add: write_records_def)
  ultimately show ?thesis by (metis append_Cons append_Nil list.sel(1))
qed

end
