(* ===== verification/Pages_Tool.thy ===== *)
theory Pages_Tool
  imports Go_Strings Go_Errors Prelude "HOL-Library.Sublist"
begin

text \<open>
  \<open>tools/pages\<close>: the generator of the documentation site from the managed wiki. The pattern of a
  wiki link is the function that matches it at the start of a text; the operating system answers
  through parameters, and what the tool does to the file system is the list of its calls.
\<close>

section \<open>Wiki links\<close>

definition wikiBaseURL :: string where "wikiBaseURL = ''https://github.com/Sakuya1998/aws-cost-exporter/wiki/''"

definition alnum :: "char \<Rightarrow> bool" where
  "alnum c \<longleftrightarrow> (CHR ''a'' \<le> c \<and> c \<le> CHR ''z'') \<or> (CHR ''A'' \<le> c \<and> c \<le> CHR ''Z'') \<or> is_digit c"

definition slug_char :: "char \<Rightarrow> bool" where
  "slug_char c \<longleftrightarrow> alnum c \<or> c = CHR ''-''"

definition fragment_char :: "char \<Rightarrow> bool" where
  "fragment_char c \<longleftrightarrow> alnum c \<or> c \<in> set (''._~%!$&'' @ [CHR 0x27] @ ''()*+,;=:@/?-'')"

text \<open>
  \<open>wikiLinkPattern\<close> at the start of a text: the matched text after the base and what follows. Both
  repetitions are greedy and neither can give back a character the rest of the pattern needs.
\<close>

definition match_fragment :: "string \<Rightarrow> string" where
  "match_fragment s = (case s of c # f \<Rightarrow> if c = CHR ''#'' \<and> takeWhile fragment_char f \<noteq> [] then c # takeWhile fragment_char f else [] | [] \<Rightarrow> [])"

definition match_link :: "string \<Rightarrow> (string \<times> string) option" where
  "match_link s =
     (if \<not> HasPrefix s wikiBaseURL then None
      else let rest = drop (length wikiBaseURL) s; slug = takeWhile slug_char rest;
               fragment = match_fragment (dropWhile slug_char rest)
           in if slug = [] then None else Some (slug @ fragment, drop (length fragment) (dropWhile slug_char rest)))"

definition Cut_hash :: "string \<Rightarrow> string \<times> string" where
  "Cut_hash s = (takeWhile (\<lambda>c. c \<noteq> CHR ''#'') s, drop 1 (dropWhile (\<lambda>c. c \<noteq> CHR ''#'') s))"

definition page_link :: "string \<Rightarrow> string" where
  "page_link v =
     (let (slug, fragment) = Cut_hash v; fragment = (if fragment \<noteq> '''' then ''#'' @ fragment else fragment)
      in if slug = ''Home'' then ''index.md'' @ fragment else slug @ ''.md'' @ fragment)"

lemma match_link_shorter: "match_link s = Some (v, rest) \<Longrightarrow> length rest < length s"
proof -
  assume m: "match_link s = Some (v, rest)"
  then have "s \<noteq> []" by (auto simp: match_link_def HasPrefix_def wikiBaseURL_def)
  moreover have "length rest \<le> length (drop (length wikiBaseURL) s)"
    using m length_dropWhile_le [of slug_char "drop (length wikiBaseURL) s"] by (auto simp: match_link_def Let_def split: if_splits)
  moreover have "0 < length wikiBaseURL" by (simp add: wikiBaseURL_def)
  ultimately show ?thesis unfolding length_drop length_greater_0_conv [symmetric] by linarith
qed

function rewriteWikiLinks :: "string \<Rightarrow> string" where
  "rewriteWikiLinks [] = []"
| "rewriteWikiLinks (c # cs) =
     (case match_link (c # cs) of
        None \<Rightarrow> c # rewriteWikiLinks cs
      | Some (v, rest) \<Rightarrow> page_link v @ rewriteWikiLinks rest)"
  by pat_completeness auto
termination by (relation "measure length") (auto dest: match_link_shorter)

section \<open>Preparing the destination\<close>

text \<open>
  Absolute paths are clean on return from \<open>filepath.Abs\<close> and are given by their components.
  \<open>filepath.Rel\<close> drops the common components, climbs out of what is left of the base, and is a
  dot when nothing remains.
\<close>

fun rel_components :: "string list \<Rightarrow> string list \<Rightarrow> string list" where
  "rel_components (b # base) (t # targ) = (if b = t then rel_components base targ else replicate (length (b # base)) ''..'' @ t # targ)"
| "rel_components base targ = replicate (length base) ''..'' @ targ"

definition Rel :: "string list \<Rightarrow> string list \<Rightarrow> string" where
  "Rel base targ = (case rel_components base targ of [] \<Rightarrow> ''.'' | cs \<Rightarrow> Join cs ''/'')"

definition destination_contains :: "string list \<Rightarrow> string list \<Rightarrow> bool" where
  "destination_contains dest source \<longleftrightarrow>
     (let r = Rel dest source in r = ''.'' \<or> (r \<noteq> ''..'' \<and> \<not> HasPrefix r (''..'' @ ''/'')))"

definition excluded :: "string \<Rightarrow> bool" where
  "excluded name \<longleftrightarrow> name = ''README.md'' \<or> name = ''_Sidebar.md'' \<or> name = ''_Footer.md''"

text \<open>\<open>filepath.Ext\<close>: from the last dot of the last element on.\<close>

definition Ext :: "string \<Rightarrow> string" where
  "Ext name =
     (let tail = takeWhile (\<lambda>c. c \<noteq> CHR ''.'' \<and> c \<noteq> CHR ''/'') (rev name); rest = drop (length tail) (rev name)
      in case rest of c # _ \<Rightarrow> if c = CHR ''.'' then c # rev tail else [] | [] \<Rightarrow> [])"

record source_dir =
  sd_Open :: "go_error option"
  sd_ReadFile :: "string \<Rightarrow> go_error + string"
  sd_ReadDir :: "go_error + (string \<times> bool) list"
  sd_Close :: "go_error option"

record sourcePage =
  sp_name :: string
  sp_content :: string

text \<open>An entry is its name and whether it is a directory.\<close>

definition included :: "string \<times> bool \<Rightarrow> bool" where
  "included = (\<lambda>(name, isDir). \<not> (isDir \<or> Ext name \<noteq> ''.md'' \<or> excluded name))"

definition read_page :: "source_dir \<Rightarrow> sourcePage list \<Rightarrow> string \<times> bool \<Rightarrow> go_error + sourcePage list" where
  "read_page d pages e =
     (if \<not> included e then Inr pages
      else case sd_ReadFile d (fst e) of
             Inl err \<Rightarrow> Inl (Wrapped (''read '' @ fst e) err)
           | Inr content \<Rightarrow> Inr (pages @ [\<lparr> sp_name = fst e, sp_content = content \<rparr>]))"

definition readSourcePages :: "source_dir \<Rightarrow> go_error + string \<times> sourcePage list" where
  "readSourcePages d =
     (case sd_Open d of
        Some err \<Rightarrow> Inl (Wrapped ''open source directory'' err)
      | None \<Rightarrow>
          (case sd_ReadFile d ''Home.md'' of
             Inl err \<Rightarrow> Inl (Wrapped ''read required Home.md'' err)
           | Inr home \<Rightarrow>
               (case sd_ReadDir d of
                  Inl err \<Rightarrow> Inl (Wrapped ''read source directory'' err)
                | Inr entries \<Rightarrow>
                    (case range_err (read_page d) [] entries of
                       Inl err \<Rightarrow> Inl err
                     | Inr pages \<Rightarrow>
                         (case sd_Close d of
                            Some err \<Rightarrow> Inl (Wrapped ''close source directory'' err)
                          | None \<Rightarrow> Inr (home, pages))))))"

datatype os_call = RemoveAll "string list" | MkdirAll "string list" | WriteFile "string list" string

definition call_error :: "os_call \<Rightarrow> go_error \<Rightarrow> go_error" where
  "call_error c err =
     (case c of
        RemoveAll _ \<Rightarrow> Wrapped ''clear destination'' err
      | MkdirAll _ \<Rightarrow> Wrapped ''create destination'' err
      | WriteFile path _ \<Rightarrow> Wrapped (''write '' @ last path) err)"

text \<open>Calls in order; the operating system answers each and the first failure ends the run.\<close>

fun run_calls :: "(os_call \<Rightarrow> go_error option) \<Rightarrow> os_call list \<Rightarrow> os_call list \<times> go_error option" where
  "run_calls os [] = ([], None)"
| "run_calls os (c # cs) =
     (case os c of
        Some err \<Rightarrow> ([c], Some (call_error c err))
      | None \<Rightarrow> (case run_calls os cs of (calls, err) \<Rightarrow> (c # calls, err)))"

definition writePage :: "string list \<Rightarrow> string \<Rightarrow> string \<Rightarrow> os_call" where
  "writePage dest name content = WriteFile (dest @ [name]) content"

definition page_calls :: "string list \<Rightarrow> string \<Rightarrow> sourcePage list \<Rightarrow> os_call list" where
  "page_calls dest home pages =
     [RemoveAll dest, MkdirAll dest] @
     map (\<lambda>p. writePage dest (sp_name p) (rewriteWikiLinks (sp_content p))) pages @
     [writePage dest ''index.md'' (rewriteWikiLinks home)]"

definition prepare ::
  "(os_call \<Rightarrow> go_error option) \<Rightarrow> source_dir \<Rightarrow> go_error + string list \<Rightarrow> go_error + string list \<Rightarrow> os_call list \<times> go_error option" where
  "prepare os d sourcePath destinationPath =
     (case sourcePath of
        Inl err \<Rightarrow> ([], Some (Wrapped ''resolve source'' err))
      | Inr source \<Rightarrow>
          (case destinationPath of
             Inl err \<Rightarrow> ([], Some (Wrapped ''resolve destination'' err))
           | Inr dest \<Rightarrow>
               if destination_contains dest source then ([], Some (Sentinel ''destination contains source directory''))
               else case readSourcePages d of
                      Inl err \<Rightarrow> ([], Some err)
                    | Inr (home, pages) \<Rightarrow> run_calls os (page_calls dest home pages)))"

text \<open>The exit code of \<open>main\<close>, and what it prints on the standard error.\<close>

definition pages_main ::
  "(os_call \<Rightarrow> go_error option) \<Rightarrow> source_dir \<Rightarrow> go_error + string list \<Rightarrow> go_error + string list \<Rightarrow> os_call list \<times> (go_error \<times> int) option" where
  "pages_main os d sourcePath destinationPath =
     (case prepare os d sourcePath destinationPath of
        (calls, Some err) \<Rightarrow> (calls, Some (Wrapped ''prepare Pages documentation'' err, 1))
      | (calls, None) \<Rightarrow> (calls, None))"

section \<open>Rewriting a link\<close>

lemma takeWhile_run:
  assumes "list_all P xs" and "ys = [] \<or> \<not> P (hd ys)"
  shows "takeWhile P (xs @ ys) = xs" and "dropWhile P (xs @ ys) = ys"
  using assms by (induction xs) (cases ys; auto)+

lemma match_link_at:
  assumes "slug \<noteq> []" and "list_all slug_char slug"
    and "fragment = [] \<and> (post = [] \<or> \<not> slug_char (hd post)) \<and> match_fragment post = [] \<or>
         (\<exists>f. fragment = CHR ''#'' # f \<and> f \<noteq> [] \<and> list_all fragment_char f \<and> (post = [] \<or> \<not> fragment_char (hd post)))"
  shows "match_link (wikiBaseURL @ slug @ fragment @ post) = Some (slug @ fragment, post)"
proof -
  have hash: "\<not> slug_char (CHR ''#'')" by code_simp
  have run: "takeWhile slug_char (slug @ fragment @ post) = slug" "dropWhile slug_char (slug @ fragment @ post) = fragment @ post"
    using assms(2,3) hash by (intro takeWhile_run; auto)+
  have "match_fragment (fragment @ post) = fragment"
  proof (cases "fragment = []")
    case False
    then obtain f where f: "fragment = CHR ''#'' # f" "f \<noteq> []" "list_all fragment_char f" "post = [] \<or> \<not> fragment_char (hd post)"
      using assms(3) by blast
    then show ?thesis using takeWhile_run(1) [OF f(3,4)] by (simp add: match_fragment_def)
  qed (use assms(3) in auto)
  then show ?thesis using assms(1) run by (simp add: match_link_def Let_def HasPrefix_def)
qed

lemma page_link_parts:
  assumes "list_all slug_char slug" and "fragment = [] \<or> (\<exists>f. fragment = CHR ''#'' # f \<and> f \<noteq> [])"
  shows "page_link (slug @ fragment) = (if slug = ''Home'' then ''index'' else slug) @ ''.md'' @ fragment"
proof -
  have "\<not> slug_char (CHR ''#'')" by code_simp
  then have "list_all (\<lambda>c. c \<noteq> CHR ''#'') slug" using assms(1) by (auto simp: list_all_iff)
  moreover have "fragment = [] \<or> \<not> hd fragment \<noteq> CHR ''#''" using assms(2) by auto
  ultimately have "Cut_hash (slug @ fragment) = (slug, drop 1 fragment)" unfolding Cut_hash_def by (simp only: takeWhile_run)
  then show ?thesis using assms(2) by (auto simp: page_link_def)
qed

text \<open>
  A link becomes the page of the generated site with its fragment, the text before it is kept, and
  the rest is rewritten on its own.
\<close>

lemma link_rewritten:
  assumes "\<forall>k < length pre. match_link (drop k (pre @ wikiBaseURL @ slug @ fragment @ post)) = None"
    and "slug \<noteq> []" and "list_all slug_char slug"
    and "fragment = [] \<and> (post = [] \<or> \<not> slug_char (hd post)) \<and> match_fragment post = [] \<or>
         (\<exists>f. fragment = CHR ''#'' # f \<and> f \<noteq> [] \<and> list_all fragment_char f \<and> (post = [] \<or> \<not> fragment_char (hd post)))"
  shows "rewriteWikiLinks (pre @ wikiBaseURL @ slug @ fragment @ post) =
    pre @ (if slug = ''Home'' then ''index'' else slug) @ ''.md'' @ fragment @ rewriteWikiLinks post"
  using assms(1)
proof (induction pre)
  case Nil
  obtain c cs where "wikiBaseURL @ slug @ fragment @ post = c # cs" by (cases "wikiBaseURL @ slug @ fragment @ post") (auto simp: wikiBaseURL_def)
  moreover have "page_link (slug @ fragment) = (if slug = ''Home'' then ''index'' else slug) @ ''.md'' @ fragment"
    using assms(3,4) by (intro page_link_parts) auto
  ultimately show ?case using match_link_at [OF assms(2-4)] by simp
next
  case (Cons c pre)
  have "match_link (c # pre @ wikiBaseURL @ slug @ fragment @ post) = None" using Cons.prems by fastforce
  moreover have "\<forall>k < length pre. match_link (drop k (pre @ wikiBaseURL @ slug @ fragment @ post)) = None" using Cons.prems by fastforce
  ultimately show ?case using Cons.IH by simp
qed

section \<open>Containment of paths\<close>

definition clean :: "string list \<Rightarrow> bool" where
  "clean path \<longleftrightarrow> (\<forall>c \<in> set path. c \<noteq> '''' \<and> c \<noteq> ''.'' \<and> c \<noteq> ''..'' \<and> CHR ''/'' \<notin> set c)"

lemma Join_first:
  assumes "CHR ''/'' \<notin> set c"
  shows "takeWhile (\<lambda>x. x \<noteq> CHR ''/'') (Join (c # cs) ''/'') = c"
proof -
  have "list_all (\<lambda>x. x \<noteq> CHR ''/'') c" using assms by (auto simp: list_all_iff)
  note run = takeWhile_run(1) [OF this]
  show ?thesis
  proof (cases cs)
    case Nil
    then show ?thesis using run [of "[]"] by (simp only: Join.simps append_Nil2) simp
  next
    case (Cons d ds)
    show ?thesis unfolding Cons Join.simps by (rule run) simp
  qed
qed

lemma rel_components_prefix: "rel_components dest (dest @ rest) = rest"
  by (induction dest) (cases rest; simp)+

lemma rel_components_climbs:
  "\<not> prefix dest source \<Longrightarrow> \<exists>cs. rel_components dest source = ''..'' # cs"
proof (induction dest arbitrary: source)
  case (Cons b dest)
  then show ?case by (cases source) auto
qed simp

text \<open>The textual check of the relative path is containment of paths.\<close>

lemma destination_contains_iff:
  assumes "clean source"
  shows "destination_contains dest source \<longleftrightarrow> prefix dest source"
proof (cases "prefix dest source")
  case True
  then obtain rest where r: "source = dest @ rest" by (auto simp: prefix_def)
  show ?thesis
  proof (cases rest)
    case (Cons c cs)
    have c: "c \<noteq> ''..''" "CHR ''/'' \<notin> set c" using assms by (auto simp: r Cons clean_def)
    have "Rel dest source = Join (c # cs) ''/''" by (simp add: Rel_def r rel_components_prefix Cons)
    then have "takeWhile (\<lambda>x. x \<noteq> CHR ''/'') (Rel dest source) \<noteq> ''..''" using c Join_first by simp
    then show ?thesis using True by (auto simp: destination_contains_def Let_def HasPrefix_iff)
  qed (use True rel_components_prefix [of dest "[]"] in \<open>simp add: r destination_contains_def Rel_def\<close>)
next
  case False
  then obtain cs where "rel_components dest source = ''..'' # cs" using rel_components_climbs by blast
  then show ?thesis using False by (cases cs) (simp_all add: destination_contains_def Rel_def Let_def HasPrefix_def)
qed

section \<open>What preparing does\<close>

text \<open>Files by path; a directory is where files are.\<close>

fun apply_call :: "(string list \<Rightarrow> string option) \<Rightarrow> os_call \<Rightarrow> (string list \<Rightarrow> string option)" where
  "apply_call files (RemoveAll d) = (\<lambda>p. if prefix d p then None else files p)"
| "apply_call files (MkdirAll d) = files"
| "apply_call files (WriteFile p content) = files(p \<mapsto> content)"

lemma run_calls_prefix:
  "run_calls os cs = (calls, err) \<Longrightarrow> prefix calls cs \<and> (err = None \<longrightarrow> calls = cs)"
  by (induction cs arbitrary: calls err) (auto split: option.splits prod.splits)

definition under :: "string list \<Rightarrow> os_call \<Rightarrow> bool" where
  "under dest c \<longleftrightarrow> (case c of RemoveAll p \<Rightarrow> prefix dest p | MkdirAll p \<Rightarrow> prefix dest p | WriteFile p _ \<Rightarrow> prefix dest p)"

lemma page_calls_under: "c \<in> set (page_calls dest home pages) \<Longrightarrow> under dest c"
  by (auto simp: page_calls_def writePage_def under_def)

lemma calls_outside:
  assumes "\<forall>c \<in> set calls. under dest c" and "\<not> prefix dest p"
  shows "foldl apply_call files calls p = files p"
  using assms
proof (induction calls arbitrary: files)
  case (Cons c calls)
  have "apply_call files c p = files p"
    using Cons.prems by (cases c) (auto simp: under_def dest: prefix_order.trans)
  then show ?case using Cons by simp
qed simp

lemma read_pages_exact:
  "range_err (read_page d) acc entries = Inr pages \<Longrightarrow>
     \<exists>new. pages = acc @ new \<and> map sp_name new = map fst (filter included entries) \<and> (\<forall>p \<in> set new. sd_ReadFile d (sp_name p) = Inr (sp_content p))"
proof (induction entries arbitrary: acc)
  case (Cons e entries)
  show ?case
  proof (cases "included e")
    case True
    with Cons.prems obtain content where c: "sd_ReadFile d (fst e) = Inr content"
      and r: "range_err (read_page d) (acc @ [\<lparr> sp_name = fst e, sp_content = content \<rparr>]) entries = Inr pages"
      by (auto simp: read_page_def [of d acc e] split: sum.splits)
    from Cons.IH [OF r] c True show ?thesis by auto
  next
    case False
    with Cons.prems have "range_err (read_page d) acc entries = Inr pages" by (simp add: read_page_def [of d acc e])
    from Cons.IH [OF this] False show ?thesis by simp
  qed
qed simp

lemma write_pages:
  "foldl apply_call files (map (\<lambda>p. WriteFile (dest @ [sp_name p]) (f p)) pages) =
     files ++ map_of (rev (map (\<lambda>p. (dest @ [sp_name p], f p)) pages))"
  by (induction pages arbitrary: files) (simp_all add: map_add_upd_left)

lemma page_files:
  "foldl apply_call files (page_calls dest home pages) =
     ((\<lambda>p. if prefix dest p then None else files p) ++ map_of (rev (map (\<lambda>p. (dest @ [sp_name p], rewriteWikiLinks (sp_content p))) pages)))
       (dest @ [''index.md''] \<mapsto> rewriteWikiLinks home)"
  by (simp add: page_calls_def writePage_def write_pages)

lemma source_read:
  assumes "readSourcePages d = Inr (home, pages)"
  shows "sd_ReadFile d ''Home.md'' = Inr home" and
    "\<exists>entries. sd_ReadDir d = Inr entries \<and> map sp_name pages = map fst (filter included entries) \<and>
       (\<forall>p \<in> set pages. sd_ReadFile d (sp_name p) = Inr (sp_content p))"
proof -
  obtain entries where e: "sd_ReadDir d = Inr entries" and r: "range_err (read_page d) [] entries = Inr pages"
    and "sd_ReadFile d ''Home.md'' = Inr home"
    using assms by (auto simp: readSourcePages_def split: option.splits sum.splits)
  then show "sd_ReadFile d ''Home.md'' = Inr home"
    "\<exists>entries. sd_ReadDir d = Inr entries \<and> map sp_name pages = map fst (filter included entries) \<and>
       (\<forall>p \<in> set pages. sd_ReadFile d (sp_name p) = Inr (sp_content p))"
    using read_pages_exact [OF r] by auto
qed

lemma page_file_content:
  assumes "distinct (map sp_name pages)" and "p \<in> set pages" and "sp_name p \<noteq> ''index.md''"
  shows "foldl apply_call files (page_calls dest home pages) (dest @ [sp_name p]) = Some (rewriteWikiLinks (sp_content p))"
proof -
  let ?m = "rev (map (\<lambda>p. (dest @ [sp_name p], rewriteWikiLinks (sp_content p))) pages)"
  have "distinct (map fst ?m)" using assms(1) by (simp add: rev_map [symmetric] comp_def distinct_map inj_on_def)
  moreover have "(dest @ [sp_name p], rewriteWikiLinks (sp_content p)) \<in> set ?m" using assms(2) by auto
  ultimately have "map_of ?m (dest @ [sp_name p]) = Some (rewriteWikiLinks (sp_content p))" by (rule map_of_is_SomeI)
  then show ?thesis using assms(3) by (simp add: page_files)
qed

text \<open>
  The site in a destination: the rewritten home page as index, and each included page rewritten.
\<close>

definition site_prepared :: "source_dir \<Rightarrow> string list \<Rightarrow> (string list \<Rightarrow> string option) \<Rightarrow> bool" where
  "site_prepared d dest files \<longleftrightarrow>
     (\<exists>home entries. sd_ReadFile d ''Home.md'' = Inr home \<and> sd_ReadDir d = Inr entries \<and>
        files (dest @ [''index.md'']) = Some (rewriteWikiLinks home) \<and>
        (\<forall>p. prefix dest p \<longrightarrow> (files p \<noteq> None \<longleftrightarrow> p = dest @ [''index.md''] \<or> p \<in> (\<lambda>e. dest @ [fst e]) ` {e \<in> set entries. included e})) \<and>
        (distinct (map fst entries) \<longrightarrow> (\<forall>e \<in> set entries. included e \<and> fst e \<noteq> ''index.md'' \<longrightarrow>
           (\<exists>content. sd_ReadFile d (fst e) = Inr content \<and> files (dest @ [fst e]) = Some (rewriteWikiLinks content)))))"

lemma page_domain:
  assumes "prefix dest p"
  shows "foldl apply_call files (page_calls dest home pages) p \<noteq> None \<longleftrightarrow>
    p = dest @ [''index.md''] \<or> p \<in> (\<lambda>n. dest @ [n]) ` sp_name ` set pages"
proof -
  let ?m = "rev (map (\<lambda>p. (dest @ [sp_name p], rewriteWikiLinks (sp_content p))) pages)"
  have "foldl apply_call files (page_calls dest home pages) p = (if p = dest @ [''index.md''] then Some (rewriteWikiLinks home) else map_of ?m p)"
    using assms by (simp add: page_files map_add_def split: option.split)
  moreover have "map_of ?m p \<noteq> None \<longleftrightarrow> p \<in> (\<lambda>n. dest @ [n]) ` sp_name ` set pages"
    unfolding map_of_eq_None_iff by (simp add: image_image)
  ultimately show ?thesis by (simp split: if_split)
qed

lemma prepared_exact:
  assumes "readSourcePages d = Inr (home, pages)"
  shows "site_prepared d dest (foldl apply_call files (page_calls dest home pages))"
proof -
  let ?r = "foldl apply_call files (page_calls dest home pages)"
  obtain entries where e: "sd_ReadDir d = Inr entries" and n: "map sp_name pages = map fst (filter included entries)"
    and c: "\<forall>p \<in> set pages. sd_ReadFile d (sp_name p) = Inr (sp_content p)" using source_read(2) [OF assms] by blast
  have names: "sp_name ` set pages = fst ` {e \<in> set entries. included e}" using arg_cong [OF n, of set] by simp
  have "\<exists>content. sd_ReadFile d (fst x) = Inr content \<and> ?r (dest @ [fst x]) = Some (rewriteWikiLinks content)"
    if "distinct (map fst entries)" and x: "x \<in> set entries" "included x" "fst x \<noteq> ''index.md''" for x
  proof -
    have "distinct (map sp_name pages)" using that(1) unfolding n by (rule distinct_map_filter)
    moreover have "fst x \<in> sp_name ` set pages" using x unfolding names by blast
    then obtain p where p: "p \<in> set pages" "sp_name p = fst x" by auto
    ultimately have "?r (dest @ [fst x]) = Some (rewriteWikiLinks (sp_content p))" using page_file_content x(3) by metis
    then show ?thesis using c p by metis
  qed
  moreover have "?r (dest @ [''index.md'']) = Some (rewriteWikiLinks home)" by (simp add: page_files)
  moreover have "\<forall>p. prefix dest p \<longrightarrow> (?r p \<noteq> None \<longleftrightarrow> p = dest @ [''index.md''] \<or> p \<in> (\<lambda>e. dest @ [fst e]) ` {e \<in> set entries. included e})"
    using page_domain [of dest _ files home pages] unfolding names image_image by blast
  ultimately show ?thesis unfolding site_prepared_def using e source_read(1) [OF assms] by blast
qed

text \<open>
  Preparing the site is safe and exact. A destination that contains the source is refused, and
  nothing is touched unless the whole source has been read. No file outside the destination
  changes, in particular no file of the source directory, unless the destination is that very
  path. After a run without error the destination holds exactly the index, which is the rewritten
  home page, and the rewritten markdown pages that are not excluded.
\<close>

theorem pages_prepared:
  assumes "prepare os d (Inr source) (Inr dest) = (calls, err)" and "clean source"
  shows "(prefix dest source \<longrightarrow> calls = [] \<and> err \<noteq> None) \<and>
    (\<forall>p. \<not> prefix dest p \<longrightarrow> foldl apply_call files calls p = files p) \<and>
    (\<forall>name. source @ [name] \<noteq> dest \<longrightarrow> foldl apply_call files calls (source @ [name]) = files (source @ [name])) \<and>
    (calls \<noteq> [] \<longrightarrow> (\<exists>home pages. readSourcePages d = Inr (home, pages))) \<and>
    (err = None \<longrightarrow> site_prepared d dest (foldl apply_call files calls))"
proof (cases "prefix dest source \<or> (\<exists>e. readSourcePages d = Inl e)")
  case True
  then have "calls = []" "err \<noteq> None" using assms by (auto simp: prepare_def destination_contains_iff split: if_splits)
  then show ?thesis by auto
next
  case False
  then obtain home pages where r: "readSourcePages d = Inr (home, pages)" by (cases "readSourcePages d") auto
  have "run_calls os (page_calls dest home pages) = (calls, err)" using assms False by (simp add: prepare_def destination_contains_iff r)
  note run = run_calls_prefix [OF this]
  have "\<forall>c \<in> set calls. under dest c" using run page_calls_under set_mono_prefix by blast
  note outside = calls_outside [OF this]
  have "\<not> prefix dest (source @ [name])" if "source @ [name] \<noteq> dest" for name using False that by auto
  then show ?thesis using False outside r run prepared_exact [OF r, of dest files] by auto
qed

section \<open>Witness\<close>

definition sample_wiki :: source_dir where
  "sample_wiki =
     \<lparr> sd_Open = None,
       sd_ReadFile = (\<lambda>name. Inr (if name = ''Home.md'' then ''see '' @ wikiBaseURL @ ''Setup#a'' else ''# '' @ name)),
       sd_ReadDir = Inr [(''Home.md'', False), (''README.md'', False), (''Setup.md'', False), (''img'', True)], sd_Close = None \<rparr>"

lemma sample_prepared:
  "prepare (\<lambda>_. None) sample_wiki (Inr [''docs'', ''wiki'']) (Inr [''site'']) =
     ([RemoveAll [''site''], MkdirAll [''site''], WriteFile [''site'', ''Home.md''] ''see Setup.md#a'',
       WriteFile [''site'', ''Setup.md''] ''# Setup.md'', WriteFile [''site'', ''index.md''] ''see Setup.md#a''], None)"
  by code_simp

theorem pages_prepared_witness:
  "site_prepared sample_wiki [''site''] (foldl apply_call (\<lambda>_. None) (fst (prepare (\<lambda>_. None) sample_wiki (Inr [''docs'', ''wiki'']) (Inr [''site'']))))"
proof -
  have "clean [''docs'', ''wiki'']" by (simp add: clean_def)
  from pages_prepared [OF sample_prepared this, of "\<lambda>_. None"] show ?thesis unfolding sample_prepared by simp
qed

end
