(* ===== verification/Standalone_Client.thy ===== *)
theory Standalone_Client
  imports Client_Factory
begin

text \<open>
  \<open>internal/aws/costexplorer/client.go\<close>: the Cost Explorer client of a configuration with one
  credential source. No other part of the program calls it. The SDK loader is a parameter.
\<close>

datatype standalone_option = Common load_option | WithCredentialsProvider string string string

definition source_option :: "(string \<Rightarrow> string option) \<Rightarrow> CredentialSourceConfig \<Rightarrow> standalone_option list" where
  "source_option env source =
     (if cr_Type source = CredentialSourceProfile then [Common (WithSharedConfigProfile (cr_Profile source))]
      else if cr_Type source = CredentialSourceStaticEnv
      then [WithCredentialsProvider (Getenv env (cr_AccessKeyIDEnv source)) (Getenv env (cr_SecretAccessKeyEnv source))
              (Getenv env (cr_SessionTokenEnv source))]
      else [])"

definition newSDKConfig ::
  "(standalone_option list \<Rightarrow> go_error + 'c sdk_config) \<Rightarrow> (string \<Rightarrow> string option) \<Rightarrow> AWSConfig \<Rightarrow> go_error + 'c sdk_config" where
  "newSDKConfig LoadDefaultConfig env v =
     (let options = map Common (commonOptions v)
      in if length (aw_Sources v) > 1 then Inl (Sentinel ''standalone Cost Explorer client requires exactly one credential source'')
         else LoadDefaultConfig (foldl (\<lambda>options (_, source). options @ source_option env source) options (aw_Sources v)))"

definition Standalone_New ::
  "(standalone_option list \<Rightarrow> go_error + 'c sdk_config) \<Rightarrow> (string \<Rightarrow> string option) \<Rightarrow> AWSConfig \<Rightarrow> go_error + 'c client" where
  "Standalone_New LoadDefaultConfig env v =
     (case newSDKConfig LoadDefaultConfig env v of
        Inl err \<Rightarrow> Inl (Wrapped ''load AWS SDK config'' err)
      | Inr sdk \<Rightarrow> Inr (Client sdk ''aws-cost-exporter'' None (base_endpoint (ep_CostExplorer (aw_Endpoints v)))))"

text \<open>
  A client is returned for at most one source and never for more; without a source it is the one
  of the SDK's own chain, although the error speaks of exactly one.
\<close>

lemma standalone_sources:
  "Standalone_New LoadDefaultConfig env v = Inr c \<Longrightarrow> length (aw_Sources v) \<le> 1"
  "aw_Sources v = [] \<Longrightarrow> newSDKConfig LoadDefaultConfig env v = LoadDefaultConfig (map Common (commonOptions v))"
  "aw_Sources v = [(name, source)] \<Longrightarrow>
     newSDKConfig LoadDefaultConfig env v = LoadDefaultConfig (map Common (commonOptions v) @ source_option env source)"
  by (auto simp: Standalone_New_def newSDKConfig_def Let_def split: sum.splits if_splits)

end
