(* ===== verification/Store_Concurrency.thy ===== *)
theory Store_Concurrency
  imports Memory_Store
begin

text \<open>
  Package \<open>internal/cache/memory\<close> at the level of memory accesses: goroutines that call the store
  concurrently, the write mutex, the atomic pointer, and the maps as objects of a heap. Writers
  clone the maps of the current state, change the clones entry by entry and swing the pointer;
  \<open>Load\<close> ranges over a published map without the lock. The theory justifies that
  \<open>Memory_Store\<close> treats every operation as one step: each interleaving is one of the atomic
  operations, no map is written while another goroutine can reach it, and a reader never waits.
\<close>

section \<open>Memory\<close>

text \<open>
  A \<open>state\<close> struct holds its maps by reference. The address of an object is its position;
  allocation appends, so that an address stays valid for ever, as under a garbage collector.
\<close>

record state_object =
  so_snapshot :: Snapshot
  so_parts :: nat
  so_statuses :: nat

record mem =
  m_states :: "state_object list"
  m_parts :: "(CollectorID, Snapshot) gomap list"
  m_statuses :: "(CollectorID, CollectorStatus) gomap list"

definition parts_at :: "mem \<Rightarrow> nat \<Rightarrow> (CollectorID, Snapshot) gomap" where
  "parts_at m cur = m_parts m ! so_parts (m_states m ! cur)"

definition statuses_at :: "mem \<Rightarrow> nat \<Rightarrow> (CollectorID, CollectorStatus) gomap" where
  "statuses_at m cur = m_statuses m ! so_statuses (m_states m ! cur)"

definition new_parts :: "mem \<Rightarrow> mem" where
  "new_parts m = m\<lparr> m_parts := m_parts m @ [[]] \<rparr>"

definition new_statuses :: "mem \<Rightarrow> mem" where
  "new_statuses m = m\<lparr> m_statuses := m_statuses m @ [[]] \<rparr>"

definition new_state :: "Snapshot \<Rightarrow> nat \<Rightarrow> nat \<Rightarrow> mem \<Rightarrow> mem" where
  "new_state snap p s m = m\<lparr> m_states := m_states m @ [\<lparr> so_snapshot = snap, so_parts = p, so_statuses = s \<rparr>] \<rparr>"

definition put_part :: "nat \<Rightarrow> CollectorID \<times> Snapshot \<Rightarrow> mem \<Rightarrow> mem" where
  "put_part a = (\<lambda>(k, v) m. m\<lparr> m_parts := (m_parts m)[a := AList.update k v (m_parts m ! a)] \<rparr>)"

definition put_status :: "nat \<Rightarrow> CollectorID \<times> CollectorStatus \<Rightarrow> mem \<Rightarrow> mem" where
  "put_status a = (\<lambda>(k, v) m. m\<lparr> m_statuses := (m_statuses m)[a := AList.update k v (m_statuses m ! a)] \<rparr>)"

section \<open>Goroutines\<close>

datatype call =
    CallPublish CollectorID Snapshot
  | CallRecordFailure CollectorID
  | CallLoad
  | CallSnapshot

datatype result = Outcome "go_error option" | Viewed SnapshotView | Merged Snapshot

text \<open>
  Where a goroutine stands in the code, with its local variables. \<open>cur\<close> is the loaded pointer,
  \<open>p\<close> and \<open>s\<close> the maps under construction, \<open>i\<close> the position of a range loop.
\<close>

datatype pc =
    Idle
  | Publish_Enter CollectorID Snapshot
  | Publish_Lock CollectorID Snapshot
  | Publish_Load CollectorID Snapshot
  | Publish_CloneParts CollectorID Snapshot nat nat nat
  | Publish_CloneStatuses CollectorID Snapshot nat nat nat nat
  | Publish_Put CollectorID Snapshot nat nat nat
  | Publish_Merge CollectorID Snapshot nat nat nat
  | Publish_Stamp CollectorID Snapshot nat nat nat Snapshot
  | Publish_Series CollectorID Snapshot nat nat nat Snapshot time nat
  | Publish_Store CollectorID Snapshot nat nat nat Snapshot time
  | Failure_Enter CollectorID
  | Failure_Lock CollectorID
  | Failure_Load CollectorID
  | Failure_Clone CollectorID nat nat nat
  | Failure_Mark CollectorID nat nat
  | Failure_Store CollectorID nat nat time
  | Unlock "go_error option"
  | Load_Enter
  | Load_Clock nat
  | Load_Range nat time nat nat
  | Snapshot_Enter
  | Return_Outcome "go_error option"
  | Return_View Snapshot nat
  | Return_Merged Snapshot

record world =
  w_mem :: mem
  w_current :: nat
  w_lock :: "nat option"
  w_pc :: "nat \<Rightarrow> pc"
  w_client :: "nat list"

definition initial_world :: world where
  "initial_world =
     \<lparr> w_mem = \<lparr> m_states = [\<lparr> so_snapshot = empty_snapshot, so_parts = 0, so_statuses = 0 \<rparr>],
                 m_parts = [[]], m_statuses = [[]] \<rparr>,
       w_current = 0, w_lock = None, w_pc = (\<lambda>_. Idle), w_client = [] \<rparr>"

definition goto :: "nat \<Rightarrow> pc \<Rightarrow> world \<Rightarrow> world" where
  "goto t l w = w\<lparr> w_pc := (w_pc w)(t := l) \<rparr>"

definition on_mem :: "(mem \<Rightarrow> mem) \<Rightarrow> world \<Rightarrow> world" where
  "on_mem f w = w\<lparr> w_mem := f (w_mem w) \<rparr>"

definition fresh_status :: "time \<Rightarrow> CollectorStatus" where
  "fresh_status now = \<lparr> LastAttempt = now, LastSuccess = now, Up = True, Freshness = '''', Series = 0 \<rparr>"

text \<open>
  One step of goroutine \<open>t\<close>: one operation on the mutex or the pointer, one entry of a range
  loop, or one statement on the clones. \<open>now\<close> is what the clock answers when it is read;
  \<open>None\<close> means that the goroutine waits for the mutex.
\<close>

fun publish_step :: "Store \<Rightarrow> nat \<Rightarrow> time \<Rightarrow> pc \<Rightarrow> world \<Rightarrow> world option" where
  "publish_step cfg t now (Publish_Enter cid partial) w = Some (goto t
     (if \<not> CollectorID_Valid cid then Return_Outcome (Some ErrInvalidCollector)
      else case ValidatePartial partial (id_Target cid) of
             Inl err \<Rightarrow> Return_Outcome (Some err) | Inr _ \<Rightarrow> Publish_Lock cid partial) w)"
| "publish_step cfg t now (Publish_Lock cid partial) w =
     (if w_lock w = None then Some (goto t (Publish_Load cid partial) (w\<lparr> w_lock := Some t \<rparr>)) else None)"
| "publish_step cfg t now (Publish_Load cid partial) w =
     Some (goto t (Publish_CloneParts cid partial (w_current w) (length (m_parts (w_mem w))) 0) (on_mem new_parts w))"
| "publish_step cfg t now (Publish_CloneParts cid partial cur p i) w =
     (let source = parts_at (w_mem w) cur
      in if i < length source
         then Some (goto t (Publish_CloneParts cid partial cur p (i + 1)) (on_mem (put_part p (source ! i)) w))
         else Some (goto t (Publish_CloneStatuses cid partial cur p (length (m_statuses (w_mem w))) 0) (on_mem new_statuses w)))"
| "publish_step cfg t now (Publish_CloneStatuses cid partial cur p s i) w =
     (let source = statuses_at (w_mem w) cur
      in if i < length source
         then Some (goto t (Publish_CloneStatuses cid partial cur p s (i + 1)) (on_mem (put_status s (source ! i)) w))
         else Some (goto t (Publish_Put cid partial cur p s) w))"
| "publish_step cfg t now (Publish_Put cid partial cur p s) w =
     Some (goto t (Publish_Merge cid partial cur p s) (on_mem (put_part p (cid, partial)) w))"
| "publish_step cfg t now (Publish_Merge cid partial cur p s) w =
     Some (goto t (case mergeParts cfg (m_parts (w_mem w) ! p) of
                     Inl err \<Rightarrow> Unlock (Some err)
                   | Inr merged \<Rightarrow> Publish_Stamp cid partial cur p s merged) w)"
| "publish_step cfg t now (Publish_Stamp cid partial cur p s merged) w =
     Some (goto t (Publish_Series cid partial cur p s merged now 0) (on_mem (put_status s (cid, fresh_status now)) w))"
| "publish_step cfg t now (Publish_Series cid partial cur p s merged stamp i) w =
     (let source = m_parts (w_mem w) ! p
      in if i < length source
         then let (k, part) = source ! i;
                  status = (status_of (m_statuses (w_mem w) ! s) k)\<lparr> Series := publishedSeries (id_Target k) part merged \<rparr>
              in Some (goto t (Publish_Series cid partial cur p s merged stamp (i + 1)) (on_mem (put_status s (k, status)) w))
         else Some (goto t (Publish_Store cid partial cur p s merged stamp) w))"
| "publish_step cfg t now (Publish_Store cid partial cur p s merged stamp) w =
     Some (goto t (Unlock None) (on_mem (new_state merged p s) w\<lparr> w_current := length (m_states (w_mem w)) \<rparr>))"
| "publish_step cfg t now _ w = None"

fun failure_step :: "nat \<Rightarrow> time \<Rightarrow> pc \<Rightarrow> world \<Rightarrow> world option" where
  "failure_step t now (Failure_Enter cid) w = Some (goto t
     (if \<not> CollectorID_Valid cid then Return_Outcome (Some ErrInvalidCollector) else Failure_Lock cid) w)"
| "failure_step t now (Failure_Lock cid) w =
     (if w_lock w = None then Some (goto t (Failure_Load cid) (w\<lparr> w_lock := Some t \<rparr>)) else None)"
| "failure_step t now (Failure_Load cid) w =
     Some (goto t (Failure_Clone cid (w_current w) (length (m_statuses (w_mem w))) 0) (on_mem new_statuses w))"
| "failure_step t now (Failure_Clone cid cur s i) w =
     (let source = statuses_at (w_mem w) cur
      in if i < length source
         then Some (goto t (Failure_Clone cid cur s (i + 1)) (on_mem (put_status s (source ! i)) w))
         else Some (goto t (Failure_Mark cid cur s) w))"
| "failure_step t now (Failure_Mark cid cur s) w =
     (let status = (status_of (m_statuses (w_mem w) ! s) cid)\<lparr> LastAttempt := now, Up := False \<rparr>
      in Some (goto t (Failure_Store cid cur s now) (on_mem (put_status s (cid, status)) w)))"
| "failure_step t now (Failure_Store cid cur s stamp) w =
     (let st = m_states (w_mem w) ! cur
      in Some (goto t (Unlock None)
           (on_mem (new_state (so_snapshot st) (so_parts st) s) w\<lparr> w_current := length (m_states (w_mem w)) \<rparr>)))"
| "failure_step t now _ w = None"

fun load_step :: "Store \<Rightarrow> nat \<Rightarrow> time \<Rightarrow> pc \<Rightarrow> world \<Rightarrow> world option" where
  "load_step cfg t now Load_Enter w = Some (goto t (Load_Clock (w_current w)) w)"
| "load_step cfg t now (Load_Clock cur) w =
     Some (goto t (Load_Range cur now (length (m_statuses (w_mem w))) 0) (on_mem new_statuses w))"
| "load_step cfg t now (Load_Range cur stamp s i) w =
     (let source = statuses_at (w_mem w) cur
      in if i < length source
         then let (k, status) = source ! i
              in Some (goto t (Load_Range cur stamp s (i + 1))
                   (on_mem (put_status s (k, status\<lparr> Freshness := freshness cfg stamp (LastSuccess status) \<rparr>)) w))
         else Some (goto t (Return_View (so_snapshot (m_states (w_mem w) ! cur)) s) w))"
| "load_step cfg t now Snapshot_Enter w =
     Some (goto t (Return_Merged (so_snapshot (m_states (w_mem w) ! w_current w))) w)"
| "load_step cfg t now _ w = None"

fun thread_step :: "Store \<Rightarrow> nat \<Rightarrow> time \<Rightarrow> world \<Rightarrow> world option" where
  "thread_step cfg t now w =
     (case w_pc w t of
        Unlock err \<Rightarrow> Some (goto t (Return_Outcome err) (w\<lparr> w_lock := None \<rparr>))
      | l \<Rightarrow> (case publish_step cfg t now l w of
               Some w' \<Rightarrow> Some w'
             | None \<Rightarrow> (case failure_step t now l w of Some w' \<Rightarrow> Some w' | None \<Rightarrow> load_step cfg t now l w)))"

section \<open>Executions\<close>

datatype event = Invoke nat call | Respond nat result

text \<open>
  A caller owns the status map a finished \<open>Load\<close> returned and may write it at any time.
\<close>

datatype action = Do_Call nat call | Do_Step nat time | Do_Return nat | Do_Write nat "(CollectorID, CollectorStatus) gomap"

fun entry :: "call \<Rightarrow> pc" where
  "entry (CallPublish cid partial) = Publish_Enter cid partial"
| "entry (CallRecordFailure cid) = Failure_Enter cid"
| "entry CallLoad = Load_Enter"
| "entry CallSnapshot = Snapshot_Enter"

fun world_step :: "Store \<Rightarrow> action \<Rightarrow> world \<Rightarrow> (event list \<times> world) option" where
  "world_step cfg (Do_Call t c) w = (if w_pc w t = Idle then Some ([Invoke t c], goto t (entry c) w) else None)"
| "world_step cfg (Do_Step t now) w = map_option (Pair []) (thread_step cfg t now w)"
| "world_step cfg (Do_Return t) w =
     (case w_pc w t of
        Return_Outcome err \<Rightarrow> Some ([Respond t (Outcome err)], goto t Idle w)
      | Return_Merged snap \<Rightarrow> Some ([Respond t (Merged snap)], goto t Idle w)
      | Return_View snap s \<Rightarrow>
          Some ([Respond t (Viewed \<lparr> v_Snapshot = snap, v_Collectors = m_statuses (w_mem w) ! s \<rparr>)],
                goto t Idle (w\<lparr> w_client := s # w_client w \<rparr>))
      | _ \<Rightarrow> None)"
| "world_step cfg (Do_Write a content) w =
     (if a \<in> set (w_client w)
      then Some ([], on_mem (\<lambda>m. m\<lparr> m_statuses := (m_statuses m)[a := content] \<rparr>) w) else None)"

fun execute_all :: "Store \<Rightarrow> action list \<Rightarrow> world \<Rightarrow> (event list \<times> world) option" where
  "execute_all cfg [] w = Some ([], w)"
| "execute_all cfg (a # as) w =
     (case world_step cfg a w of
        None \<Rightarrow> None
      | Some (es, w') \<Rightarrow> map_option (apfst (append es)) (execute_all cfg as w'))"

section \<open>The atomic store\<close>

text \<open>
  The specification: calls of the operations of \<open>Memory_Store\<close>, each taking effect at one instant
  between its invocation and its response. \<open>Load\<close> observes the store at one instant and stamps
  the view with a clock reading taken after it.
\<close>

datatype pending = Ready | Called call | Observed Store | Finished result

record spec =
  sp_store :: Store
  sp_pending :: "nat \<Rightarrow> pending"

inductive atomic_step :: "Store \<Rightarrow> pending \<Rightarrow> Store \<Rightarrow> pending \<Rightarrow> bool" where
  atomic_publish: "Publish now cid partial store = (store', err) \<Longrightarrow>
     atomic_step store (Called (CallPublish cid partial)) store' (Finished (Outcome err))"
| atomic_failure: "RecordFailure now cid store = (store', err) \<Longrightarrow>
     atomic_step store (Called (CallRecordFailure cid)) store' (Finished (Outcome err))"
| atomic_snapshot: "atomic_step store (Called CallSnapshot) store (Finished (Merged (Snapshot_of store)))"
| atomic_observe: "atomic_step store (Called CallLoad) store (Observed store)"
| atomic_view: "atomic_step store (Observed seen) store (Finished (Viewed (Load now seen)))"

inductive spec_step :: "spec \<Rightarrow> event list \<Rightarrow> spec \<Rightarrow> bool" where
  spec_call: "sp_pending s t = Ready \<Longrightarrow>
     spec_step s [Invoke t c] (s\<lparr> sp_pending := (sp_pending s)(t := Called c) \<rparr>)"
| spec_effect: "atomic_step (sp_store s) (sp_pending s t) store q \<Longrightarrow>
     spec_step s [] \<lparr> sp_store = store, sp_pending = (sp_pending s)(t := q) \<rparr>"
| spec_return: "sp_pending s t = Finished r \<Longrightarrow>
     spec_step s [Respond t r] (s\<lparr> sp_pending := (sp_pending s)(t := Ready) \<rparr>)"

inductive spec_run :: "spec \<Rightarrow> event list \<Rightarrow> spec \<Rightarrow> bool" where
  spec_stop: "spec_run s [] s"
| spec_more: "spec_run s es s' \<Longrightarrow> spec_step s' fs s'' \<Longrightarrow> spec_run s (es @ fs) s''"

definition initial_spec :: "Store \<Rightarrow> spec" where
  "initial_spec cfg = \<lparr> sp_store = cfg\<lparr> current := empty_state \<rparr>, sp_pending = (\<lambda>_. Ready) \<rparr>"

section \<open>Abstraction\<close>

definition store_at :: "Store \<Rightarrow> mem \<Rightarrow> nat \<Rightarrow> Store" where
  "store_at cfg m cur = cfg\<lparr> current :=
     \<lparr> snapshot = so_snapshot (m_states m ! cur), parts = parts_at m cur, statuses = statuses_at m cur \<rparr> \<rparr>"

fun pending_of :: "Store \<Rightarrow> mem \<Rightarrow> pc \<Rightarrow> pending" where
  "pending_of cfg m Idle = Ready"
| "pending_of cfg m (Publish_Enter cid partial) = Called (CallPublish cid partial)"
| "pending_of cfg m (Publish_Lock cid partial) = Called (CallPublish cid partial)"
| "pending_of cfg m (Publish_Load cid partial) = Called (CallPublish cid partial)"
| "pending_of cfg m (Publish_CloneParts cid partial _ _ _) = Called (CallPublish cid partial)"
| "pending_of cfg m (Publish_CloneStatuses cid partial _ _ _ _) = Called (CallPublish cid partial)"
| "pending_of cfg m (Publish_Put cid partial _ _ _) = Called (CallPublish cid partial)"
| "pending_of cfg m (Publish_Merge cid partial _ _ _) = Called (CallPublish cid partial)"
| "pending_of cfg m (Publish_Stamp cid partial _ _ _ _) = Called (CallPublish cid partial)"
| "pending_of cfg m (Publish_Series cid partial _ _ _ _ _ _) = Called (CallPublish cid partial)"
| "pending_of cfg m (Publish_Store cid partial _ _ _ _ _) = Called (CallPublish cid partial)"
| "pending_of cfg m (Failure_Enter cid) = Called (CallRecordFailure cid)"
| "pending_of cfg m (Failure_Lock cid) = Called (CallRecordFailure cid)"
| "pending_of cfg m (Failure_Load cid) = Called (CallRecordFailure cid)"
| "pending_of cfg m (Failure_Clone cid _ _ _) = Called (CallRecordFailure cid)"
| "pending_of cfg m (Failure_Mark cid _ _) = Called (CallRecordFailure cid)"
| "pending_of cfg m (Failure_Store cid _ _ _) = Called (CallRecordFailure cid)"
| "pending_of cfg m (Unlock err) = Finished (Outcome err)"
| "pending_of cfg m Load_Enter = Called CallLoad"
| "pending_of cfg m (Load_Clock cur) = Observed (store_at cfg m cur)"
| "pending_of cfg m (Load_Range cur _ _ _) = Observed (store_at cfg m cur)"
| "pending_of cfg m Snapshot_Enter = Called CallSnapshot"
| "pending_of cfg m (Return_Outcome err) = Finished (Outcome err)"
| "pending_of cfg m (Return_Merged snap) = Finished (Merged snap)"
| "pending_of cfg m (Return_View snap s) =
     Finished (Viewed \<lparr> v_Snapshot = snap, v_Collectors = m_statuses m ! s \<rparr>)"

definition abstraction :: "Store \<Rightarrow> world \<Rightarrow> spec" where
  "abstraction cfg w =
     \<lparr> sp_store = store_at cfg (w_mem w) (w_current w), sp_pending = (\<lambda>t. pending_of cfg (w_mem w) (w_pc w t)) \<rparr>"

section \<open>Ownership\<close>

text \<open>The maps under construction, the states a goroutine may still read, and the lock.\<close>

fun own_parts :: "pc \<Rightarrow> nat set" where
  "own_parts (Publish_CloneParts _ _ _ p _) = {p}"
| "own_parts (Publish_CloneStatuses _ _ _ p _ _) = {p}"
| "own_parts (Publish_Put _ _ _ p _) = {p}"
| "own_parts (Publish_Merge _ _ _ p _) = {p}"
| "own_parts (Publish_Stamp _ _ _ p _ _) = {p}"
| "own_parts (Publish_Series _ _ _ p _ _ _ _) = {p}"
| "own_parts (Publish_Store _ _ _ p _ _ _) = {p}"
| "own_parts _ = {}"

fun own_statuses :: "pc \<Rightarrow> nat set" where
  "own_statuses (Publish_CloneStatuses _ _ _ _ s _) = {s}"
| "own_statuses (Publish_Put _ _ _ _ s) = {s}"
| "own_statuses (Publish_Merge _ _ _ _ s) = {s}"
| "own_statuses (Publish_Stamp _ _ _ _ s _) = {s}"
| "own_statuses (Publish_Series _ _ _ _ s _ _ _) = {s}"
| "own_statuses (Publish_Store _ _ _ _ s _ _) = {s}"
| "own_statuses (Failure_Clone _ _ s _) = {s}"
| "own_statuses (Failure_Mark _ _ s) = {s}"
| "own_statuses (Failure_Store _ _ s _) = {s}"
| "own_statuses (Load_Range _ _ s _) = {s}"
| "own_statuses (Return_View _ s) = {s}"
| "own_statuses _ = {}"

fun holds_lock :: "pc \<Rightarrow> bool" where
  "holds_lock (Publish_Load _ _) = True"
| "holds_lock (Publish_CloneParts _ _ _ _ _) = True"
| "holds_lock (Publish_CloneStatuses _ _ _ _ _ _) = True"
| "holds_lock (Publish_Put _ _ _ _ _) = True"
| "holds_lock (Publish_Merge _ _ _ _ _) = True"
| "holds_lock (Publish_Stamp _ _ _ _ _ _) = True"
| "holds_lock (Publish_Series _ _ _ _ _ _ _ _) = True"
| "holds_lock (Publish_Store _ _ _ _ _ _ _) = True"
| "holds_lock (Failure_Load _) = True"
| "holds_lock (Failure_Clone _ _ _ _) = True"
| "holds_lock (Failure_Mark _ _ _) = True"
| "holds_lock (Failure_Store _ _ _ _) = True"
| "holds_lock (Unlock _) = True"
| "holds_lock _ = False"

definition accepted :: "CollectorID \<Rightarrow> Snapshot \<Rightarrow> bool" where
  "accepted cid partial \<longleftrightarrow> CollectorID_Valid cid \<and> ValidatePartial partial (id_Target cid) = Inr ()"

text \<open>How far a goroutine has come: what its clones hold, against the state it loaded.\<close>

definition stamped :: "mem \<Rightarrow> nat \<Rightarrow> CollectorID \<Rightarrow> time \<Rightarrow> (CollectorID, CollectorStatus) gomap" where
  "stamped m cur cid now = AList.update cid (fresh_status now) (statuses_at m cur)"

fun progress_ok :: "Store \<Rightarrow> mem \<Rightarrow> nat \<Rightarrow> pc \<Rightarrow> bool" where
  "progress_ok cfg m ptr (Publish_Lock cid partial) = accepted cid partial"
| "progress_ok cfg m ptr (Publish_Load cid partial) = accepted cid partial"
| "progress_ok cfg m ptr (Publish_CloneParts cid partial cur p i) \<longleftrightarrow> accepted cid partial \<and> cur = ptr \<and>
     i \<le> length (parts_at m cur) \<and> m_parts m ! p = take i (parts_at m cur)"
| "progress_ok cfg m ptr (Publish_CloneStatuses cid partial cur p s i) \<longleftrightarrow> accepted cid partial \<and> cur = ptr \<and>
     m_parts m ! p = parts_at m cur \<and> i \<le> length (statuses_at m cur) \<and> m_statuses m ! s = take i (statuses_at m cur)"
| "progress_ok cfg m ptr (Publish_Put cid partial cur p s) \<longleftrightarrow> accepted cid partial \<and> cur = ptr \<and>
     m_parts m ! p = parts_at m cur \<and> m_statuses m ! s = statuses_at m cur"
| "progress_ok cfg m ptr (Publish_Merge cid partial cur p s) \<longleftrightarrow> accepted cid partial \<and> cur = ptr \<and>
     m_parts m ! p = AList.update cid partial (parts_at m cur) \<and> m_statuses m ! s = statuses_at m cur"
| "progress_ok cfg m ptr (Publish_Stamp cid partial cur p s merged) \<longleftrightarrow> accepted cid partial \<and> cur = ptr \<and>
     m_parts m ! p = AList.update cid partial (parts_at m cur) \<and> m_statuses m ! s = statuses_at m cur \<and>
     mergeParts cfg (m_parts m ! p) = Inr merged"
| "progress_ok cfg m ptr (Publish_Series cid partial cur p s merged now i) \<longleftrightarrow> accepted cid partial \<and> cur = ptr \<and>
     m_parts m ! p = AList.update cid partial (parts_at m cur) \<and> mergeParts cfg (m_parts m ! p) = Inr merged \<and>
     i \<le> length (m_parts m ! p) \<and>
     m_statuses m ! s = foldl (refresh_series merged) (stamped m cur cid now) (take i (m_parts m ! p))"
| "progress_ok cfg m ptr (Publish_Store cid partial cur p s merged now) \<longleftrightarrow> accepted cid partial \<and> cur = ptr \<and>
     m_parts m ! p = AList.update cid partial (parts_at m cur) \<and> mergeParts cfg (m_parts m ! p) = Inr merged \<and>
     m_statuses m ! s = foldl (refresh_series merged) (stamped m cur cid now) (m_parts m ! p)"
| "progress_ok cfg m ptr (Failure_Lock cid) = CollectorID_Valid cid"
| "progress_ok cfg m ptr (Failure_Load cid) = CollectorID_Valid cid"
| "progress_ok cfg m ptr (Failure_Clone cid cur s i) \<longleftrightarrow> CollectorID_Valid cid \<and> cur = ptr \<and>
     i \<le> length (statuses_at m cur) \<and> m_statuses m ! s = take i (statuses_at m cur)"
| "progress_ok cfg m ptr (Failure_Mark cid cur s) \<longleftrightarrow> CollectorID_Valid cid \<and> cur = ptr \<and>
     m_statuses m ! s = statuses_at m cur"
| "progress_ok cfg m ptr (Failure_Store cid cur s now) \<longleftrightarrow> CollectorID_Valid cid \<and> cur = ptr \<and>
     m_statuses m ! s = AList.update cid ((status_of (statuses_at m cur) cid)\<lparr> LastAttempt := now, Up := False \<rparr>)
                          (statuses_at m cur)"
| "progress_ok cfg m ptr (Load_Clock cur) \<longleftrightarrow> cur < length (m_states m)"
| "progress_ok cfg m ptr (Load_Range cur now s i) \<longleftrightarrow> cur < length (m_states m) \<and>
     i \<le> length (statuses_at m cur) \<and>
     m_statuses m ! s = take i (v_Collectors (Load now (store_at cfg m cur)))"
| "progress_ok cfg m ptr _ = True"

text \<open>A published state: its maps are allocated, have distinct keys, and belong to nobody.\<close>

definition published_ok :: "world \<Rightarrow> bool" where
  "published_ok w \<longleftrightarrow> w_current w < length (m_states (w_mem w)) \<and>
     (\<forall>st \<in> set (m_states (w_mem w)).
        so_parts st < length (m_parts (w_mem w)) \<and> so_statuses st < length (m_statuses (w_mem w)) \<and>
        gomap_wf (m_parts (w_mem w) ! so_parts st) \<and> gomap_wf (m_statuses (w_mem w) ! so_statuses st) \<and>
        so_statuses st \<notin> set (w_client w) \<and>
        (\<forall>t. so_parts st \<notin> own_parts (w_pc w t) \<and> so_statuses st \<notin> own_statuses (w_pc w t)))"

definition ownership_ok :: "world \<Rightarrow> bool" where
  "ownership_ok w \<longleftrightarrow>
     (\<forall>t. own_parts (w_pc w t) \<subseteq> {..< length (m_parts (w_mem w))} \<and>
          own_statuses (w_pc w t) \<subseteq> {..< length (m_statuses (w_mem w))} \<and>
          own_statuses (w_pc w t) \<inter> set (w_client w) = {} \<and>
          (\<forall>u. u \<noteq> t \<longrightarrow> own_parts (w_pc w t) \<inter> own_parts (w_pc w u) = {} \<and>
                          own_statuses (w_pc w t) \<inter> own_statuses (w_pc w u) = {})) \<and>
     set (w_client w) \<subseteq> {..< length (m_statuses (w_mem w))}"

definition lock_ok :: "world \<Rightarrow> bool" where
  "lock_ok w \<longleftrightarrow> (\<forall>t. holds_lock (w_pc w t) \<longleftrightarrow> w_lock w = Some t)"

definition world_ok :: "Store \<Rightarrow> world \<Rightarrow> bool" where
  "world_ok cfg w \<longleftrightarrow> published_ok w \<and> ownership_ok w \<and> lock_ok w \<and>
     (\<forall>t. progress_ok cfg (w_mem w) (w_current w) (w_pc w t))"

section \<open>Frames\<close>

text \<open>A step writes at most the given maps; states are only added.\<close>

definition frame :: "nat set \<Rightarrow> nat set \<Rightarrow> mem \<Rightarrow> mem \<Rightarrow> bool" where
  "frame P S m m' \<longleftrightarrow> (\<exists>new. m_states m' = m_states m @ new) \<and>
     length (m_parts m) \<le> length (m_parts m') \<and> length (m_statuses m) \<le> length (m_statuses m') \<and>
     (\<forall>a < length (m_parts m). a \<notin> P \<longrightarrow> m_parts m' ! a = m_parts m ! a) \<and>
     (\<forall>a < length (m_statuses m). a \<notin> S \<longrightarrow> m_statuses m' ! a = m_statuses m ! a)"

lemma frame_same [simp]: "frame P S m m" by (simp add: frame_def)

lemma frame_new [simp]:
  "frame P S m (new_parts m)" "frame P S m (new_statuses m)" "frame P S m (new_state snap p s m)"
  by (auto simp: frame_def new_parts_def new_statuses_def new_state_def nth_append)

lemma frame_put [simp]:
  "p \<in> P \<Longrightarrow> frame P S m (put_part p kv m)" "s \<in> S \<Longrightarrow> frame P S m (put_status s kv' m)"
  by (auto simp: frame_def put_part_def put_status_def split: prod.splits) (metis nth_list_update_neq)+

lemma frame_at:
  assumes "frame P S m m'" and "cur < length (m_states m)"
    and "so_parts (m_states m ! cur) < length (m_parts m)" and "so_parts (m_states m ! cur) \<notin> P"
    and "so_statuses (m_states m ! cur) < length (m_statuses m)" and "so_statuses (m_states m ! cur) \<notin> S"
  shows "m_states m' ! cur = m_states m ! cur" and "parts_at m' cur = parts_at m cur"
    and "statuses_at m' cur = statuses_at m cur" and "store_at cfg m' cur = store_at cfg m cur"
  using assms by (auto simp: frame_def parts_at_def statuses_at_def store_at_def nth_append)

lemma frame_progress:
  assumes fr: "frame P S m m'"
    and pub: "\<And>c. c < length (m_states m) \<Longrightarrow>
      so_parts (m_states m ! c) < length (m_parts m) \<and> so_parts (m_states m ! c) \<notin> P \<and>
      so_statuses (m_states m ! c) < length (m_statuses m) \<and> so_statuses (m_states m ! c) \<notin> S"
    and own: "own_parts l \<subseteq> {..< length (m_parts m)} - P" "own_statuses l \<subseteq> {..< length (m_statuses m)} - S"
    and ptr: "ptr < length (m_states m)" "holds_lock l \<Longrightarrow> ptr' = ptr"
    and ok: "progress_ok cfg m ptr l"
  shows "progress_ok cfg m' ptr' l" and "pending_of cfg m' l = pending_of cfg m l"
proof -
  note at = frame_at [OF fr]
  have same: "m_parts m' ! a = m_parts m ! a" if "a \<in> own_parts l" for a
    using fr own(1) that by (auto simp: frame_def)
  have same': "m_statuses m' ! a = m_statuses m ! a" if "a \<in> own_statuses l" for a
    using fr own(2) that by (auto simp: frame_def)
  have len: "c < length (m_states m')" if "c < length (m_states m)" for c
    using fr that by (auto simp: frame_def)
  show "progress_ok cfg m' ptr' l"
    using ok ptr same same' len pub by (cases l) (auto simp: at stamped_def)
  show "pending_of cfg m' l = pending_of cfg m l"
    using ok same' pub by (cases l) (auto simp: at)
qed

section \<open>Transitions\<close>

text \<open>What one step of goroutine \<open>t\<close> may do: the facts that keep every other goroutine going.\<close>

definition transition :: "Store \<Rightarrow> nat \<Rightarrow> world \<Rightarrow> world \<Rightarrow> bool" where
  "transition cfg t w w' \<longleftrightarrow>
     (let l = w_pc w t; l' = w_pc w' t; m = w_mem w; m' = w_mem w' in
      (\<forall>u. u \<noteq> t \<longrightarrow> w_pc w' u = w_pc w u) \<and> w_client w' = w_client w \<and>
      frame (own_parts l) (own_statuses l) m m' \<and>
      own_parts l' \<subseteq> own_parts l \<union> {length (m_parts m) ..< length (m_parts m')} \<and>
      own_statuses l' \<subseteq> own_statuses l \<union> {length (m_statuses m) ..< length (m_statuses m')} \<and>
      (\<forall>st \<in> set (drop (length (m_states m)) (m_states m')).
         (so_parts st \<in> own_parts l - own_parts l' \<or> so_parts st \<in> so_parts ` set (m_states m)) \<and>
         so_statuses st \<in> own_statuses l - own_statuses l' \<and>
         gomap_wf (m_parts m' ! so_parts st) \<and> gomap_wf (m_statuses m' ! so_statuses st)) \<and>
      (w_current w' = w_current w \<or> holds_lock l \<and> w_current w' < length (m_states m')) \<and>
      (holds_lock l' \<longleftrightarrow> w_lock w' = Some t) \<and> (\<forall>u. u \<noteq> t \<longrightarrow> (w_lock w' = Some u \<longleftrightarrow> w_lock w = Some u)) \<and>
      progress_ok cfg m' (w_current w') l')"

lemma world_ok_published:
  assumes "world_ok cfg w" and "c < length (m_states (w_mem w))"
  shows "so_parts (m_states (w_mem w) ! c) < length (m_parts (w_mem w)) \<and>
    so_parts (m_states (w_mem w) ! c) \<notin> own_parts (w_pc w t) \<and>
    so_statuses (m_states (w_mem w) ! c) < length (m_statuses (w_mem w)) \<and>
    so_statuses (m_states (w_mem w) ! c) \<notin> own_statuses (w_pc w t) \<and>
    gomap_wf (parts_at (w_mem w) c) \<and> gomap_wf (statuses_at (w_mem w) c)"
  using assms by (auto simp: world_ok_def published_ok_def parts_at_def statuses_at_def)

lemma world_ok_other:
  assumes "world_ok cfg w" and "u \<noteq> t"
  shows "own_parts (w_pc w u) \<subseteq> {..< length (m_parts (w_mem w))} - own_parts (w_pc w t)"
    and "own_statuses (w_pc w u) \<subseteq> {..< length (m_statuses (w_mem w))} - own_statuses (w_pc w t)"
  using assms unfolding world_ok_def ownership_ok_def by blast+

lemma world_ok_own:
  assumes "world_ok cfg w"
  shows "a \<in> own_parts (w_pc w t) \<Longrightarrow> a < length (m_parts (w_mem w))"
    and "a \<in> own_statuses (w_pc w t) \<Longrightarrow> a < length (m_statuses (w_mem w))"
    and "a \<in> own_statuses (w_pc w t) \<Longrightarrow> a \<notin> set (w_client w)"
    and "a \<in> set (w_client w) \<Longrightarrow> a < length (m_statuses (w_mem w))"
  using assms unfolding world_ok_def ownership_ok_def by blast+

lemma transition_other:
  assumes ok: "world_ok cfg w" and tr: "transition cfg t w w'" and "u \<noteq> t"
  shows "progress_ok cfg (w_mem w') (w_current w') (w_pc w' u)"
    and "pending_of cfg (w_mem w') (w_pc w' u) = pending_of cfg (w_mem w) (w_pc w u)"
proof -
  have l: "w_pc w' u = w_pc w u" and fr: "frame (own_parts (w_pc w t)) (own_statuses (w_pc w t)) (w_mem w) (w_mem w')"
    using tr \<open>u \<noteq> t\<close> by (auto simp: transition_def Let_def)
  have ptr: "w_current w < length (m_states (w_mem w))" "progress_ok cfg (w_mem w) (w_current w) (w_pc w u)"
    using ok by (auto simp: world_ok_def published_ok_def)
  have keep: "w_current w' = w_current w" if "holds_lock (w_pc w u)"
    using tr ok that \<open>u \<noteq> t\<close> by (auto simp: transition_def Let_def world_ok_def lock_ok_def)
  note fp = frame_progress [OF fr _ world_ok_other [OF ok \<open>u \<noteq> t\<close>] ptr(1) keep ptr(2)]
  show "progress_ok cfg (w_mem w') (w_current w') (w_pc w' u)"
    unfolding l by (rule fp(1)) (use world_ok_published [OF ok] in auto)
  show "pending_of cfg (w_mem w') (w_pc w' u) = pending_of cfg (w_mem w) (w_pc w u)"
    unfolding l by (rule fp(2)) (use world_ok_published [OF ok] in auto)
qed

text \<open>A state with its maps: allocated, with distinct keys, out of reach of every goroutine and caller.\<close>

definition state_ok :: "world \<Rightarrow> state_object \<Rightarrow> bool" where
  "state_ok w st \<longleftrightarrow> so_parts st < length (m_parts (w_mem w)) \<and> so_statuses st < length (m_statuses (w_mem w)) \<and>
     gomap_wf (m_parts (w_mem w) ! so_parts st) \<and> gomap_wf (m_statuses (w_mem w) ! so_statuses st) \<and> so_statuses st \<notin> set (w_client w) \<and>
     (\<forall>t. so_parts st \<notin> own_parts (w_pc w t) \<and> so_statuses st \<notin> own_statuses (w_pc w t))"

lemma published_states: "published_ok w \<longleftrightarrow> w_current w < length (m_states (w_mem w)) \<and> (\<forall>st \<in> set (m_states (w_mem w)). state_ok w st)"
  by (simp add: published_ok_def state_ok_def)

lemma transition_facts:
  assumes "transition cfg t w w'"
  shows "frame (own_parts (w_pc w t)) (own_statuses (w_pc w t)) (w_mem w) (w_mem w')"
    and "length (m_parts (w_mem w)) \<le> length (m_parts (w_mem w'))" and "length (m_statuses (w_mem w)) \<le> length (m_statuses (w_mem w'))"
    and "own_parts (w_pc w' t) \<subseteq> own_parts (w_pc w t) \<union> {length (m_parts (w_mem w)) ..< length (m_parts (w_mem w'))}"
    and "own_statuses (w_pc w' t) \<subseteq> own_statuses (w_pc w t) \<union> {length (m_statuses (w_mem w)) ..< length (m_statuses (w_mem w'))}"
    and "w_client w' = w_client w" and "u \<noteq> t \<Longrightarrow> w_pc w' u = w_pc w u"
  using assms by (auto simp: transition_def Let_def frame_def)

lemma old_state_ok:
  assumes ok: "world_ok cfg w" and tr: "transition cfg t w w'" and st: "st \<in> set (m_states (w_mem w))"
  shows "state_ok w' st"
proof -
  note facts = transition_facts [OF tr]
  have was: "state_ok w st" using ok st by (simp add: world_ok_def published_states)
  have keep: "m_parts (w_mem w') ! so_parts st = m_parts (w_mem w) ! so_parts st \<and>
    m_statuses (w_mem w') ! so_statuses st = m_statuses (w_mem w) ! so_statuses st"
    using facts(1) was by (auto simp: frame_def state_ok_def)
  have "so_parts st \<notin> own_parts (w_pc w' u) \<and> so_statuses st \<notin> own_statuses (w_pc w' u)" for u
    using facts(4,5,7) was by (cases "u = t") (fastforce simp: state_ok_def)+
  with was keep facts(2,3,6) show ?thesis by (auto simp: state_ok_def)
qed

lemma new_state_ok:
  assumes ok: "world_ok cfg w" and tr: "transition cfg t w w'" and st: "st \<in> set (drop (length (m_states (w_mem w))) (m_states (w_mem w')))"
  shows "state_ok w' st"
proof -
  let ?l = "w_pc w t" and ?l' = "w_pc w' t"
  note facts = transition_facts [OF tr] and old = old_state_ok [OF ok tr, unfolded state_ok_def]
  have new: "so_parts st \<in> own_parts ?l - own_parts ?l' \<or> so_parts st \<in> so_parts ` set (m_states (w_mem w))"
    "so_statuses st \<in> own_statuses ?l - own_statuses ?l'"
    "gomap_wf (m_parts (w_mem w') ! so_parts st)" "gomap_wf (m_statuses (w_mem w') ! so_statuses st)"
    using tr st by (simp_all add: transition_def Let_def)
  have "so_parts st \<notin> own_parts (w_pc w' u) \<and> so_statuses st \<notin> own_statuses (w_pc w' u)" for u
  proof (cases "u = t")
    case True
    then show ?thesis using new(1,2) old by auto
  next
    case False
    have "so_parts st' \<notin> own_parts (w_pc w u)" if "st' \<in> set (m_states (w_mem w))" for st' using old [OF that] facts(7) [OF False] by metis
    then show ?thesis using new(1,2) facts(7) [OF False] world_ok_other [OF ok False] by auto
  qed
  moreover have "so_parts st < length (m_parts (w_mem w'))"
    using new(1) old world_ok_own(1) [OF ok, of "so_parts st" t] facts(2) by fastforce
  ultimately show ?thesis
    using new(2-4) world_ok_own(2,3) [OF ok, of "so_statuses st" t] facts(3,6) by (auto simp: state_ok_def)
qed

lemma transition_published:
  assumes ok: "world_ok cfg w" and tr: "transition cfg t w w'"
  shows "published_ok w'"
proof -
  obtain new where new: "m_states (w_mem w') = m_states (w_mem w) @ new" using tr by (auto simp: transition_def Let_def frame_def)
  have "w_current w' < length (m_states (w_mem w'))"
    using tr ok new by (auto simp: transition_def Let_def world_ok_def published_ok_def)
  then show ?thesis
    using old_state_ok [OF ok tr] new_state_ok [OF ok tr] by (auto simp: published_states new)
qed

lemma transition_ownership:
  assumes ok: "world_ok cfg w" and tr: "transition cfg t w w'"
  shows "ownership_ok w'"
proof -
  let ?m = "w_mem w" and ?m' = "w_mem w'" and ?l = "w_pc w t" and ?l' = "w_pc w' t"
  note len = transition_facts(2,3) [OF tr] and own = transition_facts(4,5) [OF tr] and cl = transition_facts(6) [OF tr]
    and other = transition_facts(7) [OF tr]
  have old: "own_parts (w_pc w u) \<subseteq> {..< length (m_parts ?m)}" "own_statuses (w_pc w u) \<subseteq> {..< length (m_statuses ?m)}"
    "own_statuses (w_pc w u) \<inter> set (w_client w) = {}" "set (w_client w) \<subseteq> {..< length (m_statuses ?m)}" for u
    using ok by (simp_all add: world_ok_def ownership_ok_def)
  have apart: "own_parts (w_pc w' u) \<inter> own_parts (w_pc w' v) = {} \<and> own_statuses (w_pc w' u) \<inter> own_statuses (w_pc w' v) = {}"
    if "u \<noteq> v" for u v
  proof -
    have new: "own_parts ?l' \<inter> own_parts (w_pc w x) = {} \<and> own_statuses ?l' \<inter> own_statuses (w_pc w x) = {}" if "x \<noteq> t" for x
      using own old(1,2) [of x] world_ok_other [OF ok that] by fastforce
    show ?thesis
      using that new [of u] new [of v] other [of u] other [of v] world_ok_other [OF ok that]
      by (cases "u = t"; cases "v = t") auto
  qed
  have "own_parts (w_pc w' u) \<subseteq> {..< length (m_parts ?m')} \<and> own_statuses (w_pc w' u) \<subseteq> {..< length (m_statuses ?m')} \<and>
    own_statuses (w_pc w' u) \<inter> set (w_client w') = {}" for u
    using own old(1-3) [of u] old(4) len other [of u] cl by (cases "u = t") fastforce+
  with apart old(4) len(2) cl show ?thesis unfolding ownership_ok_def by fastforce
qed

lemma transition_keeps:
  assumes ok: "world_ok cfg w" and tr: "transition cfg t w w'"
  shows "world_ok cfg w'"
proof -
  have "progress_ok cfg (w_mem w') (w_current w') (w_pc w' u)" for u
    using transition_other(1) [OF ok tr, of u] tr by (cases "u = t") (auto simp: transition_def Let_def)
  moreover have "lock_ok w'"
    using ok tr unfolding world_ok_def lock_ok_def transition_def Let_def by metis
  ultimately show ?thesis
    using transition_published [OF ok tr] transition_ownership [OF ok tr] by (simp add: world_ok_def)
qed

lemma transition_abstraction:
  assumes "world_ok cfg w" and "transition cfg t w w'"
  shows "abstraction cfg w' =
    \<lparr> sp_store = store_at cfg (w_mem w') (w_current w'),
      sp_pending = (sp_pending (abstraction cfg w))(t := pending_of cfg (w_mem w') (w_pc w' t)) \<rparr>"
  using transition_other(2) [OF assms] by (auto simp: abstraction_def)

section \<open>Every step is a transition\<close>

lemma update_new: "k \<notin> fst ` set xs \<Longrightarrow> AList.update k v xs = xs @ [(k, v)]"
  by (induction xs) auto

lemma update_take:
  assumes "gomap_wf xs" and "i < length xs" and "xs ! i = (k, v)"
  shows "AList.update k v (take i xs) = take (i + 1) xs"
proof -
  have "k \<notin> fst ` set (take i xs)"
  proof
    assume "k \<in> fst ` set (take i xs)"
    then obtain j where "j < i" and "fst (xs ! j) = k" by (auto simp: in_set_conv_nth)
    with assms show False using nth_eq_iff_index_eq [of "map fst xs" i j] by simp
  qed
  then have "AList.update k v (take i xs) = take i xs @ [(k, v)]" by (rule update_new)
  then show ?thesis using assms by (simp add: take_Suc_conv_app_nth)
qed

lemma own_frame_at:
  assumes "world_ok cfg w" and "frame (own_parts (w_pc w t)) (own_statuses (w_pc w t)) (w_mem w) m'"
    and "c < length (m_states (w_mem w))"
  shows "parts_at m' c = parts_at (w_mem w) c" and "statuses_at m' c = statuses_at (w_mem w) c"
    and "store_at cfg m' c = store_at cfg (w_mem w) c" and "m_states m' ! c = m_states (w_mem w) ! c"
  using frame_at [OF assms(2,3)] world_ok_published [OF assms(1,3), of t] by auto

lemma put_part_at:
  "p < length (m_parts m) \<Longrightarrow> m_parts (put_part p (k, v) m) ! p = AList.update k v (m_parts m ! p)"
  "m_parts (put_status s kv m) = m_parts m" "m_parts (new_statuses m) = m_parts m" "m_parts (new_state snap p s m) = m_parts m"
  "length (m_parts (put_part p kv' m)) = length (m_parts m)" "m_parts (new_parts m) = m_parts m @ [[]]"
  by (simp_all add: put_part_def put_status_def new_statuses_def new_state_def new_parts_def split: prod.splits)

lemma put_status_at:
  "s < length (m_statuses m) \<Longrightarrow> m_statuses (put_status s (k, v) m) ! s = AList.update k v (m_statuses m ! s)"
  "m_statuses (put_part p kv m) = m_statuses m" "m_statuses (new_parts m) = m_statuses m" "m_statuses (new_state snap p s m) = m_statuses m"
  "length (m_statuses (put_status s kv' m)) = length (m_statuses m)" "m_statuses (new_statuses m) = m_statuses m @ [[]]"
  by (simp_all add: put_part_def put_status_def new_parts_def new_state_def new_statuses_def split: prod.splits)

lemma states_at:
  "m_states (put_part p kv m) = m_states m" "m_states (put_status s kv' m) = m_states m"
  "m_states (new_parts m) = m_states m" "m_states (new_statuses m) = m_states m"
  "m_states (new_state snap p s m) = m_states m @ [\<lparr> so_snapshot = snap, so_parts = p, so_statuses = s \<rparr>]"
  by (simp_all add: put_part_def put_status_def new_parts_def new_state_def new_statuses_def split: prod.splits)

lemmas mem_simps = put_part_at put_status_at states_at

lemma world_parts [simp]:
  "w_mem (goto t l w) = w_mem w" "w_current (goto t l w) = w_current w" "w_lock (goto t l w) = w_lock w"
  "w_client (goto t l w) = w_client w" "w_pc (goto t l w) = (w_pc w)(t := l)"
  "w_mem (on_mem f w) = f (w_mem w)" "w_current (on_mem f w) = w_current w" "w_lock (on_mem f w) = w_lock w"
  "w_client (on_mem f w) = w_client w" "w_pc (on_mem f w) = w_pc w"
  by (simp_all add: goto_def on_mem_def)

definition simulated :: "Store \<Rightarrow> nat \<Rightarrow> world \<Rightarrow> world \<Rightarrow> bool" where
  "simulated cfg t w w' \<longleftrightarrow>
     (let store = store_at cfg (w_mem w) (w_current w); store' = store_at cfg (w_mem w') (w_current w');
          q = pending_of cfg (w_mem w) (w_pc w t); q' = pending_of cfg (w_mem w') (w_pc w' t)
      in (store', q') = (store, q) \<or> atomic_step store q store' q')"

lemma world_ok_here:
  assumes "world_ok cfg w"
  shows "w_current w < length (m_states (w_mem w))" and "progress_ok cfg (w_mem w) (w_current w) (w_pc w t)"
    and "holds_lock (w_pc w t) \<longleftrightarrow> w_lock w = Some t"
  using assms by (simp_all add: world_ok_def published_ok_def lock_ok_def)

text \<open>A step that leaves the mutex, the pointer and the set of states alone.\<close>

lemma local_step:
  assumes ok: "world_ok cfg w" and w': "w' = goto t l' (w\<lparr> w_mem := m' \<rparr>)"
    and fr: "frame (own_parts (w_pc w t)) (own_statuses (w_pc w t)) (w_mem w) m'"
    and own: "own_parts l' \<subseteq> own_parts (w_pc w t) \<union> {length (m_parts (w_mem w)) ..< length (m_parts m')}"
      "own_statuses l' \<subseteq> own_statuses (w_pc w t) \<union> {length (m_statuses (w_mem w)) ..< length (m_statuses m')}"
    and st: "m_states m' = m_states (w_mem w)" and lock: "holds_lock l' \<longleftrightarrow> holds_lock (w_pc w t)"
    and progress: "progress_ok cfg m' (w_current w) l'"
    and q: "pending_of cfg m' l' = pending_of cfg (w_mem w) (w_pc w t) \<or>
      atomic_step (store_at cfg (w_mem w) (w_current w)) (pending_of cfg (w_mem w) (w_pc w t))
        (store_at cfg (w_mem w) (w_current w)) (pending_of cfg m' l')"
  shows "transition cfg t w w' \<and> simulated cfg t w w'"
  using assms world_ok_here [OF ok] own_frame_at(3) [OF ok fr]
  by (auto simp: transition_def simulated_def Let_def)

lemma on_mem_eq: "on_mem f w = w\<lparr> w_mem := f (w_mem w) \<rparr>" and same_mem: "w = w\<lparr> w_mem := w_mem w \<rparr>"
  by (simp_all add: on_mem_def)

lemma clone_parts_step:
  assumes ok: "world_ok cfg w" and l: "w_pc w t = Publish_CloneParts cid partial cur p i"
    and step: "publish_step cfg t now (w_pc w t) w = Some w'"
  shows "transition cfg t w w' \<and> simulated cfg t w w'"
proof -
  let ?m = "w_mem w"
  note here = world_ok_here [OF ok]
  have pr: "accepted cid partial" "cur = w_current w" "i \<le> length (parts_at ?m cur)" "m_parts ?m ! p = take i (parts_at ?m cur)"
    using here(2) [of t] l by auto
  have p: "p < length (m_parts ?m)" using world_ok_own(1) [OF ok, of p t] l by simp
  show ?thesis
  proof (cases "i < length (parts_at ?m cur)")
    case True
    obtain k v where kv: "parts_at ?m cur ! i = (k, v)" by fastforce
    have w': "w' = goto t (Publish_CloneParts cid partial cur p (i + 1)) (w\<lparr> w_mem := put_part p (k, v) ?m \<rparr>)"
      using step True l kv by (simp add: on_mem_eq)
    have fr: "frame (own_parts (w_pc w t)) (own_statuses (w_pc w t)) ?m (put_part p (k, v) ?m)" using l by simp
    have "m_parts (put_part p (k, v) ?m) ! p = take (i + 1) (parts_at ?m cur)"
      using p pr(4) kv True world_ok_published [OF ok here(1)] pr(2) by (simp add: mem_simps update_take)
    then show ?thesis
      by (intro local_step [OF ok w' fr]) (use l pr True own_frame_at [OF ok fr here(1)] in \<open>auto simp: mem_simps\<close>)
  next
    case False
    then have w': "w' = goto t (Publish_CloneStatuses cid partial cur p (length (m_statuses ?m)) 0) (w\<lparr> w_mem := new_statuses ?m \<rparr>)"
      using step l by (simp add: on_mem_eq)
    have fr: "frame (own_parts (w_pc w t)) (own_statuses (w_pc w t)) ?m (new_statuses ?m)" by simp
    show ?thesis
      by (intro local_step [OF ok w' fr]) (use l pr False own_frame_at [OF ok fr here(1)] in \<open>auto simp: mem_simps\<close>)
  qed
qed

lemma clone_statuses_step:
  assumes ok: "world_ok cfg w" and l: "w_pc w t = Publish_CloneStatuses cid partial cur p s i"
    and step: "publish_step cfg t now (w_pc w t) w = Some w'"
  shows "transition cfg t w w' \<and> simulated cfg t w w'"
proof -
  let ?m = "w_mem w"
  note here = world_ok_here [OF ok]
  have pr: "accepted cid partial" "cur = w_current w" "m_parts ?m ! p = parts_at ?m cur"
    "i \<le> length (statuses_at ?m cur)" "m_statuses ?m ! s = take i (statuses_at ?m cur)"
    using here(2) [of t] l by auto
  have s: "s < length (m_statuses ?m)" using world_ok_own(2) [OF ok, of s t] l by simp
  show ?thesis
  proof (cases "i < length (statuses_at ?m cur)")
    case True
    obtain k v where kv: "statuses_at ?m cur ! i = (k, v)" by fastforce
    have w': "w' = goto t (Publish_CloneStatuses cid partial cur p s (i + 1)) (w\<lparr> w_mem := put_status s (k, v) ?m \<rparr>)"
      using step True l kv by (simp add: on_mem_eq)
    have fr: "frame (own_parts (w_pc w t)) (own_statuses (w_pc w t)) ?m (put_status s (k, v) ?m)" using l by simp
    have "m_statuses (put_status s (k, v) ?m) ! s = take (i + 1) (statuses_at ?m cur)"
      using s pr(5) kv True world_ok_published [OF ok here(1)] pr(2) by (simp add: mem_simps update_take)
    then show ?thesis
      by (intro local_step [OF ok w' fr]) (use l pr True own_frame_at [OF ok fr here(1)] in \<open>auto simp: mem_simps\<close>)
  next
    case False
    then have w': "w' = goto t (Publish_Put cid partial cur p s) (w\<lparr> w_mem := ?m \<rparr>)" using step l by simp
    show ?thesis by (intro local_step [OF ok w' frame_same]) (use l pr False in auto)
  qed
qed

text \<open>What \<open>Publish\<close> and \<open>RecordFailure\<close> do to the store of a memory state.\<close>

lemma merge_at: "mergeParts (store_at cfg m cur) ps = mergeParts cfg ps"
proof -
  have "organizationPolicies (store_at cfg m cur) = organizationPolicies cfg" by (simp add: store_at_def)
  then show ?thesis by (simp only: mergeParts_def)
qed

lemma publish_at:
  assumes "accepted cid partial"
  shows "Publish now cid partial (store_at cfg m cur) =
    (case mergeParts cfg (AList.update cid partial (parts_at m cur)) of
       Inl err \<Rightarrow> (store_at cfg m cur, Some err)
     | Inr merged \<Rightarrow>
         (cfg\<lparr> current := \<lparr> snapshot = merged, parts = AList.update cid partial (parts_at m cur),
            statuses = foldl (refresh_series merged) (stamped m cur cid now) (AList.update cid partial (parts_at m cur)) \<rparr> \<rparr>, None))"
proof -
  have "parts (current (store_at cfg m cur)) = parts_at m cur" "statuses (current (store_at cfg m cur)) = statuses_at m cur"
    "store_at cfg m cur\<lparr> current := c \<rparr> = cfg\<lparr> current := c \<rparr>" for c
    by (simp_all add: store_at_def)
  then show ?thesis
    using assms by (simp add: Publish_def accepted_def merge_at stamped_def fresh_status_def Let_def split: sum.split)
qed

lemma publish_merge_step:
  assumes ok: "world_ok cfg w" and merge: "w_pc w t = Publish_Merge cid partial cur p s"
    and step: "publish_step cfg t now (w_pc w t) w = Some w'"
  shows "transition cfg t w w' \<and> simulated cfg t w w'"
proof -
  let ?m = "w_mem w"
  have pr: "accepted cid partial" "cur = w_current w" "m_parts ?m ! p = AList.update cid partial (parts_at ?m cur)"
    "m_statuses ?m ! s = statuses_at ?m cur" using world_ok_here(2) [OF ok, of t] merge by auto
  show ?thesis
  proof (cases "mergeParts cfg (m_parts ?m ! p)")
    case (Inl err)
    then have w': "w' = goto t (Unlock (Some err)) (w\<lparr> w_mem := ?m \<rparr>)" using step merge by simp
    have "Publish now cid partial (store_at cfg ?m cur) = (store_at cfg ?m cur, Some err)"
      using Inl pr by (simp add: publish_at)
    then have "atomic_step (store_at cfg ?m cur) (Called (CallPublish cid partial)) (store_at cfg ?m cur) (Finished (Outcome (Some err)))"
      by (rule atomic_publish)
    then show ?thesis by (intro local_step [OF ok w' frame_same]) (use merge pr in auto)
  next
    case (Inr snap)
    then have w': "w' = goto t (Publish_Stamp cid partial cur p s snap) (w\<lparr> w_mem := ?m \<rparr>)" using step merge by simp
    show ?thesis by (intro local_step [OF ok w' frame_same]) (use merge pr Inr in auto)
  qed
qed

lemma publish_build_step:
  assumes ok: "world_ok cfg w" and step: "publish_step cfg t now (w_pc w t) w = Some w'"
    and l: "w_pc w t = Publish_Put cid partial cur p s \<or> w_pc w t = Publish_Merge cid partial cur p s \<or>
      w_pc w t = Publish_Stamp cid partial cur p s merged"
  shows "transition cfg t w w' \<and> simulated cfg t w w'"
proof -
  let ?m = "w_mem w"
  note here = world_ok_here [OF ok]
  have p: "p < length (m_parts ?m)" and s: "s < length (m_statuses ?m)"
    using world_ok_own(1,2) [OF ok, of _ t] l by auto
  note at = own_frame_at [OF ok _ here(1), of t]
  consider (put) "w_pc w t = Publish_Put cid partial cur p s" | (merge) "w_pc w t = Publish_Merge cid partial cur p s"
    | (stamp) "w_pc w t = Publish_Stamp cid partial cur p s merged" using l by blast
  then show ?thesis
  proof cases
    case put
    then have w': "w' = goto t (Publish_Merge cid partial cur p s) (w\<lparr> w_mem := put_part p (cid, partial) ?m \<rparr>)"
      using step by (simp add: on_mem_eq)
    have fr: "frame (own_parts (w_pc w t)) (own_statuses (w_pc w t)) ?m (put_part p (cid, partial) ?m)" using put by simp
    show ?thesis
      by (intro local_step [OF ok w' fr]) (use put here(2) [of t] p at [OF fr] in \<open>auto simp: mem_simps\<close>)
  next
    case merge
    then show ?thesis using publish_merge_step [OF ok _ step] by simp
  next
    case stamp
    then have w': "w' = goto t (Publish_Series cid partial cur p s merged now 0) (w\<lparr> w_mem := put_status s (cid, fresh_status now) ?m \<rparr>)"
      using step by (simp add: on_mem_eq)
    have fr: "frame (own_parts (w_pc w t)) (own_statuses (w_pc w t)) ?m (put_status s (cid, fresh_status now) ?m)" using stamp by simp
    show ?thesis
      by (intro local_step [OF ok w' fr]) (use stamp here(2) [of t] s at [OF fr] in \<open>auto simp: mem_simps stamped_def\<close>)
  qed
qed

lemma publish_series_step:
  assumes ok: "world_ok cfg w" and l: "w_pc w t = Publish_Series cid partial cur p s merged stamp i"
    and step: "publish_step cfg t now (w_pc w t) w = Some w'"
  shows "transition cfg t w w' \<and> simulated cfg t w w'"
proof -
  let ?m = "w_mem w" and ?ps = "m_parts (w_mem w) ! p"
  note here = world_ok_here [OF ok]
  have s: "s < length (m_statuses ?m)" using world_ok_own(2) [OF ok, of s t] l by simp
  show ?thesis
  proof (cases "i < length ?ps")
    case True
    obtain k v where kv: "?ps ! i = (k, v)" by fastforce
    let ?st = "(status_of (m_statuses ?m ! s) k)\<lparr> Series := publishedSeries (id_Target k) v merged \<rparr>"
    have w': "w' = goto t (Publish_Series cid partial cur p s merged stamp (i + 1)) (w\<lparr> w_mem := put_status s (k, ?st) ?m \<rparr>)"
      using step True l kv by (simp add: on_mem_eq)
    have fr: "frame (own_parts (w_pc w t)) (own_statuses (w_pc w t)) ?m (put_status s (k, ?st) ?m)" using l by simp
    have "m_statuses (put_status s (k, ?st) ?m) ! s = foldl (refresh_series merged) (stamped ?m cur cid stamp) (take (i + 1) ?ps)"
      using s here(2) [of t] l kv True by (simp add: mem_simps take_Suc_conv_app_nth refresh_series_def)
    then show ?thesis
      by (intro local_step [OF ok w' fr])
        (use l here(2) [of t] True own_frame_at [OF ok fr here(1)] in \<open>auto simp: mem_simps stamped_def\<close>)
  next
    case False
    then have w': "w' = goto t (Publish_Store cid partial cur p s merged stamp) (w\<lparr> w_mem := ?m \<rparr>)" using step l by simp
    show ?thesis by (intro local_step [OF ok w' frame_same]) (use l here(2) [of t] False in auto)
  qed
qed

lemma series_wf: "gomap_wf sts \<Longrightarrow> gomap_wf (foldl (refresh_series merged) sts ps)"
  by (induction ps arbitrary: sts) (auto simp: refresh_series_def gomap_wf_update split: prod.splits)

lemma publish_store_step:
  assumes ok: "world_ok cfg w" and l: "w_pc w t = Publish_Store cid partial cur p s merged stamp"
    and step: "publish_step cfg t now (w_pc w t) w = Some w'"
  shows "transition cfg t w w' \<and> simulated cfg t w w'"
proof -
  let ?m = "w_mem w" and ?m' = "new_state merged p s (w_mem w)" and ?new = "length (m_states (w_mem w))"
  note here = world_ok_here [OF ok]
  have pr: "accepted cid partial" "cur = w_current w" "m_parts ?m ! p = AList.update cid partial (parts_at ?m cur)"
    "mergeParts cfg (m_parts ?m ! p) = Inr merged"
    "m_statuses ?m ! s = foldl (refresh_series merged) (stamped ?m cur cid stamp) (m_parts ?m ! p)"
    using here(2) [of t] l by auto
  have w': "w_mem w' = ?m'" "w_current w' = ?new" "w_lock w' = w_lock w" "w_client w' = w_client w" "w_pc w' = (w_pc w)(t := Unlock None)"
    using step l by auto
  have "gomap_wf (parts_at ?m cur)" "gomap_wf (statuses_at ?m cur)"
    using world_ok_published [OF ok here(1)] pr(2) by auto
  then have wf: "gomap_wf (m_parts ?m ! p)" "gomap_wf (m_statuses ?m ! s)"
    using pr(3,5) by (simp_all add: gomap_wf_update series_wf stamped_def)
  have "transition cfg t w w'"
    using l here(3) [of t] wf by (auto simp: transition_def Let_def w' mem_simps)
  moreover have "Publish stamp cid partial (store_at cfg ?m cur) = (store_at cfg ?m' ?new, None)"
    using pr(1,3-5) by (simp add: publish_at) (simp add: store_at_def parts_at_def statuses_at_def mem_simps)
  then have "atomic_step (store_at cfg ?m cur) (Called (CallPublish cid partial)) (store_at cfg ?m' ?new) (Finished (Outcome None))"
    by (rule atomic_publish)
  then have "simulated cfg t w w'" using l pr(2) by (simp add: simulated_def w')
  ultimately show ?thesis ..
qed

lemma publish_enter_step:
  assumes ok: "world_ok cfg w" and step: "publish_step cfg t now (w_pc w t) w = Some w'"
    and l: "w_pc w t = Publish_Enter cid partial \<or> w_pc w t = Publish_Lock cid partial \<or> w_pc w t = Publish_Load cid partial"
  shows "transition cfg t w w' \<and> simulated cfg t w w'"
proof -
  let ?m = "w_mem w" and ?store = "store_at cfg (w_mem w) (w_current w)"
  note here = world_ok_here [OF ok]
  consider (enter) "w_pc w t = Publish_Enter cid partial" | (lock) "w_pc w t = Publish_Lock cid partial"
    | (load) "w_pc w t = Publish_Load cid partial" using l by blast
  then show ?thesis
  proof cases
    case enter
    let ?l = "if \<not> CollectorID_Valid cid then Return_Outcome (Some ErrInvalidCollector)
      else case ValidatePartial partial (id_Target cid) of Inl err \<Rightarrow> Return_Outcome (Some err) | Inr _ \<Rightarrow> Publish_Lock cid partial"
    have w': "w' = goto t ?l (w\<lparr> w_mem := ?m \<rparr>)" using step enter by simp
    have q: "pending_of cfg ?m ?l = Called (CallPublish cid partial) \<or>
      atomic_step ?store (Called (CallPublish cid partial)) ?store (pending_of cfg ?m ?l)"
      by (auto simp: Publish_def split: sum.splits intro!: atomic_publish [of undefined])
    show ?thesis
      by (rule local_step [OF ok w' frame_same]) (use enter q in \<open>auto simp: accepted_def split: sum.splits\<close>)
  next
    case lock
    then show ?thesis using step here(1,3) here(2) [of t] by (auto simp: transition_def simulated_def Let_def split: if_splits)
  next
    case load
    then have w': "w' = goto t (Publish_CloneParts cid partial (w_current w) (length (m_parts ?m)) 0) (w\<lparr> w_mem := new_parts ?m \<rparr>)"
      using step by (simp add: on_mem_eq)
    have fr: "frame (own_parts (w_pc w t)) (own_statuses (w_pc w t)) ?m (new_parts ?m)" by simp
    show ?thesis
      by (intro local_step [OF ok w' fr]) (use load here(2) [of t] own_frame_at [OF ok fr here(1)] in \<open>auto simp: mem_simps\<close>)
  qed
qed

lemma publish_step_ok:
  assumes "world_ok cfg w" and "publish_step cfg t now (w_pc w t) w = Some w'"
  shows "transition cfg t w w' \<and> simulated cfg t w w'"
  using assms(2) publish_enter_step [OF assms] clone_parts_step [OF assms(1) _ assms(2)] clone_statuses_step [OF assms(1) _ assms(2)]
    publish_build_step [OF assms] publish_series_step [OF assms(1) _ assms(2)] publish_store_step [OF assms(1) _ assms(2)]
  by (cases "w_pc w t") auto

lemma failure_at:
  assumes "CollectorID_Valid cid"
  shows "RecordFailure now cid (store_at cfg m cur) =
    (cfg\<lparr> current := \<lparr> snapshot = so_snapshot (m_states m ! cur), parts = parts_at m cur,
       statuses = AList.update cid ((status_of (statuses_at m cur) cid)\<lparr> LastAttempt := now, Up := False \<rparr>) (statuses_at m cur) \<rparr> \<rparr>, None)"
  using assms by (simp add: RecordFailure_def store_at_def)

lemma failure_store_step:
  assumes ok: "world_ok cfg w" and l: "w_pc w t = Failure_Store cid cur s stamp"
    and step: "failure_step t now (w_pc w t) w = Some w'"
  shows "transition cfg t w w' \<and> simulated cfg t w w'"
proof -
  let ?m = "w_mem w" and ?new = "length (m_states (w_mem w))"
  let ?st = "m_states ?m ! cur"
  let ?m' = "new_state (so_snapshot ?st) (so_parts ?st) s ?m"
  note here = world_ok_here [OF ok]
  have pr: "CollectorID_Valid cid" "cur = w_current w"
    "m_statuses ?m ! s = AList.update cid ((status_of (statuses_at ?m cur) cid)\<lparr> LastAttempt := stamp, Up := False \<rparr>) (statuses_at ?m cur)"
    using here(2) [of t] l by auto
  have w': "w_mem w' = ?m'" "w_current w' = ?new" "w_lock w' = w_lock w" "w_client w' = w_client w" "w_pc w' = (w_pc w)(t := Unlock None)"
    using step l by (auto simp: Let_def)
  have st: "?st \<in> set (m_states ?m)" "gomap_wf (m_parts ?m ! so_parts ?st)" "gomap_wf (m_statuses ?m ! s)"
    using world_ok_published [OF ok here(1)] pr(2,3) here(1) by (auto simp: gomap_wf_update parts_at_def)
  then have "transition cfg t w w'"
    using l here(3) [of t] by (auto simp: transition_def Let_def w' mem_simps)
  moreover have "RecordFailure stamp cid (store_at cfg ?m cur) = (store_at cfg ?m' ?new, None)"
    using pr(1,3) by (simp add: failure_at) (simp add: store_at_def parts_at_def statuses_at_def mem_simps)
  then have "atomic_step (store_at cfg ?m cur) (Called (CallRecordFailure cid)) (store_at cfg ?m' ?new) (Finished (Outcome None))"
    by (rule atomic_failure)
  then have "simulated cfg t w w'" using l pr(2) by (simp add: simulated_def w')
  ultimately show ?thesis ..
qed

lemma failure_clone_step:
  assumes ok: "world_ok cfg w" and l: "w_pc w t = Failure_Clone cid cur s i"
    and step: "failure_step t now (w_pc w t) w = Some w'"
  shows "transition cfg t w w' \<and> simulated cfg t w w'"
proof -
  let ?m = "w_mem w"
  note here = world_ok_here [OF ok]
  have pr: "CollectorID_Valid cid" "cur = w_current w" "i \<le> length (statuses_at ?m cur)" "m_statuses ?m ! s = take i (statuses_at ?m cur)"
    using here(2) [of t] l by auto
  have s: "s < length (m_statuses ?m)" using world_ok_own(2) [OF ok, of s t] l by simp
  show ?thesis
  proof (cases "i < length (statuses_at ?m cur)")
    case True
    obtain k v where kv: "statuses_at ?m cur ! i = (k, v)" by fastforce
    have w': "w' = goto t (Failure_Clone cid cur s (i + 1)) (w\<lparr> w_mem := put_status s (k, v) ?m \<rparr>)"
      using step True l kv by (simp add: on_mem_eq)
    have fr: "frame (own_parts (w_pc w t)) (own_statuses (w_pc w t)) ?m (put_status s (k, v) ?m)" using l by simp
    have "m_statuses (put_status s (k, v) ?m) ! s = take (i + 1) (statuses_at ?m cur)"
      using s pr(4) kv True world_ok_published [OF ok here(1)] pr(2) by (simp add: mem_simps update_take)
    then show ?thesis
      by (intro local_step [OF ok w' fr]) (use l pr True own_frame_at [OF ok fr here(1)] in \<open>auto simp: mem_simps\<close>)
  next
    case False
    then have w': "w' = goto t (Failure_Mark cid cur s) (w\<lparr> w_mem := ?m \<rparr>)" using step l by simp
    show ?thesis by (intro local_step [OF ok w' frame_same]) (use l pr False in auto)
  qed
qed

lemma failure_other_step:
  assumes ok: "world_ok cfg w" and step: "failure_step t now (w_pc w t) w = Some w'"
    and l: "w_pc w t = Failure_Enter cid \<or> w_pc w t = Failure_Lock cid \<or> w_pc w t = Failure_Load cid \<or> w_pc w t = Failure_Mark cid cur s"
  shows "transition cfg t w w' \<and> simulated cfg t w w'"
proof -
  let ?m = "w_mem w" and ?store = "store_at cfg (w_mem w) (w_current w)"
  note here = world_ok_here [OF ok]
  consider (enter) "w_pc w t = Failure_Enter cid" | (lock) "w_pc w t = Failure_Lock cid" | (load) "w_pc w t = Failure_Load cid"
    | (mark) "w_pc w t = Failure_Mark cid cur s" using l by blast
  then show ?thesis
  proof cases
    case enter
    let ?l = "if \<not> CollectorID_Valid cid then Return_Outcome (Some ErrInvalidCollector) else Failure_Lock cid"
    have w': "w' = goto t ?l (w\<lparr> w_mem := ?m \<rparr>)" using step enter by simp
    have q: "pending_of cfg ?m ?l = Called (CallRecordFailure cid) \<or>
      atomic_step ?store (Called (CallRecordFailure cid)) ?store (pending_of cfg ?m ?l)"
      by (auto simp: RecordFailure_def intro!: atomic_failure [of undefined])
    show ?thesis by (rule local_step [OF ok w' frame_same]) (use enter q in auto)
  next
    case lock
    then show ?thesis using step here(1,3) here(2) [of t] by (auto simp: transition_def simulated_def Let_def split: if_splits)
  next
    case load
    then have w': "w' = goto t (Failure_Clone cid (w_current w) (length (m_statuses ?m)) 0) (w\<lparr> w_mem := new_statuses ?m \<rparr>)"
      using step by (simp add: on_mem_eq)
    have fr: "frame (own_parts (w_pc w t)) (own_statuses (w_pc w t)) ?m (new_statuses ?m)" by simp
    show ?thesis
      by (intro local_step [OF ok w' fr]) (use load here(2) [of t] own_frame_at [OF ok fr here(1)] in \<open>auto simp: mem_simps\<close>)
  next
    case mark
    let ?st = "(status_of (m_statuses ?m ! s) cid)\<lparr> LastAttempt := now, Up := False \<rparr>"
    have w': "w' = goto t (Failure_Store cid cur s now) (w\<lparr> w_mem := put_status s (cid, ?st) ?m \<rparr>)"
      using step mark by (simp add: on_mem_eq)
    have fr: "frame (own_parts (w_pc w t)) (own_statuses (w_pc w t)) ?m (put_status s (cid, ?st) ?m)" using mark by simp
    have "s < length (m_statuses ?m)" using world_ok_own(2) [OF ok, of s t] mark by simp
    then show ?thesis
      by (intro local_step [OF ok w' fr]) (use mark here(2) [of t] own_frame_at [OF ok fr here(1)] in \<open>auto simp: mem_simps\<close>)
  qed
qed

lemma failure_step_ok:
  assumes "world_ok cfg w" and "failure_step t now (w_pc w t) w = Some w'"
  shows "transition cfg t w w' \<and> simulated cfg t w w'"
  using assms(2) failure_other_step [OF assms] failure_clone_step [OF assms(1) _ assms(2)] failure_store_step [OF assms(1) _ assms(2)]
  by (cases "w_pc w t") auto

lemma load_at:
  "v_Snapshot (Load now (store_at cfg m cur)) = so_snapshot (m_states m ! cur)"
  "v_Collectors (Load now (store_at cfg m cur)) =
     map (\<lambda>(k, st). (k, st\<lparr> Freshness := freshness cfg now (LastSuccess st) \<rparr>)) (statuses_at m cur)"
proof -
  have "freshness (store_at cfg m cur) = freshness cfg" by (intro ext) (simp add: freshness_def store_at_def Let_def)
  then show "v_Collectors (Load now (store_at cfg m cur)) =
    map (\<lambda>(k, st). (k, st\<lparr> Freshness := freshness cfg now (LastSuccess st) \<rparr>)) (statuses_at m cur)"
    by (simp add: Load_def) (simp add: store_at_def)
qed (simp add: Load_def store_at_def)

lemma load_range_step:
  assumes ok: "world_ok cfg w" and l: "w_pc w t = Load_Range cur stamp s i"
    and step: "load_step cfg t now (w_pc w t) w = Some w'"
  shows "transition cfg t w w' \<and> simulated cfg t w w'"
proof -
  let ?m = "w_mem w" and ?view = "Load stamp (store_at cfg (w_mem w) cur)"
  note here = world_ok_here [OF ok]
  have pr: "cur < length (m_states ?m)" "i \<le> length (statuses_at ?m cur)" "m_statuses ?m ! s = take i (v_Collectors ?view)"
    using here(2) [of t] l by auto
  have s: "s < length (m_statuses ?m)" using world_ok_own(2) [OF ok, of s t] l by simp
  show ?thesis
  proof (cases "i < length (statuses_at ?m cur)")
    case True
    obtain k v where kv: "statuses_at ?m cur ! i = (k, v)" by fastforce
    let ?v = "v\<lparr> Freshness := freshness cfg stamp (LastSuccess v) \<rparr>"
    have w': "w' = goto t (Load_Range cur stamp s (i + 1)) (w\<lparr> w_mem := put_status s (k, ?v) ?m \<rparr>)"
      using step True l kv by (simp add: on_mem_eq)
    have fr: "frame (own_parts (w_pc w t)) (own_statuses (w_pc w t)) ?m (put_status s (k, ?v) ?m)" using l by simp
    have "gomap_wf (v_Collectors ?view)"
      using world_ok_published [OF ok pr(1)] by (simp add: load_at comp_def case_prod_unfold)
    then have "m_statuses (put_status s (k, ?v) ?m) ! s = take (i + 1) (v_Collectors ?view)"
      using s pr(3) True kv update_take [of "v_Collectors ?view" i k ?v] by (simp add: mem_simps load_at)
    then show ?thesis
      by (intro local_step [OF ok w' fr]) (use l pr True own_frame_at [OF ok fr pr(1)] in \<open>auto simp: mem_simps\<close>)
  next
    case False
    then have w': "w' = goto t (Return_View (so_snapshot (m_states ?m ! cur)) s) (w\<lparr> w_mem := ?m \<rparr>)" using step l by simp
    have "\<lparr> v_Snapshot = so_snapshot (m_states ?m ! cur), v_Collectors = m_statuses ?m ! s \<rparr> = ?view"
      using False pr(3) by (simp add: load_at)
    then have "atomic_step store (Observed (store_at cfg ?m cur)) store (pending_of cfg ?m (Return_View (so_snapshot (m_states ?m ! cur)) s))" for store
      by (simp add: atomic_view)
    then show ?thesis by (intro local_step [OF ok w' frame_same]) (use l in auto)
  qed
qed

lemma load_step_ok:
  assumes ok: "world_ok cfg w" and step: "load_step cfg t now (w_pc w t) w = Some w'"
  shows "transition cfg t w w' \<and> simulated cfg t w w'"
proof -
  let ?m = "w_mem w" and ?store = "store_at cfg (w_mem w) (w_current w)"
  note here = world_ok_here [OF ok]
  show ?thesis
  proof (cases "w_pc w t")
    case Load_Enter
    then have w': "w' = goto t (Load_Clock (w_current w)) (w\<lparr> w_mem := ?m \<rparr>)" using step by simp
    show ?thesis by (rule local_step [OF ok w' frame_same]) (use Load_Enter here(1) in \<open>auto intro: atomic_observe\<close>)
  next
    case (Load_Clock cur)
    then have w': "w' = goto t (Load_Range cur now (length (m_statuses ?m)) 0) (w\<lparr> w_mem := new_statuses ?m \<rparr>)"
      using step by (simp add: on_mem_eq)
    have fr: "frame (own_parts (w_pc w t)) (own_statuses (w_pc w t)) ?m (new_statuses ?m)" by simp
    have "cur < length (m_states ?m)" using here(2) [of t] Load_Clock by simp
    then show ?thesis
      by (intro local_step [OF ok w' fr]) (use Load_Clock own_frame_at [OF ok fr] in \<open>auto simp: mem_simps\<close>)
  next
    case Load_Range
    then show ?thesis using load_range_step [OF ok _ step] by simp
  next
    case Snapshot_Enter
    let ?l = "Return_Merged (so_snapshot (m_states ?m ! w_current w))"
    have w': "w' = goto t ?l (w\<lparr> w_mem := ?m \<rparr>)" using step Snapshot_Enter by simp
    have "Snapshot_of ?store = so_snapshot (m_states ?m ! w_current w)" by (simp add: Snapshot_of_def store_at_def)
    then have "atomic_step ?store (Called CallSnapshot) ?store (pending_of cfg ?m ?l)" using atomic_snapshot [of ?store] by simp
    then show ?thesis by (intro local_step [OF ok w' frame_same]) (use Snapshot_Enter in auto)
  qed (use step in auto)
qed

lemma thread_step_ok:
  assumes ok: "world_ok cfg w" and step: "thread_step cfg t now w = Some w'"
  shows "transition cfg t w w' \<and> simulated cfg t w w'"
proof (cases "\<exists>err. w_pc w t = Unlock err")
  case True
  then show ?thesis
    using step world_ok_here(1) [OF ok] world_ok_here(3) [OF ok, of t] by (auto simp: transition_def simulated_def Let_def)
next
  case False
  then have "publish_step cfg t now (w_pc w t) w = Some w' \<or> failure_step t now (w_pc w t) w = Some w' \<or>
    load_step cfg t now (w_pc w t) w = Some w'"
    using step by (cases "w_pc w t") (auto split: option.splits if_splits)
  then show ?thesis using publish_step_ok [OF ok] failure_step_ok [OF ok] load_step_ok [OF ok] by blast
qed

section \<open>Calls, returns and writes of the callers\<close>

lemma client_write_frame: "a \<in> S \<Longrightarrow> frame {} S m (m\<lparr> m_statuses := (m_statuses m)[a := content] \<rparr>)"
  by (auto simp: frame_def) (metis nth_list_update_neq)

lemma client_write_ok:
  assumes ok: "world_ok cfg w" and a: "a \<in> set (w_client w)"
    and w': "w' = on_mem (\<lambda>m. m\<lparr> m_statuses := (m_statuses m)[a := content] \<rparr>) w"
  shows "world_ok cfg w'" and "abstraction cfg w' = abstraction cfg w"
proof -
  have fr: "frame {} (set (w_client w)) (w_mem w) (w_mem w')" using client_write_frame [OF a] w' by simp
  have same: "w_pc w' = w_pc w" "w_client w' = w_client w" "w_current w' = w_current w" "w_lock w' = w_lock w" using w' by simp_all
  have pub: "so_parts st < length (m_parts (w_mem w)) \<and> so_statuses st < length (m_statuses (w_mem w)) \<and> so_statuses st \<notin> set (w_client w)"
    if "st \<in> set (m_states (w_mem w))" for st
    using ok that by (simp add: world_ok_def published_ok_def)
  have ptr: "w_current w < length (m_states (w_mem w))" "progress_ok cfg (w_mem w) (w_current w) (w_pc w t)" for t
    using world_ok_here [OF ok] by auto
  have own: "own_parts (w_pc w t) \<subseteq> {..< length (m_parts (w_mem w))} - {}"
    "own_statuses (w_pc w t) \<subseteq> {..< length (m_statuses (w_mem w))} - set (w_client w)" for t
    using world_ok_own [OF ok] by auto
  have "progress_ok cfg (w_mem w') (w_current w') (w_pc w' t) \<and> pending_of cfg (w_mem w') (w_pc w' t) = pending_of cfg (w_mem w) (w_pc w t)" for t
    unfolding same using frame_progress [OF fr _ own ptr(1) _ ptr(2), where ptr' = "w_current w"] pub by simp
  moreover have "published_ok w'"
    using ok pub fr unfolding world_ok_def published_ok_def same by (auto simp: w' frame_def)
  moreover have "ownership_ok w'"
    using ok unfolding world_ok_def ownership_ok_def same by (simp add: w')
  moreover have "lock_ok w'" using ok by (simp add: world_ok_def lock_ok_def same)
  moreover have "store_at cfg (w_mem w') (w_current w) = store_at cfg (w_mem w) (w_current w)"
    using frame_at(4) [OF fr ptr(1)] pub [of "m_states (w_mem w) ! w_current w"] ptr(1) by simp
  ultimately show "world_ok cfg w'" and "abstraction cfg w' = abstraction cfg w"
    by (simp_all add: world_ok_def abstraction_def same)
qed

lemma return_view_ok:
  assumes ok: "world_ok cfg w" and l: "w_pc w t = Return_View snap s"
    and w': "w' = goto t Idle (w\<lparr> w_client := s # w_client w \<rparr>)"
  shows "world_ok cfg w'"
proof -
  have s: "s < length (m_statuses (w_mem w))" using world_ok_own(2) [OF ok, of s t] l by simp
  have others: "s \<notin> own_statuses (w_pc w u)" if "u \<noteq> t" for u using world_ok_other(2) [OF ok that] l by auto
  have pc: "w_pc w' u = (if u = t then Idle else w_pc w u)" for u by (simp add: w')
  have same: "w_mem w' = w_mem w" "w_current w' = w_current w" "w_lock w' = w_lock w" "w_client w' = s # w_client w" by (simp_all add: w')
  have "published_ok w'"
    using ok l unfolding world_ok_def published_ok_def same pc by (auto dest!: bspec [of "set (m_states (w_mem w))"] spec [of _ t])
  moreover have "ownership_ok w'"
    using ok s others unfolding world_ok_def ownership_ok_def same pc by auto
  moreover have "lock_ok w'" using ok l by (auto simp: world_ok_def lock_ok_def same pc dest: spec [of _ t])
  ultimately show ?thesis using ok unfolding world_ok_def same pc by simp
qed

lemma call_ok:
  assumes "world_ok cfg w" and "w_pc w t = Idle"
  shows "transition cfg t w (goto t (entry c) w)"
  using assms world_ok_here(3) [OF assms(1), of t]
  by (cases c) (auto simp: transition_def Let_def)

lemma return_ok:
  assumes "world_ok cfg w" and "w_pc w t = Return_Outcome err \<or> w_pc w t = Return_Merged snap"
  shows "transition cfg t w (goto t Idle w)"
  using assms world_ok_here(3) [OF assms(1), of t] by (auto simp: transition_def Let_def)

section \<open>Refinement\<close>

lemma thread_step_refines:
  assumes ok: "world_ok cfg w" and step: "thread_step cfg t now w = Some w'"
  shows "world_ok cfg w' \<and> (abstraction cfg w' = abstraction cfg w \<or> spec_step (abstraction cfg w) [] (abstraction cfg w'))"
proof -
  from thread_step_ok [OF assms] have tr: "transition cfg t w w'" and sim: "simulated cfg t w w'" by auto
  note abs = transition_abstraction [OF ok tr]
  have parts: "sp_store (abstraction cfg w) = store_at cfg (w_mem w) (w_current w)"
    "sp_pending (abstraction cfg w) t = pending_of cfg (w_mem w) (w_pc w t)" by (simp_all add: abstraction_def)
  from sim consider "store_at cfg (w_mem w') (w_current w') = sp_store (abstraction cfg w)"
      "pending_of cfg (w_mem w') (w_pc w' t) = sp_pending (abstraction cfg w) t"
    | "atomic_step (sp_store (abstraction cfg w)) (sp_pending (abstraction cfg w) t)
        (store_at cfg (w_mem w') (w_current w')) (pending_of cfg (w_mem w') (w_pc w' t))"
    by (auto simp: simulated_def parts Let_def)
  then have "abstraction cfg w' = abstraction cfg w \<or> spec_step (abstraction cfg w) [] (abstraction cfg w')"
    by cases (auto simp: abs intro: spec_effect)
  then show ?thesis using transition_keeps [OF ok tr] by auto
qed

lemma world_step_ok:
  assumes ok: "world_ok cfg w" and step: "world_step cfg a w = Some (es, w')"
  shows "world_ok cfg w' \<and> (es = [] \<and> abstraction cfg w' = abstraction cfg w \<or> spec_step (abstraction cfg w) es (abstraction cfg w'))"
proof (cases a)
  case (Do_Call t c)
  then have l: "w_pc w t = Idle" and w': "w' = goto t (entry c) w" and es: "es = [Invoke t c]" using step by (auto split: if_splits)
  have "pending_of cfg (w_mem w) (entry c) = Called c" by (cases c) auto
  then have "abstraction cfg w' = (abstraction cfg w)\<lparr> sp_pending := (sp_pending (abstraction cfg w))(t := Called c) \<rparr>"
    by (auto simp: abstraction_def w')
  moreover have "sp_pending (abstraction cfg w) t = Ready" using l by (simp add: abstraction_def)
  ultimately have "spec_step (abstraction cfg w) es (abstraction cfg w')" unfolding es by (simp add: spec_call)
  then show ?thesis using transition_keeps [OF ok call_ok [OF ok l, of c]] w' by simp
next
  case (Do_Step t now)
  then show ?thesis using thread_step_refines [OF ok] step by auto
next
  case (Do_Return t)
  obtain r where r: "pending_of cfg (w_mem w) (w_pc w t) = Finished r" "es = [Respond t r]"
    and w': "w_mem w' = w_mem w" "w_current w' = w_current w" "w_pc w' = (w_pc w)(t := Idle)" and "world_ok cfg w'"
    using Do_Return step transition_keeps [OF ok return_ok [OF ok, of t]] return_view_ok [OF ok]
    by (auto split: pc.splits)
  have "abstraction cfg w' = (abstraction cfg w)\<lparr> sp_pending := (sp_pending (abstraction cfg w))(t := Ready) \<rparr>"
    by (auto simp: abstraction_def w')
  moreover have "sp_pending (abstraction cfg w) t = Finished r" using r by (simp add: abstraction_def)
  ultimately have "spec_step (abstraction cfg w) es (abstraction cfg w')" unfolding r(2) by (simp add: spec_return)
  then show ?thesis using \<open>world_ok cfg w'\<close> by simp
next
  case (Do_Write a content)
  then have "a \<in> set (w_client w)" and "w' = on_mem (\<lambda>m. m\<lparr> m_statuses := (m_statuses m)[a := content] \<rparr>) w" and "es = []"
    using step by (auto split: if_splits)
  with client_write_ok [OF ok this(1,2)] show ?thesis by simp
qed

definition world_next :: "Store \<Rightarrow> world \<Rightarrow> world \<Rightarrow> bool" where
  "world_next cfg w w' \<longleftrightarrow> (\<exists>a es. world_step cfg a w = Some (es, w'))"

lemma initial_world_ok: "world_ok cfg initial_world"
  by (simp add: world_ok_def published_ok_def ownership_ok_def lock_ok_def initial_world_def)

interpretation cow: invariant_system "\<lambda>w. w = initial_world" "world_next cfg" "world_ok cfg" for cfg
  by unfold_locales (auto simp: world_next_def initial_world_ok dest: world_step_ok)

lemma spec_run_trans: "spec_run s' fs s'' \<Longrightarrow> spec_run s es s' \<Longrightarrow> spec_run s (es @ fs) s''"
  by (induction rule: spec_run.induct) (auto intro: spec_run.intros simp flip: append_assoc)

lemma execute_refines:
  assumes "execute_all cfg as w = Some (es, w')" and "world_ok cfg w"
  shows "spec_run (abstraction cfg w) es (abstraction cfg w') \<and> (world_next cfg)\<^sup>*\<^sup>* w w'"
  using assms
proof (induction as arbitrary: w es)
  case Nil
  then show ?case by (auto intro: spec_stop)
next
  case (Cons a as)
  then obtain fs gs v where step: "world_step cfg a w = Some (fs, v)" and rest: "execute_all cfg as v = Some (gs, w')" and es: "es = fs @ gs"
    by (auto split: option.splits)
  note ok = world_step_ok [OF Cons.prems(2) step]
  have "spec_run (abstraction cfg w) fs (abstraction cfg v)"
    using ok spec_more [OF spec_stop] by (fastforce intro: spec_stop)
  moreover have "world_next cfg w v" using step by (auto simp: world_next_def)
  ultimately show ?case using Cons.IH [OF rest] ok es by (auto intro: spec_run_trans converse_rtranclp_into_rtranclp)
qed

lemma initial_abstraction: "abstraction cfg initial_world = initial_spec cfg"
  by (auto simp: abstraction_def initial_spec_def initial_world_def store_at_def empty_state_def parts_at_def statuses_at_def)

section \<open>Data races and waiting\<close>

text \<open>The maps the next step of a goroutine writes, and those it reads or writes.\<close>

datatype cell = Parts_Map nat | Statuses_Map nat

fun writes :: "pc \<Rightarrow> cell set" where
  "writes (Publish_CloneParts _ _ _ p _) = {Parts_Map p}"
| "writes (Publish_CloneStatuses _ _ _ _ s _) = {Statuses_Map s}"
| "writes (Publish_Put _ _ _ p _) = {Parts_Map p}"
| "writes (Publish_Stamp _ _ _ _ s _) = {Statuses_Map s}"
| "writes (Publish_Series _ _ _ _ s _ _ _) = {Statuses_Map s}"
| "writes (Failure_Clone _ _ s _) = {Statuses_Map s}"
| "writes (Failure_Mark _ _ s) = {Statuses_Map s}"
| "writes (Load_Range _ _ s _) = {Statuses_Map s}"
| "writes _ = {}"

fun touches :: "mem \<Rightarrow> pc \<Rightarrow> cell set" where
  "touches m (Publish_CloneParts _ _ cur p _) = {Parts_Map (so_parts (m_states m ! cur)), Parts_Map p}"
| "touches m (Publish_CloneStatuses _ _ cur _ s _) = {Statuses_Map (so_statuses (m_states m ! cur)), Statuses_Map s}"
| "touches m (Publish_Put _ _ _ p _) = {Parts_Map p}"
| "touches m (Publish_Merge _ _ _ p _) = {Parts_Map p}"
| "touches m (Publish_Stamp _ _ _ _ s _) = {Statuses_Map s}"
| "touches m (Publish_Series _ _ _ p s _ _ _) = {Parts_Map p, Statuses_Map s}"
| "touches m (Failure_Clone _ cur s _) = {Statuses_Map (so_statuses (m_states m ! cur)), Statuses_Map s}"
| "touches m (Failure_Mark _ _ s) = {Statuses_Map s}"
| "touches m (Load_Range cur _ s _) = {Statuses_Map (so_statuses (m_states m ! cur)), Statuses_Map s}"
| "touches m (Return_View _ s) = {Statuses_Map s}"
| "touches m _ = {}"

definition cell_content :: "mem \<Rightarrow> cell \<Rightarrow> (CollectorID, Snapshot) gomap + (CollectorID, CollectorStatus) gomap" where
  "cell_content m c = (case c of Parts_Map a \<Rightarrow> Inl (m_parts m ! a) | Statuses_Map a \<Rightarrow> Inr (m_statuses m ! a))"

definition allocated :: "mem \<Rightarrow> cell set" where
  "allocated m = Parts_Map ` {..< length (m_parts m)} \<union> Statuses_Map ` {..< length (m_statuses m)}"

lemma cells_apart:
  "A \<inter> C = {} \<Longrightarrow> B \<inter> D = {} \<Longrightarrow>
   X \<subseteq> Parts_Map ` A \<union> Statuses_Map ` B \<Longrightarrow> Y \<subseteq> Parts_Map ` C \<union> Statuses_Map ` D \<Longrightarrow> X \<inter> Y = {}"
  by blast

lemma writes_own: "writes l \<subseteq> Parts_Map ` own_parts l \<union> Statuses_Map ` own_statuses l"
  by (cases l) auto

lemma touches_own:
  assumes "progress_ok cfg m ptr l" and "ptr < length (m_states m)"
  shows "touches m l \<subseteq> Parts_Map ` (own_parts l \<union> so_parts ` set (m_states m)) \<union>
    Statuses_Map ` (own_statuses l \<union> so_statuses ` set (m_states m))"
  using assms by (cases l) auto

lemma step_changes:
  assumes "thread_step cfg t now w = Some w'" and "c \<in> allocated (w_mem w)" and "c \<notin> writes (w_pc w t)"
  shows "cell_content (w_mem w') c = cell_content (w_mem w) c"
  using assms
  by (cases c; cases "w_pc w t")
    (auto simp: allocated_def cell_content_def mem_simps put_part_def put_status_def Let_def nth_append
      split: if_splits prod.splits option.splits)

text \<open>What is left of a \<open>Load\<close> after it read the pointer.\<close>

fun reader_rank :: "mem \<Rightarrow> pc \<Rightarrow> nat option" where
  "reader_rank m (Load_Clock cur) = Some (length (statuses_at m cur) + 2)"
| "reader_rank m (Load_Range cur _ _ i) = Some (length (statuses_at m cur) - i + 1)"
| "reader_rank m (Return_View _ _) = Some 0"
| "reader_rank m _ = None"

fun own_step :: "nat \<Rightarrow> action \<Rightarrow> bool" where
  "own_step t (Do_Step u _) \<longleftrightarrow> u = t"
| "own_step t _ = False"

lemma rank_pending:
  assumes "pending_of cfg m' l = pending_of cfg m l"
  shows "reader_rank m' l = reader_rank m l"
proof -
  have "statuses_at m' cur = statuses_at m cur" if "store_at cfg m' cur = store_at cfg m cur" for cur
    using arg_cong [OF that, of "\<lambda>s. statuses (current s)"] by (simp add: store_at_def)
  with assms show ?thesis by (cases l) auto
qed

lemma rank_own_step:
  assumes ok: "world_ok cfg w" and rank: "reader_rank (w_mem w) (w_pc w t) = Some n"
  shows "n = 0 \<and> thread_step cfg t now w = None \<or>
    (\<exists>w' k. thread_step cfg t now w = Some w' \<and> reader_rank (w_mem w') (w_pc w' t) = Some k \<and> n = Suc k)"
proof (cases "w_pc w t")
  case (Load_Clock cur)
  have fr: "frame (own_parts (w_pc w t)) (own_statuses (w_pc w t)) (w_mem w) (new_statuses (w_mem w))" by simp
  have "cur < length (m_states (w_mem w))" using world_ok_here(2) [OF ok, of t] Load_Clock by simp
  then show ?thesis using rank Load_Clock own_frame_at(2) [OF ok fr] by simp
next
  case (Load_Range cur stamp s i)
  have fr: "frame (own_parts (w_pc w t)) (own_statuses (w_pc w t)) (w_mem w) (put_status s kv (w_mem w))" for kv
    using Load_Range by simp
  have "cur < length (m_states (w_mem w))" using world_ok_here(2) [OF ok, of t] Load_Range by simp
  then show ?thesis using rank Load_Range own_frame_at(2) [OF ok fr] by (auto simp: Let_def split: prod.split)
qed (use rank in auto)

declare thread_step.simps [simp del]

lemma rank_step:
  assumes ok: "world_ok cfg w" and step: "world_step cfg a w = Some (es, w')" and "a \<noteq> Do_Return t"
    and rank: "reader_rank (w_mem w) (w_pc w t) = Some n"
  shows "\<exists>k. reader_rank (w_mem w') (w_pc w' t) = Some k \<and> n = k + (if own_step t a then 1 else 0)"
proof (cases "own_step t a")
  case True
  then obtain now where "thread_step cfg t now w = Some w'" using step by (cases a) auto
  then show ?thesis using rank_own_step [OF ok rank, of now] True by auto
next
  case False
  have "pending_of cfg (w_mem w') (w_pc w' t) = pending_of cfg (w_mem w) (w_pc w t) \<and> w_pc w' t = w_pc w t"
  proof (cases a)
    case (Do_Call u c)
    then show ?thesis using step rank by (auto split: if_splits)
  next
    case (Do_Step u now)
    then have "transition cfg u w w'" "u \<noteq> t" using step thread_step_ok [OF ok] False by auto
    then show ?thesis using transition_other(2) [OF ok, of u w' t] by (auto simp: transition_def Let_def)
  next
    case (Do_Return u)
    then show ?thesis using step \<open>a \<noteq> Do_Return t\<close> by (auto split: pc.splits)
  next
    case (Do_Write b content)
    then have wr: "b \<in> set (w_client w)" "w' = on_mem (\<lambda>m. m\<lparr> m_statuses := (m_statuses m)[b := content] \<rparr>) w"
      using step by (auto split: if_splits)
    then show ?thesis using fun_cong [OF arg_cong [OF client_write_ok(2) [OF ok wr], of sp_pending], of t]
      by (simp add: abstraction_def)
  qed
  then show ?thesis using rank_pending [of cfg "w_mem w'" "w_pc w t" "w_mem w"] rank False by auto
qed

lemma rank_run:
  assumes "execute_all cfg as w = Some (es, w')" and "world_ok cfg w" and "Do_Return t \<notin> set as"
    and "reader_rank (w_mem w) (w_pc w t) = Some n"
  shows "world_ok cfg w' \<and>
    (\<exists>k. reader_rank (w_mem w') (w_pc w' t) = Some k \<and> n = k + length (filter (own_step t) as))"
  using assms
proof (induction as arbitrary: w es n)
  case Nil
  then show ?case by simp
next
  case (Cons a as)
  then obtain fs gs v where step: "world_step cfg a w = Some (fs, v)" and rest: "execute_all cfg as v = Some (gs, w')"
    by (auto split: option.splits)
  from rank_step [OF Cons.prems(2) step _ Cons.prems(4)] Cons.prems(3)
  obtain k where "reader_rank (w_mem v) (w_pc v t) = Some k" "n = k + (if own_step t a then 1 else 0)" by auto
  with Cons.IH [OF rest _ _ this(1)] world_step_ok [OF Cons.prems(2) step] Cons.prems(3) show ?case by auto
qed

lemma executed_ok: "execute_all cfg as initial_world = Some (es, w) \<Longrightarrow> world_ok cfg w"
  using execute_refines [OF _ initial_world_ok] cow.step_chain_inv [OF _ initial_world_ok] by blast

section \<open>Properties\<close>

text \<open>
  C2. The cache is linearizable. In every interleaving of any number of goroutines, at the grain of
  single map entries, with callers that overwrite the status maps they were handed, the calls and
  answers are those of a store whose operations \<open>Publish\<close>, \<open>RecordFailure\<close>, \<open>Snapshot\<close> and
  \<open>Load\<close> each take effect at one instant between call and answer.
\<close>

theorem store_linearizable:
  assumes "execute_all cfg as initial_world = Some (es, w)"
  shows "spec_run (initial_spec cfg) es (abstraction cfg w)"
  using execute_refines [OF assms initial_world_ok] by (simp add: initial_abstraction)

text \<open>
  C13. The cache is free of data races. In every reachable situation the map a goroutine is about to
  write is neither read nor written by the next step of another goroutine, is not part of a published
  state, and was not handed to a caller; and a step changes no map but the one it is about to write.
\<close>

theorem store_race_free:
  assumes "execute_all cfg as initial_world = Some (es, w)"
  shows "(t \<noteq> u \<longrightarrow> writes (w_pc w t) \<inter> touches (w_mem w) (w_pc w u) = {}) \<and>
    writes (w_pc w t) \<inter> (Parts_Map ` so_parts ` set (m_states (w_mem w)) \<union> Statuses_Map ` so_statuses ` set (m_states (w_mem w))
      \<union> Statuses_Map ` set (w_client w)) = {} \<and>
    (thread_step cfg t now w = Some w' \<longrightarrow> c \<in> allocated (w_mem w) \<longrightarrow> c \<notin> writes (w_pc w t) \<longrightarrow>
      cell_content (w_mem w') c = cell_content (w_mem w) c)"
proof -
  have ok: "world_ok cfg w" using assms by (rule executed_ok)
  have own: "own_parts (w_pc w t) \<inter> so_parts ` set (m_states (w_mem w)) = {}"
    "own_statuses (w_pc w t) \<inter> (so_statuses ` set (m_states (w_mem w)) \<union> set (w_client w)) = {}"
    using ok world_ok_own(3) [OF ok] by (auto simp: world_ok_def published_ok_def)
  then have "writes (w_pc w t) \<inter> (Parts_Map ` so_parts ` set (m_states (w_mem w)) \<union> Statuses_Map ` so_statuses ` set (m_states (w_mem w))
      \<union> Statuses_Map ` set (w_client w)) = {}"
    by (rule cells_apart [OF _ _ writes_own]) auto
  moreover have "writes (w_pc w t) \<inter> touches (w_mem w) (w_pc w u) = {}" if "t \<noteq> u"
    by (rule cells_apart [OF _ _ writes_own touches_own [OF world_ok_here(2,1) [OF ok]]])
      (use own world_ok_other [OF ok that] in auto)
  ultimately show ?thesis using step_changes [of cfg t now w w' c] by simp
qed

text \<open>
  C20. Readers never wait. Once \<open>Load\<close> has read the pointer it answers after exactly as many steps of
  its own as the state has collectors, and two more, whatever the other goroutines do meanwhile, and
  each of these steps is enabled, also while a writer holds the mutex.
\<close>

theorem load_wait_free:
  assumes "execute_all cfg as initial_world = Some (es, w)" and "w_pc w t = Load_Clock cur"
    and "execute_all cfg bs w = Some (fs, w')" and "Do_Return t \<notin> set bs"
  defines "n \<equiv> length (statuses_at (w_mem w) cur) + 2"
  shows "length (filter (own_step t) bs) \<le> n \<and>
    (if length (filter (own_step t) bs) = n then \<exists>snap s. w_pc w' t = Return_View snap s
     else thread_step cfg t now w' \<noteq> None)"
proof -
  have "reader_rank (w_mem w) (w_pc w t) = Some n" using assms(2) by (simp add: n_def)
  from rank_run [OF assms(3) executed_ok [OF assms(1)] assms(4) this]
  obtain k where ok: "world_ok cfg w'" and k: "reader_rank (w_mem w') (w_pc w' t) = Some k" "n = k + length (filter (own_step t) bs)" by auto
  have "\<exists>snap s. w_pc w' t = Return_View snap s" if "k = 0" using k(1) that by (cases "w_pc w' t") auto
  moreover have "thread_step cfg t now w' \<noteq> None" if "k \<noteq> 0" using rank_own_step [OF ok k(1), of now] that by auto
  ultimately show ?thesis using k(2) by auto
qed

section \<open>A concrete interleaving\<close>

text \<open>
  A publication, then a failure and a \<open>Load\<close> side by side: the reader takes the pointer while the
  writer holds the mutex and ranges over the old map while the writer fills its clone.
\<close>

definition sample_cfg :: Store where
  "sample_cfg = \<lparr> freshnessTTL = 10, staleAfter = 20, organizationPolicies = [], current = empty_state \<rparr>"

definition sample_before :: "action list" where
  "sample_before = Do_Call 1 (CallPublish (sample_id ''x'') (New [] [] [] [sample_account ''1''])) # replicate 12 (Do_Step 1 5) @
     [Do_Return 1, Do_Call 2 CallLoad, Do_Call 3 (CallRecordFailure (sample_id ''x'')), Do_Step 3 6, Do_Step 3 6, Do_Step 2 7]"

definition sample_during :: "action list" where
  "sample_during = [Do_Step 3 6, Do_Step 2 8, Do_Step 3 6, Do_Step 2 8, Do_Step 3 6, Do_Step 3 6, Do_Step 3 6, Do_Step 2 8]"

definition sample_after :: "action list" where
  "sample_after = [Do_Return 2, Do_Write 3 [], Do_Step 3 6, Do_Return 3]"

definition sample_answers :: "event list \<Rightarrow> bool" where
  "sample_answers es = (case es of
     [Respond t (Viewed v), Respond u (Outcome None)] \<Rightarrow> t = 2 \<and> u = 3 \<and> map (Up \<circ> snd) (v_Collectors v) = [True] | _ \<Rightarrow> False)"

lemma sample_executions:
  "case execute_all sample_cfg sample_before initial_world of
     None \<Rightarrow> False
   | Some (es, w) \<Rightarrow> w_pc w 2 = Load_Clock 1 \<and> length (statuses_at (w_mem w) 1) = 1 \<and>
       (case execute_all sample_cfg (take 3 sample_during) w of
          None \<Rightarrow> False
        | Some (_, w) \<Rightarrow> w_pc w 2 = Load_Range 1 8 3 0 \<and> w_pc w 3 = Failure_Clone (sample_id ''x'') 1 2 1) \<and>
       (case execute_all sample_cfg sample_during w of
          None \<Rightarrow> False
        | Some (_, w) \<Rightarrow>
            (case execute_all sample_cfg sample_after w of None \<Rightarrow> False | Some (es, _) \<Rightarrow> sample_answers es))"
  by code_simp

lemma sample_states:
  obtains es w where "execute_all sample_cfg sample_before initial_world = Some (es, w)" and "w_pc w 2 = Load_Clock 1"
    and "length (statuses_at (w_mem w) 1) = 1"
    and "\<exists>fs v. execute_all sample_cfg (take 3 sample_during) w = Some (fs, v) \<and> w_pc v 2 = Load_Range 1 8 3 0 \<and>
      w_pc v 3 = Failure_Clone (sample_id ''x'') 1 2 1"
    and "\<exists>fs v gs u. execute_all sample_cfg sample_during w = Some (fs, v) \<and> execute_all sample_cfg sample_after v = Some (gs, u) \<and>
      sample_answers gs"
proof -
  obtain es w where w: "execute_all sample_cfg sample_before initial_world = Some (es, w)"
    using sample_executions by (cases "execute_all sample_cfg sample_before initial_world") auto
  note all = sample_executions [unfolded w, simplified]
  show thesis
  proof (rule that [OF w])
    show "w_pc w 2 = Load_Clock 1" and "length (statuses_at (w_mem w) 1) = 1" using all by simp_all
    show "\<exists>fs v. execute_all sample_cfg (take 3 sample_during) w = Some (fs, v) \<and> w_pc v 2 = Load_Range 1 8 3 0 \<and>
      w_pc v 3 = Failure_Clone (sample_id ''x'') 1 2 1"
      using all by (cases "execute_all sample_cfg (take 3 sample_during) w") auto
    show "\<exists>fs v gs u. execute_all sample_cfg sample_during w = Some (fs, v) \<and> execute_all sample_cfg sample_after v = Some (gs, u) \<and>
      sample_answers gs"
      using all by (cases "execute_all sample_cfg sample_during w") (auto split: option.splits)
  qed
qed

lemma execute_append:
  "execute_all cfg (as @ bs) w =
     (case execute_all cfg as w of
        None \<Rightarrow> None | Some (es, v) \<Rightarrow> map_option (apfst (append es)) (execute_all cfg bs v))"
  by (induction as arbitrary: w)
    (auto split: option.splits simp: option.map_comp comp_def apfst_def map_prod_def case_prod_unfold option.map_ident)

theorem store_linearizable_witness:
  "\<exists>es gs w. execute_all sample_cfg (sample_before @ sample_during @ sample_after) initial_world = Some (es @ gs, w) \<and>
     sample_answers gs \<and> spec_run (initial_spec sample_cfg) (es @ gs) (abstraction sample_cfg w)"
proof -
  obtain es w fs v gs u where "execute_all sample_cfg sample_before initial_world = Some (es, w)"
    "execute_all sample_cfg sample_during w = Some (fs, v)" "execute_all sample_cfg sample_after v = Some (gs, u)" "sample_answers gs"
    by (rule sample_states) blast
  then have "execute_all sample_cfg (sample_before @ sample_during @ sample_after) initial_world = Some ((es @ fs) @ gs, u)"
    by (simp add: execute_append)
  with store_linearizable [OF this] \<open>sample_answers gs\<close> show ?thesis by blast
qed

theorem store_race_free_witness:
  "\<exists>es w. execute_all sample_cfg (sample_before @ take 3 sample_during) initial_world = Some (es, w) \<and>
     writes (w_pc w 3) = {Statuses_Map 2} \<and> Statuses_Map 2 \<notin> touches (w_mem w) (w_pc w 2) \<and> w_pc w 2 = Load_Range 1 8 3 0"
proof -
  obtain es w fs v where run: "execute_all sample_cfg sample_before initial_world = Some (es, w)"
    "execute_all sample_cfg (take 3 sample_during) w = Some (fs, v)"
    and pc: "w_pc v 2 = Load_Range 1 8 3 0" "w_pc v 3 = Failure_Clone (sample_id ''x'') 1 2 1"
    by (rule sample_states) blast
  have all: "execute_all sample_cfg (sample_before @ take 3 sample_during) initial_world = Some (es @ fs, v)"
    using run by (simp add: execute_append)
  have "writes (w_pc v 3) = {Statuses_Map 2}" using pc by simp
  with store_race_free [OF all, of 3 2] all pc(1) show ?thesis by auto
qed

theorem load_wait_free_witness:
  "\<exists>es w fs v. execute_all sample_cfg sample_before initial_world = Some (es, w) \<and>
     execute_all sample_cfg sample_during w = Some (fs, v) \<and> (\<exists>snap s. w_pc v 2 = Return_View snap s)"
proof -
  obtain es w fs v where run: "execute_all sample_cfg sample_before initial_world = Some (es, w)"
    "w_pc w 2 = Load_Clock 1" "length (statuses_at (w_mem w) 1) = 1" "execute_all sample_cfg sample_during w = Some (fs, v)"
    by (rule sample_states) blast
  from load_wait_free [OF run(1,2,4)] run show ?thesis by (simp add: sample_during_def)
qed

end
