(* ===== verification/Go_Slices.thy ===== *)
theory Go_Slices
  imports Prelude
begin

text \<open>
  Slices of the language as references: a slice points into a backing array that other slices
  may share, so that a write or an \<open>append\<close> with spare capacity is visible through all of
  them. The lists of the other theories are the contents of slices; this theory provides what
  is needed to justify that reading where the code promises isolated copies.
\<close>

section \<open>Operations\<close>

text \<open>Arrays are numbered in the order of their allocation. A slice is nil or an array, an offset and a length.\<close>

type_synonym 'a arrays = "'a list list"

datatype slice = Nil_Slice | Slice nat nat nat

fun elems :: "'a arrays \<Rightarrow> slice \<Rightarrow> 'a list" where
  "elems h Nil_Slice = []"
| "elems h (Slice a off n) = take n (drop off (h ! a))"

fun array_of :: "slice \<Rightarrow> nat set" where
  "array_of Nil_Slice = {}"
| "array_of (Slice a _ _) = {a}"

fun valid_slice :: "'a arrays \<Rightarrow> slice \<Rightarrow> bool" where
  "valid_slice h Nil_Slice = True"
| "valid_slice h (Slice a off n) \<longleftrightarrow> a < length h \<and> off + n \<le> length (h ! a)"

text \<open>Writing a run of cells at a position of a list.\<close>

definition overwrite :: "nat \<Rightarrow> 'a list \<Rightarrow> 'a list \<Rightarrow> 'a list" where
  "overwrite i xs ys = take i ys @ xs @ drop (i + length xs) ys"

text \<open>
  \<open>append(s, xs...)\<close>: in place when the capacity suffices, otherwise into a new array. How many
  spare cells a new array gets, and that they hold zero values, is the argument \<open>spare\<close>.
\<close>

definition fresh_array :: "(nat \<Rightarrow> 'a list) \<Rightarrow> 'a arrays \<Rightarrow> 'a list \<Rightarrow> 'a arrays \<times> slice" where
  "fresh_array spare h xs = (h @ [xs @ spare (length xs)], Slice (length h) 0 (length xs))"

fun go_append :: "(nat \<Rightarrow> 'a list) \<Rightarrow> 'a arrays \<Rightarrow> slice \<Rightarrow> 'a list \<Rightarrow> 'a arrays \<times> slice" where
  "go_append spare h s [] = (h, s)"
| "go_append spare h Nil_Slice xs = fresh_array spare h xs"
| "go_append spare h (Slice a off n) xs =
     (if off + n + length xs \<le> length (h ! a)
      then (h[a := overwrite (off + n) xs (h ! a)], Slice a off (n + length xs))
      else fresh_array spare h (elems h (Slice a off n) @ xs))"

text \<open>\<open>append([]T(nil), s...)\<close>, the idiom for an isolated copy.\<close>

definition copy_slice :: "(nat \<Rightarrow> 'a list) \<Rightarrow> 'a arrays \<Rightarrow> slice \<Rightarrow> 'a arrays \<times> slice" where
  "copy_slice spare h s = go_append spare h Nil_Slice (elems h s)"

text \<open>Rearranging the elements of a slice in place.\<close>

fun permute_slice :: "('a list \<Rightarrow> 'a list) \<Rightarrow> 'a arrays \<Rightarrow> slice \<Rightarrow> 'a arrays" where
  "permute_slice f h Nil_Slice = h"
| "permute_slice f h (Slice a off n) = h[a := overwrite off (f (elems h (Slice a off n))) (h ! a)]"

text \<open>
  \<open>for _, item := range s\<close>: the header is evaluated once, each element is read when its round
  begins, and the body may change the arrays.
\<close>

fun range_from :: "nat \<Rightarrow> nat \<Rightarrow> nat \<Rightarrow> ('a \<Rightarrow> 'a arrays \<times> 's \<Rightarrow> 'a arrays \<times> 's) \<Rightarrow> 'a arrays \<times> 's \<Rightarrow> 'a arrays \<times> 's" where
  "range_from a i 0 body st = st"
| "range_from a i (Suc n) body st = range_from a (Suc i) n body (body (fst st ! a ! i) st)"

fun range_slice :: "slice \<Rightarrow> ('a \<Rightarrow> 'a arrays \<times> 's \<Rightarrow> 'a arrays \<times> 's) \<Rightarrow> 'a arrays \<times> 's \<Rightarrow> 'a arrays \<times> 's" where
  "range_slice Nil_Slice body st = st"
| "range_slice (Slice a off n) body st = range_from a off n body st"

section \<open>Laws\<close>

lemma overwrite_facts:
  assumes "i + length xs \<le> length ys"
  shows "length (overwrite i xs ys) = length ys" and "take (length xs) (drop i (overwrite i xs ys)) = xs"
    and "take i (overwrite i xs ys) = take i ys"
  using assms by (simp_all add: overwrite_def)

text \<open>
  A step on the arrays that leaves everything outside the arrays \<open>A\<close> alone: arrays are never
  removed or resized.
\<close>

definition arrays_frame :: "nat set \<Rightarrow> 'a arrays \<Rightarrow> 'a arrays \<Rightarrow> bool" where
  "arrays_frame A h h' \<longleftrightarrow> length h \<le> length h' \<and>
     (\<forall>a < length h. length (h' ! a) = length (h ! a) \<and> (a \<notin> A \<longrightarrow> h' ! a = h ! a))"

lemma frame_refl [simp]: "arrays_frame A h h"
  by (simp add: arrays_frame_def)

lemma frame_trans: "arrays_frame A h h' \<Longrightarrow> arrays_frame B h' h'' \<Longrightarrow> A \<inter> {..< length h} \<subseteq> C \<Longrightarrow> B \<inter> {..< length h} \<subseteq> C \<Longrightarrow> arrays_frame C h h''"
  unfolding arrays_frame_def by (metis (no_types, lifting) IntI lessThan_iff order.strict_trans2 order_trans subsetD)

lemma frame_elems: "arrays_frame A h h' \<Longrightarrow> valid_slice h s \<Longrightarrow> array_of s \<inter> A = {} \<Longrightarrow> elems h' s = elems h s"
  by (cases s) (auto simp: arrays_frame_def)

lemma frame_valid: "arrays_frame A h h' \<Longrightarrow> valid_slice h s \<Longrightarrow> valid_slice h' s"
  by (cases s) (auto simp: arrays_frame_def)

lemma frame_fresh: "arrays_frame A h (h @ hs)"
  by (simp add: arrays_frame_def nth_append)

lemma frame_update: "length xs = length (h ! a) \<Longrightarrow> arrays_frame {a} h (h[a := xs])"
  unfolding arrays_frame_def by (metis insertCI length_list_update nth_list_update nth_list_update_neq order_refl)

lemma valid_array: "valid_slice h s \<Longrightarrow> array_of s \<subseteq> {..< length h}"
  by (cases s) auto

lemma elems_length: "valid_slice h (Slice a off n) \<Longrightarrow> length (elems h (Slice a off n)) = n"
  by auto

lemma go_append_ok:
  assumes "go_append spare h s xs = (h', s')" and "valid_slice h s"
  shows "arrays_frame (array_of s) h h' \<and> valid_slice h' s' \<and> elems h' s' = elems h s @ xs \<and>
    array_of s' \<subseteq> array_of s \<union> {length h ..< length h'}"
  using assms
proof (induction spare h s xs rule: go_append.induct)
  case (3 spare h a off n x xs)
  let ?xs = "x # xs"
  show ?case
  proof (cases "off + n + length ?xs \<le> length (h ! a)")
    case True
    let ?new = "overwrite (off + n) ?xs (h ! a)"
    have s: "h' = h[a := ?new]" "s' = Slice a off (n + length ?xs)" using 3 True by auto
    have len: "length ?new = length (h ! a)" using True by (intro overwrite_facts) simp
    have "take (n + length ?xs) (drop off ?new) = take n (drop off (h ! a)) @ ?xs"
      using True 3 by (simp add: overwrite_def drop_take)
    then show ?thesis using 3 s len True frame_update [OF len] by simp
  next
    case False
    then show ?thesis using 3 by (auto simp: fresh_array_def frame_fresh nth_append)
  qed
qed (auto simp: fresh_array_def frame_fresh nth_append)

lemma copy_slice_ok:
  assumes "copy_slice spare h s = (h', s')"
  shows "arrays_frame {} h h' \<and> valid_slice h' s' \<and> elems h' s' = elems h s \<and> array_of s' \<subseteq> {length h ..< length h'}"
  using go_append_ok [of spare h Nil_Slice "elems h s" h' s'] assms by (simp add: copy_slice_def)

lemma permute_slice_ok:
  assumes "valid_slice h s" and "length (f (elems h s)) = length (elems h s)"
  shows "arrays_frame (array_of s) h (permute_slice f h s) \<and> elems (permute_slice f h s) s = f (elems h s) \<and>
    length (permute_slice f h s) = length h"
proof (cases s)
  case (Slice a off n)
  let ?ys = "f (elems h s)"
  have len: "length ?ys = n" and fits: "off + length ?ys \<le> length (h ! a)" using assms Slice by auto
  show ?thesis
    using frame_update [OF overwrite_facts(1) [OF fits]] overwrite_facts(2) [OF fits] assms Slice len by simp
qed (use assms in simp)

text \<open>Ranging with a body that leaves the array alone visits the elements in order.\<close>

lemma range_from_foldl:
  assumes "i + n \<le> length (h ! a)" and "I st"
    and "\<And>st. I st \<Longrightarrow> fst st ! a = h ! a" and "\<And>x st. I st \<Longrightarrow> I (body x st)"
  shows "range_from a i n body st = foldl (\<lambda>st x. body x st) st (take n (drop i (h ! a)))"
  using assms(1,2)
proof (induction n arbitrary: i st)
  case (Suc n)
  have "range_from a (Suc i) n body (body (h ! a ! i) st) =
    foldl (\<lambda>st x. body x st) (body (h ! a ! i) st) (take n (drop (Suc i) (h ! a)))"
    using Suc.IH [of "Suc i" "body (h ! a ! i) st"] Suc.prems assms(4) by simp
  then show ?case using Suc.prems assms(3) by (simp add: Cons_nth_drop_Suc [symmetric])
qed simp

text \<open>
  Appending the elements of one slice to another, one by one, from inside a range loop: the
  target lives in arrays from \<open>N\<close> on, the source below.
\<close>

definition append_visitor :: "(nat \<Rightarrow> 'a list) \<Rightarrow> 'a \<Rightarrow> 'a arrays \<times> slice \<Rightarrow> 'a arrays \<times> slice" where
  "append_visitor spare v st = go_append spare (fst st) (snd st) [v]"

definition gathered :: "nat \<Rightarrow> 'a arrays \<Rightarrow> 'a arrays \<times> slice \<Rightarrow> bool" where
  "gathered N h st \<longleftrightarrow> arrays_frame {N ..} h (fst st) \<and> valid_slice (fst st) (snd st) \<and> array_of (snd st) \<subseteq> {N ..}"

lemma append_visitor_gathered:
  assumes "gathered N h st" and "N \<le> length h"
  shows "gathered N h (append_visitor spare v st) \<and>
    elems (fst (append_visitor spare v st)) (snd (append_visitor spare v st)) = elems (fst st) (snd st) @ [v]"
proof -
  obtain h' s' where st': "append_visitor spare v st = (h', s')" by fastforce
  from go_append_ok [OF this [unfolded append_visitor_def]] assms
  have new: "arrays_frame (array_of (snd st)) (fst st) h'" "valid_slice h' s'" "elems h' s' = elems (fst st) (snd st) @ [v]"
    "array_of s' \<subseteq> array_of (snd st) \<union> {length (fst st) ..< length h'}" by (auto simp: gathered_def)
  have "length h \<le> length (fst st)" using assms(1) by (simp add: gathered_def arrays_frame_def)
  then have "array_of s' \<subseteq> {N ..}" using new(4) assms by (fastforce simp: gathered_def)
  moreover have "arrays_frame {N ..} h h'"
    using frame_trans [OF _ new(1), of "{N ..}" h "{N ..}"] assms(1) by (auto simp: gathered_def)
  ultimately show ?thesis using new st' by (simp add: gathered_def)
qed

lemma append_visitors_gathered:
  assumes "gathered N h st" and "N \<le> length h"
  shows "gathered N h (foldl (\<lambda>st v. append_visitor spare v st) st xs) \<and>
    (case foldl (\<lambda>st v. append_visitor spare v st) st xs of (h', s') \<Rightarrow> elems h' s' = elems (fst st) (snd st) @ xs)"
  using assms
proof (induction xs arbitrary: st)
  case (Cons x xs)
  then show ?case using Cons.IH [of "append_visitor spare x st"] append_visitor_gathered [OF Cons.prems, of spare x] by auto
qed (simp add: case_prod_unfold)

lemma range_append:
  assumes "gathered N h st" and "N \<le> length h" and "valid_slice h s" and "array_of s \<subseteq> {..< N}"
    and "range_slice s (append_visitor spare) st = (h', s')"
  shows "gathered N h (h', s') \<and> elems h' s' = elems (fst st) (snd st) @ elems h s"
proof (cases s)
  case (Slice a off n)
  have "range_from a off n (append_visitor spare) st = foldl (\<lambda>st v. append_visitor spare v st) st (take n (drop off (h ! a)))"
  proof (rule range_from_foldl [where I = "gathered N h"])
    fix st' assume "gathered N h st'"
    then show "fst st' ! a = h ! a" using assms(2,4) Slice by (auto simp: gathered_def arrays_frame_def)
  qed (use assms Slice in \<open>auto intro: append_visitor_gathered [THEN conjunct1]\<close>)
  then show ?thesis using append_visitors_gathered [OF assms(1,2), of spare "elems h s"] assms(5) Slice by simp
qed (use assms in auto)

end
