(* ===== verification/Snapshot_Heap.thy ===== *)
theory Snapshot_Heap
  imports Aggregate_Snapshot Go_Slices
begin

text \<open>
  Package \<open>internal/domain/snapshot\<close> at the level of slices: the documentation promises that a
  snapshot is immutable, that its accessors return isolated copies and that \<open>Merge\<close> does not
  mutate the storage of its parts. Here a snapshot holds references, callers keep the slices they
  passed in and those they were handed out, and write, append to and reslice them at will. The
  theory shows that the contents of every snapshot stay what \<open>NewWithData\<close> and \<open>Merge\<close> of
  \<open>Aggregate_Snapshot\<close> say of the contents at the time of the call, which is why the rest of the
  development treats snapshots as values.
\<close>

section \<open>Memory\<close>

text \<open>
  The arrays of one element type, the slices callers hold, and the cells \<open>append\<close> adds to a new
  array beyond the elements. Record values contain no references, so copying an element copies all.
\<close>

record 'a region =
  rg_spare :: "nat \<Rightarrow> 'a list"
  rg_arrays :: "'a arrays"
  rg_held :: "slice list"

record snapshot_ref =
  sr_costs :: slice
  sr_forecasts :: slice
  sr_budgets :: slice
  sr_accounts :: slice
  sr_commitments :: slice
  sr_anomalies :: slice
  sr_tagCosts :: slice

record heap =
  h_costs :: "Cost region"
  h_forecasts :: "Forecast region"
  h_budgets :: "Budget region"
  h_accounts :: "Account region"
  h_commitments :: "Commitment region"
  h_anomalies :: "Anomaly region"
  h_tagCosts :: "TagCost region"
  h_snapshots :: "snapshot_ref list"

definition copy_in :: "'a region \<Rightarrow> slice \<Rightarrow> 'a region \<times> slice" where
  "copy_in r s = apfst (\<lambda>h. r\<lparr> rg_arrays := h \<rparr>) (copy_slice (rg_spare r) (rg_arrays r) s)"

definition sort_in :: "('a list \<Rightarrow> 'a list) \<Rightarrow> slice \<Rightarrow> 'a region \<Rightarrow> 'a region" where
  "sort_in f s r = r\<lparr> rg_arrays := permute_slice f (rg_arrays r) s \<rparr>"

section \<open>Construction\<close>

definition NewWithData_ref ::
  "slice \<Rightarrow> slice \<Rightarrow> slice \<Rightarrow> slice \<Rightarrow> slice \<Rightarrow> slice \<Rightarrow> slice \<Rightarrow> heap \<Rightarrow> heap \<times> snapshot_ref" where
  "NewWithData_ref cs fs bs acs cms ans ts h =
     (let (rc, c) = copy_in (h_costs h) cs; (rf, f) = copy_in (h_forecasts h) fs;
          (rb, b) = copy_in (h_budgets h) bs; (ra, a) = copy_in (h_accounts h) acs;
          (rm, m) = copy_in (h_commitments h) cms; (rn, n) = copy_in (h_anomalies h) ans;
          (rt, t) = copy_in (h_tagCosts h) ts
      in (h\<lparr> h_costs := sort_in (slice_stable snapshot_cost_less) c rc,
             h_forecasts := sort_in (slice_stable snapshot_forecast_less) f rf,
             h_budgets := sort_in Budget_Sort b rb, h_accounts := sort_in Account_Sort a ra,
             h_commitments := sort_in Commitment_Sort m rm, h_anomalies := sort_in Anomaly_Sort n rn,
             h_tagCosts := sort_in TagCost_Sort t rt \<rparr>,
          \<lparr> sr_costs = c, sr_forecasts = f, sr_budgets = b, sr_accounts = a, sr_commitments = m,
            sr_anomalies = n, sr_tagCosts = t \<rparr>))"

definition New_ref :: "slice \<Rightarrow> slice \<Rightarrow> slice \<Rightarrow> slice \<Rightarrow> heap \<Rightarrow> heap \<times> snapshot_ref" where
  "New_ref cs fs bs acs h =
     NewWithData_ref cs fs bs acs Nil_Slice Nil_Slice Nil_Slice h"

section \<open>Accessors\<close>

definition Snapshot_Costs :: "snapshot_ref \<Rightarrow> heap \<Rightarrow> heap \<times> slice" where
  "Snapshot_Costs v h = apfst (\<lambda>r. h\<lparr> h_costs := r \<rparr>) (copy_in (h_costs h) (sr_costs v))"

definition Snapshot_Forecasts :: "snapshot_ref \<Rightarrow> heap \<Rightarrow> heap \<times> slice" where
  "Snapshot_Forecasts v h = apfst (\<lambda>r. h\<lparr> h_forecasts := r \<rparr>) (copy_in (h_forecasts h) (sr_forecasts v))"

definition Snapshot_Budgets :: "snapshot_ref \<Rightarrow> heap \<Rightarrow> heap \<times> slice" where
  "Snapshot_Budgets v h = apfst (\<lambda>r. h\<lparr> h_budgets := r \<rparr>) (copy_in (h_budgets h) (sr_budgets v))"

definition Snapshot_Accounts :: "snapshot_ref \<Rightarrow> heap \<Rightarrow> heap \<times> slice" where
  "Snapshot_Accounts v h = apfst (\<lambda>r. h\<lparr> h_accounts := r \<rparr>) (copy_in (h_accounts h) (sr_accounts v))"

definition Snapshot_Commitments :: "snapshot_ref \<Rightarrow> heap \<Rightarrow> heap \<times> slice" where
  "Snapshot_Commitments v h = apfst (\<lambda>r. h\<lparr> h_commitments := r \<rparr>) (copy_in (h_commitments h) (sr_commitments v))"

definition Snapshot_Anomalies :: "snapshot_ref \<Rightarrow> heap \<Rightarrow> heap \<times> slice" where
  "Snapshot_Anomalies v h = apfst (\<lambda>r. h\<lparr> h_anomalies := r \<rparr>) (copy_in (h_anomalies h) (sr_anomalies v))"

definition Snapshot_TagCosts :: "snapshot_ref \<Rightarrow> heap \<Rightarrow> heap \<times> slice" where
  "Snapshot_TagCosts v h = apfst (\<lambda>r. h\<lparr> h_tagCosts := r \<rparr>) (copy_in (h_tagCosts h) (sr_tagCosts v))"

section \<open>Visitors and Merge\<close>

text \<open>A visitor is \<open>None\<close> for a nil function; it sees one element and may change the arrays.\<close>

type_synonym ('a, 's) visitor = "('a \<Rightarrow> 'a arrays \<times> 's \<Rightarrow> 'a arrays \<times> 's) option"

definition for_each :: "slice \<Rightarrow> ('a, 's) visitor \<Rightarrow> 'a arrays \<times> 's \<Rightarrow> 'a arrays \<times> 's" where
  "for_each s visit st = (case visit of None \<Rightarrow> st | Some f \<Rightarrow> range_slice s f st)"

definition ForEachCost :: "snapshot_ref \<Rightarrow> (Cost, 's) visitor \<Rightarrow> Cost arrays \<times> 's \<Rightarrow> Cost arrays \<times> 's" where
  "ForEachCost v visit st = for_each (sr_costs v) visit st"

definition ForEachForecast :: "snapshot_ref \<Rightarrow> (Forecast, 's) visitor \<Rightarrow> Forecast arrays \<times> 's \<Rightarrow> Forecast arrays \<times> 's" where
  "ForEachForecast v visit st = for_each (sr_forecasts v) visit st"

definition ForEachBudget :: "snapshot_ref \<Rightarrow> (Budget, 's) visitor \<Rightarrow> Budget arrays \<times> 's \<Rightarrow> Budget arrays \<times> 's" where
  "ForEachBudget v visit st = for_each (sr_budgets v) visit st"

definition ForEachAccount :: "snapshot_ref \<Rightarrow> (Account, 's) visitor \<Rightarrow> Account arrays \<times> 's \<Rightarrow> Account arrays \<times> 's" where
  "ForEachAccount v visit st = for_each (sr_accounts v) visit st"

definition ForEachCommitment :: "snapshot_ref \<Rightarrow> (Commitment, 's) visitor \<Rightarrow> Commitment arrays \<times> 's \<Rightarrow> Commitment arrays \<times> 's" where
  "ForEachCommitment v visit st = for_each (sr_commitments v) visit st"

definition ForEachAnomaly :: "snapshot_ref \<Rightarrow> (Anomaly, 's) visitor \<Rightarrow> Anomaly arrays \<times> 's \<Rightarrow> Anomaly arrays \<times> 's" where
  "ForEachAnomaly v visit st = for_each (sr_anomalies v) visit st"

definition ForEachTagCost :: "snapshot_ref \<Rightarrow> (TagCost, 's) visitor \<Rightarrow> TagCost arrays \<times> 's \<Rightarrow> TagCost arrays \<times> 's" where
  "ForEachTagCost v visit st = for_each (sr_tagCosts v) visit st"

text \<open>The closures of \<open>Merge\<close> append to its local slices, from inside the range loop of \<open>ForEach\<close>.\<close>

definition collect :: "(('a, slice) visitor \<Rightarrow> 'a arrays \<times> slice \<Rightarrow> 'a arrays \<times> slice) \<Rightarrow> 'a region \<times> slice \<Rightarrow> 'a region \<times> slice" where
  "collect each = (\<lambda>(r, acc).
     apfst (\<lambda>h. r\<lparr> rg_arrays := h \<rparr>) (each (Some (append_visitor (rg_spare r))) (rg_arrays r, acc)))"

definition merge_round :: "heap \<times> snapshot_ref \<Rightarrow> snapshot_ref \<Rightarrow> heap \<times> snapshot_ref" where
  "merge_round = (\<lambda>(h, acc) part.
     let (rc, c) = collect (ForEachCost part) (h_costs h, sr_costs acc);
         (rf, f) = collect (ForEachForecast part) (h_forecasts h, sr_forecasts acc);
         (rb, b) = collect (ForEachBudget part) (h_budgets h, sr_budgets acc);
         (ra, a) = collect (ForEachAccount part) (h_accounts h, sr_accounts acc);
         (rm, m) = collect (ForEachCommitment part) (h_commitments h, sr_commitments acc);
         (rn, n) = collect (ForEachAnomaly part) (h_anomalies h, sr_anomalies acc);
         (rt, t) = collect (ForEachTagCost part) (h_tagCosts h, sr_tagCosts acc)
     in (h\<lparr> h_costs := rc, h_forecasts := rf, h_budgets := rb, h_accounts := ra, h_commitments := rm,
            h_anomalies := rn, h_tagCosts := rt \<rparr>,
         \<lparr> sr_costs = c, sr_forecasts = f, sr_budgets = b, sr_accounts = a, sr_commitments = m,
           sr_anomalies = n, sr_tagCosts = t \<rparr>))"

definition nil_ref :: snapshot_ref where
  "nil_ref = \<lparr> sr_costs = Nil_Slice, sr_forecasts = Nil_Slice, sr_budgets = Nil_Slice, sr_accounts = Nil_Slice,
     sr_commitments = Nil_Slice, sr_anomalies = Nil_Slice, sr_tagCosts = Nil_Slice \<rparr>"

definition Merge_ref :: "snapshot_ref list \<Rightarrow> heap \<Rightarrow> heap \<times> snapshot_ref" where
  "Merge_ref parts h =
     (let (h, acc) = foldl merge_round (h, nil_ref) parts
      in NewWithData_ref (sr_costs acc) (sr_forecasts acc) (sr_budgets acc) (sr_accounts acc)
           (sr_commitments acc) (sr_anomalies acc) (sr_tagCosts acc) h)"

section \<open>Callers\<close>

text \<open>
  What a caller may do with the slices it holds: make one, write an element, append, reslice up to
  the capacity. A result is a further slice in its hands; indexing out of range panics (\<open>None\<close>).
\<close>

datatype 'a client_op = Make "'a list" | Write nat nat 'a | Append nat "'a list" | Reslice nat nat nat

definition hold :: "'a region \<Rightarrow> 'a arrays \<times> slice \<Rightarrow> 'a region" where
  "hold r = (\<lambda>(h, s). r\<lparr> rg_arrays := h, rg_held := rg_held r @ [s] \<rparr>)"

fun client_step :: "'a client_op \<Rightarrow> 'a region \<Rightarrow> 'a region option" where
  "client_step (Make xs) r = Some (hold r (fresh_array (rg_spare r) (rg_arrays r) xs))"
| "client_step (Write k i x) r =
     (if k < length (rg_held r)
      then (case rg_held r ! k of
              Nil_Slice \<Rightarrow> None
            | Slice a off n \<Rightarrow>
                if i < n then Some (r\<lparr> rg_arrays := (rg_arrays r)[a := (rg_arrays r ! a)[off + i := x]] \<rparr>) else None)
      else None)"
| "client_step (Append k xs) r =
     (if k < length (rg_held r) then Some (hold r (go_append (rg_spare r) (rg_arrays r) (rg_held r ! k) xs)) else None)"
| "client_step (Reslice k lo hi) r =
     (if k < length (rg_held r)
      then (case rg_held r ! k of
              Nil_Slice \<Rightarrow> None
            | Slice a off n \<Rightarrow>
                if lo \<le> hi \<and> off + hi \<le> length (rg_arrays r ! a)
                then Some (hold r (rg_arrays r, Slice a (off + lo) (hi - lo))) else None)
      else None)"

datatype op =
    On_Costs "Cost client_op" | On_Forecasts "Forecast client_op" | On_Budgets "Budget client_op"
  | On_Accounts "Account client_op" | On_Commitments "Commitment client_op" | On_Anomalies "Anomaly client_op"
  | On_TagCosts "TagCost client_op"
  | Get_Costs nat | Get_Forecasts nat | Get_Budgets nat | Get_Accounts nat | Get_Commitments nat
  | Get_Anomalies nat | Get_TagCosts nat
  | Call_NewWithData nat nat nat nat nat nat nat
  | Call_Merge "nat list"

text \<open>An argument is a slice the caller holds; past the end it is the nil slice.\<close>

definition held_at :: "'a region \<Rightarrow> nat \<Rightarrow> slice" where
  "held_at r k = (if k < length (rg_held r) then rg_held r ! k else Nil_Slice)"

definition handed :: "'a region \<times> slice \<Rightarrow> 'a region" where
  "handed = (\<lambda>(r, s). r\<lparr> rg_held := rg_held r @ [s] \<rparr>)"

definition remember :: "heap \<times> snapshot_ref \<Rightarrow> heap" where
  "remember = (\<lambda>(h, v). h\<lparr> h_snapshots := h_snapshots h @ [v] \<rparr>)"

definition when_snapshot :: "nat \<Rightarrow> (snapshot_ref \<Rightarrow> heap) \<Rightarrow> heap \<Rightarrow> heap option" where
  "when_snapshot k f h = (if k < length (h_snapshots h) then Some (f (h_snapshots h ! k)) else None)"

fun heap_step :: "op \<Rightarrow> heap \<Rightarrow> heap option" where
  "heap_step (On_Costs c) h = map_option (\<lambda>r. h\<lparr> h_costs := r \<rparr>) (client_step c (h_costs h))"
| "heap_step (On_Forecasts c) h = map_option (\<lambda>r. h\<lparr> h_forecasts := r \<rparr>) (client_step c (h_forecasts h))"
| "heap_step (On_Budgets c) h = map_option (\<lambda>r. h\<lparr> h_budgets := r \<rparr>) (client_step c (h_budgets h))"
| "heap_step (On_Accounts c) h = map_option (\<lambda>r. h\<lparr> h_accounts := r \<rparr>) (client_step c (h_accounts h))"
| "heap_step (On_Commitments c) h = map_option (\<lambda>r. h\<lparr> h_commitments := r \<rparr>) (client_step c (h_commitments h))"
| "heap_step (On_Anomalies c) h = map_option (\<lambda>r. h\<lparr> h_anomalies := r \<rparr>) (client_step c (h_anomalies h))"
| "heap_step (On_TagCosts c) h = map_option (\<lambda>r. h\<lparr> h_tagCosts := r \<rparr>) (client_step c (h_tagCosts h))"
| "heap_step (Get_Costs k) h = when_snapshot k (\<lambda>v. case Snapshot_Costs v h of (h', s) \<Rightarrow> h'\<lparr> h_costs := handed (h_costs h', s) \<rparr>) h"
| "heap_step (Get_Forecasts k) h = when_snapshot k (\<lambda>v. case Snapshot_Forecasts v h of (h', s) \<Rightarrow> h'\<lparr> h_forecasts := handed (h_forecasts h', s) \<rparr>) h"
| "heap_step (Get_Budgets k) h = when_snapshot k (\<lambda>v. case Snapshot_Budgets v h of (h', s) \<Rightarrow> h'\<lparr> h_budgets := handed (h_budgets h', s) \<rparr>) h"
| "heap_step (Get_Accounts k) h = when_snapshot k (\<lambda>v. case Snapshot_Accounts v h of (h', s) \<Rightarrow> h'\<lparr> h_accounts := handed (h_accounts h', s) \<rparr>) h"
| "heap_step (Get_Commitments k) h = when_snapshot k (\<lambda>v. case Snapshot_Commitments v h of (h', s) \<Rightarrow> h'\<lparr> h_commitments := handed (h_commitments h', s) \<rparr>) h"
| "heap_step (Get_Anomalies k) h = when_snapshot k (\<lambda>v. case Snapshot_Anomalies v h of (h', s) \<Rightarrow> h'\<lparr> h_anomalies := handed (h_anomalies h', s) \<rparr>) h"
| "heap_step (Get_TagCosts k) h = when_snapshot k (\<lambda>v. case Snapshot_TagCosts v h of (h', s) \<Rightarrow> h'\<lparr> h_tagCosts := handed (h_tagCosts h', s) \<rparr>) h"
| "heap_step (Call_NewWithData c f b a m n t) h =
     Some (remember (NewWithData_ref (held_at (h_costs h) c) (held_at (h_forecasts h) f) (held_at (h_budgets h) b)
       (held_at (h_accounts h) a) (held_at (h_commitments h) m) (held_at (h_anomalies h) n) (held_at (h_tagCosts h) t) h))"
| "heap_step (Call_Merge ks) h =
     (if list_all (\<lambda>k. k < length (h_snapshots h)) ks
      then Some (remember (Merge_ref (map (\<lambda>k. h_snapshots h ! k) ks) h)) else None)"

section \<open>Contents and separation\<close>

definition contents :: "heap \<Rightarrow> snapshot_ref \<Rightarrow> Snapshot" where
  "contents h v =
     \<lparr> costs = elems (rg_arrays (h_costs h)) (sr_costs v), forecasts = elems (rg_arrays (h_forecasts h)) (sr_forecasts v),
       budgets = elems (rg_arrays (h_budgets h)) (sr_budgets v), accounts = elems (rg_arrays (h_accounts h)) (sr_accounts v),
       commitments = elems (rg_arrays (h_commitments h)) (sr_commitments v),
       anomalies = elems (rg_arrays (h_anomalies h)) (sr_anomalies v), tagCosts = elems (rg_arrays (h_tagCosts h)) (sr_tagCosts v) \<rparr>"

text \<open>No slice in the hands of a caller shares an array with a slice inside a snapshot.\<close>

definition region_ok :: "'a region \<Rightarrow> slice list \<Rightarrow> bool" where
  "region_ok r inner \<longleftrightarrow> (\<forall>s \<in> set (rg_held r) \<union> set inner. valid_slice (rg_arrays r) s) \<and>
     (\<forall>s \<in> set (rg_held r). \<forall>t \<in> set inner. array_of s \<inter> array_of t = {})"

definition heap_ok :: "heap \<Rightarrow> bool" where
  "heap_ok h \<longleftrightarrow>
     region_ok (h_costs h) (map sr_costs (h_snapshots h)) \<and> region_ok (h_forecasts h) (map sr_forecasts (h_snapshots h)) \<and>
     region_ok (h_budgets h) (map sr_budgets (h_snapshots h)) \<and> region_ok (h_accounts h) (map sr_accounts (h_snapshots h)) \<and>
     region_ok (h_commitments h) (map sr_commitments (h_snapshots h)) \<and>
     region_ok (h_anomalies h) (map sr_anomalies (h_snapshots h)) \<and> region_ok (h_tagCosts h) (map sr_tagCosts (h_snapshots h))"

definition keeps :: "'a region \<Rightarrow> 'a region \<Rightarrow> slice list \<Rightarrow> bool" where
  "keeps r r' inner \<longleftrightarrow> region_ok r' inner \<and> (\<forall>t \<in> set inner. elems (rg_arrays r') t = elems (rg_arrays r) t)"

lemma keeps_frame:
  assumes ok: "region_ok r inner" and fr: "arrays_frame A (rg_arrays r) (rg_arrays r')"
    and A: "A \<inter> {..< length (rg_arrays r)} \<subseteq> \<Union> (array_of ` set (rg_held r))"
    and held: "\<forall>s \<in> set (rg_held r'). valid_slice (rg_arrays r') s \<and>
      array_of s \<subseteq> \<Union> (array_of ` set (rg_held r)) \<union> {length (rg_arrays r) ..}"
  shows "keeps r r' inner"
proof -
  have t: "elems (rg_arrays r') t = elems (rg_arrays r) t \<and> valid_slice (rg_arrays r') t \<and> array_of t \<subseteq> {..< length (rg_arrays r)} \<and>
    array_of t \<inter> \<Union> (array_of ` set (rg_held r)) = {}" if "t \<in> set inner" for t
  proof -
    have valid: "valid_slice (rg_arrays r) t" and apart: "array_of t \<inter> \<Union> (array_of ` set (rg_held r)) = {}"
      using ok that by (auto simp: region_ok_def)
    then have "array_of t \<inter> A = {}" using A valid_array [OF valid] by blast
    then show ?thesis using frame_elems [OF fr valid] frame_valid [OF fr valid] valid_array [OF valid] apart by auto
  qed
  have "array_of s \<inter> array_of t = {}" if "s \<in> set (rg_held r')" "t \<in> set inner" for s t
    using held t that by fastforce
  then show ?thesis using held t by (auto simp: keeps_def region_ok_def)
qed

lemma held_kept:
  assumes "region_ok r inner" and "arrays_frame A (rg_arrays r) h" and "s \<in> set (rg_held r)"
  shows "valid_slice h s" and "array_of s \<subseteq> \<Union> (array_of ` set (rg_held r)) \<union> {length (rg_arrays r) ..}"
  using assms frame_valid [OF assms(2)] by (auto simp: region_ok_def)

lemma hold_keeps:
  assumes ok: "region_ok r inner" and fr: "arrays_frame A (rg_arrays r) h" and "valid_slice h s"
    and "A \<inter> {..< length (rg_arrays r)} \<subseteq> \<Union> (array_of ` set (rg_held r))"
    and "array_of s \<subseteq> \<Union> (array_of ` set (rg_held r)) \<union> {length (rg_arrays r) ..}"
  shows "keeps r (hold r (h, s)) inner"
  by (rule keeps_frame [OF ok, of A]) (use assms held_kept [OF ok fr] in \<open>auto simp: hold_def\<close>)

lemma client_keeps:
  assumes ok: "region_ok r inner" and step: "client_step c r = Some r'"
  shows "keeps r r' inner"
proof (cases c)
  case (Make xs)
  then show ?thesis
    using step hold_keeps [OF ok frame_fresh, where A = "{}"] by (auto simp: fresh_array_def nth_append)
next
  case (Write k i x)
  then obtain a off n where k: "k < length (rg_held r)" "rg_held r ! k = Slice a off n"
    and r': "r' = r\<lparr> rg_arrays := (rg_arrays r)[a := (rg_arrays r ! a)[off + i := x]] \<rparr>"
    using step by (auto split: if_splits slice.splits)
  have fr: "arrays_frame {a} (rg_arrays r) (rg_arrays r')" unfolding r' by (simp add: frame_update)
  moreover have "Slice a off n \<in> set (rg_held r)" using k nth_mem by metis
  then have "{a} \<subseteq> \<Union> (array_of ` set (rg_held r))" by fastforce
  ultimately show ?thesis by (intro keeps_frame [OF ok fr]) (use held_kept [OF ok fr] r' in auto)
next
  case (Append k xs)
  then have k: "rg_held r ! k \<in> set (rg_held r)" and r': "r' = hold r (go_append (rg_spare r) (rg_arrays r) (rg_held r ! k) xs)"
    using step by (auto split: if_splits)
  obtain h s where app: "go_append (rg_spare r) (rg_arrays r) (rg_held r ! k) xs = (h, s)" by fastforce
  have "valid_slice (rg_arrays r) (rg_held r ! k)" using ok k by (simp add: region_ok_def)
  from go_append_ok [OF app this] show ?thesis unfolding r' app using k by (intro hold_keeps [OF ok]) auto
next
  case (Reslice k lo hi)
  then obtain a off n where k: "k < length (rg_held r)" "rg_held r ! k = Slice a off n" "lo \<le> hi" "off + hi \<le> length (rg_arrays r ! a)"
    and r': "r' = hold r (rg_arrays r, Slice a (off + lo) (hi - lo))"
    using step by (auto split: if_splits slice.splits)
  have "Slice a off n \<in> set (rg_held r)" using k nth_mem by metis
  moreover from this have "valid_slice (rg_arrays r) (Slice a off n)" using ok unfolding region_ok_def by blast
  ultimately show ?thesis unfolding r' using k
    by (intro hold_keeps [OF ok, of "{}"]) (auto intro!: bexI [of _ "Slice a off n"])
qed

lemma copy_keeps:
  assumes ok: "region_ok r inner" and copy: "copy_in r s = (r', t)"
  shows "keeps r (handed (r', t)) inner" and "elems (rg_arrays r') t = elems (rg_arrays r) s"
proof -
  obtain h where h: "copy_slice (rg_spare r) (rg_arrays r) s = (h, t)" and r': "r' = r\<lparr> rg_arrays := h \<rparr>"
    using copy by (auto simp: copy_in_def apfst_def map_prod_def split: prod.splits)
  note c = copy_slice_ok [OF h]
  have "handed (r', t) = hold r (h, t)" by (simp add: handed_def hold_def r')
  then show "keeps r (handed (r', t)) inner" using hold_keeps [OF ok, of "{}" h t] c by fastforce
  show "elems (rg_arrays r') t = elems (rg_arrays r) s" using c r' by simp
qed

lemma build_keeps:
  assumes ok: "region_ok r inner" and copy: "copy_in r s = (r', t)" and len: "\<And>xs. length (f xs) = length xs"
  shows "region_ok (sort_in f t r') (inner @ [t])"
    and "u \<in> set inner \<Longrightarrow> elems (rg_arrays (sort_in f t r')) u = elems (rg_arrays r) u"
    and "elems (rg_arrays (sort_in f t r')) t = f (elems (rg_arrays r) s)"
proof -
  obtain h where h: "copy_slice (rg_spare r) (rg_arrays r) s = (h, t)" and r': "r' = r\<lparr> rg_arrays := h \<rparr>"
    using copy by (auto simp: copy_in_def apfst_def map_prod_def split: prod.splits)
  note c = copy_slice_ok [OF h]
  then have p: "arrays_frame (array_of t) h (permute_slice f h t)" "elems (permute_slice f h t) t = f (elems h t)"
    using permute_slice_ok [of h t f] len by auto
  have new: "array_of t \<subseteq> {length (rg_arrays r) ..}" using c by auto
  then have "array_of t \<inter> {..< length (rg_arrays r)} \<subseteq> {}" by fastforce
  then have fr: "arrays_frame {} (rg_arrays r) (permute_slice f h t)" using frame_trans [OF conjunct1 [OF c] p(1)] by simp
  have k: "keeps r (sort_in f t r') inner"
    by (rule keeps_frame [OF ok, of "{}"]) (use fr held_kept [OF ok fr] in \<open>auto simp: sort_in_def r'\<close>)
  have t: "valid_slice (permute_slice f h t) t" using frame_valid [OF p(1)] c by simp
  have "array_of u \<inter> array_of t = {}" if "u \<in> set (rg_held r)" for u
  proof -
    have "array_of u \<subseteq> {..< length (rg_arrays r)}" using ok that by (auto simp: region_ok_def intro!: valid_array)
    with new show ?thesis by fastforce
  qed
  with k t show "region_ok (sort_in f t r') (inner @ [t])" by (auto simp: keeps_def region_ok_def sort_in_def r')
  show "u \<in> set inner \<Longrightarrow> elems (rg_arrays (sort_in f t r')) u = elems (rg_arrays r) u" using k by (simp add: keeps_def)
  show "elems (rg_arrays (sort_in f t r')) t = f (elems (rg_arrays r) s)" using p(2) c by (simp add: sort_in_def r')
qed

section \<open>Merge leaves its parts alone\<close>

text \<open>A region after some rounds of \<open>Merge\<close>: the local slice lives in arrays of its own.\<close>

definition gathering :: "'a region \<Rightarrow> 'a region \<times> slice \<Rightarrow> slice list \<Rightarrow> bool" where
  "gathering r st ss \<longleftrightarrow> (\<exists>h. fst st = r\<lparr> rg_arrays := h \<rparr> \<and>
     gathered (length (rg_arrays r)) (rg_arrays r) (h, snd st) \<and> elems h (snd st) = concat (map (elems (rg_arrays r)) ss))"

lemma gathering_start: "gathering r (r, Nil_Slice) []"
  by (auto simp: gathering_def gathered_def intro: exI [of _ "rg_arrays r"])

lemma gathering_round:
  assumes "gathering r (r1, acc) ss" and "valid_slice (rg_arrays r) s"
  shows "gathering r (collect (for_each s) (r1, acc)) (ss @ [s])"
proof -
  let ?h = "rg_arrays r"
  obtain h where h: "r1 = r\<lparr> rg_arrays := h \<rparr>" "gathered (length ?h) ?h (h, acc)" "elems h acc = concat (map (elems ?h) ss)"
    using assms(1) by (auto simp: gathering_def)
  obtain h' acc' where run: "range_slice s (append_visitor (rg_spare r)) (h, acc) = (h', acc')" by fastforce
  from range_append [OF h(2) order_refl assms(2) valid_array [OF assms(2)] run] h(1,3) run show ?thesis
    by (auto simp: gathering_def collect_def for_each_def)
qed

lemma gathering_keeps:
  assumes "region_ok r inner" and "gathering r (r', acc) ss"
  shows "keeps r r' inner"
proof -
  obtain h where h: "r' = r\<lparr> rg_arrays := h \<rparr>" "arrays_frame {length (rg_arrays r) ..} (rg_arrays r) h"
    using assms(2) by (auto simp: gathering_def gathered_def)
  show ?thesis
    by (rule keeps_frame [OF assms(1), of "{length (rg_arrays r) ..}"]) (use h held_kept [OF assms(1) h(2)] in auto)
qed

definition merging :: "heap \<Rightarrow> heap \<times> snapshot_ref \<Rightarrow> snapshot_ref list \<Rightarrow> bool" where
  "merging h = (\<lambda>(h', acc) ps.
     h_snapshots h' = h_snapshots h \<and>
     gathering (h_costs h) (h_costs h', sr_costs acc) (map sr_costs ps) \<and>
     gathering (h_forecasts h) (h_forecasts h', sr_forecasts acc) (map sr_forecasts ps) \<and>
     gathering (h_budgets h) (h_budgets h', sr_budgets acc) (map sr_budgets ps) \<and>
     gathering (h_accounts h) (h_accounts h', sr_accounts acc) (map sr_accounts ps) \<and>
     gathering (h_commitments h) (h_commitments h', sr_commitments acc) (map sr_commitments ps) \<and>
     gathering (h_anomalies h) (h_anomalies h', sr_anomalies acc) (map sr_anomalies ps) \<and>
     gathering (h_tagCosts h) (h_tagCosts h', sr_tagCosts acc) (map sr_tagCosts ps))"

lemma heap_ok_valid:
  assumes "heap_ok h" and "v \<in> set (h_snapshots h)"
  shows "valid_slice (rg_arrays (h_costs h)) (sr_costs v)" and "valid_slice (rg_arrays (h_forecasts h)) (sr_forecasts v)"
    and "valid_slice (rg_arrays (h_budgets h)) (sr_budgets v)" and "valid_slice (rg_arrays (h_accounts h)) (sr_accounts v)"
    and "valid_slice (rg_arrays (h_commitments h)) (sr_commitments v)" and "valid_slice (rg_arrays (h_anomalies h)) (sr_anomalies v)"
    and "valid_slice (rg_arrays (h_tagCosts h)) (sr_tagCosts v)"
  using assms by (simp_all add: heap_ok_def region_ok_def)

lemma merge_round_ok:
  assumes ok: "heap_ok h" and st: "merging h (h1, acc) ps" and v: "v \<in> set (h_snapshots h)"
  shows "merging h (merge_round (h1, acc) v) (ps @ [v])"
proof -
  note val = heap_ok_valid [OF ok v]
  note g = st [unfolded merging_def, simplified]
  note rounds = gathering_round [OF _ val(1)] gathering_round [OF _ val(2)] gathering_round [OF _ val(3)] gathering_round [OF _ val(4)]
    gathering_round [OF _ val(5)] gathering_round [OF _ val(6)] gathering_round [OF _ val(7)]
  have each: "ForEachCost v = for_each (sr_costs v)" "ForEachForecast v = for_each (sr_forecasts v)" "ForEachBudget v = for_each (sr_budgets v)"
    "ForEachAccount v = for_each (sr_accounts v)" "ForEachCommitment v = for_each (sr_commitments v)"
    "ForEachAnomaly v = for_each (sr_anomalies v)" "ForEachTagCost v = for_each (sr_tagCosts v)"
    by (simp_all add: fun_eq_iff ForEachCost_def ForEachForecast_def ForEachBudget_def ForEachAccount_def ForEachCommitment_def
        ForEachAnomaly_def ForEachTagCost_def)
  show ?thesis
    using g by (simp add: merge_round_def merging_def each case_prod_unfold Let_def rounds)
qed

lemma merge_rounds:
  assumes "heap_ok h" and "set ps \<subseteq> set (h_snapshots h)"
  shows "merging h (foldl merge_round (h, nil_ref) ps) ps"
  using assms(2)
proof (induction ps rule: rev_induct)
  case Nil
  then show ?case by (simp add: merging_def nil_ref_def gathering_start)
next
  case (snoc v ps)
  obtain h1 acc where st: "foldl merge_round (h, nil_ref) ps = (h1, acc)" by fastforce
  then have "merging h (h1, acc) ps" using snoc by simp
  then show ?case using merge_round_ok [OF assms(1), of h1 acc ps v] snoc.prems st by simp
qed

section \<open>Immutability\<close>

text \<open>The snapshot an operation creates, computed on the contents at the time of the call.\<close>

fun created :: "op \<Rightarrow> heap \<Rightarrow> Snapshot list" where
  "created (Call_NewWithData c f b a m n t) h =
     [NewWithData (elems (rg_arrays (h_costs h)) (held_at (h_costs h) c)) (elems (rg_arrays (h_forecasts h)) (held_at (h_forecasts h) f))
        (elems (rg_arrays (h_budgets h)) (held_at (h_budgets h) b)) (elems (rg_arrays (h_accounts h)) (held_at (h_accounts h) a))
        (elems (rg_arrays (h_commitments h)) (held_at (h_commitments h) m)) (elems (rg_arrays (h_anomalies h)) (held_at (h_anomalies h) n))
        (elems (rg_arrays (h_tagCosts h)) (held_at (h_tagCosts h) t))]"
| "created (Call_Merge ks) h = [Merge (map (\<lambda>k. contents h (h_snapshots h ! k)) ks)]"
| "created _ h = []"

lemma sorts_length:
  "length (Budget_Sort bs) = length bs" "length (Account_Sort acs) = length acs" "length (Commitment_Sort cms) = length cms"
  "length (Anomaly_Sort ans) = length ans" "length (TagCost_Sort ts) = length ts"
  by (simp_all add: sort_defs)

lemma new_keeps:
  assumes ok: "heap_ok h" and new: "NewWithData_ref cs fs bs acs cms ans ts h = (h', v)"
  shows "heap_ok (remember (h', v))" and "u \<in> set (h_snapshots h) \<Longrightarrow> contents h' u = contents h u"
    and "contents h' v = NewWithData (elems (rg_arrays (h_costs h)) cs) (elems (rg_arrays (h_forecasts h)) fs)
      (elems (rg_arrays (h_budgets h)) bs) (elems (rg_arrays (h_accounts h)) acs) (elems (rg_arrays (h_commitments h)) cms)
      (elems (rg_arrays (h_anomalies h)) ans) (elems (rg_arrays (h_tagCosts h)) ts)"
    and "h_snapshots h' = h_snapshots h"
proof -
  obtain rc c rf f rb b ra a rm m rn n rt t where copies:
    "copy_in (h_costs h) cs = (rc, c)" "copy_in (h_forecasts h) fs = (rf, f)" "copy_in (h_budgets h) bs = (rb, b)"
    "copy_in (h_accounts h) acs = (ra, a)" "copy_in (h_commitments h) cms = (rm, m)" "copy_in (h_anomalies h) ans = (rn, n)"
    "copy_in (h_tagCosts h) ts = (rt, t)"
    by (metis prod.exhaust)
  note res = new [unfolded NewWithData_ref_def copies, simplified]
  show "h_snapshots h' = h_snapshots h" using res by auto
  show "heap_ok (remember (h', v))"
    using res ok build_keeps(1) [OF _ copies(1)] build_keeps(1) [OF _ copies(2)] build_keeps(1) [OF _ copies(3)]
      build_keeps(1) [OF _ copies(4)] build_keeps(1) [OF _ copies(5)] build_keeps(1) [OF _ copies(6)] build_keeps(1) [OF _ copies(7)]
    by (auto simp: heap_ok_def remember_def sorts_length)
  show "contents h' u = contents h u" if "u \<in> set (h_snapshots h)"
    using res ok that build_keeps(2) [OF _ copies(1)] build_keeps(2) [OF _ copies(2)] build_keeps(2) [OF _ copies(3)]
      build_keeps(2) [OF _ copies(4)] build_keeps(2) [OF _ copies(5)] build_keeps(2) [OF _ copies(6)] build_keeps(2) [OF _ copies(7)]
    by (auto simp: heap_ok_def contents_def sorts_length)
  show "contents h' v = NewWithData (elems (rg_arrays (h_costs h)) cs) (elems (rg_arrays (h_forecasts h)) fs)
      (elems (rg_arrays (h_budgets h)) bs) (elems (rg_arrays (h_accounts h)) acs) (elems (rg_arrays (h_commitments h)) cms)
      (elems (rg_arrays (h_anomalies h)) ans) (elems (rg_arrays (h_tagCosts h)) ts)"
    using res ok build_keeps(3) [OF _ copies(1)] build_keeps(3) [OF _ copies(2)] build_keeps(3) [OF _ copies(3)]
      build_keeps(3) [OF _ copies(4)] build_keeps(3) [OF _ copies(5)] build_keeps(3) [OF _ copies(6)] build_keeps(3) [OF _ copies(7)]
    by (auto simp: heap_ok_def contents_def sorts_length NewWithData_def)
qed

lemma merge_keeps:
  assumes ok: "heap_ok h" and parts: "set ps \<subseteq> set (h_snapshots h)" and merge: "Merge_ref ps h = (h', v)"
  shows "heap_ok (remember (h', v))" and "u \<in> set (h_snapshots h) \<Longrightarrow> contents h' u = contents h u"
    and "contents h' v = Merge (map (contents h) ps)" and "h_snapshots h' = h_snapshots h"
proof -
  obtain h1 acc where rounds: "foldl merge_round (h, nil_ref) ps = (h1, acc)" by fastforce
  note new = merge [unfolded Merge_ref_def rounds, simplified]
  have g: "merging h (h1, acc) ps" using merge_rounds [OF ok parts] rounds by simp
  note gs = g [unfolded merging_def, simplified]
  note keep = gathering_keeps [unfolded keeps_def]
  have ok1: "heap_ok h1"
    using ok gs keep [of "h_costs h"] keep [of "h_forecasts h"] keep [of "h_budgets h"] keep [of "h_accounts h"]
      keep [of "h_commitments h"] keep [of "h_anomalies h"] keep [of "h_tagCosts h"]
    unfolding heap_ok_def by metis
  have same: "contents h1 u = contents h u" if "u \<in> set (h_snapshots h)" for u
    using ok gs that keep [of "h_costs h" "map sr_costs (h_snapshots h)"] keep [of "h_forecasts h" "map sr_forecasts (h_snapshots h)"]
      keep [of "h_budgets h" "map sr_budgets (h_snapshots h)"] keep [of "h_accounts h" "map sr_accounts (h_snapshots h)"]
      keep [of "h_commitments h" "map sr_commitments (h_snapshots h)"] keep [of "h_anomalies h" "map sr_anomalies (h_snapshots h)"]
      keep [of "h_tagCosts h" "map sr_tagCosts (h_snapshots h)"]
    by (auto simp: heap_ok_def contents_def)
  have snaps: "h_snapshots h1 = h_snapshots h" using gs by simp
  note n = new_keeps [OF ok1 new]
  show "heap_ok (remember (h', v))" and "h_snapshots h' = h_snapshots h" using n snaps by simp_all
  show "u \<in> set (h_snapshots h) \<Longrightarrow> contents h' u = contents h u" using n(2) same snaps by simp
  have "elems (rg_arrays (h_costs h1)) (sr_costs acc) = concat (map (\<lambda>p. costs (contents h p)) ps)"
    "elems (rg_arrays (h_forecasts h1)) (sr_forecasts acc) = concat (map (\<lambda>p. forecasts (contents h p)) ps)"
    "elems (rg_arrays (h_budgets h1)) (sr_budgets acc) = concat (map (\<lambda>p. budgets (contents h p)) ps)"
    "elems (rg_arrays (h_accounts h1)) (sr_accounts acc) = concat (map (\<lambda>p. accounts (contents h p)) ps)"
    "elems (rg_arrays (h_commitments h1)) (sr_commitments acc) = concat (map (\<lambda>p. commitments (contents h p)) ps)"
    "elems (rg_arrays (h_anomalies h1)) (sr_anomalies acc) = concat (map (\<lambda>p. anomalies (contents h p)) ps)"
    "elems (rg_arrays (h_tagCosts h1)) (sr_tagCosts acc) = concat (map (\<lambda>p. tagCosts (contents h p)) ps)"
    using gs by (auto simp: gathering_def contents_def comp_def)
  then show "contents h' v = Merge (map (contents h) ps)" by (simp add: n(3) Merge_eq comp_def)
qed

lemma region_change:
  assumes "heap_ok h"
  shows "keeps (h_costs h) r1 (map sr_costs (h_snapshots h)) \<Longrightarrow> heap_ok (h\<lparr> h_costs := r1 \<rparr>) \<and>
      (\<forall>u \<in> set (h_snapshots h). contents (h\<lparr> h_costs := r1 \<rparr>) u = contents h u)"
    and "keeps (h_forecasts h) r2 (map sr_forecasts (h_snapshots h)) \<Longrightarrow> heap_ok (h\<lparr> h_forecasts := r2 \<rparr>) \<and>
      (\<forall>u \<in> set (h_snapshots h). contents (h\<lparr> h_forecasts := r2 \<rparr>) u = contents h u)"
    and "keeps (h_budgets h) r3 (map sr_budgets (h_snapshots h)) \<Longrightarrow> heap_ok (h\<lparr> h_budgets := r3 \<rparr>) \<and>
      (\<forall>u \<in> set (h_snapshots h). contents (h\<lparr> h_budgets := r3 \<rparr>) u = contents h u)"
    and "keeps (h_accounts h) r4 (map sr_accounts (h_snapshots h)) \<Longrightarrow> heap_ok (h\<lparr> h_accounts := r4 \<rparr>) \<and>
      (\<forall>u \<in> set (h_snapshots h). contents (h\<lparr> h_accounts := r4 \<rparr>) u = contents h u)"
    and "keeps (h_commitments h) r5 (map sr_commitments (h_snapshots h)) \<Longrightarrow> heap_ok (h\<lparr> h_commitments := r5 \<rparr>) \<and>
      (\<forall>u \<in> set (h_snapshots h). contents (h\<lparr> h_commitments := r5 \<rparr>) u = contents h u)"
    and "keeps (h_anomalies h) r6 (map sr_anomalies (h_snapshots h)) \<Longrightarrow> heap_ok (h\<lparr> h_anomalies := r6 \<rparr>) \<and>
      (\<forall>u \<in> set (h_snapshots h). contents (h\<lparr> h_anomalies := r6 \<rparr>) u = contents h u)"
    and "keeps (h_tagCosts h) r7 (map sr_tagCosts (h_snapshots h)) \<Longrightarrow> heap_ok (h\<lparr> h_tagCosts := r7 \<rparr>) \<and>
      (\<forall>u \<in> set (h_snapshots h). contents (h\<lparr> h_tagCosts := r7 \<rparr>) u = contents h u)"
  using assms by (simp_all add: heap_ok_def keeps_def contents_def)

definition step_keeps :: "op \<Rightarrow> heap \<Rightarrow> heap \<Rightarrow> bool" where
  "step_keeps c h h' \<longleftrightarrow> heap_ok h' \<and> map (contents h') (h_snapshots h') = map (contents h) (h_snapshots h) @ created c h"

lemma region_step:
  assumes "heap_ok h' \<and> (\<forall>u \<in> set (h_snapshots h). contents h' u = contents h u)" and "h_snapshots h' = h_snapshots h" and "created c h = []"
  shows "step_keeps c h h'"
  using assms by (simp add: step_keeps_def)

lemma client_steps:
  assumes "heap_ok h"
  shows "heap_step (On_Costs c1) h = Some h' \<Longrightarrow> step_keeps (On_Costs c1) h h'"
    and "heap_step (On_Forecasts c2) h = Some h' \<Longrightarrow> step_keeps (On_Forecasts c2) h h'"
    and "heap_step (On_Budgets c3) h = Some h' \<Longrightarrow> step_keeps (On_Budgets c3) h h'"
    and "heap_step (On_Accounts c4) h = Some h' \<Longrightarrow> step_keeps (On_Accounts c4) h h'"
    and "heap_step (On_Commitments c5) h = Some h' \<Longrightarrow> step_keeps (On_Commitments c5) h h'"
    and "heap_step (On_Anomalies c6) h = Some h' \<Longrightarrow> step_keeps (On_Anomalies c6) h h'"
    and "heap_step (On_TagCosts c7) h = Some h' \<Longrightarrow> step_keeps (On_TagCosts c7) h h'"
  using assms region_change [OF assms, OF client_keeps]
  by (auto simp: heap_ok_def intro!: region_step)

lemma accessor_steps:
  assumes ok: "heap_ok h"
  shows "heap_step (Get_Costs k) h = Some h' \<Longrightarrow> step_keeps (Get_Costs k) h h'"
    and "heap_step (Get_Forecasts k) h = Some h' \<Longrightarrow> step_keeps (Get_Forecasts k) h h'"
    and "heap_step (Get_Budgets k) h = Some h' \<Longrightarrow> step_keeps (Get_Budgets k) h h'"
    and "heap_step (Get_Accounts k) h = Some h' \<Longrightarrow> step_keeps (Get_Accounts k) h h'"
    and "heap_step (Get_Commitments k) h = Some h' \<Longrightarrow> step_keeps (Get_Commitments k) h h'"
    and "heap_step (Get_Anomalies k) h = Some h' \<Longrightarrow> step_keeps (Get_Anomalies k) h h'"
    and "heap_step (Get_TagCosts k) h = Some h' \<Longrightarrow> step_keeps (Get_TagCosts k) h h'"
  using ok region_change [OF ok, OF copy_keeps(1)]
  by (auto simp: heap_ok_def when_snapshot_def apfst_def map_prod_def Snapshot_Costs_def Snapshot_Forecasts_def Snapshot_Budgets_def
      Snapshot_Accounts_def Snapshot_Commitments_def Snapshot_Anomalies_def Snapshot_TagCosts_def
      intro!: region_step split: if_splits prod.splits)

text \<open>What the accessors hand out, and what a visitor that keeps the arrays is shown.\<close>

lemma accessor_contents:
  assumes "heap_ok h"
  shows "Snapshot_Costs v h = (h', s) \<Longrightarrow> elems (rg_arrays (h_costs h')) s = costs (contents h v)"
    and "Snapshot_Forecasts v h = (h', s) \<Longrightarrow> elems (rg_arrays (h_forecasts h')) s = forecasts (contents h v)"
    and "Snapshot_Budgets v h = (h', s) \<Longrightarrow> elems (rg_arrays (h_budgets h')) s = budgets (contents h v)"
    and "Snapshot_Accounts v h = (h', s) \<Longrightarrow> elems (rg_arrays (h_accounts h')) s = accounts (contents h v)"
    and "Snapshot_Commitments v h = (h', s) \<Longrightarrow> elems (rg_arrays (h_commitments h')) s = commitments (contents h v)"
    and "Snapshot_Anomalies v h = (h', s) \<Longrightarrow> elems (rg_arrays (h_anomalies h')) s = anomalies (contents h v)"
    and "Snapshot_TagCosts v h = (h', s) \<Longrightarrow> elems (rg_arrays (h_tagCosts h')) s = tagCosts (contents h v)"
  using assms copy_keeps(2)
  by (fastforce simp: heap_ok_def contents_def apfst_def map_prod_def Snapshot_Costs_def Snapshot_Forecasts_def Snapshot_Budgets_def
      Snapshot_Accounts_def Snapshot_Commitments_def Snapshot_Anomalies_def Snapshot_TagCosts_def split: prod.splits)+

lemma for_each_foldl:
  assumes "valid_slice h s" and "\<And>x st. fst (f x st) = fst st"
  shows "for_each s (Some f) (h, st) = foldl (\<lambda>st x. f x st) (h, st) (elems h s)" and "for_each s None (h, st) = (h, st)"
proof -
  show "for_each s (Some f) (h, st) = foldl (\<lambda>st x. f x st) (h, st) (elems h s)"
  proof (cases s)
    case (Slice a off n)
    then have "range_from a off n f (h, st) = foldl (\<lambda>st x. f x st) (h, st) (take n (drop off (h ! a)))"
      using assms by (intro range_from_foldl [where I = "\<lambda>st. fst st = h"]) auto
    then show ?thesis using Slice by (simp add: for_each_def)
  qed (simp add: for_each_def)
qed (simp add: for_each_def)

lemma heap_step_keeps:
  assumes ok: "heap_ok h" and step: "heap_step c h = Some h'"
  shows "step_keeps c h h'"
proof (cases c)
  case (Call_NewWithData x1 x2 x3 x4 x5 x6 x7)
  obtain h1 v where new: "NewWithData_ref (held_at (h_costs h) x1) (held_at (h_forecasts h) x2) (held_at (h_budgets h) x3)
    (held_at (h_accounts h) x4) (held_at (h_commitments h) x5) (held_at (h_anomalies h) x6) (held_at (h_tagCosts h) x7) h = (h1, v)" by fastforce
  have h': "h' = remember (h1, v)" using step Call_NewWithData new by simp
  have "contents h' u = contents h1 u" for u by (simp add: h' remember_def contents_def)
  moreover have "h_snapshots h' = h_snapshots h @ [v]" using new_keeps(4) [OF ok new] by (simp add: h' remember_def)
  ultimately show ?thesis using new_keeps(1-3) [OF ok new] Call_NewWithData by (simp add: step_keeps_def h')
next
  case (Call_Merge ks)
  let ?ps = "map (\<lambda>k. h_snapshots h ! k) ks"
  obtain h1 v where merge: "Merge_ref ?ps h = (h1, v)" by fastforce
  have h': "h' = remember (h1, v)" and ps: "set ?ps \<subseteq> set (h_snapshots h)"
    using step Call_Merge merge by (auto simp: list_all_iff split: if_splits)
  have "contents h' u = contents h1 u" for u by (simp add: h' remember_def contents_def)
  moreover have "h_snapshots h' = h_snapshots h @ [v]" using merge_keeps(4) [OF ok ps merge] by (simp add: h' remember_def)
  ultimately show ?thesis using merge_keeps(1-3) [OF ok ps merge] Call_Merge by (simp add: step_keeps_def h' comp_def)
qed (use step client_steps [OF ok] accessor_steps [OF ok] in auto)

fun heap_run :: "op list \<Rightarrow> heap \<Rightarrow> heap option" where
  "heap_run [] h = Some h"
| "heap_run (c # cs) h = (case heap_step c h of None \<Rightarrow> None | Some h' \<Rightarrow> heap_run cs h')"

fun history :: "op list \<Rightarrow> heap \<Rightarrow> Snapshot list" where
  "history [] h = []"
| "history (c # cs) h = created c h @ (case heap_step c h of None \<Rightarrow> [] | Some h' \<Rightarrow> history cs h')"

lemma run_keeps:
  assumes "heap_run cs h = Some h'" and "heap_ok h"
  shows "heap_ok h' \<and> map (contents h') (h_snapshots h') = map (contents h) (h_snapshots h) @ history cs h"
  using assms
proof (induction cs arbitrary: h)
  case (Cons c cs)
  then obtain h1 where step: "heap_step c h = Some h1" and "heap_run cs h1 = Some h'" by (auto split: option.splits)
  with Cons.IH [of h1] heap_step_keeps [OF Cons.prems(2) step] show ?case by (simp add: step_keeps_def)
qed simp

text \<open>The memory before the first call: no array, no slice, no snapshot.\<close>

definition empty_region :: "(nat \<Rightarrow> 'a list) \<Rightarrow> 'a region" where
  "empty_region spare = \<lparr> rg_spare = spare, rg_arrays = [], rg_held = [] \<rparr>"

definition empty_heap :: "heap \<Rightarrow> heap" where
  "empty_heap h =
     \<lparr> h_costs = empty_region (rg_spare (h_costs h)), h_forecasts = empty_region (rg_spare (h_forecasts h)),
       h_budgets = empty_region (rg_spare (h_budgets h)), h_accounts = empty_region (rg_spare (h_accounts h)),
       h_commitments = empty_region (rg_spare (h_commitments h)), h_anomalies = empty_region (rg_spare (h_anomalies h)),
       h_tagCosts = empty_region (rg_spare (h_tagCosts h)), h_snapshots = [] \<rparr>"

lemma empty_heap_ok: "heap_ok (empty_heap h)" "h_snapshots (empty_heap h) = []"
  by (simp_all add: heap_ok_def region_ok_def empty_heap_def empty_region_def)

section \<open>Properties\<close>

text \<open>
  C12. Snapshots are immutable. Whatever callers do with the slices they passed to the constructor, the
  slices the accessors handed out and the slices they made of either (writing elements, appending
  into spare capacity, reslicing up to the capacity), and whatever capacity \<open>append\<close> chooses, the
  contents of every snapshot are, at every later time, exactly what \<open>NewWithData\<close> or \<open>Merge\<close> gives
  on the contents of its arguments at the time of the call.
\<close>

theorem snapshot_immutable:
  assumes "heap_run cs (empty_heap runtime) = Some h"
  shows "map (contents h) (h_snapshots h) = history cs (empty_heap runtime)"
  using run_keeps [OF assms empty_heap_ok(1)] by (simp add: empty_heap_ok)

text \<open>
  A caller overwrites the slice it built a snapshot from, the copy it was handed, and a slice that
  shares the array of the copy.
\<close>

definition sample_member :: "string \<Rightarrow> Account" where
  "sample_member v = \<lparr> a_Target = ''a'', a_AccountID = v, a_Name = ''n'', a_Status = ''ACTIVE'' \<rparr>"

definition sample_runtime :: heap where
  "sample_runtime =
     \<lparr> h_costs = empty_region (\<lambda>_. []), h_forecasts = empty_region (\<lambda>_. []), h_budgets = empty_region (\<lambda>_. []),
       h_accounts = empty_region (\<lambda>_. [sample_member '''']), h_commitments = empty_region (\<lambda>_. []),
       h_anomalies = empty_region (\<lambda>_. []), h_tagCosts = empty_region (\<lambda>_. []), h_snapshots = [] \<rparr>"

definition sample_ops :: "op list" where
  "sample_ops =
     [On_Accounts (Make [sample_member ''2'', sample_member ''1'']), Call_NewWithData 9 9 9 0 9 9 9,
      On_Accounts (Write 0 0 (sample_member ''x'')), Get_Accounts 0, On_Accounts (Write 1 0 (sample_member ''y'')),
      On_Accounts (Append 1 [sample_member ''z'']), On_Accounts (Reslice 2 0 3), On_Accounts (Write 3 1 (sample_member ''w'')),
      Call_NewWithData 9 9 9 0 9 9 9, Call_Merge [0, 1]]"

lemma sample_run:
  "map_option (\<lambda>h. map (map a_AccountID \<circ> accounts \<circ> contents h) (h_snapshots h)) (heap_run sample_ops (empty_heap sample_runtime)) =
   Some [[''1'', ''2''], [''1'', ''x''], [''1'', ''1'', ''2'', ''x'']]"
  by code_simp

theorem snapshot_immutable_witness:
  "map (map a_AccountID \<circ> accounts) (history sample_ops (empty_heap sample_runtime)) =
   [[''1'', ''2''], [''1'', ''x''], [''1'', ''1'', ''2'', ''x'']]"
proof -
  obtain h where "heap_run sample_ops (empty_heap sample_runtime) = Some h"
    and "map (map a_AccountID \<circ> accounts \<circ> contents h) (h_snapshots h) = [[''1'', ''2''], [''1'', ''x''], [''1'', ''1'', ''2'', ''x'']]"
    using sample_run by auto
  then show ?thesis using snapshot_immutable by (metis map_map)
qed

end
