(* ===== verification/Spec2Isabelle.thy ===== *)
theory Spec2Isabelle
  imports Program Pages_Tool Standalone_Client Store_Concurrency Snapshot_Heap
begin

text \<open>
  A verification of \<open>aws-cost-exporter\<close>, a process that reads AWS billing data for configured
  accounts and serves it to Prometheus.

  \<^bold>\<open>The program.\<close> \<open>cmd/aws-cost-exporter\<close> calls \<open>internal/app\<close>, which loads and validates a
  configuration (\<open>internal/config\<close>), builds a logger (\<open>internal/logging\<close>) and assembles the process:
  a client factory with one credential boundary per target (\<open>internal/aws/clientfactory\<close>), readers
  over the AWS services (\<open>internal/aws/...\<close>), collectors that turn what the readers return into
  partial snapshots (\<open>internal/collector/...\<close>), a scheduler that refreshes the collectors
  (\<open>internal/scheduler\<close>), a cache that merges their latest partials (\<open>internal/cache/memory\<close>), two
  Prometheus collectors over the cache (\<open>internal/metrics\<close>) and an HTTP server
  (\<open>internal/httpserver\<close>). \<open>tools/pages\<close> is a separate program for the documentation site.

  \<^bold>\<open>The theories\<close>, from the base up; each opens with what it models and how.
  \<^item> \<open>Prelude\<close>: range loops that stop at an error, association lists as Go maps, stable sorting with
    its interface \<open>slice_order\<close>, reachable states with the interface \<open>invariant_system\<close>, and the lemma
    collections. \<open>Go_Strings\<close>, \<open>Go_Errors\<close>, \<open>Go_Float\<close>, \<open>Go_Time\<close>, \<open>Go_Strconv\<close>: what the source uses
    of the standard library; \<open>Go_Slices\<close>: slices as references into shared arrays. \<open>float64\<close> is binary64 with rounding to nearest, durations and
    conversions wrap or saturate at 64 bits where the source can reach the boundary.
  \<^item> \<open>Cost_Domain\<close> (\<open>domain/identity\<close>, \<open>domain/cost\<close>), \<open>Domain_Records\<close> (budgets, accounts,
    commitments, anomalies, tag costs), \<open>Aggregate_Snapshot\<close> (\<open>domain/snapshot\<close>): records, orders,
    merge, series count, ownership and uniqueness checks. Merging conserves records and does not
    depend on the order of the parts. \<open>Snapshot_Heap\<close> repeats construction, accessors, visitors and
    merge on slices that callers keep and overwrite, and shows that snapshots are values.
  \<^item> \<open>Cardinality\<close> and \<open>Collectors\<close> (\<open>internal/collector/...\<close>, queries of \<open>internal/ports\<close>): limits with
    one overflow bucket, every collector, the registry. The interface \<open>ranking\<close> is what both
    limiters share; \<open>cost_source\<close> is what the cost collectors rely on.
  \<^item> \<open>Aws_Common\<close>, \<open>Cost_Explorer\<close>, \<open>Commitment_Reader\<close>, \<open>Account_Readers\<close>, \<open>Athena_Reader\<close>: error
    classes, limiters and backoff, and the readers. A read is complete or fails: pages are never
    dropped, limits are errors, an Athena query that was started and did not end is stopped, and
    names cannot escape the quotes of the SQL text. \<open>paged_reader\<close> is the interface of a paged
    loop; \<open>Cost_Explorer\<close> provides \<open>cost_source\<close> with the filtered reader of \<open>app/bootstrap.go\<close>.
  \<^item> \<open>Memory_Store\<close>: the cache with its interface \<open>snapshot_store\<close>. In every reachable state the
    visible snapshot is the specified merge of the retained parts, and a target's records come from
    that target's collectors only. \<open>Store_Concurrency\<close> runs the same operations as goroutines over a
    mutex, an atomic pointer and map objects, entry by entry: the calls and answers are those of the
    atomic operations (a refinement map onto a specification automaton), no map is written while it
    can be reached by others, and a reader never waits.
  \<^item> \<open>Scheduler\<close>: the goroutines of \<open>Run\<close> as program counters in one state, a step relation over
    every choice of \<open>select\<close> and timer, and the invariant behind the concurrency bounds, single
    flight, absence of deadlock and the refinement of the cache. It also has the one execution in
    which \<open>Run\<close> does not return.
  \<^item> \<open>Cost_Metrics\<close> and \<open>Exporter_Metrics\<close>: descriptions, scrapes and observations. A scrape never
    panics and never repeats a series; the event series are bounded; the refresh counters count
    what the scheduler did.
  \<^item> \<open>Http_Server\<close>: routing, method filter, readiness and draining.
  \<^item> \<open>Config_Validation\<close> and \<open>Loader\<close>: the schema, the defaults, the whole validation, and the loader
    with its registration of every field.
  \<^item> \<open>Client_Factory\<close> and \<open>Standalone_Client\<close>: credential sources, target clients, and the account
    verifier as interleaved calls of \<open>Verify\<close> on a shared state, with the invariants behind its
    soundness, its single flight and the spacing of its calls.
  \<^item> \<open>Logging\<close>, \<open>Bootstrap\<close>, \<open>Lifecycle\<close>, \<open>Command\<close>, \<open>Program\<close>: redaction and levels, the assembly of the process
    in the order of the source, start and stop, the command line, and the outcome of the whole program. Validation is shown to be
    sufficient for construction, constructor by constructor, and the configuration check to be
    sound for the start.
  \<^item> \<open>Pages_Tool\<close>: link rewriting and the safety of preparing a destination.

  \<^bold>\<open>Conventions.\<close> An operation that may fail returns a sum with the error on the left; a panic or a
  call that does not return is \<open>None\<close>. An SDK operation, a clock or a context is a function of an
  opaque world that the operation may change. Nil is \<open>None\<close>. A Go map is an association list; where
  the order of ranging matters, the lemma about it says so. Error texts keep their fixed part.

  \<^bold>\<open>Bounds.\<close> Page loops recurse on the configured page limit and need no fuel. The Athena poll has
  no static bound and runs on fuel; its termination theorem gives the number of rounds that suffice
  (query timeout over poll interval, and two more). \<open>RunServices\<close> waits at most the shutdown timeout.
  Retries end after the configured attempts, at most ten.

  \<^bold>\<open>Parameters.\<close> The AWS SDK, the Prometheus registry and handlers, \<open>pprof\<close>, the configuration and
  command line libraries, the hash function, the URL and IP parsers, the process environment, the
  file system of \<open>tools/pages\<close>, the network and the log output, the capacity \<open>append\<close> chooses, the random source and the rounding of out-of-range conversions.
  What a theorem needs of them is a named hypothesis: \<open>clock_laws\<close> (time passes while one waits),
  \<open>prometheus_laws\<close> (registration accepts new names).

  \<^bold>\<open>Not modelled.\<close> Connection handling of \<open>net/http\<close>, signal delivery, the text of help and version output, the arithmetic inside Prometheus vectors, token
  bucket timing of the rate limiters (only the order of the waits is), and the memory model below
  channels, mutexes and atomic pointers: steps of goroutines interleave, and the absence of data
  races in the cache is a theorem. In the scheduler and the verifier a critical section is one step.
  Interfaces without behaviour (\<open>internal/ports\<close>) appear as function arguments.
\<close>

end
